(* ===== verification/Prelude.thy ===== *)
theory Prelude
  imports Main "HOL-Library.Word" "HOL-Library.Monad_Syntax"
begin

text \<open>
  Shared ground of the development: the machine integers of the C and C++ sources, the
  little-endian image of an integer in memory (the hosts the program is built for are x86-64
  Linux, and every structure goes onto the wire as its memory image), bounded reads of a memory
  image, the interface of a fixed-size structure layout, and the fact collections of the proofs.

  An operation that can abort (a failed \<open>assert\<close>, \<open>exit(1)\<close>) or leave the bounds of an
  allocation (undefined behaviour) has an \<open>option\<close> result, with \<open>None\<close> for that case.
\<close>

unbundle bit_operations_syntax

named_theorems layout_simps \<open>encoders and decoders of the structure layouts\<close>
named_theorems const_defs \<open>numeric constants of the headers\<close>

type_synonym u8 = "8 word"
type_synonym u16 = "16 word"
type_synonym u32 = "32 word"
type_synonym u64 = "64 word"

definition le_bytes :: "nat \<Rightarrow> 'a::len word \<Rightarrow> u8 list" where
  "le_bytes k w = map (\<lambda>i. ucast (drop_bit (8 * i) w)) [0..<k]"

primrec le_word :: "u8 list \<Rightarrow> 'a::len word" where
  "le_word [] = 0"
| "le_word (b # bs) = ucast b OR push_bit 8 (le_word bs)"

lemma length_le_bytes [simp]: "length (le_bytes k w) = k"
  by (simp add: le_bytes_def)

lemma bit_le_word:
  "bit (le_word bs :: 'a::len word) n \<longleftrightarrow>
     n < LENGTH('a) \<and> n div 8 < length bs \<and> bit (bs ! (n div 8)) (n mod 8)"
proof (induction bs arbitrary: n)
  case Nil
  then show ?case by simp
next
  case (Cons b bs)
  show ?case
  proof (cases "n < 8")
    case True
    then show ?thesis
      by (auto simp: bit_simps dest: bit_imp_le_length)
  next
    case False
    then have "n div 8 = Suc ((n - 8) div 8)" "n mod 8 = (n - 8) mod 8"
      by (simp_all add: le_div_geq le_mod_geq)
    moreover have "\<not> bit b n"
      using False by (auto dest: bit_imp_le_length)
    ultimately show ?thesis
      using False by (auto simp: bit_simps Cons.IH dest: bit_imp_le_length)
  qed
qed

lemma le_word_le_bytes:
  assumes "LENGTH('a) \<le> 8 * k"
  shows "le_word (le_bytes k (w :: 'a::len word)) = w"
proof (rule bit_word_eqI)
  fix n
  assume n: "n < LENGTH('a)"
  then have "n div 8 < k" using assms by (simp add: less_mult_imp_div_less mult.commute)
  moreover have "8 * (n div 8) + n mod 8 = n" by simp
  ultimately show "bit (le_word (le_bytes k w) :: 'a word) n = bit w n"
    using n by (simp add: bit_le_word le_bytes_def bit_simps)
qed

lemma le_bytes_le_word:
  assumes "8 * length bs \<le> LENGTH('a)"
  shows "le_bytes (length bs) (le_word bs :: 'a::len word) = bs"
proof (rule nth_equalityI)
  show "length (le_bytes (length bs) (le_word bs :: 'a word)) = length bs" by simp
next
  fix i
  assume "i < length (le_bytes (length bs) (le_word bs :: 'a word))"
  then have i: "i < length bs" by simp
  show "le_bytes (length bs) (le_word bs :: 'a word) ! i = bs ! i"
  proof (rule bit_word_eqI)
    fix n
    assume n: "n < LENGTH(8)"
    then have n8: "n < 8" by simp
    have "8 * i + n < 8 * length bs" using i n8 by simp
    with assms have lt: "8 * i + n < LENGTH('a)" by linarith
    have "(8 * i + n) div 8 = i" "(8 * i + n) mod 8 = n"
      using n8 by simp_all
    then show "bit (le_bytes (length bs) (le_word bs :: 'a word) ! i) n = bit (bs ! i) n"
      using i n8 lt by (simp add: le_bytes_def bit_simps bit_le_word)
  qed
qed

text \<open>Words as natural numbers.\<close>

lemma unat_u8_less [simp]: "unat (w :: u8) < 256"
proof -
  have "unat w < 2 ^ LENGTH(8)" by (rule unsigned_less)
  then show ?thesis by simp
qed

lemma unat_u16_less [simp]: "unat (w :: u16) < 65536"
proof -
  have "unat w < 2 ^ LENGTH(16)" by (rule unsigned_less)
  then show ?thesis by simp
qed

lemma unat_u32_less [simp]: "unat (w :: u32) < 4294967296"
proof -
  have "unat w < 2 ^ LENGTH(32)" by (rule unsigned_less)
  then show ?thesis by simp
qed

lemma unat_u16_le [simp]: "unat (w :: u16) \<le> 65535"
  using unat_u16_less [of w] by linarith

lemma uint_u16_le: "uint (w :: u16) \<le> 65535"
  using uint_lt2p [of w] by simp

lemma unat_ucast_u16_u8: "unat (ucast (w :: u16) :: u8) = unat w mod 256"
  by (simp add: unsigned_ucast_eq unsigned_take_bit_eq take_bit_eq_mod)

lemma unat_ucast_u8_u16 [simp]: "unat (ucast (w :: u8) :: u16) = unat w"
  using less_trans [OF unat_u8_less [of w], of 65536]
  by (simp add: unsigned_ucast_eq take_bit_nat_eq_self)

lemma unat_ucast_eq_of_nat: "ucast (w :: u16) = (of_nat (unat w) :: u8)"
  by (simp add: word_unat_eq_iff unat_ucast_u16_u8 unat_of_nat)

text \<open>A field read at a byte offset; \<open>None\<close> when it would leave the allocation.\<close>

definition rd_le :: "nat \<Rightarrow> nat \<Rightarrow> u8 list \<Rightarrow> 'a::len word option" where
  "rd_le k off bs = (if off + k \<le> length bs then Some (le_word (take k (drop off bs))) else None)"

lemma rd_None_iff [simp]: "rd_le k off bs = None \<longleftrightarrow> length bs < off + k"
  by (auto simp: rd_le_def)

lemma rd_append_left: "off + k \<le> length bs \<Longrightarrow> rd_le k off (bs @ cs) = rd_le k off bs"
  by (simp add: rd_le_def)

lemma rd_append_right: "length bs \<le> off \<Longrightarrow> rd_le k off (bs @ cs) = rd_le k (off - length bs) cs"
  by (auto simp: rd_le_def)

lemma rd_le_bytes [simp]:
  "LENGTH('a) \<le> 8 * k \<Longrightarrow> rd_le k 0 (le_bytes k (w :: 'a::len word) @ cs) = Some w"
  by (simp add: rd_le_def le_word_le_bytes)

text \<open>Bytes of a word by arithmetic, which evaluates faster than by bits.\<close>

text \<open>Arithmetic on words truncates; for evaluation, a small number is left as it is.\<close>

lemma take_bit_small [code]:
  "take_bit n (k :: int) =
     (if 0 \<le> k \<and> (k < 256 \<and> 8 \<le> n \<or> k < 65536 \<and> 16 \<le> n
              \<or> k < 4294967296 \<and> 32 \<le> n)
      then k else k mod 2 ^ n)"
proof -
  have small: "k < 2 ^ n" if "k < 2 ^ m" "m \<le> n" for m
    using that(1) power_increasing [OF that(2), of "2 :: int"] by (simp add: less_le_trans)
  show ?thesis
    using small [of 8] small [of 16] small [of 32]
    by (auto simp: take_bit_eq_mod intro!: mod_pos_pos_trivial)
qed

text \<open>Bytes of a word by arithmetic, which evaluates faster than by bits.\<close>

lemma le_word_empty [code]: "le_word [] = 0"
  by simp

lemma le_word_by_sum [code]: "le_word (b # bs) = ucast b + 256 * (le_word bs :: 'a::len word)"
proof -
  have "ucast b + push_bit 8 (le_word bs :: 'a word) = ucast b OR push_bit 8 (le_word bs)"
    by (rule disjunctive_add) (auto simp: bit_simps dest: bit_imp_le_length)
  then show ?thesis by (simp add: push_bit_eq_mult mult.commute)
qed

text \<open>Continuations that evaluation does not enter before their argument is known.\<close>

lemma bind_by_cases [code_unfold]: "Option.bind m f = (case m of None \<Rightarrow> None | Some x \<Rightarrow> f x)"
  by (cases m) simp_all

lemma let_by_cases [code_unfold]: "Let x (case_prod f) = (case x of (a, b) \<Rightarrow> f a b)"
  by simp

text \<open>
  A buffer in memory, a byte for every offset: the bytes of a range, and a store. That an access
  stays inside the buffer's allocation is a check of the operations that make it.
\<close>

type_synonym buffer = "nat \<Rightarrow> u8"

definition slice :: "buffer \<Rightarrow> nat \<Rightarrow> nat \<Rightarrow> u8 list" where
  "slice b off n = map b [off..<off + n]"

definition buf_put :: "nat \<Rightarrow> u8 list \<Rightarrow> buffer \<Rightarrow> buffer" where
  "buf_put off bs b = (\<lambda>i. if off \<le> i \<and> i < off + length bs then bs ! (i - off) else b i)"

lemma length_slice [simp]: "length (slice b off n) = n"
  by (simp add: slice_def)

lemma slice_put_same [simp]: "n = length bs \<Longrightarrow> slice (buf_put off bs b) off n = bs"
  by (rule nth_equalityI) (simp_all add: slice_def buf_put_def)

lemma slice_put_other [simp]:
  "off + n \<le> p \<or> p + length bs \<le> off \<Longrightarrow> slice (buf_put p bs b) off n = slice b off n"
  by (rule nth_equalityI) (auto simp: slice_def buf_put_def)

lemma slice_take: "k \<le> n \<Longrightarrow> slice b off k = take k (slice b off n)"
  by (simp add: slice_def take_map)

lemma slice_cong: "(\<And>i. off \<le> i \<Longrightarrow> i < off + n \<Longrightarrow> b i = b' i) \<Longrightarrow> slice b off n = slice b' off n"
  by (simp add: slice_def)

text \<open>The position of an enumerator in its enumeration.\<close>

fun index_of :: "'a \<Rightarrow> 'a list \<Rightarrow> nat" where
  "index_of x [] = 0"
| "index_of x (y # ys) = (if x = y then 0 else Suc (index_of x ys))"

lemma index_of_less: "x \<in> set xs \<Longrightarrow> index_of x xs < length xs"
  by (induction xs) auto

lemma nth_index_of: "x \<in> set xs \<Longrightarrow> xs ! index_of x xs = x"
  by (induction xs) auto

lemma index_of_nth: "distinct xs \<Longrightarrow> i < length xs \<Longrightarrow> index_of (xs ! i) xs = i"
  by (induction xs arbitrary: i) (auto simp: nth_Cons split: nat.splits)

text \<open>
  The interface of a structure layout: \<open>enc\<close> is the memory image a structure is copied from,
  \<open>dec\<close> reads the structure back from the start of a buffer and fails when the buffer is
  shorter than the structure, \<open>sz\<close> is its \<open>sizeof\<close>.
\<close>

locale layout =
  fixes enc :: "'a \<Rightarrow> u8 list" and dec :: "u8 list \<Rightarrow> 'a option" and sz :: nat
  assumes length_enc: "length (enc x) = sz"
    and dec_enc: "dec (enc x @ rest) = Some x"
    and dec_short: "dec bs = None \<longleftrightarrow> length bs < sz"
begin

lemma enc_inject: "enc x = enc y \<longleftrightarrow> x = y"
proof
  assume "enc x = enc y"
  then have "dec (enc x @ []) = dec (enc y @ [])" by simp
  then show "x = y" unfolding dec_enc by simp
qed simp

lemma dec_enc_only: "dec (enc x) = Some x"
  using dec_enc [of x "[]"] by simp

lemma dec_defined: "sz \<le> length bs \<Longrightarrow> \<exists>x. dec bs = Some x"
  using dec_short [of bs] by (cases "dec bs") auto

end

end
