(* ===== verification/Packet.thy ===== *)
theory Packet
  imports Prelude
begin

text \<open>
  Mixnet packets: the addresses and constants of mixnet/address.h and mixnet/packet.h, the packed
  structures with their memory images, and the packet constructors of mixnet/packet_init.c.

  A packet in memory is a record of the header fields and the bytes allocated behind the header,
  which may be more than \<open>total_size\<close> says. The reserved field is \<open>None\<close> while it holds what
  \<open>malloc\<close> left there.
\<close>

type_synonym mixnet_address = u16

definition INVALID_MIXADDR :: mixnet_address where
  [const_defs]: "INVALID_MIXADDR = - 1"

datatype mixnet_packet_type_enum =
    PACKET_TYPE_STP
  | PACKET_TYPE_FLOOD
  | PACKET_TYPE_LSA
  | PACKET_TYPE_DATA
  | PACKET_TYPE_PING

fun packet_type_code :: "mixnet_packet_type_enum \<Rightarrow> u16" where
  "packet_type_code PACKET_TYPE_STP = 0"
| "packet_type_code PACKET_TYPE_FLOOD = 1"
| "packet_type_code PACKET_TYPE_LSA = 2"
| "packet_type_code PACKET_TYPE_DATA = 3"
| "packet_type_code PACKET_TYPE_PING = 4"

lemma packet_type_code_inject [simp]: "packet_type_code a = packet_type_code b \<longleftrightarrow> a = b"
  by (cases a; cases b) simp_all

section \<open>Structures\<close>

record mixnet_packet =
  total_size :: u16
  ptype :: u16
  reserved :: "u64 option"
  payload :: "u8 list"

record mixnet_packet_stp =
  root_address :: mixnet_address
  path_length :: u16
  node_address :: mixnet_address

record mixnet_lsa_link_params =
  neighbor_mixaddr :: mixnet_address
  link_cost :: u16

record mixnet_packet_lsa =
  lsa_node_address :: mixnet_address
  neighbor_count :: u16

record mixnet_packet_routing_header =
  src_address :: mixnet_address
  dst_address :: mixnet_address
  route_length :: u16
  hop_index :: u16

record mixnet_packet_ping =
  is_request :: bool
  ping_pad :: u8
  send_time :: u64

definition sizeof_mixnet_packet :: nat where
  [const_defs]: "sizeof_mixnet_packet = 12"

definition sizeof_stp :: nat where
  [const_defs]: "sizeof_stp = 6"

definition sizeof_link_params :: nat where
  [const_defs]: "sizeof_link_params = 4"

definition sizeof_lsa :: nat where
  [const_defs]: "sizeof_lsa = 4"

definition sizeof_routing_header :: nat where
  [const_defs]: "sizeof_routing_header = 8"

definition sizeof_ping :: nat where
  [const_defs]: "sizeof_ping = 10"

definition sizeof_mixnet_address :: nat where
  [const_defs]: "sizeof_mixnet_address = 2"

definition MIN_MIXNET_PACKET_SIZE :: u16 where
  [const_defs]: "MIN_MIXNET_PACKET_SIZE = of_nat sizeof_mixnet_packet"

definition MAX_MIXNET_PACKET_SIZE :: u16 where
  [const_defs]: "MAX_MIXNET_PACKET_SIZE = 4096"

definition MAX_MIXNET_ROUTE_LENGTH :: u16 where
  [const_defs]: "MAX_MIXNET_ROUTE_LENGTH = 256"

definition MAX_MIXNET_DATA_SIZE :: u16 where
  [const_defs]: "MAX_MIXNET_DATA_SIZE =
     of_int (int (unat MAX_MIXNET_PACKET_SIZE) - int sizeof_mixnet_packet
       - (int sizeof_routing_header
          + int sizeof_mixnet_address * int (unat MAX_MIXNET_ROUTE_LENGTH)))"

lemma MAX_MIXNET_DATA_SIZE_eq: "MAX_MIXNET_DATA_SIZE = 3564"
  by (simp add: const_defs)

section \<open>Memory images\<close>

definition enc_stp :: "mixnet_packet_stp \<Rightarrow> u8 list" where
  [layout_simps]: "enc_stp s =
     le_bytes 2 (root_address s) @ le_bytes 2 (path_length s) @ le_bytes 2 (node_address s)"

definition dec_stp :: "u8 list \<Rightarrow> mixnet_packet_stp option" where
  [layout_simps]: "dec_stp bs = do {
     r \<leftarrow> rd_le 2 0 bs;
     l \<leftarrow> rd_le 2 2 bs;
     n \<leftarrow> rd_le 2 4 bs;
     Some \<lparr>root_address = r, path_length = l, node_address = n\<rparr>
   }"

definition enc_lsa :: "mixnet_packet_lsa \<Rightarrow> u8 list" where
  [layout_simps]: "enc_lsa s = le_bytes 2 (lsa_node_address s) @ le_bytes 2 (neighbor_count s)"

definition dec_lsa :: "u8 list \<Rightarrow> mixnet_packet_lsa option" where
  [layout_simps]: "dec_lsa bs = do {
     a \<leftarrow> rd_le 2 0 bs;
     c \<leftarrow> rd_le 2 2 bs;
     Some \<lparr>lsa_node_address = a, neighbor_count = c\<rparr>
   }"

definition enc_routing_header :: "mixnet_packet_routing_header \<Rightarrow> u8 list" where
  [layout_simps]: "enc_routing_header h =
     le_bytes 2 (src_address h) @ le_bytes 2 (dst_address h)
     @ le_bytes 2 (route_length h) @ le_bytes 2 (hop_index h)"

definition dec_routing_header :: "u8 list \<Rightarrow> mixnet_packet_routing_header option" where
  [layout_simps]: "dec_routing_header bs = do {
     s \<leftarrow> rd_le 2 0 bs;
     d \<leftarrow> rd_le 2 2 bs;
     l \<leftarrow> rd_le 2 4 bs;
     i \<leftarrow> rd_le 2 6 bs;
     Some \<lparr>src_address = s, dst_address = d, route_length = l, hop_index = i\<rparr>
   }"

definition enc_link_params :: "mixnet_lsa_link_params \<Rightarrow> u8 list" where
  [layout_simps]: "enc_link_params s = le_bytes 2 (neighbor_mixaddr s) @ le_bytes 2 (link_cost s)"

definition dec_link_params :: "u8 list \<Rightarrow> mixnet_lsa_link_params option" where
  [layout_simps]: "dec_link_params bs = do {
     a \<leftarrow> rd_le 2 0 bs;
     c \<leftarrow> rd_le 2 2 bs;
     Some \<lparr>neighbor_mixaddr = a, link_cost = c\<rparr>
   }"

definition enc_ping :: "mixnet_packet_ping \<Rightarrow> u8 list" where
  [layout_simps]: "enc_ping s =
     [of_bool (is_request s), ping_pad s] @ le_bytes 8 (send_time s)"

definition dec_ping :: "u8 list \<Rightarrow> mixnet_packet_ping option" where
  [layout_simps]: "dec_ping bs = (case bs of
       r # p # ts \<Rightarrow> do {
         t \<leftarrow> rd_le 8 0 ts;
         Some \<lparr>is_request = (r \<noteq> 0), ping_pad = p, send_time = t\<rparr>
       }
     | _ \<Rightarrow> None)"

interpretation stp_layout: layout enc_stp dec_stp sizeof_stp
  by unfold_locales
    (auto simp: layout_simps const_defs rd_append_right bind_eq_None_conv split: option.splits)

interpretation lsa_layout: layout enc_lsa dec_lsa sizeof_lsa
  by unfold_locales
    (auto simp: layout_simps const_defs rd_append_right bind_eq_None_conv split: option.splits)

interpretation rh_layout: layout enc_routing_header dec_routing_header sizeof_routing_header
  by unfold_locales
    (auto simp: layout_simps const_defs rd_append_right bind_eq_None_conv split: option.splits)

interpretation link_params_layout: layout enc_link_params dec_link_params sizeof_link_params
  by unfold_locales
    (auto simp: layout_simps const_defs rd_append_right bind_eq_None_conv split: option.splits)

interpretation ping_layout: layout enc_ping dec_ping sizeof_ping
  by unfold_locales
    (auto simp: layout_simps const_defs bind_eq_None_conv split: option.splits list.splits)

section \<open>A packet as bytes\<close>

text \<open>
  The header of a packet whose reserved field is \<open>r\<close>, the first \<open>total_size\<close> bytes of the
  packet's memory (\<open>None\<close> when that reads the uninitialised reserved field or leaves the
  allocation), and the packet whose memory is a given image, the header first.
\<close>

definition header_bytes :: "u16 \<Rightarrow> u16 \<Rightarrow> u64 \<Rightarrow> u8 list" where
  "header_bytes ts ty r = le_bytes 2 ts @ le_bytes 2 ty @ le_bytes 8 r"

definition packet_bytes :: "mixnet_packet \<Rightarrow> u8 list option" where
  "packet_bytes p = do {
     r \<leftarrow> reserved p;
     let bs = header_bytes (total_size p) (ptype p) r @ payload p;
     if unat (total_size p) \<le> length bs then Some (take (unat (total_size p)) bs) else None
   }"

definition packet_of_bytes :: "u8 list \<Rightarrow> mixnet_packet option" where
  "packet_of_bytes bs = do {
     ts \<leftarrow> rd_le 2 0 bs;
     ty \<leftarrow> rd_le 2 2 bs;
     r \<leftarrow> rd_le 8 4 bs;
     Some \<lparr>total_size = ts, ptype = ty, reserved = Some r, payload = drop sizeof_mixnet_packet bs\<rparr>
   }"

lemma length_header_bytes [simp]: "length (header_bytes ts ty r) = sizeof_mixnet_packet"
  by (simp add: header_bytes_def const_defs)

lemma packet_bytes_Some:
  "packet_bytes p = Some bs \<Longrightarrow> length bs = unat (total_size p)"
  by (auto simp: packet_bytes_def Let_def bind_eq_Some_conv split: if_splits)

lemma packet_of_packet_bytes:
  assumes "packet_bytes p = Some bs" and "sizeof_mixnet_packet \<le> unat (total_size p)"
  shows "packet_of_bytes bs =
    Some (p\<lparr>payload := take (unat (total_size p) - sizeof_mixnet_packet) (payload p)\<rparr>)"
proof -
  let ?n = "unat (total_size p)"
  from assms(1) obtain r where r: "reserved p = Some r"
    and bs: "bs = take ?n (header_bytes (total_size p) (ptype p) r @ payload p)"
    by (auto simp: packet_bytes_def Let_def bind_eq_Some_conv split: if_splits)
  have "bs = header_bytes (total_size p) (ptype p) r
      @ take (?n - sizeof_mixnet_packet) (payload p)"
    using assms(2) unfolding bs by simp
  then show ?thesis
    using r by (simp add: packet_of_bytes_def header_bytes_def rd_append_right const_defs)
qed

section \<open>Packet constructors (packet_init.c)\<close>

text \<open>
  Each constructor allocates the packet and a scratch payload, and exits the process
  (\<open>None\<close>) when either \<open>malloc\<close> fails; \<open>m1\<close> and \<open>m2\<close> say whether they succeed.
  The payload is copied behind the header of the packet, whose allocation is 18 bytes.
\<close>

definition stp_packet :: "mixnet_address \<Rightarrow> u16 \<Rightarrow> mixnet_address \<Rightarrow> mixnet_packet" where
  "stp_packet root plen addr =
     \<lparr>total_size = 18, ptype = packet_type_code PACKET_TYPE_STP, reserved = None,
      payload = enc_stp \<lparr>root_address = root, path_length = plen, node_address = addr\<rparr>\<rparr>"

definition flood_packet :: "mixnet_address \<Rightarrow> u16 \<Rightarrow> mixnet_address \<Rightarrow> mixnet_packet" where
  "flood_packet root plen addr =
     \<lparr>total_size = 12, ptype = packet_type_code PACKET_TYPE_FLOOD, reserved = None,
      payload = enc_stp \<lparr>root_address = root, path_length = plen, node_address = addr\<rparr>\<rparr>"

definition initialize_STP_packet ::
  "bool \<Rightarrow> bool \<Rightarrow> mixnet_address \<Rightarrow> u16 \<Rightarrow> mixnet_address \<Rightarrow> mixnet_packet option" where
  "initialize_STP_packet m1 m2 root plen addr =
     (if \<not> m1 then None else if \<not> m2 then None else Some (stp_packet root plen addr))"

definition initialize_FLOOD_packet ::
  "bool \<Rightarrow> bool \<Rightarrow> mixnet_address \<Rightarrow> u16 \<Rightarrow> mixnet_address \<Rightarrow> mixnet_packet option" where
  "initialize_FLOOD_packet m1 m2 root plen addr =
     (if \<not> m1 then None else if \<not> m2 then None else Some (flood_packet root plen addr))"

lemma stp_packet_simps [simp]:
  "total_size (stp_packet r l a) = 18"
  "ptype (stp_packet r l a) = packet_type_code PACKET_TYPE_STP"
  "reserved (stp_packet r l a) = None"
  "payload (stp_packet r l a) = enc_stp \<lparr>root_address = r, path_length = l, node_address = a\<rparr>"
  by (simp_all add: stp_packet_def)

lemma flood_packet_simps [simp]:
  "total_size (flood_packet r l a) = 12"
  "ptype (flood_packet r l a) = packet_type_code PACKET_TYPE_FLOOD"
  "reserved (flood_packet r l a) = None"
  "payload (flood_packet r l a) = enc_stp \<lparr>root_address = r, path_length = l, node_address = a\<rparr>"
  by (simp_all add: flood_packet_def)

section \<open>Properties\<close>

text \<open>
  The bytes of a packet, read back as a packet, give the packet: the same header fields and
  the payload up to \<open>total_size\<close>.
\<close>

theorem packet_wire_roundtrip:
  assumes "packet_bytes p = Some bs" and "sizeof_mixnet_packet \<le> unat (total_size p)"
  shows "length bs = unat (total_size p) \<and> packet_of_bytes bs =
    Some (p\<lparr>payload := take (unat (total_size p) - sizeof_mixnet_packet) (payload p)\<rparr>)"
  using packet_bytes_Some [OF assms(1)] packet_of_packet_bytes [OF assms] by simp

theorem packet_wire_roundtrip_witness:
  "let p = (stp_packet 3 1 5)\<lparr>reserved := Some 0\<rparr>; bs = the (packet_bytes p)
   in length bs = unat (total_size p) \<and> packet_of_bytes bs =
      Some (p\<lparr>payload := take (unat (total_size p) - sizeof_mixnet_packet) (payload p)\<rparr>)"
proof -
  let ?p = "(stp_packet 3 1 5)\<lparr>reserved := Some 0\<rparr>"
  have "packet_bytes ?p \<noteq> None" by code_simp
  then have "packet_bytes ?p = Some (the (packet_bytes ?p))" by simp
  from packet_wire_roundtrip [OF this] show ?thesis unfolding Let_def by (simp add: const_defs)
qed

text \<open>
  An STP payload written behind the header is read back as it was written, whatever follows
  it, and a payload shorter than the structure is the only one that cannot be read.
\<close>

theorem stp_payload_roundtrip:
  "dec_stp (enc_stp u @ rest) = Some u \<and> length (enc_stp u) = sizeof_stp
    \<and> (dec_stp bs = None \<longleftrightarrow> length bs < sizeof_stp)"
  using stp_layout.dec_enc stp_layout.length_enc stp_layout.dec_short by blast

end
