(* ===== verification/Config.thy ===== *)
theory Config
  imports Packet
begin

text \<open>The configuration of a node (mixnet/config.h), with its default values.\<close>

definition DEFAULT_ROOT_HELLO_INTERVAL_MS :: u32 where
  [const_defs]: "DEFAULT_ROOT_HELLO_INTERVAL_MS = 2000"

definition DEFAULT_REELECTION_INTERVAL_MS :: u32 where
  [const_defs]: "DEFAULT_REELECTION_INTERVAL_MS = 20000"

record mixnet_node_config =
  node_addr :: mixnet_address
  cfg_num_neighbors :: u16
  root_hello_interval_ms :: u32
  reelection_interval_ms :: u32
  do_random_routing :: bool
  mixing_factor :: u16
  link_costs :: "u16 list"

definition default_node_config :: mixnet_node_config where
  "default_node_config =
     \<lparr>node_addr = INVALID_MIXADDR, cfg_num_neighbors = 0,
      root_hello_interval_ms = DEFAULT_ROOT_HELLO_INTERVAL_MS,
      reelection_interval_ms = DEFAULT_REELECTION_INTERVAL_MS,
      do_random_routing = False, mixing_factor = 1, link_costs = []\<rparr>"

end
