(* ===== verification/StpOrder.thy ===== *)
theory StpOrder
  imports Packet
begin

text \<open>
  The specification of route preference in the spanning-tree protocol. A node's route is the
  triple (root, length of the path to the root, next hop towards it), and routes are ordered
  lexicographically: a smaller root address is better, then a shorter path, then a smaller
  next-hop address. A neighbour's announcement is an offer of the route through that neighbour.
\<close>

datatype route = Route (route_root: mixnet_address) (route_len: int) (route_hop: mixnet_address)

instantiation route :: linorder
begin

definition less_route :: "route \<Rightarrow> route \<Rightarrow> bool" where
  "less_route a b \<longleftrightarrow>
     route_root a < route_root b
     \<or> route_root a = route_root b
        \<and> (route_len a < route_len b
           \<or> route_len a = route_len b \<and> route_hop a < route_hop b)"

definition less_eq_route :: "route \<Rightarrow> route \<Rightarrow> bool" where
  "less_eq_route a b \<longleftrightarrow> a = b \<or> a < b"

instance
  by standard (auto simp: less_route_def less_eq_route_def intro: route.expand)

end

definition offer :: "mixnet_packet_stp \<Rightarrow> route" where
  "offer u = Route (root_address u) (uint (path_length u) + 1) (node_address u)"

lemma Route_less_iff [simp]:
  "Route r l h < Route r' l' h' \<longleftrightarrow> r < r' \<or> r = r' \<and> (l < l' \<or> l = l' \<and> h < h')"
  by (simp add: less_route_def)

end
