(* ===== verification/Node.thy ===== *)
theory Node
  imports Config StpOrder
begin

text \<open>
  The spanning-tree node (mixnet/node.c): its state, the STP and FLOOD senders, the STP handler
  and the main loop.

  A call of \<open>mixnet_send\<close> is an element of the list of sends an operation returns, in call
  order: node.c ignores the result of every call. The clock is a function from the number of the
  reading to the value \<open>clock_gettime\<close> stores, and the loop state counts the readings. An
  operation returns \<open>None\<close> where the C code reads or writes outside an array.
\<close>

section \<open>State\<close>

record node =
  num_neighbors :: u8
  neighbors_addy :: "16 word list" \<comment> \<open>\<open>int16_t\<close>: \<open>- 1\<close> while the neighbour is unknown\<close>
  neighbors_blocked :: "bool list"
  root_addr :: mixnet_address
  my_addr :: mixnet_address
  next_hop :: mixnet_address
  path_len :: int \<comment> \<open>C \<open>int\<close>, always between 0 and 65536\<close>

type_synonym sends = "(u8 \<times> mixnet_packet) list"

record timespec =
  tv_sec :: int
  tv_nsec :: int

definition get_time_in_ms :: "timespec \<Rightarrow> u32" where
  "get_time_in_ms t = word_of_int (tv_sec t * 1000 + tv_nsec t div 1000000)"

section \<open>Sending\<close>

definition node_stp_packet :: "node \<Rightarrow> mixnet_packet" where
  "node_stp_packet n = stp_packet (root_addr n) (word_of_int (path_len n)) (my_addr n)"

definition node_flood_packet :: "node \<Rightarrow> mixnet_packet" where
  "node_flood_packet n = flood_packet (root_addr n) (word_of_int (path_len n)) (my_addr n)"

definition send_STP :: "node \<Rightarrow> sends" where
  "send_STP n = map (\<lambda>i. (of_nat i, node_stp_packet n)) [0..<unat (num_neighbors n)]"

definition send_FLOOD :: "node \<Rightarrow> u16 \<Rightarrow> sends option" where
  "send_FLOOD n sender_port =
     (if unat (num_neighbors n) \<le> length (neighbors_blocked n)
      then Some
        (map (\<lambda>i. (of_nat i, node_flood_packet n))
           (filter (\<lambda>i. \<not> neighbors_blocked n ! i \<and> i \<noteq> unat sender_port)
              [0..<unat (num_neighbors n)])
         @ (if unat sender_port \<noteq> unat (num_neighbors n)
            then [(num_neighbors n, node_flood_packet n)] else []))
      else None)"

section \<open>The STP handler\<close>

text \<open>The three improvements of \<open>receive_STP\<close>, and whether one applied.\<close>

definition improve_route :: "node \<Rightarrow> mixnet_packet_stp \<Rightarrow> node \<times> bool" where
  "improve_route n u =
     (if root_address u < root_addr n
      then (n\<lparr>root_addr := root_address u, path_len := uint (path_length u) + 1,
              next_hop := node_address u\<rparr>, True)
      else if root_address u = root_addr n \<and> uint (path_length u) + 1 < path_len n
      then (n\<lparr>path_len := uint (path_length u) + 1, next_hop := node_address u\<rparr>, True)
      else if root_address u = root_addr n \<and> uint (path_length u) + 1 = path_len n
              \<and> node_address u < next_hop n
      then (n\<lparr>next_hop := node_address u\<rparr>, True)
      else (n, False))"

definition block_all :: "node \<Rightarrow> node" where
  "block_all n = n\<lparr>neighbors_blocked :=
     replicate (unat (num_neighbors n)) True @ drop (unat (num_neighbors n)) (neighbors_blocked n)\<rparr>"

definition port_blocked_after :: "node \<Rightarrow> mixnet_packet_stp \<Rightarrow> bool" where
  "port_blocked_after n u =
     (if node_address u = next_hop n then False
      else if root_address u = root_addr n \<and> uint (path_length u) = path_len n + 1 then False
      else True)"

definition receive_STP :: "node \<Rightarrow> u8 \<Rightarrow> mixnet_packet \<Rightarrow> (node \<times> sends) option" where
  "receive_STP n port stp = do {
     u \<leftarrow> dec_stp (payload stp);
     if unat port < length (neighbors_addy n) \<and> unat port < length (neighbors_blocked n)
        \<and> unat (num_neighbors n) \<le> length (neighbors_blocked n)
     then if neighbors_addy n ! unat port = - 1
       then Some (n\<lparr>neighbors_addy := (neighbors_addy n)[unat port := node_address u],
                    neighbors_blocked := (neighbors_blocked n)[unat port := False]\<rparr>, [])
       else
         let (n1, state_changed) = improve_route n u;
             out = (if state_changed then send_STP n1 else []);
             n2 = (if state_changed then block_all n1 else n1)
         in Some (n2\<lparr>neighbors_blocked :=
                       (neighbors_blocked n2)[unat port := port_blocked_after n2 u]\<rparr>, out)
     else None
   }"

section \<open>The main loop\<close>

record node_loop =
  nd :: node
  re_election_time :: u32
  heartbeat_time :: u32
  num_user_packets :: u16
  readings :: nat

type_synonym clock = "nat \<Rightarrow> timespec"

definition read_clock :: "clock \<Rightarrow> node_loop \<Rightarrow> u32 \<times> node_loop" where
  "read_clock clk s = (get_time_in_ms (clk (readings s)), s\<lparr>readings := Suc (readings s)\<rparr>)"

definition node_init :: "mixnet_node_config \<Rightarrow> node" where
  "node_init c =
     \<lparr>num_neighbors = ucast (cfg_num_neighbors c),
      neighbors_addy = replicate (unat (cfg_num_neighbors c)) (- 1),
      neighbors_blocked = replicate (unat (cfg_num_neighbors c)) True,
      root_addr = node_addr c, my_addr = node_addr c, next_hop = node_addr c, path_len = 0\<rparr>"

definition loop_init :: "mixnet_node_config \<Rightarrow> clock \<Rightarrow> node_loop \<times> sends" where
  "loop_init c clk =
     (let n = node_init c;
          s0 = \<lparr>nd = n, re_election_time = 0, heartbeat_time = 0, num_user_packets = 0,
                readings = 0\<rparr>;
          (t0, s1) = read_clock clk s0;
          (t1, s2) = read_clock clk s1
      in (s2\<lparr>re_election_time := t0, heartbeat_time := t1\<rparr>, send_STP n))"

text \<open>The root's hello: the clock is read only when the node believes it is the root.\<close>

definition hello_step :: "mixnet_node_config \<Rightarrow> clock \<Rightarrow> node_loop \<Rightarrow> node_loop \<times> sends" where
  "hello_step c clk s =
     (if root_addr (nd s) = my_addr (nd s)
      then let (t, s1) = read_clock clk s
        in if t - heartbeat_time s1 \<ge> root_hello_interval_ms c
           then let (th, s2) = read_clock clk s1;
                    (tr, s3) = read_clock clk s2
             in (s3\<lparr>heartbeat_time := th, re_election_time := tr\<rparr>, send_STP (nd s))
           else (s1, [])
      else (s, []))"

definition reelection_step :: "mixnet_node_config \<Rightarrow> clock \<Rightarrow> node_loop \<Rightarrow> node_loop \<times> sends" where
  "reelection_step c clk s =
     (if root_addr (nd s) \<noteq> my_addr (nd s)
      then let (t, s1) = read_clock clk s
        in if t - re_election_time s1 \<ge> reelection_interval_ms c
           then let n = (nd s)\<lparr>root_addr := my_addr (nd s), path_len := 0,
                               next_hop := my_addr (nd s)\<rparr>;
                    (tr, s2) = read_clock clk s1
             in (s2\<lparr>nd := n, re_election_time := tr\<rparr>, send_STP n)
           else (s1, [])
      else (s, []))"

text \<open>
  The body of \<open>if (recv)\<close>. The source copies six payload bytes into \<open>update\<close> for every packet;
  the copy is used for STP packets only, so a shorter payload matters to the result only there.
\<close>

definition copy_in_bounds :: "mixnet_packet \<Rightarrow> bool" where
  "copy_in_bounds pkt \<longleftrightarrow> sizeof_stp \<le> length (payload pkt)"

definition packet_step ::
  "clock \<Rightarrow> u8 \<Rightarrow> mixnet_packet \<Rightarrow> node_loop \<Rightarrow> (node_loop \<times> sends) option" where
  "packet_step clk port pkt s =
     (if ptype pkt = packet_type_code PACKET_TYPE_STP
      then do {
        u \<leftarrow> dec_stp (payload pkt);
        if root_address u = root_addr (nd s) \<and> uint (path_length u) + 1 = path_len (nd s)
           \<and> node_address u = next_hop (nd s)
        then let (tr, s1) = read_clock clk s
          in Some (s1\<lparr>re_election_time := tr\<rparr>, send_STP (nd s))
        else do {
          (n, out) \<leftarrow> receive_STP (nd s) port pkt;
          Some (s\<lparr>nd := n\<rparr>, out)
        }
      }
      else if ptype pkt = packet_type_code PACKET_TYPE_FLOOD
      then if port = num_neighbors (nd s)
        then do {
          out \<leftarrow> send_FLOOD (nd s) (ucast port);
          Some (s\<lparr>num_user_packets := num_user_packets s + 1\<rparr>, out)
        }
        else if unat port < length (neighbors_blocked (nd s))
        then if \<not> neighbors_blocked (nd s) ! unat port
          then do {
            out \<leftarrow> send_FLOOD (nd s) (ucast port);
            Some (s, out)
          }
          else Some (s, [])
        else None
      else Some (s, []))"

definition loop_body ::
  "mixnet_node_config \<Rightarrow> clock \<Rightarrow> (u8 \<times> mixnet_packet) option \<Rightarrow> node_loop
    \<Rightarrow> (node_loop \<times> sends) option" where
  "loop_body c clk recv s =
     (let (s1, o1) = hello_step c clk s;
          (s2, o2) = reelection_step c clk s1
      in case recv of
           None \<Rightarrow> Some (s2, o1 @ o2)
         | Some (port, pkt) \<Rightarrow> do {
             (s3, o3) \<leftarrow> packet_step clk port pkt s2;
             Some (s3, o1 @ o2 @ o3)
           })"

text \<open>One element of the list per iteration of the loop: what \<open>mixnet_recv\<close> delivered.\<close>

fun run_loop ::
  "mixnet_node_config \<Rightarrow> clock \<Rightarrow> (u8 \<times> mixnet_packet) option list \<Rightarrow> node_loop
    \<Rightarrow> (node_loop \<times> sends) option" where
  "run_loop c clk [] s = Some (s, [])"
| "run_loop c clk (r # rs) s = do {
     (s1, o1) \<leftarrow> loop_body c clk r s;
     (s2, o2) \<leftarrow> run_loop c clk rs s1;
     Some (s2, o1 @ o2)
   }"

definition run_node ::
  "mixnet_node_config \<Rightarrow> clock \<Rightarrow> (u8 \<times> mixnet_packet) option list
    \<Rightarrow> (node_loop \<times> sends) option" where
  "run_node c clk rs = do {
     let (s, o0) = loop_init c clk;
     (s', os) \<leftarrow> run_loop c clk rs s;
     Some (s', o0 @ os)
   }"

section \<open>The route a node holds\<close>

definition node_route :: "node \<Rightarrow> route" where
  "node_route n = Route (root_addr n) (path_len n) (next_hop n)"

lemma improve_route_eq:
  "improve_route n u =
     (if offer u < node_route n
      then (n\<lparr>root_addr := root_address u, path_len := uint (path_length u) + 1,
              next_hop := node_address u\<rparr>, True)
      else (n, False))"
  by (auto simp: improve_route_def offer_def node_route_def)

lemma block_all_simps [simp]:
  "num_neighbors (block_all n) = num_neighbors n"
  "neighbors_addy (block_all n) = neighbors_addy n"
  "root_addr (block_all n) = root_addr n"
  "my_addr (block_all n) = my_addr n"
  "next_hop (block_all n) = next_hop n"
  "path_len (block_all n) = path_len n"
  "length (neighbors_blocked (block_all n)) =
     max (unat (num_neighbors n)) (length (neighbors_blocked n))"
  by (auto simp: block_all_def)

lemma nth_block_all:
  "i < length (neighbors_blocked n) \<Longrightarrow>
     neighbors_blocked (block_all n) ! i = (i < unat (num_neighbors n) \<or> neighbors_blocked n ! i)"
  by (auto simp: block_all_def nth_append)

lemma send_STP_blocked_irrelevant [simp]:
  "send_STP (n\<lparr>neighbors_blocked := b\<rparr>) = send_STP n"
  by (simp add: send_STP_def node_stp_packet_def)

lemma send_STP_block_all [simp]: "send_STP (block_all n) = send_STP n"
  by (simp add: block_all_def)

lemma node_route_blocked_irrelevant [simp]:
  "node_route (n\<lparr>neighbors_blocked := b\<rparr>) = node_route n"
  "node_route (n\<lparr>neighbors_addy := a\<rparr>) = node_route n"
  "node_route (block_all n) = node_route n"
  by (simp_all add: node_route_def)

lemma node_route_improved [simp]:
  "node_route (n\<lparr>root_addr := root_address u, path_len := uint (path_length u) + 1,
                next_hop := node_address u\<rparr>) = offer u"
  by (simp add: node_route_def offer_def)

text \<open>The two ways through \<open>receive_STP\<close>: a new neighbour, and a known one.\<close>

lemma receive_STP_cases [consumes 1, case_names new known]:
  assumes "receive_STP n port stp = Some (n', out)"
  obtains (new) u where "dec_stp (payload stp) = Some u"
      "unat port < length (neighbors_addy n)" "unat port < length (neighbors_blocked n)"
      "neighbors_addy n ! unat port = - 1" "out = []"
      "n' = n\<lparr>neighbors_addy := (neighbors_addy n)[unat port := node_address u],
              neighbors_blocked := (neighbors_blocked n)[unat port := False]\<rparr>"
  | (known) u n2 where "dec_stp (payload stp) = Some u"
      "unat port < length (neighbors_addy n)" "unat port < length (neighbors_blocked n)"
      "unat (num_neighbors n) \<le> length (neighbors_blocked n)"
      "neighbors_addy n ! unat port \<noteq> - 1"
      "n2 = (if offer u < node_route n
             then block_all (n\<lparr>root_addr := root_address u, path_len := uint (path_length u) + 1,
                                next_hop := node_address u\<rparr>)
             else n)"
      "n' = n2\<lparr>neighbors_blocked := (neighbors_blocked n2)[unat port := port_blocked_after n2 u]\<rparr>"
      "out = (if offer u < node_route n then send_STP n' else [])"
proof -
  from assms obtain u where u: "dec_stp (payload stp) = Some u"
    and bounds: "unat port < length (neighbors_addy n)" "unat port < length (neighbors_blocked n)"
      "unat (num_neighbors n) \<le> length (neighbors_blocked n)"
    by (auto simp: receive_STP_def bind_eq_Some_conv split: if_splits)
  show thesis
  proof (cases "neighbors_addy n ! unat port = - 1")
    case True
    with assms u bounds show thesis
      by (intro new [of u]) (simp_all add: receive_STP_def)
  next
    case False
    with assms u bounds show thesis
      by (intro known [of u, OF _ _ _ _ _ refl])
        (auto simp: receive_STP_def improve_route_eq Let_def)
  qed
qed

lemma receive_STP_known_route:
  assumes recv: "receive_STP n port stp = Some (n', out)"
    and u: "dec_stp (payload stp) = Some u" and known: "neighbors_addy n ! unat port \<noteq> - 1"
  shows "node_route n' = min (node_route n) (offer u)
    \<and> out = (if offer u < node_route n then send_STP n' else [])"
  using recv
proof (cases rule: receive_STP_cases)
  case (new u')
  with known show ?thesis by simp
next
  case (known u' n2)
  with u have "u' = u" by simp
  have "node_route n' = node_route n2" using known by simp
  also have "\<dots> = min (node_route n) (offer u)"
    using known(6) \<open>u' = u\<close> by (auto simp: min_def)
  finally show ?thesis using known \<open>u' = u\<close> by simp
qed

lemma receive_STP_blocked:
  assumes recv: "receive_STP n port stp = Some (n', out)"
    and u: "dec_stp (payload stp) = Some u" and known: "neighbors_addy n ! unat port \<noteq> - 1"
    and q: "q < length (neighbors_blocked n)"
  shows "neighbors_blocked n' ! q =
    (if q = unat port
     then \<not> (node_address u = next_hop n'
             \<or> root_address u = root_addr n' \<and> uint (path_length u) = path_len n' + 1)
     else offer u < node_route n \<and> q < unat (num_neighbors n) \<or> neighbors_blocked n ! q)"
  using recv
proof (cases rule: receive_STP_cases)
  case (new u')
  with known show ?thesis by simp
next
  case (known u' n2)
  with u have u': "u' = u" by simp
  have len: "length (neighbors_blocked n2) = length (neighbors_blocked n)"
    using known(4,6) by auto
  have n2: "next_hop n' = next_hop n2" "root_addr n' = root_addr n2" "path_len n' = path_len n2"
    using known(7) by simp_all
  show ?thesis
  proof (cases "q = unat port")
    case True
    then show ?thesis
      using known(7) u' len q by (simp add: n2 port_blocked_after_def)
  next
    case False
    then have "neighbors_blocked n' ! q = neighbors_blocked n2 ! q"
      using known(7) by simp
    also have "\<dots> = (offer u < node_route n \<and> q < unat (num_neighbors n)
        \<or> neighbors_blocked n ! q)"
      using known(6) u' q by (simp add: nth_block_all)
    finally show ?thesis using False by simp
  qed
qed

section \<open>Well-formed states\<close>

definition node_wf :: "mixnet_node_config \<Rightarrow> node \<Rightarrow> bool" where
  "node_wf c n \<longleftrightarrow>
     my_addr n = node_addr c \<and> num_neighbors n = ucast (cfg_num_neighbors c)
     \<and> length (neighbors_addy n) = unat (cfg_num_neighbors c)
     \<and> length (neighbors_blocked n) = unat (cfg_num_neighbors c)
     \<and> root_addr n \<le> my_addr n \<and> 0 \<le> path_len n \<and> path_len n \<le> 65536
     \<and> (root_addr n = my_addr n \<longrightarrow> path_len n = 0 \<and> next_hop n = my_addr n)
     \<and> (root_addr n < my_addr n \<longrightarrow> 1 \<le> path_len n)"

lemma node_wf_num_le: "node_wf c n \<Longrightarrow> unat (num_neighbors n) \<le> unat (cfg_num_neighbors c)"
  by (simp add: node_wf_def unat_ucast_u16_u8)

lemma node_wf_init: "node_wf c (node_init c)"
  by (simp add: node_wf_def node_init_def)

lemma node_wf_receive_STP:
  assumes recv: "receive_STP n port stp = Some (n', out)" and wf: "node_wf c n"
  shows "node_wf c n'"
  using recv
proof (cases rule: receive_STP_cases)
  case (new u)
  with wf show ?thesis by (auto simp: node_wf_def)
next
  case (known u n2)
  have "node_wf c n2"
  proof (cases "offer u < node_route n")
    case True
    with known(6) have n2: "n2 = block_all (n\<lparr>root_addr := root_address u,
        path_len := uint (path_length u) + 1, next_hop := node_address u\<rparr>)" by simp
    have "root_address u < root_addr n
        \<or> root_address u = root_addr n \<and> uint (path_length u) + 1 \<le> path_len n"
      using True by (auto simp: offer_def node_route_def)
    moreover have "1 \<le> uint (path_length u) + 1" by simp
    ultimately have "root_address u < root_addr n \<or> root_address u = root_addr n \<and> 1 \<le> path_len n"
      by (metis order_trans)
    then have "root_address u < my_addr n" using wf by (auto simp: node_wf_def)
    then show ?thesis
      using wf uint_u16_le [of "path_length u"] node_wf_num_le [OF wf]
      by (auto simp: n2 node_wf_def)
  next
    case False
    with known wf show ?thesis by simp
  qed
  then show ?thesis using known(7) by (auto simp: node_wf_def)
qed

section \<open>The steps of the loop\<close>

lemma read_clock_nd [simp]:
  "nd (snd (read_clock clk s)) = nd s"
  "heartbeat_time (snd (read_clock clk s)) = heartbeat_time s"
  "re_election_time (snd (read_clock clk s)) = re_election_time s"
  by (simp_all add: read_clock_def)

lemma hello_step_eq:
  "hello_step c clk s =
     (if root_addr (nd s) \<noteq> my_addr (nd s) then (s, [])
      else if get_time_in_ms (clk (readings s)) - heartbeat_time s < root_hello_interval_ms c
      then (s\<lparr>readings := readings s + 1\<rparr>, [])
      else (s\<lparr>readings := readings s + 3,
              heartbeat_time := get_time_in_ms (clk (readings s + 1)),
              re_election_time := get_time_in_ms (clk (readings s + 2))\<rparr>, send_STP (nd s)))"
  by (auto simp: hello_step_def read_clock_def Let_def not_less)

definition stand_for_root :: "node \<Rightarrow> node" where
  "stand_for_root n = n\<lparr>root_addr := my_addr n, path_len := 0, next_hop := my_addr n\<rparr>"

lemma reelection_step_eq:
  "reelection_step c clk s =
     (if root_addr (nd s) = my_addr (nd s) then (s, [])
      else if get_time_in_ms (clk (readings s)) - re_election_time s < reelection_interval_ms c
      then (s\<lparr>readings := readings s + 1\<rparr>, [])
      else (s\<lparr>nd := stand_for_root (nd s), readings := readings s + 2,
              re_election_time := get_time_in_ms (clk (readings s + 1))\<rparr>,
            send_STP (stand_for_root (nd s))))"
  by (auto simp: reelection_step_def read_clock_def stand_for_root_def Let_def not_less)

lemma node_wf_stand_for_root: "node_wf c n \<Longrightarrow> node_wf c (stand_for_root n)"
  by (auto simp: node_wf_def stand_for_root_def)

lemma nd_hello_step [simp]: "nd (fst (hello_step c clk s)) = nd s"
  by (simp add: hello_step_eq)

lemma node_wf_reelection_step:
  "node_wf c (nd s) \<Longrightarrow> node_wf c (nd (fst (reelection_step c clk s)))"
  by (simp add: reelection_step_eq node_wf_stand_for_root)

lemma node_wf_packet_step:
  assumes "packet_step clk port pkt s = Some (s', out)" and "node_wf c (nd s)"
  shows "node_wf c (nd s')"
  using assms
  by (auto simp: packet_step_def read_clock_def bind_eq_Some_conv split: if_splits
      intro: node_wf_receive_STP)

lemma loop_body_cases [consumes 1, case_names idle packet]:
  assumes "loop_body c clk recv s = Some (s', out)"
  obtains (idle) s1 o1 s2 o2 where "recv = None"
      "hello_step c clk s = (s1, o1)" "reelection_step c clk s1 = (s2, o2)"
      "s' = s2" "out = o1 @ o2"
  | (packet) port pkt s1 o1 s2 o2 o3 where "recv = Some (port, pkt)"
      "hello_step c clk s = (s1, o1)" "reelection_step c clk s1 = (s2, o2)"
      "packet_step clk port pkt s2 = Some (s', o3)" "out = o1 @ o2 @ o3"
  using assms
  by (auto simp: loop_body_def bind_eq_Some_conv split: prod.splits option.splits)

lemma node_wf_loop_body:
  assumes "loop_body c clk recv s = Some (s', out)" and wf: "node_wf c (nd s)"
  shows "node_wf c (nd s')"
  using assms(1)
proof (cases rule: loop_body_cases)
  case (idle s1 o1 s2 o2)
  then show ?thesis
    using wf node_wf_reelection_step [of c s1 clk] nd_hello_step [of c clk s] by simp
next
  case (packet port pkt s1 o1 s2 o2 o3)
  then have "node_wf c (nd s2)"
    using wf node_wf_reelection_step [of c s1 clk] nd_hello_step [of c clk s] by simp
  with packet show ?thesis by (blast intro: node_wf_packet_step)
qed

lemma node_wf_run_loop:
  "run_loop c clk rs s = Some (s', out) \<Longrightarrow> node_wf c (nd s) \<Longrightarrow> node_wf c (nd s')"
  by (induction rs arbitrary: s s' out)
    (auto simp: bind_eq_Some_conv dest: node_wf_loop_body)

lemma node_wf_run_node:
  assumes "run_node c clk rs = Some (s, out)"
  shows "node_wf c (nd s)"
proof -
  have "nd (fst (loop_init c clk)) = node_init c"
    by (simp add: loop_init_def read_clock_def Let_def)
  then show ?thesis
    using assms node_wf_init [of c] node_wf_run_loop
    by (fastforce simp: run_node_def bind_eq_Some_conv split: prod.splits)
qed

section \<open>No access outside the arrays\<close>

text \<open>
  What \<open>mixnet_recv\<close> may deliver: a port up to the number of neighbours, and STP packets only
  from a neighbour and with a whole STP payload.
\<close>

definition recv_ok :: "mixnet_node_config \<Rightarrow> (u8 \<times> mixnet_packet) option \<Rightarrow> bool" where
  "recv_ok c r = (case r of
       None \<Rightarrow> True
     | Some (port, pkt) \<Rightarrow>
         unat port \<le> unat (cfg_num_neighbors c)
         \<and> (ptype pkt = packet_type_code PACKET_TYPE_STP
             \<longrightarrow> unat port < unat (cfg_num_neighbors c) \<and> copy_in_bounds pkt))"

lemma receive_STP_defined:
  assumes "node_wf c n" and "unat port < unat (cfg_num_neighbors c)" and "copy_in_bounds stp"
  shows "\<exists>r. receive_STP n port stp = Some r"
proof -
  obtain u where "dec_stp (payload stp) = Some u"
    using assms(3) stp_layout.dec_defined by (auto simp: copy_in_bounds_def)
  then show ?thesis
    using assms(1,2) node_wf_num_le [OF assms(1)]
    by (auto simp: receive_STP_def node_wf_def Let_def split: prod.splits)
qed

lemma send_FLOOD_defined: "node_wf c n \<Longrightarrow> \<exists>out. send_FLOOD n sp = Some out"
  using node_wf_num_le [of c n] by (auto simp: send_FLOOD_def node_wf_def)

lemma flood_port_in_bounds:
  assumes "node_wf c n" and "unat port \<le> unat (cfg_num_neighbors c)" and "port \<noteq> num_neighbors n"
  shows "unat port < length (neighbors_blocked n)"
proof (cases "unat port = unat (cfg_num_neighbors c)")
  case True
  then have "unat (num_neighbors n) = unat port"
    using assms(1) unat_u8_less [of port] by (simp add: node_wf_def unat_ucast_u16_u8)
  with assms(3) show ?thesis by (metis word_unat_eq_iff)
next
  case False
  with assms show ?thesis by (simp add: node_wf_def)
qed

lemma packet_step_defined:
  assumes wf: "node_wf c (nd s)" and ok: "recv_ok c (Some (port, pkt))"
  shows "\<exists>r. packet_step clk port pkt s = Some r"
proof (cases "ptype pkt = packet_type_code PACKET_TYPE_STP")
  case True
  with ok have b: "unat port < unat (cfg_num_neighbors c)" "copy_in_bounds pkt"
    by (simp_all add: recv_ok_def)
  then obtain u where "dec_stp (payload pkt) = Some u"
    using stp_layout.dec_defined by (auto simp: copy_in_bounds_def)
  with True receive_STP_defined [OF wf b] show ?thesis
    by (auto simp: packet_step_def Let_def split: prod.splits)
next
  case False
  then show ?thesis
    using ok send_FLOOD_defined [OF wf, of "ucast port"] flood_port_in_bounds [OF wf, of port]
    by (auto simp: packet_step_def recv_ok_def)
qed

lemma loop_body_defined:
  assumes wf: "node_wf c (nd s)" and ok: "recv_ok c r"
  shows "\<exists>s' out. loop_body c clk r s = Some (s', out)"
proof -
  obtain s1 o1 where 1: "hello_step c clk s = (s1, o1)" by fastforce
  obtain s2 o2 where 2: "reelection_step c clk s1 = (s2, o2)" by fastforce
  have wf2: "node_wf c (nd s2)"
    using wf node_wf_reelection_step [of c s1 clk] nd_hello_step [of c clk s] 1 2 by simp
  show ?thesis
  proof (cases r)
    case None
    with 1 2 show ?thesis by (simp add: loop_body_def)
  next
    case (Some pp)
    obtain port pkt where pp: "pp = (port, pkt)" by fastforce
    obtain s3 o3 where "packet_step clk port pkt s2 = Some (s3, o3)"
      using packet_step_defined [OF wf2, of port pkt clk] ok Some pp by auto
    with 1 2 Some pp show ?thesis by (simp add: loop_body_def)
  qed
qed

lemma run_loop_defined:
  "node_wf c (nd s) \<Longrightarrow> list_all (recv_ok c) rs \<Longrightarrow> \<exists>s' out. run_loop c clk rs s = Some (s', out)"
proof (induction rs arbitrary: s)
  case Nil
  then show ?case by simp
next
  case (Cons r rs)
  then obtain s1 o1 where 1: "loop_body c clk r s = Some (s1, o1)"
    using loop_body_defined [of c s r clk] by auto
  with Cons show ?case
    using node_wf_loop_body [OF 1] by fastforce
qed

lemma run_node_defined:
  assumes "list_all (recv_ok c) rs"
  shows "\<exists>s out. run_node c clk rs = Some (s, out)"
proof -
  obtain s o0 where i: "loop_init c clk = (s, o0)" by fastforce
  then have "nd s = node_init c" by (auto simp: loop_init_def read_clock_def Let_def)
  then show ?thesis
    using run_loop_defined [of c s rs clk] node_wf_init [of c] assms i
    by (auto simp: run_node_def)
qed

section \<open>Flooding\<close>

definition flood_ports :: "node \<Rightarrow> u8 \<Rightarrow> u8 set" where
  "flood_ports n port =
     {p. p \<noteq> port
         \<and> (p = num_neighbors n \<or> p < num_neighbors n \<and> \<not> neighbors_blocked n ! unat p)}"

lemma of_nat_image_less_u8:
  "(of_nat :: nat \<Rightarrow> u8) ` {i. i < unat k \<and> Q i} = {p. p < k \<and> Q (unat p)}"
proof (intro equalityI subsetI)
  fix p :: u8
  assume "p \<in> of_nat ` {i. i < unat k \<and> Q i}"
  then obtain i where i: "p = of_nat i" "i < unat k" "Q i" by auto
  then have "i < 256" using unat_u8_less [of k] by linarith
  then have "unat p = i" using i by (simp add: unat_of_nat)
  with i show "p \<in> {p. p < k \<and> Q (unat p)}" by (simp add: word_less_nat_alt)
next
  fix p :: u8
  assume "p \<in> {p. p < k \<and> Q (unat p)}"
  then show "p \<in> of_nat ` {i. i < unat k \<and> Q i}"
    by (intro image_eqI [of _ _ "unat p"]) (auto simp: word_less_nat_alt)
qed

lemma send_FLOOD_ports:
  assumes "send_FLOOD n (ucast port) = Some out"
  shows "fst ` set out = flood_ports n port"
proof -
  have "fst ` set out =
      of_nat ` {i. i < unat (num_neighbors n) \<and> \<not> neighbors_blocked n ! i \<and> i \<noteq> unat port}
      \<union> (if unat port \<noteq> unat (num_neighbors n) then {num_neighbors n} else {})"
    using assms by (auto simp: send_FLOOD_def image_image split: if_splits)
  also have "\<dots> = flood_ports n port"
    unfolding of_nat_image_less_u8 flood_ports_def
    by (auto simp: word_unat_eq_iff)
  finally show ?thesis .
qed

lemma distinct_of_nat_u8:
  "\<forall>i \<in> set xs. i < 256 \<Longrightarrow> distinct (map (of_nat :: nat \<Rightarrow> u8) xs) = distinct xs"
  by (induction xs) (auto simp: word_of_nat_eq_iff take_bit_nat_eq_self)

lemma send_FLOOD_distinct:
  assumes "send_FLOOD n sp = Some out"
  shows "distinct (map fst out)"
proof -
  let ?is = "filter (\<lambda>i. \<not> neighbors_blocked n ! i \<and> i \<noteq> unat sp) [0..<unat (num_neighbors n)]"
  have small: "\<forall>i \<in> set ?is. i < 256"
    using less_trans [OF _ unat_u8_less [of "num_neighbors n"]] by auto
  have "num_neighbors n \<notin> (of_nat :: nat \<Rightarrow> u8) ` set ?is"
    using of_nat_image_less_u8 [of "num_neighbors n" "\<lambda>i. \<not> neighbors_blocked n ! i \<and> i \<noteq> unat sp"]
    by (auto simp: conj_assoc)
  then show ?thesis
    using assms distinct_of_nat_u8 [OF small]
    by (auto simp: send_FLOOD_def comp_def split: if_splits)
qed

lemma send_FLOOD_packets:
  "send_FLOOD n sp = Some out \<Longrightarrow> snd ` set out \<subseteq> {node_flood_packet n}"
  by (auto simp: send_FLOOD_def split: if_splits)

lemma packet_step_flood:
  assumes flood: "ptype pkt = packet_type_code PACKET_TYPE_FLOOD"
    and step: "packet_step clk port pkt s = Some (s', out)"
  shows "nd s' = nd s \<and> distinct (map fst out)
    \<and> fst ` set out =
        (if port = num_neighbors (nd s) \<or> \<not> neighbors_blocked (nd s) ! unat port
         then flood_ports (nd s) port else {})
    \<and> snd ` set out \<subseteq> {node_flood_packet (nd s)}"
proof (cases "port = num_neighbors (nd s) \<or> \<not> neighbors_blocked (nd s) ! unat port")
  case True
  with flood step have "nd s' = nd s" "send_FLOOD (nd s) (ucast port) = Some out"
    by (auto simp: packet_step_def bind_eq_Some_conv split: if_splits)
  with True show ?thesis
    by (simp only: send_FLOOD_ports send_FLOOD_distinct send_FLOOD_packets if_True simp_thms)
next
  case False
  with flood step show ?thesis
    by (auto simp: packet_step_def split: if_splits)
qed

section \<open>What a node may send\<close>

text \<open>STP packets go to neighbours only, FLOOD packets to neighbours and to the user.\<close>

fun send_allowed :: "mixnet_node_config \<Rightarrow> u8 \<times> mixnet_packet \<Rightarrow> bool" where
  "send_allowed c (port, pkt) \<longleftrightarrow>
     (if ptype pkt = packet_type_code PACKET_TYPE_STP
      then total_size pkt = 18 \<and> length (payload pkt) = 6 \<and> port < ucast (cfg_num_neighbors c)
      else ptype pkt = packet_type_code PACKET_TYPE_FLOOD \<and> total_size pkt = 12
           \<and> length (payload pkt) = 6 \<and> port \<le> ucast (cfg_num_neighbors c))"

lemma length_enc_stp [simp]: "length (enc_stp u) = 6"
  using stp_layout.length_enc [of u] by (simp add: sizeof_stp_def)

lemma of_nat_u8_less: "i < unat k \<Longrightarrow> (of_nat i :: u8) < k"
  using less_trans [OF _ unat_u8_less [of k], of i] by (simp add: word_less_nat_alt unat_of_nat)

lemma send_STP_allowed: "node_wf c n \<Longrightarrow> list_all (send_allowed c) (send_STP n)"
  by (auto simp: send_STP_def node_stp_packet_def list_all_iff node_wf_def of_nat_u8_less)

lemma send_FLOOD_allowed:
  "node_wf c n \<Longrightarrow> send_FLOOD n sp = Some out \<Longrightarrow> list_all (send_allowed c) out"
  by (auto simp: send_FLOOD_def node_flood_packet_def list_all_iff node_wf_def
      intro!: less_imp_le of_nat_u8_less split: if_splits)

lemma receive_STP_allowed:
  assumes recv: "receive_STP n port stp = Some (n', out)" and wf: "node_wf c n"
  shows "list_all (send_allowed c) out"
  using recv send_STP_allowed [OF node_wf_receive_STP [OF recv wf]]
  by (cases rule: receive_STP_cases) (simp_all split: if_splits)

lemma hello_step_allowed:
  "node_wf c (nd s) \<Longrightarrow> list_all (send_allowed c) (snd (hello_step c clk s))"
  by (simp add: hello_step_eq send_STP_allowed)

lemma reelection_step_allowed:
  "node_wf c (nd s) \<Longrightarrow> list_all (send_allowed c) (snd (reelection_step c clk s))"
  by (simp add: reelection_step_eq send_STP_allowed node_wf_stand_for_root)

lemma packet_step_allowed:
  assumes "packet_step clk port pkt s = Some (s', out)" and "node_wf c (nd s)"
  shows "list_all (send_allowed c) out"
  using assms
  by (auto simp: packet_step_def read_clock_def bind_eq_Some_conv split: if_splits
      intro: receive_STP_allowed send_STP_allowed send_FLOOD_allowed)

lemma loop_body_allowed:
  assumes "loop_body c clk recv s = Some (s', out)" and wf: "node_wf c (nd s)"
  shows "list_all (send_allowed c) out"
proof -
  have *: "list_all (send_allowed c) o1" "list_all (send_allowed c) o2" "node_wf c (nd s2)"
    if "hello_step c clk s = (s1, o1)" "reelection_step c clk s1 = (s2, o2)" for s1 o1 s2 o2
    using that wf hello_step_allowed [of c s clk] reelection_step_allowed [of c s1 clk]
      node_wf_reelection_step [of c s1 clk] nd_hello_step [of c clk s]
    by simp_all
  show ?thesis
    using assms(1)
  proof (cases rule: loop_body_cases)
    case (idle s1 o1 s2 o2)
    then show ?thesis using * [of s1 o1 s2 o2] by simp
  next
    case (packet port pkt s1 o1 s2 o2 o3)
    then show ?thesis
      using * [of s1 o1 s2 o2] packet_step_allowed [OF packet(4)] by simp
  qed
qed

lemma run_loop_allowed:
  "run_loop c clk rs s = Some (s', out) \<Longrightarrow> node_wf c (nd s) \<Longrightarrow> list_all (send_allowed c) out"
proof (induction rs arbitrary: s s' out)
  case Nil
  then show ?case by simp
next
  case (Cons r rs)
  then obtain s1 o1 o2 where 1: "loop_body c clk r s = Some (s1, o1)"
    and 2: "run_loop c clk rs s1 = Some (s', o2)" and out: "out = o1 @ o2"
    by (auto simp: bind_eq_Some_conv)
  show ?case
    using loop_body_allowed [OF 1 Cons.prems(2)]
      Cons.IH [OF 2 node_wf_loop_body [OF 1 Cons.prems(2)]]
    by (simp add: out)
qed

lemma run_node_allowed:
  assumes "run_node c clk rs = Some (s, out)"
  shows "list_all (send_allowed c) out"
proof -
  obtain s0 o0 o1 where i: "loop_init c clk = (s0, o0)"
    and r: "run_loop c clk rs s0 = Some (s, o1)" and out: "out = o0 @ o1"
    using assms by (auto simp: run_node_def bind_eq_Some_conv split: prod.splits)
  have s0: "nd s0 = node_init c" "o0 = send_STP (node_init c)"
    using i by (auto simp: loop_init_def read_clock_def Let_def)
  show ?thesis
    using run_loop_allowed [OF r] send_STP_allowed [OF node_wf_init] node_wf_init [of c]
    by (simp add: out s0)
qed

section \<open>Timers\<close>

definition timespec_ms :: "timespec \<Rightarrow> int" where
  "timespec_ms t = tv_sec t * 1000 + tv_nsec t div 1000000"

text \<open>A difference of two readings is the elapsed time, also across the 32-bit wrap-around.\<close>

lemma elapsed_ms:
  assumes "timespec_ms a \<le> timespec_ms b" and "timespec_ms b < timespec_ms a + 2 ^ 32"
  shows "uint (get_time_in_ms b - get_time_in_ms a) = timespec_ms b - timespec_ms a"
proof -
  have "get_time_in_ms b - get_time_in_ms a = word_of_int (timespec_ms b - timespec_ms a)"
    by (simp add: get_time_in_ms_def timespec_ms_def)
  then have "uint (get_time_in_ms b - get_time_in_ms a)
      = take_bit LENGTH(32) (timespec_ms b - timespec_ms a)"
    by (simp only: uint_word_of_int_eq)
  then show ?thesis using assms by (simp add: take_bit_int_eq_self)
qed

lemma hello_step_timing:
  assumes "root_addr (nd s) = my_addr (nd s)"
    and "heartbeat_time s = get_time_in_ms t0" and "clk (readings s) = t"
    and "timespec_ms t0 \<le> timespec_ms t" and "timespec_ms t < timespec_ms t0 + 2 ^ 32"
  shows "snd (hello_step c clk s) =
    (if timespec_ms t - timespec_ms t0 < uint (root_hello_interval_ms c)
     then [] else send_STP (nd s))"
  using assms elapsed_ms [OF assms(4,5)] by (simp add: hello_step_eq word_less_def)

lemma reelection_step_timing:
  assumes "root_addr (nd s) \<noteq> my_addr (nd s)"
    and "re_election_time s = get_time_in_ms t0" and "clk (readings s) = t"
    and "timespec_ms t0 \<le> timespec_ms t" and "timespec_ms t < timespec_ms t0 + 2 ^ 32"
  shows "nd (fst (reelection_step c clk s)) =
      (if timespec_ms t - timespec_ms t0 < uint (reelection_interval_ms c)
       then nd s else stand_for_root (nd s))
    \<and> snd (reelection_step c clk s) =
      (if timespec_ms t - timespec_ms t0 < uint (reelection_interval_ms c)
       then [] else send_STP (stand_for_root (nd s)))"
  using assms elapsed_ms [OF assms(4,5)] by (simp add: reelection_step_eq word_less_def)

text \<open>An announcement of the parent that confirms the route postpones reelection and is relayed.\<close>

lemma packet_step_heartbeat:
  assumes "ptype pkt = packet_type_code PACKET_TYPE_STP" and "dec_stp (payload pkt) = Some u"
    and "offer u = node_route (nd s)"
  shows "packet_step clk port pkt s =
    Some (s\<lparr>readings := readings s + 1, re_election_time := get_time_in_ms (clk (readings s))\<rparr>,
          send_STP (nd s))"
  using assms by (simp add: packet_step_def offer_def node_route_def read_clock_def)

section \<open>Announcements on the wire\<close>

lemma send_STP_announces:
  assumes "(p, pkt) \<in> set (send_STP n)"
  shows "dec_stp (payload pkt) =
    Some \<lparr>root_address = root_addr n, path_length = word_of_int (path_len n),
          node_address = my_addr n\<rparr>"
  using assms by (auto simp: send_STP_def node_stp_packet_def stp_layout.dec_enc_only)

text \<open>
  The announcement of an improved route carries the 16-bit successor of the received length, so
  a received length of 65535 is announced as 0.
\<close>

lemma receive_STP_relays:
  assumes recv: "receive_STP n port stp = Some (n', out)"
    and u: "dec_stp (payload stp) = Some u" and known: "neighbors_addy n ! unat port \<noteq> - 1"
    and better: "offer u < node_route n"
  shows "map fst out = map of_nat [0..<unat (num_neighbors n)]
    \<and> (\<forall>(p, pkt) \<in> set out. dec_stp (payload pkt) =
         Some \<lparr>root_address = root_address u, path_length = path_length u + 1,
               node_address = my_addr n\<rparr>)"
proof -
  have "node_route n' = offer u" and out: "out = send_STP n'"
    using receive_STP_known_route [OF recv u known] better
    by (simp_all add: min_absorb2 [OF less_imp_le])
  then have n': "root_addr n' = root_address u" "path_len n' = uint (path_length u) + 1"
    by (simp_all add: node_route_def offer_def)
  have same: "my_addr n' = my_addr n" "num_neighbors n' = num_neighbors n"
    using recv by (cases rule: receive_STP_cases; auto)+
  have "map fst out = map of_nat [0..<unat (num_neighbors n)]"
    by (simp add: out send_STP_def same comp_def)
  then show ?thesis
    using send_STP_announces [of _ _ n'] by (auto simp: out n' same)
qed

text \<open>The first announcement on a port only introduces the neighbour.\<close>

lemma receive_STP_first:
  assumes recv: "receive_STP n port stp = Some (n', out)"
    and u: "dec_stp (payload stp) = Some u" and unknown: "neighbors_addy n ! unat port = - 1"
  shows "node_route n' = node_route n \<and> out = []
    \<and> neighbors_addy n' = (neighbors_addy n)[unat port := node_address u]
    \<and> neighbors_blocked n' = (neighbors_blocked n)[unat port := False]"
  using recv
proof (cases rule: receive_STP_cases)
  case (new u')
  with u show ?thesis by simp
next
  case (known u' n2)
  with unknown show ?thesis by simp
qed

section \<open>Properties\<close>

definition ex_node :: node where
  "ex_node = \<lparr>num_neighbors = 2, neighbors_addy = [5, 7], neighbors_blocked = [True, False],
     root_addr = 9, my_addr = 9, next_hop = 9, path_len = 0\<rparr>"

definition ex_node_after :: node where
  "ex_node_after = \<lparr>num_neighbors = 2, neighbors_addy = [5, 7], neighbors_blocked = [False, True],
     root_addr = 3, my_addr = 9, next_hop = 5, path_len = 2\<rparr>"

definition ex_update :: mixnet_packet_stp where
  "ex_update = \<lparr>root_address = 3, path_length = 1, node_address = 5\<rparr>"

definition ex_config :: mixnet_node_config where
  "ex_config = default_node_config\<lparr>node_addr := 9, cfg_num_neighbors := 2\<rparr>"

definition ex_clock :: clock where
  "ex_clock i = \<lparr>tv_sec = 0, tv_nsec = 0\<rparr>"

definition ex_deliveries :: "(u8 \<times> mixnet_packet) option list" where
  "ex_deliveries =
     [None, Some (0, stp_packet 3 1 5), Some (0, stp_packet 3 1 5), Some (2, flood_packet 0 0 0)]"

lemma ex_receive:
  "receive_STP ex_node 0 (stp_packet 3 1 5) = Some (ex_node_after, send_STP ex_node_after)"
  by code_simp

lemma ex_payload: "dec_stp (payload (stp_packet 3 1 5)) = Some ex_update"
  by (simp add: stp_layout.dec_enc_only ex_update_def)

lemma ex_known: "neighbors_addy ex_node ! unat (0 :: u8) \<noteq> - 1"
  by (simp add: ex_node_def)

lemma ex_run: "run_node ex_config ex_clock ex_deliveries =
    Some (fst (the (run_node ex_config ex_clock ex_deliveries)),
          snd (the (run_node ex_config ex_clock ex_deliveries)))"
proof -
  have "run_node ex_config ex_clock ex_deliveries \<noteq> None" by code_simp
  then show ?thesis by auto
qed



text \<open>
  After an announcement from a known neighbour its port is unblocked exactly when the
  neighbour is the next hop of the new route or is one hop farther from the same root; the other
  ports are blocked when the announcement improved the route and are unchanged otherwise.
\<close>

theorem receive_STP_updates_ports:
  assumes "receive_STP n port stp = Some (n', out)"
    and "dec_stp (payload stp) = Some u" and "neighbors_addy n ! unat port \<noteq> - 1"
    and "q < length (neighbors_blocked n)"
  shows "neighbors_blocked n' ! q =
    (if q = unat port
     then \<not> (node_address u = next_hop n'
             \<or> root_address u = root_addr n' \<and> uint (path_length u) = path_len n' + 1)
     else offer u < node_route n \<and> q < unat (num_neighbors n) \<or> neighbors_blocked n ! q)"
  by (rule receive_STP_blocked [OF assms])

theorem receive_STP_updates_ports_witness:
  "neighbors_blocked ex_node_after ! 1 =
    (if (1 :: nat) = unat (0 :: u8)
     then \<not> (node_address ex_update = next_hop ex_node_after
             \<or> root_address ex_update = root_addr ex_node_after
               \<and> uint (path_length ex_update) = path_len ex_node_after + 1)
     else offer ex_update < node_route ex_node \<and> 1 < unat (num_neighbors ex_node)
       \<or> neighbors_blocked ex_node ! 1)"
  by (rule receive_STP_updates_ports [OF ex_receive ex_payload ex_known]) (simp add: ex_node_def)

text \<open>
  The first announcement on a port only introduces the neighbour: its address is stored, the
  port is unblocked and nothing is sent, whatever route the announcement offers.
\<close>

theorem receive_STP_introduces_neighbor:
  assumes "receive_STP n port stp = Some (n', out)"
    and "dec_stp (payload stp) = Some u" and "neighbors_addy n ! unat port = - 1"
  shows "node_route n' = node_route n \<and> out = []
    \<and> neighbors_addy n' = (neighbors_addy n)[unat port := node_address u]
    \<and> neighbors_blocked n' = (neighbors_blocked n)[unat port := False]"
  by (rule receive_STP_first [OF assms])

theorem receive_STP_introduces_neighbor_witness:
  "let n = node_init ex_config; r = the (receive_STP n 1 (stp_packet 3 1 5))
   in node_route (fst r) = node_route n \<and> snd r = []
    \<and> neighbors_addy (fst r) = (neighbors_addy n)[unat (1 :: u8) := node_address ex_update]
    \<and> neighbors_blocked (fst r) = (neighbors_blocked n)[unat (1 :: u8) := False]"
proof -
  let ?n = "node_init ex_config"
  have "receive_STP ?n 1 (stp_packet 3 1 5) \<noteq> None" by code_simp
  then have r: "receive_STP ?n 1 (stp_packet 3 1 5)
      = Some (fst (the (receive_STP ?n 1 (stp_packet 3 1 5))),
              snd (the (receive_STP ?n 1 (stp_packet 3 1 5))))" by auto
  have "neighbors_addy ?n ! unat (1 :: u8) = - 1" by code_simp
  from receive_STP_introduces_neighbor [OF r ex_payload this] show ?thesis unfolding Let_def .
qed

text \<open>
  C33: Whatever packets arrive and however the clock runs, the state of a node stays well formed:
  its own address is the configured one, the root it believes in is no larger than its own
  address, the path length is 0 exactly when it is its own root (then it is its own next hop) and
  at most 65536, and the neighbour arrays keep their sizes.
\<close>

theorem run_node_keeps_invariant:
  assumes "run_node c clk rs = Some (s, out)"
  shows "my_addr (nd s) = node_addr c \<and> root_addr (nd s) \<le> node_addr c
    \<and> 0 \<le> path_len (nd s) \<and> path_len (nd s) \<le> 65536
    \<and> (path_len (nd s) = 0 \<longleftrightarrow> root_addr (nd s) = node_addr c)
    \<and> (root_addr (nd s) = node_addr c \<longrightarrow> next_hop (nd s) = node_addr c)
    \<and> length (neighbors_addy (nd s)) = unat (cfg_num_neighbors c)
    \<and> length (neighbors_blocked (nd s)) = unat (cfg_num_neighbors c)"
  using node_wf_run_node [OF assms] by (auto simp: node_wf_def order.strict_iff_order)

theorem run_node_keeps_invariant_witness:
  "let s = fst (the (run_node ex_config ex_clock ex_deliveries)); c = ex_config
   in my_addr (nd s) = node_addr c \<and> root_addr (nd s) \<le> node_addr c
    \<and> 0 \<le> path_len (nd s) \<and> path_len (nd s) \<le> 65536
    \<and> (path_len (nd s) = 0 \<longleftrightarrow> root_addr (nd s) = node_addr c)
    \<and> (root_addr (nd s) = node_addr c \<longrightarrow> next_hop (nd s) = node_addr c)
    \<and> length (neighbors_addy (nd s)) = unat (cfg_num_neighbors c)
    \<and> length (neighbors_blocked (nd s)) = unat (cfg_num_neighbors c)"
  using run_node_keeps_invariant [OF ex_run] unfolding Let_def .

text \<open>
  A run of the node stays inside its arrays when every delivery is on a port up to the number
  of neighbours and every STP packet comes from a neighbour with a whole STP payload.
\<close>

theorem run_node_stays_in_bounds:
  assumes "list_all (recv_ok c) rs"
  shows "\<exists>s out. run_node c clk rs = Some (s, out)"
  by (rule run_node_defined [OF assms])

theorem run_node_stays_in_bounds_witness:
  "\<exists>s out. run_node ex_config ex_clock ex_deliveries = Some (s, out)"
  by (rule run_node_stays_in_bounds) code_simp

text \<open>
  All packets a run sends are STP packets of 18 bytes to neighbours, or FLOOD packets of 12
  bytes to neighbours or to the user port.
\<close>

theorem run_node_sends_allowed:
  assumes "run_node c clk rs = Some (s, out)"
  shows "list_all (send_allowed c) out"
  by (rule run_node_allowed [OF assms])

theorem run_node_sends_allowed_witness:
  "list_all (send_allowed ex_config) (snd (the (run_node ex_config ex_clock ex_deliveries)))"
  by (rule run_node_sends_allowed [OF ex_run])

text \<open>
  C37: A FLOOD packet that arrives from the user or on an unblocked port goes out once on every
  other unblocked port and, when it did not come from the user, once to the user; one that arrives
  on a blocked port goes nowhere. The route and the ports do not change.
\<close>

theorem flood_forwarding:
  assumes "ptype pkt = packet_type_code PACKET_TYPE_FLOOD"
    and "packet_step clk port pkt s = Some (s', out)"
  shows "nd s' = nd s \<and> distinct (map fst out)
    \<and> fst ` set out =
        (if port = num_neighbors (nd s) \<or> \<not> neighbors_blocked (nd s) ! unat port
         then {p. p \<noteq> port \<and> (p = num_neighbors (nd s)
                 \<or> p < num_neighbors (nd s) \<and> \<not> neighbors_blocked (nd s) ! unat p)}
         else {})
    \<and> snd ` set out \<subseteq> {node_flood_packet (nd s)}"
  using packet_step_flood [OF assms] unfolding flood_ports_def .

definition ex_loop :: node_loop where
  "ex_loop = \<lparr>nd = ex_node_after, re_election_time = 0, heartbeat_time = 0, num_user_packets = 0,
     readings = 2\<rparr>"

theorem flood_forwarding_witness:
  "let r = the (packet_step ex_clock 0 (flood_packet 0 0 0) ex_loop); s = ex_loop; port = 0
   in nd (fst r) = nd s \<and> distinct (map fst (snd r))
    \<and> fst ` set (snd r) =
        (if port = num_neighbors (nd s) \<or> \<not> neighbors_blocked (nd s) ! unat port
         then {p. p \<noteq> port \<and> (p = num_neighbors (nd s)
                 \<or> p < num_neighbors (nd s) \<and> \<not> neighbors_blocked (nd s) ! unat p)}
         else {})
    \<and> snd ` set (snd r) \<subseteq> {node_flood_packet (nd s)}"
proof -
  have "packet_step ex_clock 0 (flood_packet 0 0 0) ex_loop \<noteq> None" by code_simp
  then have r: "packet_step ex_clock 0 (flood_packet 0 0 0) ex_loop
      = Some (fst (the (packet_step ex_clock 0 (flood_packet 0 0 0) ex_loop)),
              snd (the (packet_step ex_clock 0 (flood_packet 0 0 0) ex_loop)))" by auto
  show ?thesis
    unfolding Let_def by (rule flood_forwarding [OF _ r]) simp
qed

text \<open>
  A node that believes it is the root announces itself at a turn of the loop exactly when at
  least the hello interval has passed since its last announcement by the clock, also when the
  32-bit millisecond counter has wrapped around in between.
\<close>

theorem hello_after_interval:
  assumes "root_addr (nd s) = my_addr (nd s)"
    and "heartbeat_time s = get_time_in_ms t0" and "clk (readings s) = t"
    and "timespec_ms t0 \<le> timespec_ms t" and "timespec_ms t < timespec_ms t0 + 2 ^ 32"
  shows "snd (hello_step c clk s) =
    (if timespec_ms t - timespec_ms t0 < uint (root_hello_interval_ms c)
     then [] else send_STP (nd s))"
  using assms by (rule hello_step_timing)

text \<open>A node that is its own root, with timers set at \<open>4294966\<close> s, asked 3 s later.\<close>

definition ex_root_loop :: node_loop where
  "ex_root_loop = \<lparr>nd = node_init ex_config, re_election_time = 4294966000,
     heartbeat_time = 4294966000, num_user_packets = 0, readings = 2\<rparr>"

definition ex_clock_late :: clock where
  "ex_clock_late i = \<lparr>tv_sec = 4294969, tv_nsec = 0\<rparr>"

theorem hello_after_interval_witness:
  "snd (hello_step ex_config ex_clock_late ex_root_loop) =
    (if timespec_ms (ex_clock_late 2) - timespec_ms \<lparr>tv_sec = 4294966, tv_nsec = 0\<rparr>
          < uint (root_hello_interval_ms ex_config)
     then [] else send_STP (nd ex_root_loop))"
  by (rule hello_after_interval)
    (simp_all add: ex_root_loop_def ex_clock_late_def get_time_in_ms_def timespec_ms_def node_init_def)

text \<open>
  A node that believes in another root declares itself the root, and announces it, exactly
  when at least the reelection interval has passed since its reelection timer was set.
\<close>

theorem reelection_after_interval:
  assumes "root_addr (nd s) \<noteq> my_addr (nd s)"
    and "re_election_time s = get_time_in_ms t0" and "clk (readings s) = t"
    and "timespec_ms t0 \<le> timespec_ms t" and "timespec_ms t < timespec_ms t0 + 2 ^ 32"
  shows "nd (fst (reelection_step c clk s)) =
      (if timespec_ms t - timespec_ms t0 < uint (reelection_interval_ms c)
       then nd s else stand_for_root (nd s))
    \<and> snd (reelection_step c clk s) =
      (if timespec_ms t - timespec_ms t0 < uint (reelection_interval_ms c)
       then [] else send_STP (stand_for_root (nd s)))"
  using assms by (rule reelection_step_timing)

definition ex_clock_30 :: clock where
  "ex_clock_30 i = \<lparr>tv_sec = 30, tv_nsec = 0\<rparr>"

theorem reelection_after_interval_witness:
  "let d = timespec_ms (ex_clock_30 2) - timespec_ms \<lparr>tv_sec = 0, tv_nsec = 0\<rparr>
   in nd (fst (reelection_step ex_config ex_clock_30 ex_loop)) =
      (if d < uint (reelection_interval_ms ex_config) then nd ex_loop else stand_for_root (nd ex_loop))
    \<and> snd (reelection_step ex_config ex_clock_30 ex_loop) =
      (if d < uint (reelection_interval_ms ex_config) then [] else send_STP (stand_for_root (nd ex_loop)))"
  unfolding Let_def
  by (rule reelection_after_interval)
    (simp_all add: ex_loop_def ex_node_after_def ex_clock_30_def get_time_in_ms_def timespec_ms_def)

text \<open>
  The announcement that confirms the route a node holds, from its next hop, changes nothing
  but the reelection timer, and is passed on to all neighbours.
\<close>

theorem parent_heartbeat:
  assumes "ptype pkt = packet_type_code PACKET_TYPE_STP" and "dec_stp (payload pkt) = Some u"
    and "offer u = node_route (nd s)"
  shows "packet_step clk port pkt s =
    Some (s\<lparr>readings := readings s + 1, re_election_time := get_time_in_ms (clk (readings s))\<rparr>,
          send_STP (nd s))"
  by (rule packet_step_heartbeat [OF assms])

theorem parent_heartbeat_witness:
  "packet_step ex_clock 0 (stp_packet 3 1 5) ex_loop =
    Some (ex_loop\<lparr>readings := readings ex_loop + 1,
            re_election_time := get_time_in_ms (ex_clock (readings ex_loop))\<rparr>,
          send_STP (nd ex_loop))"
  by (rule parent_heartbeat [OF _ ex_payload])
    (simp_all add: offer_def node_route_def ex_loop_def ex_node_after_def ex_update_def)

text \<open>
  An announcement that improves the route is relayed to every port with the path length one
  larger in 16 bits: a received length of 65535 is announced as 0.
\<close>

theorem relayed_path_length_wraps:
  assumes "receive_STP n port stp = Some (n', out)"
    and "dec_stp (payload stp) = Some u" and "neighbors_addy n ! unat port \<noteq> - 1"
    and "offer u < node_route n"
  shows "map fst out = map of_nat [0..<unat (num_neighbors n)]
    \<and> (\<forall>(p, pkt) \<in> set out. dec_stp (payload pkt) =
         Some \<lparr>root_address = root_address u, path_length = path_length u + 1,
               node_address = my_addr n\<rparr>)"
  by (rule receive_STP_relays [OF assms])

theorem relayed_path_length_wraps_witness:
  "let r = the (receive_STP ex_node 0 (stp_packet 3 65535 5)); n = ex_node; w = (65535 :: u16)
   in map fst (snd r) = map of_nat [0..<unat (num_neighbors n)]
    \<and> (\<forall>(p, pkt) \<in> set (snd r). dec_stp (payload pkt) =
         Some \<lparr>root_address = 3, path_length = w + 1, node_address = my_addr n\<rparr>)"
proof -
  have "receive_STP ex_node 0 (stp_packet 3 65535 5) \<noteq> None" by code_simp
  then have r: "receive_STP ex_node 0 (stp_packet 3 65535 5)
      = Some (fst (the (receive_STP ex_node 0 (stp_packet 3 65535 5))),
              snd (the (receive_STP ex_node 0 (stp_packet 3 65535 5))))" by auto
  let ?u = "\<lparr>root_address = 3, path_length = 65535, node_address = 5\<rparr>"
  have u: "dec_stp (payload (stp_packet 3 65535 5)) = Some ?u"
    by (simp add: stp_layout.dec_enc_only)
  have "offer ?u < node_route ex_node" by (simp add: offer_def node_route_def ex_node_def)
  from relayed_path_length_wraps [OF r u ex_known this] show ?thesis
    unfolding Let_def mixnet_packet_stp.simps .
qed

end
