(* ===== verification/MessageQueue.thy ===== *)
theory MessageQueue
  imports Prelude
begin

text \<open>
  The inter-thread message queue (external/itc/message_queue.c): a pool of message cells with a
  ring of free cells, and a ring of written ones. A cell is named by its index in the pool's
  memory, which stands for the pointer \<open>memory + message_size * index\<close>; \<open>None\<close> in a ring slot is
  the NULL pointer. Each operation is modelled as it runs when no other thread interferes; where
  the code would then spin on a slot forever, the result is \<open>None\<close>.
\<close>

section \<open>State\<close>

text \<open>Where a semaphore pointer points: into the structure, or to a named semaphore.\<close>

datatype sem_ptr = Unnamed_alloc | Unnamed_queue | Named_alloc | Named_queue

record 'a message_queue =
  message_size :: u32
  max_depth :: u32
  freelist :: "nat option list" \<comment> \<open>the initialised part of the array\<close>
  queue_data :: "nat option list" \<comment> \<open>the initialised part of the array\<close>
  cells :: "'a option list" \<comment> \<open>what a cell's memory holds, \<open>None\<close> before the first store\<close>
  free_blocks :: int
  allocpos :: u32
  freepos :: u32
  alloc_blocked_readers :: u32
  alloc_sem_ptr :: sem_ptr
  alloc_sem :: nat \<comment> \<open>value of the allocator's semaphore\<close>
  entries :: int
  readpos :: u32
  writepos :: u32
  blocked_readers :: u32
  queue_sem_ptr :: sem_ptr
  queue_sem :: nat \<comment> \<open>value of the queue's semaphore\<close>

section \<open>Operations\<close>

definition pad_size :: "int \<Rightarrow> int" where
  "pad_size n = (if n mod 8 \<noteq> 0 then n + (8 - n mod 8) else n)"

definition round_to_pow2 :: "u32 \<Rightarrow> u32" where
  "round_to_pow2 x0 =
     (let x = x0 - 1;
          x = x OR drop_bit 1 x;
          x = x OR drop_bit 2 x;
          x = x OR drop_bit 4 x;
          x = x OR drop_bit 8 x;
          x = x OR drop_bit 16 x
      in x + 1)"

text \<open>
  A semaphore is initialised in place, or opened by name when that fails; the arguments say
  whether \<open>sem_init\<close> and \<open>sem_open\<close> succeed. In the initialisation the triple says whether the
  three allocations succeed, and \<open>None\<close> is the error return \<open>- 1\<close>. The memory has room for as
  many cells as fit in the 32-bit product of message size and depth, and the initialising loops
  count to the depth read as an \<open>int\<close>.
\<close>

definition setup_sem :: "bool \<times> bool \<Rightarrow> sem_ptr \<Rightarrow> sem_ptr \<Rightarrow> sem_ptr option" where
  "setup_sem ok unnamed named =
     (if fst ok then Some unnamed else if snd ok then Some named else None)"

definition message_queue_init ::
  "int \<Rightarrow> int \<Rightarrow> bool \<times> bool \<times> bool \<Rightarrow> bool \<times> bool \<Rightarrow> bool \<times> bool
    \<Rightarrow> 'a message_queue option" where
  "message_queue_init msize depth mallocs sem_a sem_q =
     (let (m_memory, m_freelist, m_data) = mallocs;
          ms = word_of_int (pad_size msize) :: u32;
          d = round_to_pow2 (word_of_int depth)
      in if \<not> m_memory then None
         else if \<not> m_freelist then None
         else case setup_sem sem_a Unnamed_alloc Named_alloc of
           None \<Rightarrow> None
         | Some sa \<Rightarrow>
             if \<not> m_data then None
             else case setup_sem sem_q Unnamed_queue Named_queue of
               None \<Rightarrow> None
             | Some sq \<Rightarrow> Some
                 \<lparr>message_size = ms, max_depth = d,
                  freelist = map Some [0..<nat (sint d)],
                  queue_data = replicate (nat (sint d)) None,
                  cells = replicate (unat (ms * d) div unat ms) None,
                  free_blocks = sint d, allocpos = 0, freepos = 0,
                  alloc_blocked_readers = 0, alloc_sem_ptr = sa, alloc_sem = 0,
                  entries = 0, readpos = 0, writepos = 0,
                  blocked_readers = 0, queue_sem_ptr = sq, queue_sem = 0\<rparr>)"

definition message_queue_message_alloc ::
  "'a message_queue \<Rightarrow> (nat option \<times> 'a message_queue) option" where
  "message_queue_message_alloc q =
     (let q1 = q\<lparr>free_blocks := free_blocks q - 1\<rparr>
      in if free_blocks q > 0
         then let pos = unat (allocpos q1 mod max_depth q1);
                  q2 = q1\<lparr>allocpos := allocpos q1 + 1\<rparr>
           in if pos < length (freelist q2)
              then case freelist q2 ! pos of
                  None \<Rightarrow> None
                | Some c \<Rightarrow> Some (Some c, q2\<lparr>freelist := (freelist q2)[pos := None]\<rparr>)
              else None
         else Some (None, q1\<lparr>free_blocks := free_blocks q1 + 1\<rparr>))"

definition message_queue_message_free ::
  "'a message_queue \<Rightarrow> nat \<Rightarrow> 'a message_queue option" where
  "message_queue_message_free q message =
     (let pos = unat (freepos q mod max_depth q);
          q1 = q\<lparr>freepos := freepos q + 1\<rparr>
      in if pos < length (freelist q1) \<and> freelist q1 ! pos = None
         then let q2 = q1\<lparr>freelist := (freelist q1)[pos := Some message],
                           free_blocks := free_blocks q1 + 1\<rparr>
           in if alloc_blocked_readers q2 \<noteq> 0
              then Some (q2\<lparr>alloc_blocked_readers := alloc_blocked_readers q2 - 1,
                            alloc_sem := alloc_sem q2 + 1\<rparr>)
              else Some q2
         else None)"

definition message_queue_write ::
  "'a message_queue \<Rightarrow> nat \<Rightarrow> 'a message_queue option" where
  "message_queue_write q message =
     (let pos = unat (writepos q mod max_depth q);
          q1 = q\<lparr>writepos := writepos q + 1\<rparr>
      in if pos < length (queue_data q1) \<and> queue_data q1 ! pos = None
         then let q2 = q1\<lparr>queue_data := (queue_data q1)[pos := Some message],
                           entries := entries q1 + 1\<rparr>
           in if blocked_readers q2 \<noteq> 0
              then Some (q2\<lparr>blocked_readers := blocked_readers q2 - 1,
                            queue_sem := queue_sem q2 + 1\<rparr>)
              else Some q2
         else None)"

definition message_queue_tryread ::
  "'a message_queue \<Rightarrow> (nat option \<times> 'a message_queue) option" where
  "message_queue_tryread q =
     (let q1 = q\<lparr>entries := entries q - 1\<rparr>
      in if entries q > 0
         then let pos = unat (readpos q1 mod max_depth q1);
                  q2 = q1\<lparr>readpos := readpos q1 + 1\<rparr>
           in if pos < length (queue_data q2)
              then case queue_data q2 ! pos of
                  None \<Rightarrow> None
                | Some c \<Rightarrow> Some (Some c, q2\<lparr>queue_data := (queue_data q2)[pos := None]\<rparr>)
              else None
         else Some (None, q1\<lparr>entries := entries q1 + 1\<rparr>))"

text \<open>
  The blocking read: \<open>sem_wait\<close> passes when the semaphore is positive, and otherwise the thread
  sleeps for good (\<open>None\<close>), since no other thread runs.
\<close>

partial_function (option) message_queue_read_loop ::
  "'a message_queue \<Rightarrow> (nat \<times> 'a message_queue) option" where
  "message_queue_read_loop q =
     (let q1 = q\<lparr>blocked_readers := blocked_readers q + 1\<rparr>
      in Option.bind (message_queue_tryread q1) (\<lambda>(rv, q2).
           case rv of
             Some c \<Rightarrow> Some (c, q2\<lparr>blocked_readers := blocked_readers q2 - 1\<rparr>)
           | None \<Rightarrow>
               if queue_sem q2 = 0 then None
               else Option.bind (message_queue_tryread (q2\<lparr>queue_sem := queue_sem q2 - 1\<rparr>))
                 (\<lambda>(rv, q3). case rv of
                      Some c \<Rightarrow> Some (c, q3)
                    | None \<Rightarrow> message_queue_read_loop q3)))"

definition message_queue_read :: "'a message_queue \<Rightarrow> (nat \<times> 'a message_queue) option" where
  "message_queue_read q = do {
     (rv, q1) \<leftarrow> message_queue_tryread q;
     (case rv of Some c \<Rightarrow> Some (c, q1) | None \<Rightarrow> message_queue_read_loop q1)
   }"

partial_function (option) message_queue_alloc_loop ::
  "'a message_queue \<Rightarrow> (nat \<times> 'a message_queue) option" where
  "message_queue_alloc_loop q =
     (let q1 = q\<lparr>alloc_blocked_readers := alloc_blocked_readers q + 1\<rparr>
      in Option.bind (message_queue_message_alloc q1) (\<lambda>(rv, q2).
           case rv of
             Some c \<Rightarrow> Some (c, q2\<lparr>alloc_blocked_readers := alloc_blocked_readers q2 - 1\<rparr>)
           | None \<Rightarrow>
               if alloc_sem q2 = 0 then None
               else Option.bind (message_queue_message_alloc (q2\<lparr>alloc_sem := alloc_sem q2 - 1\<rparr>))
                 (\<lambda>(rv, q3). case rv of
                      Some c \<Rightarrow> Some (c, q3)
                    | None \<Rightarrow> message_queue_alloc_loop q3)))"

definition message_queue_message_alloc_blocking ::
  "'a message_queue \<Rightarrow> (nat \<times> 'a message_queue) option" where
  "message_queue_message_alloc_blocking q = do {
     (rv, q1) \<leftarrow> message_queue_message_alloc q;
     (case rv of Some c \<Rightarrow> Some (c, q1) | None \<Rightarrow> message_queue_alloc_loop q1)
   }"

datatype release = Sem_destroy sem_ptr | Sem_close sem_ptr | Free_queue_data | Free_freelist
  | Free_memory

definition message_queue_destroy :: "'a message_queue \<Rightarrow> release list" where
  "message_queue_destroy q =
     [if queue_sem_ptr q = Unnamed_queue then Sem_destroy (queue_sem_ptr q)
      else Sem_close (queue_sem_ptr q),
      Free_queue_data,
      if alloc_sem_ptr q = Unnamed_queue then Sem_destroy (alloc_sem_ptr q)
      else Sem_close (alloc_sem_ptr q),
      Free_freelist, Free_memory]"

text \<open>What the clients do with a cell: store a pointer in it, load it back.\<close>

definition store_cell :: "nat \<Rightarrow> 'a \<Rightarrow> 'a message_queue \<Rightarrow> 'a message_queue option" where
  "store_cell c x q =
     (if c < length (cells q) then Some (q\<lparr>cells := (cells q)[c := Some x]\<rparr>) else None)"

definition load_cell :: "nat \<Rightarrow> 'a message_queue \<Rightarrow> 'a option" where
  "load_cell c q = (if c < length (cells q) then cells q ! c else None)"

section \<open>Rings\<close>

text \<open>
  A ring of \<open>d\<close> slots whose reader is at position \<open>rd\<close> and which holds \<open>xs\<close>, oldest first. The
  positions are 32-bit counters that wrap around; \<open>d\<close> divides \<open>2 ^ 32\<close>, so the slot of a position
  is the same before and after the wrap.
\<close>

definition ring_rep :: "nat \<Rightarrow> 'b option list \<Rightarrow> u32 \<Rightarrow> 'b list \<Rightarrow> bool" where
  "ring_rep d slots rd xs \<longleftrightarrow>
     length slots = d \<and> length xs \<le> d
     \<and> (\<forall>k < d. slots ! ((unat rd + k) mod d) = (if k < length xs then Some (xs ! k) else None))"

definition ring_items :: "nat \<Rightarrow> 'b option list \<Rightarrow> u32 \<Rightarrow> nat \<Rightarrow> 'b list" where
  "ring_items d slots rd n = map (\<lambda>k. the (slots ! ((unat rd + k) mod d))) [0..<n]"

lemma ring_items_eq: "ring_rep d slots rd xs \<Longrightarrow> ring_items d slots rd (length xs) = xs"
  by (rule nth_equalityI) (auto simp: ring_rep_def ring_items_def)

lemma offset_inj:
  assumes "(a + j) mod d = (a + k) mod d" and "j < d" and "k < d"
  shows "j = (k::nat)"
proof -
  have *: "j = k" if le: "k \<le> j" and eq: "(a + j) mod d = (a + k) mod d" and "j < d" for j k
  proof -
    have "a + k \<le> a + j" using le by simp
    from mod_eq_nat1E [OF eq this] obtain s where "a + j = a + k + d * s" .
    then have "j = k + d * s" by simp
    with \<open>j < d\<close> show ?thesis by (cases s) auto
  qed
  show ?thesis
    using assms * [of k j] * [of j k] by (cases "k \<le> j") auto
qed

lemma unat_add_mod:
  assumes "d dvd 2 ^ 32"
  shows "unat (p + of_nat n :: u32) mod d = (unat p + n) mod d"
proof -
  have "unat (p + of_nat n) = (unat p + n) mod 2 ^ 32"
    by (simp add: unat_word_ariths unat_of_nat mod_simps)
  then show ?thesis using assms by (simp add: mod_mod_cancel)
qed

lemma unat_add_offset_mod:
  assumes "d dvd 2 ^ 32"
  shows "(unat (p + 1 :: u32) + k) mod d = (unat p + Suc k) mod d"
proof -
  have "(unat (p + 1) + k) mod d = (unat (p + of_nat 1) mod d + k) mod d"
    by (simp add: mod_add_left_eq)
  also have "\<dots> = (unat p + Suc k) mod d"
    by (subst unat_add_mod [OF assms]) (simp add: mod_add_left_eq)
  finally show ?thesis .
qed

lemma unat_succ_mod:
  assumes "d dvd 2 ^ 32" and "unat (p :: u32) mod d = n mod d"
  shows "unat (p + 1) mod d = Suc n mod d"
  using unat_add_mod [OF assms(1), of p 1] assms(2) by (metis of_nat_1 mod_Suc_eq Suc_eq_plus1)

lemma ring_get:
  assumes d: "d dvd 2 ^ 32" and rep: "ring_rep d slots rd (x # xs)"
  shows "slots ! (unat rd mod d) = Some x \<and> ring_rep d (slots[unat rd mod d := None]) (rd + 1) xs"
proof
  have d0: "0 < d" using rep by (auto simp: ring_rep_def)
  then show "slots ! (unat rd mod d) = Some x"
    using rep by (auto simp: ring_rep_def dest: spec [of _ 0])
  have "slots[unat rd mod d := None] ! ((unat (rd + 1) + k) mod d)
      = (if k < length xs then Some (xs ! k) else None)" if k: "k < d" for k
  proof (cases "Suc k < d")
    case True
    then have "(unat rd + Suc k) mod d \<noteq> (unat rd + 0) mod d"
      using offset_inj [of "unat rd" "Suc k" d 0] by auto
    then show ?thesis
      using rep True by (auto simp: unat_add_offset_mod [OF d] ring_rep_def)
  next
    case False
    then have "Suc k = d" using k by simp
    then show ?thesis
      using rep d0 by (auto simp: unat_add_offset_mod [OF d] ring_rep_def)
  qed
  then show "ring_rep d (slots[unat rd mod d := None]) (rd + 1) xs"
    using rep by (auto simp: ring_rep_def)
qed

lemma ring_put:
  assumes d: "d dvd 2 ^ 32" and rep: "ring_rep d slots rd xs" and room: "length xs < d"
    and wr: "unat wr mod d = (unat rd + length xs) mod d"
  shows "slots ! (unat wr mod d) = None \<and> ring_rep d (slots[unat wr mod d := Some y]) rd (xs @ [y])"
proof
  note pos = wr
  show "slots ! (unat wr mod d) = None"
    using rep room by (simp add: pos ring_rep_def)
  have "slots[unat wr mod d := Some y] ! ((unat rd + k) mod d)
      = (if k < length (xs @ [y]) then Some ((xs @ [y]) ! k) else None)" if k: "k < d" for k
  proof (cases "k = length xs")
    case True
    then show ?thesis using rep k by (simp add: pos ring_rep_def)
  next
    case False
    then have "(unat rd + k) mod d \<noteq> (unat rd + length xs) mod d"
      using offset_inj [of "unat rd" k d "length xs"] k room by auto
    then show ?thesis
      using rep k False by (auto simp: pos ring_rep_def nth_append)
  qed
  then show "ring_rep d (slots[unat wr mod d := Some y]) rd (xs @ [y])"
    using rep room by (simp add: ring_rep_def)
qed

section \<open>The queue as two lists\<close>

definition depth :: "'a message_queue \<Rightarrow> nat" where
  "depth q = unat (max_depth q)"

definition mq_rep :: "'a message_queue \<Rightarrow> nat list \<Rightarrow> nat list \<Rightarrow> bool" where
  "mq_rep q fs qs \<longleftrightarrow>
     0 < depth q \<and> depth q dvd 2 ^ 32 \<and> length (cells q) = depth q
     \<and> ring_rep (depth q) (freelist q) (allocpos q) fs
     \<and> ring_rep (depth q) (queue_data q) (readpos q) qs
     \<and> free_blocks q = int (length fs) \<and> entries q = int (length qs)
     \<and> unat (freepos q) mod depth q = (unat (allocpos q) + length fs) mod depth q
     \<and> unat (writepos q) mod depth q = (unat (readpos q) + length qs) mod depth q
     \<and> set fs \<union> set qs \<subseteq> {..<depth q} \<and> distinct (fs @ qs)"

definition free_cells :: "'a message_queue \<Rightarrow> nat list" where
  "free_cells q = ring_items (depth q) (freelist q) (allocpos q) (nat (free_blocks q))"

definition queued_cells :: "'a message_queue \<Rightarrow> nat list" where
  "queued_cells q = ring_items (depth q) (queue_data q) (readpos q) (nat (entries q))"

definition mq_wf :: "'a message_queue \<Rightarrow> bool" where
  "mq_wf q \<longleftrightarrow> mq_rep q (free_cells q) (queued_cells q)"

lemma mq_rep_lists: "mq_rep q fs qs \<Longrightarrow> free_cells q = fs \<and> queued_cells q = qs"
  by (auto simp: mq_rep_def free_cells_def queued_cells_def ring_items_eq)

lemma mq_rep_wf: "mq_rep q fs qs \<longleftrightarrow> mq_wf q \<and> free_cells q = fs \<and> queued_cells q = qs"
  using mq_rep_lists [of q fs qs] by (auto simp: mq_wf_def)

lemma ring_rep_length: "ring_rep d slots p xs \<Longrightarrow> length slots = d"
  by (simp add: ring_rep_def)

lemma unat_mod_word: "unat (p mod (m :: u32)) = unat p mod unat m"
  by (simp add: unat_mod)

lemma alloc_empty:
  "mq_rep q [] qs \<Longrightarrow> message_queue_message_alloc q = Some (None, q)"
  by (simp add: message_queue_message_alloc_def mq_rep_def Let_def)

lemma alloc_cons:
  assumes "mq_rep q (c # fs) qs"
  shows "\<exists>q'. message_queue_message_alloc q = Some (Some c, q') \<and> mq_rep q' fs qs
    \<and> depth q' = depth q \<and> cells q' = cells q"
  using assms ring_get [of "depth q" "freelist q" "allocpos q" c fs]
  by (auto simp: message_queue_message_alloc_def mq_rep_def Let_def unat_mod_word depth_def
      unat_add_offset_mod dest: ring_rep_length)

lemma tryread_empty:
  "mq_rep q fs [] \<Longrightarrow> message_queue_tryread q = Some (None, q)"
  by (simp add: message_queue_tryread_def mq_rep_def Let_def)

lemma tryread_cons:
  assumes "mq_rep q fs (c # qs)"
  shows "\<exists>q'. message_queue_tryread q = Some (Some c, q') \<and> mq_rep q' fs qs
    \<and> depth q' = depth q \<and> cells q' = cells q \<and> queue_sem q' = queue_sem q"
  using assms ring_get [of "depth q" "queue_data q" "readpos q" c qs]
  by (auto simp: message_queue_tryread_def mq_rep_def Let_def unat_mod_word depth_def
      unat_add_offset_mod dest: ring_rep_length)

text \<open>A cell that is neither free nor queued is held by the thread that will write or free it.\<close>

definition held :: "'a message_queue \<Rightarrow> nat \<Rightarrow> bool" where
  "held q c \<longleftrightarrow> c < depth q \<and> c \<notin> set (free_cells q) \<and> c \<notin> set (queued_cells q)"

lemma room_of_missing:
  assumes "distinct xs" and "set xs \<subseteq> {..<d}" and "c < d" and "c \<notin> set xs"
  shows "length xs < d"
proof -
  have "card (set xs) < card {..<d}"
    using assms by (intro psubset_card_mono) auto
  then show ?thesis using assms(1) by (simp add: distinct_card)
qed

lemma free_held:
  assumes rep: "mq_rep q fs qs" and c: "held q c"
  shows "\<exists>q'. message_queue_message_free q c = Some q' \<and> mq_rep q' (fs @ [c]) qs
    \<and> depth q' = depth q \<and> cells q' = cells q"
proof -
  have nc: "c < depth q" "c \<notin> set fs" "c \<notin> set qs"
    using c mq_rep_lists [OF rep] by (auto simp: held_def)
  then have room: "length fs < depth q"
    using rep room_of_missing [of fs "depth q" c] by (auto simp: mq_rep_def)
  have *: "freelist q ! (unat (freepos q) mod depth q) = None
      \<and> ring_rep (depth q) ((freelist q)[unat (freepos q) mod depth q := Some c]) (allocpos q) (fs @ [c])"
    using rep room by (intro ring_put) (auto simp: mq_rep_def)
  have pos: "unat (freepos q + 1) mod depth q = Suc (unat (allocpos q) + length fs) mod depth q"
    using rep by (intro unat_succ_mod) (simp_all add: mq_rep_def)
  show ?thesis
    using rep nc * pos by (auto simp: message_queue_message_free_def mq_rep_def Let_def unat_mod_word
        depth_def dest: ring_rep_length)
qed

lemma write_held:
  assumes rep: "mq_rep q fs qs" and c: "held q c"
  shows "\<exists>q'. message_queue_write q c = Some q' \<and> mq_rep q' fs (qs @ [c])
    \<and> depth q' = depth q \<and> cells q' = cells q"
proof -
  have nc: "c < depth q" "c \<notin> set fs" "c \<notin> set qs"
    using c mq_rep_lists [OF rep] by (auto simp: held_def)
  then have room: "length qs < depth q"
    using rep room_of_missing [of qs "depth q" c] by (auto simp: mq_rep_def)
  have *: "queue_data q ! (unat (writepos q) mod depth q) = None
      \<and> ring_rep (depth q) ((queue_data q)[unat (writepos q) mod depth q := Some c]) (readpos q) (qs @ [c])"
    using rep room by (intro ring_put) (auto simp: mq_rep_def)
  have pos: "unat (writepos q + 1) mod depth q = Suc (unat (readpos q) + length qs) mod depth q"
    using rep by (intro unat_succ_mod) (simp_all add: mq_rep_def)
  show ?thesis
    using rep nc * pos by (auto simp: message_queue_write_def mq_rep_def Let_def unat_mod_word
        depth_def dest: ring_rep_length)
qed

section \<open>Interfaces\<close>

text \<open>
  What both rings of the queue promise: first in, first out, over \<open>items\<close>; an operation of one
  ring leaves the rest of the structure (\<open>rest\<close>) alone; it never spins.
\<close>

locale fifo =
  fixes inv :: "'s \<Rightarrow> bool" and items :: "'s \<Rightarrow> 'b list"
    and get :: "'s \<Rightarrow> ('b option \<times> 's) option" and put :: "'s \<Rightarrow> 'b \<Rightarrow> 's option"
    and may_put :: "'s \<Rightarrow> 'b \<Rightarrow> bool" and rest :: "'s \<Rightarrow> 'r"
  assumes get_nil: "inv s \<Longrightarrow> items s = [] \<Longrightarrow> get s = Some (None, s)"
    and get_cons: "inv s \<Longrightarrow> items s = x # xs \<Longrightarrow>
      \<exists>s'. get s = Some (Some x, s') \<and> inv s' \<and> items s' = xs \<and> rest s' = rest s"
    and put_item: "inv s \<Longrightarrow> may_put s x \<Longrightarrow>
      \<exists>s'. put s x = Some s' \<and> inv s' \<and> items s' = items s @ [x] \<and> rest s' = rest s"
begin

lemma get_total: "inv s \<Longrightarrow> \<exists>r s'. get s = Some (r, s') \<and> inv s' \<and> rest s' = rest s"
  by (cases "items s") (use get_nil get_cons in blast)+

lemma get_items: "inv s \<Longrightarrow> get s = Some (r, s') \<Longrightarrow>
    items s = (case r of None \<Rightarrow> [] | Some x \<Rightarrow> x # items s')"
  by (cases "items s") (use get_nil get_cons in fastforce)+

lemma put_get:
  assumes "inv s" and "may_put s x"
  shows "\<exists>s1 s2. put s x = Some s1 \<and> get s1 = Some (Some (hd (items s @ [x])), s2)
    \<and> items s2 = tl (items s @ [x])"
proof -
  obtain s1 where 1: "put s x = Some s1" "inv s1" "items s1 = items s @ [x]"
    using put_item [OF assms] by blast
  obtain y ys where y: "items s @ [x] = y # ys" by (cases "items s @ [x]") auto
  with 1 get_cons [of s1 y ys] show ?thesis by auto
qed

end

interpretation pool: fifo mq_wf free_cells message_queue_message_alloc message_queue_message_free
  held "\<lambda>q. (queued_cells q, cells q, depth q)"
proof unfold_locales
  fix q :: "'a message_queue"
  assume "mq_wf q" "free_cells q = []"
  then have "mq_rep q [] (queued_cells q)" by (simp add: mq_rep_wf)
  then show "message_queue_message_alloc q = Some (None, q)" by (rule alloc_empty)
next
  fix q :: "'a message_queue" and x xs
  assume "mq_wf q" "free_cells q = x # xs"
  then have "mq_rep q (x # xs) (queued_cells q)" by (simp add: mq_rep_wf)
  from alloc_cons [OF this] show "\<exists>q'. message_queue_message_alloc q = Some (Some x, q')
      \<and> mq_wf q' \<and> free_cells q' = xs
      \<and> (queued_cells q', cells q', depth q') = (queued_cells q, cells q, depth q)"
    by (auto simp: mq_rep_wf)
next
  fix q :: "'a message_queue" and x
  assume "mq_wf q" "held q x"
  then have "mq_rep q (free_cells q) (queued_cells q)" by (simp add: mq_rep_wf)
  from free_held [OF this \<open>held q x\<close>] show "\<exists>q'. message_queue_message_free q x = Some q'
      \<and> mq_wf q' \<and> free_cells q' = free_cells q @ [x]
      \<and> (queued_cells q', cells q', depth q') = (queued_cells q, cells q, depth q)"
    by (auto simp: mq_rep_wf)
qed

interpretation ring: fifo mq_wf queued_cells message_queue_tryread message_queue_write
  held "\<lambda>q. (free_cells q, cells q, depth q)"
proof unfold_locales
  fix q :: "'a message_queue"
  assume "mq_wf q" "queued_cells q = []"
  then have "mq_rep q (free_cells q) []" by (simp add: mq_rep_wf)
  then show "message_queue_tryread q = Some (None, q)" by (rule tryread_empty)
next
  fix q :: "'a message_queue" and x xs
  assume "mq_wf q" "queued_cells q = x # xs"
  then have "mq_rep q (free_cells q) (x # xs)" by (simp add: mq_rep_wf)
  from tryread_cons [OF this] show "\<exists>q'. message_queue_tryread q = Some (Some x, q')
      \<and> mq_wf q' \<and> queued_cells q' = xs
      \<and> (free_cells q', cells q', depth q') = (free_cells q, cells q, depth q)"
    by (auto simp: mq_rep_wf)
next
  fix q :: "'a message_queue" and x
  assume "mq_wf q" "held q x"
  then have "mq_rep q (free_cells q) (queued_cells q)" by (simp add: mq_rep_wf)
  from write_held [OF this \<open>held q x\<close>] show "\<exists>q'. message_queue_write q x = Some q'
      \<and> mq_wf q' \<and> queued_cells q' = queued_cells q @ [x]
      \<and> (free_cells q', cells q', depth q') = (free_cells q, cells q, depth q)"
    by (auto simp: mq_rep_wf)
qed

text \<open>
  The queue as its clients use it: allocate a cell, store a pointer in it and write it, or give
  up when the pool is empty; read a cell, load the pointer and free the cell, if there is one.
\<close>

definition mq_push :: "'a \<Rightarrow> 'a message_queue \<Rightarrow> (bool \<times> 'a message_queue) option" where
  "mq_push x q = do {
     (ptr, q1) \<leftarrow> message_queue_message_alloc q;
     (case ptr of
        None \<Rightarrow> Some (False, q1)
      | Some c \<Rightarrow> do {
          q2 \<leftarrow> store_cell c x q1;
          q3 \<leftarrow> message_queue_write q2 c;
          Some (True, q3)
        })
   }"

definition mq_pop :: "'a message_queue \<Rightarrow> ('a option \<times> 'a message_queue) option" where
  "mq_pop q = do {
     (ptr, q1) \<leftarrow> message_queue_tryread q;
     (case ptr of
        None \<Rightarrow> Some (None, q1)
      | Some c \<Rightarrow> do {
          x \<leftarrow> load_cell c q1;
          q2 \<leftarrow> message_queue_message_free q1 c;
          Some (Some x, q2)
        })
   }"

text \<open>
  Sequences of client operations with their results, on an implementation and on the
  specification: a list of at most \<open>cap\<close> elements, oldest first.
\<close>

datatype 'x channel_op = Send 'x | Receive
datatype 'x channel_result = Sent bool | Received "'x option"

fun run_ops :: "('x \<Rightarrow> 's \<Rightarrow> (bool \<times> 's) option) \<Rightarrow> ('s \<Rightarrow> ('x option \<times> 's) option)
    \<Rightarrow> 'x channel_op list \<Rightarrow> 's \<Rightarrow> ('x channel_result list \<times> 's) option" where
  "run_ops push pop [] s = Some ([], s)"
| "run_ops push pop (Send x # ops) s = do {
     (b, s1) \<leftarrow> push x s;
     (rs, s2) \<leftarrow> run_ops push pop ops s1;
     Some (Sent b # rs, s2)
   }"
| "run_ops push pop (Receive # ops) s = do {
     (v, s1) \<leftarrow> pop s;
     (rs, s2) \<leftarrow> run_ops push pop ops s1;
     Some (Received v # rs, s2)
   }"

fun spec_ops :: "nat \<Rightarrow> 'x channel_op list \<Rightarrow> 'x list \<Rightarrow> 'x channel_result list \<times> 'x list" where
  "spec_ops cap [] xs = ([], xs)"
| "spec_ops cap (Send x # ops) xs =
     (let b = length xs < cap;
          (rs, ys) = spec_ops cap ops (if b then xs @ [x] else xs)
      in (Sent b # rs, ys))"
| "spec_ops cap (Receive # ops) xs =
     (let (rs, ys) = spec_ops cap ops (tl xs)
      in (Received (if xs = [] then None else Some (hd xs)) # rs, ys))"

locale channel =
  fixes inv :: "'s \<Rightarrow> bool" and contents :: "'s \<Rightarrow> 'x list" and cap :: "'s \<Rightarrow> nat"
    and push :: "'x \<Rightarrow> 's \<Rightarrow> (bool \<times> 's) option" and pop :: "'s \<Rightarrow> ('x option \<times> 's) option"
  assumes push_room: "inv s \<Longrightarrow> length (contents s) < cap s \<Longrightarrow>
      \<exists>s'. push x s = Some (True, s') \<and> inv s' \<and> contents s' = contents s @ [x] \<and> cap s' = cap s"
    and push_full: "inv s \<Longrightarrow> length (contents s) = cap s \<Longrightarrow> push x s = Some (False, s)"
    and pop_nil: "inv s \<Longrightarrow> contents s = [] \<Longrightarrow> pop s = Some (None, s)"
    and pop_cons: "inv s \<Longrightarrow> contents s = x # xs \<Longrightarrow>
      \<exists>s'. pop s = Some (Some x, s') \<and> inv s' \<and> contents s' = xs \<and> cap s' = cap s"
    and bounded: "inv s \<Longrightarrow> length (contents s) \<le> cap s"
begin

lemma push_result:
  assumes "inv s"
  shows "\<exists>s'. push x s = Some (length (contents s) < cap s, s') \<and> inv s' \<and> cap s' = cap s
    \<and> contents s' = (if length (contents s) < cap s then contents s @ [x] else contents s)"
  using push_room [OF assms, of x] push_full [OF assms, of x] bounded [OF assms] assms
  by (cases "length (contents s) < cap s") auto

lemma pop_result:
  assumes "inv s"
  shows "\<exists>s'. pop s = Some (if contents s = [] then None else Some (hd (contents s)), s')
    \<and> inv s' \<and> cap s' = cap s \<and> contents s' = tl (contents s)"
  using pop_nil [OF assms] pop_cons [OF assms] assms by (cases "contents s") auto

lemma run_ops_spec:
  "inv s \<Longrightarrow> \<exists>s'. run_ops push pop ops s = Some (fst (spec_ops (cap s) ops (contents s)), s')
    \<and> inv s' \<and> cap s' = cap s \<and> contents s' = snd (spec_ops (cap s) ops (contents s))"
proof (induction ops arbitrary: s)
  case Nil
  then show ?case by simp
next
  case (Cons op ops)
  show ?case
  proof (cases op)
    case (Send x)
    obtain s1 where 1: "push x s = Some (length (contents s) < cap s, s1)" "inv s1" "cap s1 = cap s"
      "contents s1 = (if length (contents s) < cap s then contents s @ [x] else contents s)"
      using push_result [OF Cons.prems, of x] by blast
    obtain s2 where "run_ops push pop ops s1
        = Some (fst (spec_ops (cap s) ops (contents s1)), s2)" "inv s2" "cap s2 = cap s"
      "contents s2 = snd (spec_ops (cap s) ops (contents s1))"
      using Cons.IH [OF 1(2)] 1(3) by auto
    then show ?thesis using 1 Send by (auto simp: case_prod_unfold Let_def)
  next
    case Receive
    obtain s1 where 1: "pop s = Some (if contents s = [] then None else Some (hd (contents s)), s1)"
      "inv s1" "cap s1 = cap s" "contents s1 = tl (contents s)"
      using pop_result [OF Cons.prems] by blast
    obtain s2 where "run_ops push pop ops s1
        = Some (fst (spec_ops (cap s) ops (contents s1)), s2)" "inv s2" "cap s2 = cap s"
      "contents s2 = snd (spec_ops (cap s) ops (contents s1))"
      using Cons.IH [OF 1(2)] 1(3) by auto
    then show ?thesis using 1 Receive by (auto simp: case_prod_unfold Let_def)
  qed
qed

end

text \<open>
  Between the operations of the clients every cell is free or queued, and a queued cell has
  been stored to. The pointers stored in the queued cells are the contents of the channel.
\<close>

definition mq_contents :: "'a message_queue \<Rightarrow> 'a list" where
  "mq_contents q = map (\<lambda>c. the (cells q ! c)) (queued_cells q)"

definition mq_inv :: "'a message_queue \<Rightarrow> bool" where
  "mq_inv q \<longleftrightarrow>
     mq_wf q \<and> length (free_cells q) + length (queued_cells q) = depth q
     \<and> (\<forall>c \<in> set (queued_cells q). cells q ! c \<noteq> None)"

lemma mq_wf_facts:
  assumes "mq_wf q"
  shows "length (cells q) = depth q" and "distinct (free_cells q @ queued_cells q)"
    and "set (free_cells q) \<union> set (queued_cells q) \<subseteq> {..<depth q}"
  using assms by (simp_all add: mq_wf_def mq_rep_def)

lemma mq_wf_cells:
  "length cs = length (cells q) \<Longrightarrow> mq_wf (q\<lparr>cells := cs\<rparr>) = mq_wf q"
  "free_cells (q\<lparr>cells := cs\<rparr>) = free_cells q"
  "queued_cells (q\<lparr>cells := cs\<rparr>) = queued_cells q"
  "depth (q\<lparr>cells := cs\<rparr>) = depth q"
  by (auto simp: mq_wf_def mq_rep_def free_cells_def queued_cells_def depth_def)

lemma mq_push_room:
  assumes inv: "mq_inv q" and room: "length (mq_contents q) < depth q"
  shows "\<exists>q'. mq_push x q = Some (True, q') \<and> mq_inv q'
    \<and> mq_contents q' = mq_contents q @ [x] \<and> depth q' = depth q"
proof -
  have wf: "mq_wf q" using inv by (simp add: mq_inv_def)
  obtain c fs where fs: "free_cells q = c # fs"
    using inv room by (cases "free_cells q") (auto simp: mq_inv_def mq_contents_def)
  obtain q1 where q1: "message_queue_message_alloc q = Some (Some c, q1)" "mq_wf q1"
    "free_cells q1 = fs" "queued_cells q1 = queued_cells q" "cells q1 = cells q" "depth q1 = depth q"
    using pool.get_cons [OF wf fs] by auto
  have c: "c < depth q" "c \<notin> set fs" "c \<notin> set (queued_cells q)"
    using mq_wf_facts [OF wf] fs by auto
  define q2 where "q2 = q1\<lparr>cells := (cells q1)[c := Some x]\<rparr>"
  have q2: "store_cell c x q1 = Some q2" "mq_wf q2" "free_cells q2 = fs"
    "queued_cells q2 = queued_cells q" "cells q2 = (cells q)[c := Some x]" "depth q2 = depth q"
    using q1 c mq_wf_facts [OF q1(2)] by (simp_all add: q2_def store_cell_def mq_wf_cells)
  then have "held q2 c" using c by (simp add: held_def)
  then obtain q3 where q3: "message_queue_write q2 c = Some q3" "mq_wf q3"
    "queued_cells q3 = queued_cells q @ [c]" "free_cells q3 = fs"
    "cells q3 = (cells q)[c := Some x]" "depth q3 = depth q"
    using ring.put_item [OF q2(2), of c] q2 by auto
  have "mq_contents q3 = mq_contents q @ [x]"
    using c q3 mq_wf_facts(1) [OF wf] by (auto simp: mq_contents_def nth_list_update)
  moreover have "mq_inv q3"
    using inv c q3 fs mq_wf_facts(1) [OF wf] by (auto simp: mq_inv_def nth_list_update)
  ultimately show ?thesis
    using q1 q2 q3 by (simp add: mq_push_def)
qed

lemma mq_push_full:
  assumes inv: "mq_inv q" and full: "length (mq_contents q) = depth q"
  shows "mq_push x q = Some (False, q)"
proof -
  have "free_cells q = []" using inv full by (simp add: mq_inv_def mq_contents_def)
  with inv show ?thesis
    using pool.get_nil [of q] by (simp add: mq_push_def mq_inv_def)
qed

lemma mq_pop_nil:
  assumes "mq_inv q" and "mq_contents q = []"
  shows "mq_pop q = Some (None, q)"
  using assms ring.get_nil [of q] by (simp add: mq_pop_def mq_inv_def mq_contents_def)

lemma mq_pop_cons:
  assumes inv: "mq_inv q" and xs: "mq_contents q = x # xs"
  shows "\<exists>q'. mq_pop q = Some (Some x, q') \<and> mq_inv q' \<and> mq_contents q' = xs \<and> depth q' = depth q"
proof -
  have wf: "mq_wf q" using inv by (simp add: mq_inv_def)
  obtain c cs where cs: "queued_cells q = c # cs" and x: "x = the (cells q ! c)"
    and xs': "xs = map (\<lambda>c. the (cells q ! c)) cs"
    using xs by (cases "queued_cells q") (auto simp: mq_contents_def)
  obtain q1 where q1: "message_queue_tryread q = Some (Some c, q1)" "mq_wf q1"
    "queued_cells q1 = cs" "free_cells q1 = free_cells q" "cells q1 = cells q" "depth q1 = depth q"
    using ring.get_cons [OF wf cs] by auto
  have c: "c < depth q" "c \<notin> set (free_cells q)" "c \<notin> set cs" "cells q ! c \<noteq> None"
    using mq_wf_facts [OF wf] cs inv by (auto simp: mq_inv_def)
  then have load: "load_cell c q1 = Some x"
    using q1 x mq_wf_facts(1) [OF wf] by (auto simp: load_cell_def)
  have "held q1 c" using c q1 by (simp add: held_def)
  then obtain q2 where q2: "message_queue_message_free q1 c = Some q2" "mq_wf q2"
    "free_cells q2 = free_cells q @ [c]" "queued_cells q2 = cs" "cells q2 = cells q"
    "depth q2 = depth q"
    using pool.put_item [OF q1(2), of c] q1 by auto
  have "mq_inv q2" using inv q2 cs by (auto simp: mq_inv_def)
  moreover have "mq_contents q2 = xs" using q2 xs' by (simp add: mq_contents_def)
  ultimately show ?thesis using q1 q2 load by (simp add: mq_pop_def)
qed

lemma mq_contents_bounded: "mq_inv q \<Longrightarrow> length (mq_contents q) \<le> depth q"
  by (simp add: mq_inv_def mq_contents_def)

interpretation mq: channel mq_inv mq_contents depth mq_push mq_pop
  by unfold_locales
    (blast intro: mq_push_room mq_push_full mq_pop_nil mq_pop_cons mq_contents_bounded)+

section \<open>Initialisation\<close>

lemma bit_or_shift:
  "bit (x OR drop_bit m x) n \<longleftrightarrow> bit x n \<or> bit x (n + m)" for x :: u32
  by (simp add: bit_simps add.commute)

text \<open>After the five shifts a bit is set when it or any higher bit of the input is.\<close>

definition smear :: "u32 \<Rightarrow> u32" where
  "smear x0 =
     (let x = x0;
          x = x OR drop_bit 1 x;
          x = x OR drop_bit 2 x;
          x = x OR drop_bit 4 x;
          x = x OR drop_bit 8 x;
          x = x OR drop_bit 16 x
      in x)"

lemma round_to_pow2_smear: "round_to_pow2 x = smear (x - 1) + 1"
  by (simp add: round_to_pow2_def smear_def Let_def)

lemma bit_smear_step:
  fixes x y :: u32
  assumes "\<And>n. bit y n \<longleftrightarrow> (\<exists>k < m. bit x (n + k))"
  shows "bit (y OR drop_bit m y) n \<longleftrightarrow> (\<exists>k < m + m. bit x (n + k))"
proof -
  have "(\<exists>k < m. bit x (n + m + k)) \<longleftrightarrow> (\<exists>k < m + m. m \<le> k \<and> bit x (n + k))"
    by (metis add.assoc add_less_cancel_left le_add1 le_add_diff_inverse)
  moreover have "(\<exists>k < m + m. bit x (n + k)) \<longleftrightarrow>
      (\<exists>k < m. bit x (n + k)) \<or> (\<exists>k < m + m. m \<le> k \<and> bit x (n + k))"
    by (metis not_le trans_less_add1)
  ultimately show ?thesis by (simp add: bit_or_shift assms)
qed

lemma bit_smear: "bit (smear x) n \<longleftrightarrow> (\<exists>k < 32. bit x (n + k))"
proof -
  define x1 where "x1 = x OR drop_bit 1 x"
  define x2 where "x2 = x1 OR drop_bit 2 x1"
  define x3 where "x3 = x2 OR drop_bit 4 x2"
  define x4 where "x4 = x3 OR drop_bit 8 x3"
  have "bit x1 n \<longleftrightarrow> (\<exists>k < 1 + 1. bit x (n + k))" for n
    unfolding x1_def by (rule bit_smear_step) simp
  then have "bit x2 n \<longleftrightarrow> (\<exists>k < 2 + 2. bit x (n + k))" for n
    unfolding x2_def by (intro bit_smear_step) (simp add: numeral_2_eq_2)
  then have "bit x3 n \<longleftrightarrow> (\<exists>k < 4 + 4. bit x (n + k))" for n
    unfolding x3_def by (intro bit_smear_step) simp
  then have "bit x4 n \<longleftrightarrow> (\<exists>k < 8 + 8. bit x (n + k))" for n
    unfolding x4_def by (intro bit_smear_step) simp
  then have "bit (x4 OR drop_bit 16 x4) n \<longleftrightarrow> (\<exists>k < 16 + 16. bit x (n + k))"
    by (intro bit_smear_step) simp
  then show ?thesis
    by (simp add: smear_def x1_def x2_def x3_def x4_def Let_def)
qed

lemma bit_unat_u32: "bit (w :: u32) n \<longleftrightarrow> odd (unat w div 2 ^ n)"
proof -
  have "bit (unat w) n \<longleftrightarrow> bit w n" by (auto simp: bit_unsigned_iff dest: bit_imp_le_length)
  then show ?thesis by (simp add: bit_iff_odd)
qed

lemma smear_eq_mask:
  fixes y :: u32
  assumes "2 ^ m \<le> unat y" and "unat y < 2 ^ Suc m"
  shows "smear y = mask (Suc m)"
proof (rule bit_word_eqI)
  fix n
  assume "n < LENGTH(32)"
  then have n: "n < 32" by simp
  have top: "bit y m"
  proof -
    have "unat y div 2 ^ m = 1" using assms by (intro div_nat_eqI) simp_all
    then show ?thesis by (simp add: bit_unat_u32)
  qed
  have above: "\<not> bit y j" if "m < j" for j
  proof -
    have "(2::nat) ^ Suc m \<le> 2 ^ j" using that by (intro power_increasing) simp_all
    then show ?thesis using assms(2) by (simp add: bit_unat_u32)
  qed
  have m: "m < 32" using top bit_imp_le_length [of y m] by simp
  show "bit (smear y) n = bit (mask (Suc m) :: u32) n"
  proof (cases "n \<le> m")
    case True
    then have "m - n < 32 \<and> bit y (n + (m - n))" using top m by simp
    then show ?thesis using True n unfolding bit_smear by (auto simp: bit_mask_iff)
  next
    case False
    then show ?thesis using above by (auto simp: bit_smear bit_mask_iff)
  qed
qed

lemma round_to_pow2_least:
  assumes "0 < unat x" and "unat x \<le> 2 ^ 31"
  shows "\<exists>j \<le> 31. unat (round_to_pow2 x) = 2 ^ j \<and> unat x \<le> 2 ^ j
    \<and> (\<forall>i. unat x \<le> 2 ^ i \<longrightarrow> j \<le> i)"
proof -
  have "x \<noteq> 0" using assms(1) by auto
  then have y: "unat (x - 1) = unat x - 1" by (rule unat_minus_one)
  show ?thesis
  proof (cases "unat x = 1")
    case True
    then have "x = 1" by (metis unsigned_1 word_unat_eq_iff)
    then show ?thesis by (intro exI [of _ 0]) (simp add: round_to_pow2_def)
  next
    case False
    then have "1 \<le> unat x - 1" using assms(1) by linarith
    then obtain m where m: "2 ^ m \<le> unat x - 1" "unat x - 1 < 2 ^ (m + 1)"
      using ex_power_ivl1 [of 2 "unat x - 1"] by auto
    have "(2::nat) ^ m < 2 ^ 31" using m(1) assms by simp
    then have m31: "m < 31" by (rule power_less_imp_less_exp [rotated]) simp
    have "round_to_pow2 x = mask (Suc m) + 1"
      using m by (simp add: round_to_pow2_smear smear_eq_mask y)
    then have "round_to_pow2 x = 2 ^ Suc m"
      by (simp add: mask_eq_exp_minus_1)
    moreover have "unat (2 ^ Suc m :: u32) = 2 ^ Suc m"
    proof -
      have "(2::nat) ^ Suc m < 2 ^ 32" using m31 by (intro power_strict_increasing) simp_all
      then have "unat (of_nat (2 ^ Suc m) :: u32) = 2 ^ Suc m"
        by (subst unat_of_nat) simp
      then show ?thesis by simp
    qed
    moreover have "Suc m \<le> i" if "unat x \<le> 2 ^ i" for i
    proof -
      have "(2::nat) ^ m < 2 ^ i" using m(1) that assms(1) by linarith
      then show ?thesis by simp
    qed
    ultimately show ?thesis
      using m m31 assms(1) by (intro exI [of _ "Suc m"]) auto
  qed
qed

text \<open>The memory of the queue holds one cell for every slot.\<close>

lemma cells_fit:
  fixes w :: u32
  assumes ms: "0 < msize" "pad_size msize * (2 * d) \<le> 2 ^ 32" and d: "0 < d" "d \<le> 2 ^ 30"
    and j: "unat w = 2 ^ j" "\<forall>i. nat d \<le> 2 ^ i \<longrightarrow> j \<le> i"
  shows "unat (word_of_int (pad_size msize) * w) div unat (word_of_int (pad_size msize) :: u32) = 2 ^ j"
proof -
  have pos: "0 < pad_size msize"
    using ms(1) pos_mod_bound [of 8 msize] unfolding pad_size_def by presburger
  have "2 ^ j < 2 * nat d"
  proof (cases j)
    case 0
    then show ?thesis using d by simp
  next
    case (Suc i)
    then have "\<not> nat d \<le> 2 ^ i" using j(2) by force
    then show ?thesis using Suc by simp
  qed
  then have "(2::int) ^ j < 2 * d"
    using d(1) by (metis nat_less_iff of_nat_numeral of_nat_power nat_mult_distrib nat_numeral
        zero_le_numeral int_ops(3) zless_nat_eq_int_zless nat_int less_imp_le)
  then have lt: "pad_size msize * 2 ^ j < 2 ^ 32"
    using pos ms(2) by (meson less_le_trans mult_strict_left_mono)
  have "pad_size msize * 1 \<le> pad_size msize * 2 ^ j"
    using pos by (intro mult_left_mono) simp_all
  then have small: "pad_size msize < 2 ^ 32" using lt by linarith
  have u: "unat (word_of_int (pad_size msize) :: u32) = nat (pad_size msize)"
    using pos small by (simp add: unsigned_of_int take_bit_int_eq_self)
  have "nat (pad_size msize) * 2 ^ j = nat (pad_size msize * 2 ^ j)"
    using pos by (simp add: nat_mult_distrib nat_power_eq)
  also have "\<dots> < 2 ^ 32" using lt pos by (simp add: nat_less_iff)
  finally have "unat (word_of_int (pad_size msize) * w) = nat (pad_size msize) * 2 ^ j"
    by (simp add: unat_word_ariths u j(1))
  then show ?thesis using pos by (simp add: u)
qed

text \<open>The product of message size and depth must not wrap around: \<open>2 * d\<close> bounds the depth.\<close>

lemma message_queue_init_ok:
  assumes init: "message_queue_init msize d mallocs sem_a sem_q = Some q"
    and d: "0 < d" "d \<le> 2 ^ 30" and ms: "0 < msize" "pad_size msize * (2 * d) \<le> 2 ^ 32"
  shows "\<exists>j \<le> 30. depth q = 2 ^ j \<and> nat d \<le> 2 ^ j \<and> (\<forall>i. nat d \<le> 2 ^ i \<longrightarrow> j \<le> i)
    \<and> mq_inv q \<and> mq_contents q = [] \<and> free_cells q = [0..<depth q]"
proof -
  let ?x = "word_of_int d :: u32"
  have x: "unat ?x = nat d"
    using d by (simp add: unsigned_of_int take_bit_int_eq_self)
  have "0 < unat ?x" "unat ?x \<le> 2 ^ 31" using d by (simp_all add: x nat_le_iff)
  from round_to_pow2_least [OF this] obtain j where
    j: "unat (round_to_pow2 ?x) = 2 ^ j" "nat d \<le> 2 ^ j" "\<forall>i. nat d \<le> 2 ^ i \<longrightarrow> j \<le> i"
    unfolding x by blast
  have j30: "j \<le> 30" using j(3) d by simp
  define ms :: u32 where "ms = word_of_int (pad_size msize)"
  have cells: "unat (ms * round_to_pow2 ?x) div unat ms = 2 ^ j"
    unfolding ms_def by (rule cells_fit [OF ms d j(1,3)])
  have "(2::int) ^ j \<le> 2 ^ 30" using j30 by (intro power_increasing) simp_all
  moreover have "- 2147483648 \<le> (2::int) ^ j"
    by (rule order_trans [of _ 0]) simp_all
  ultimately have small: "- (2 ^ 31) \<le> (2::int) ^ j" "(2::int) ^ j < 2 ^ 31" by simp_all
  have sint: "sint (round_to_pow2 ?x) = int (2 ^ j)"
    using j(1) signed_take_bit_int_eq_self [OF small] by (simp add: sint_uint uint_nat)
  have nats: "nat (2 ^ j) = 2 ^ j" by (simp add: nat_power_eq)
  obtain sa sq where q: "q = \<lparr>message_size = ms, max_depth = round_to_pow2 ?x,
      freelist = map Some [0..<2 ^ j], queue_data = replicate (2 ^ j) None,
      cells = replicate (2 ^ j) None, free_blocks = int (2 ^ j),
      allocpos = 0, freepos = 0,
      alloc_blocked_readers = 0, alloc_sem_ptr = sa, alloc_sem = 0,
      entries = 0, readpos = 0, writepos = 0,
      blocked_readers = 0, queue_sem_ptr = sq, queue_sem = 0\<rparr>"
    using init unfolding message_queue_init_def Let_def ms_def [symmetric] cells sint
    by (auto simp: nats split: if_splits option.splits prod.splits)
  have dep: "depth q = 2 ^ j" by (simp add: q depth_def j)
  have word: "round_to_pow2 ?x = of_nat (2 ^ j)"
    using arg_cong [OF j(1), of "of_nat :: nat \<Rightarrow> u32"] by simp
  have dvd: "(2::nat) ^ j dvd 2 ^ 32" using j30 by (intro le_imp_power_dvd) simp
  have "mq_rep q [0..<2 ^ j] []"
    using dep dvd word by (auto simp: mq_rep_def q ring_rep_def)
  then show ?thesis
    using j j30 dep by (auto simp: mq_rep_wf mq_inv_def mq_contents_def)
qed

section \<open>The blocking read\<close>

lemma mq_rep_readers: "mq_rep (q\<lparr>blocked_readers := b\<rparr>) fs qs = mq_rep q fs qs"
  by (simp add: mq_rep_def depth_def)

lemma read_available:
  "mq_rep q fs (c # qs) \<Longrightarrow>
    \<exists>q'. message_queue_read q = Some (c, q') \<and> mq_rep q' fs qs \<and> cells q' = cells q"
  using tryread_cons [of q fs c qs] by (auto simp: message_queue_read_def)

lemma read_empty_blocks:
  assumes "mq_rep q fs []" and "queue_sem q = 0"
  shows "message_queue_read q = None"
proof -
  have "message_queue_tryread (q\<lparr>blocked_readers := blocked_readers q + 1\<rparr>)
      = Some (None, q\<lparr>blocked_readers := blocked_readers q + 1\<rparr>)"
    using assms by (intro tryread_empty) (simp add: mq_rep_readers)
  then have "message_queue_read_loop q = None"
    using assms(2) by (subst message_queue_read_loop.simps) (simp add: Let_def)
  then show ?thesis
    using tryread_empty [OF assms(1)] by (simp add: message_queue_read_def)
qed

text \<open>The blocking allocation returns the oldest free cell, and sleeps when there is none.\<close>

lemma alloc_blocking_available:
  "mq_rep q (c # fs) qs \<Longrightarrow>
    \<exists>q'. message_queue_message_alloc_blocking q = Some (c, q') \<and> mq_rep q' fs qs \<and> cells q' = cells q"
  using alloc_cons [of q c fs qs] by (auto simp: message_queue_message_alloc_blocking_def)

lemma mq_rep_alloc_readers: "mq_rep (q\<lparr>alloc_blocked_readers := b\<rparr>) fs qs = mq_rep q fs qs"
  by (simp add: mq_rep_def depth_def)

lemma alloc_blocking_empty:
  assumes "mq_rep q [] qs" and "alloc_sem q = 0"
  shows "message_queue_message_alloc_blocking q = None"
proof -
  have "message_queue_message_alloc (q\<lparr>alloc_blocked_readers := alloc_blocked_readers q + 1\<rparr>)
      = Some (None, q\<lparr>alloc_blocked_readers := alloc_blocked_readers q + 1\<rparr>)"
    using assms by (intro alloc_empty [of _ qs]) (simp add: mq_rep_alloc_readers)
  then have "message_queue_alloc_loop q = None"
    using assms(2) by (subst message_queue_alloc_loop.simps) (simp add: Let_def)
  then show ?thesis
    using alloc_empty [OF assms(1)] by (simp add: message_queue_message_alloc_blocking_def)
qed

text \<open>The destructor compares the allocator's semaphore with the address of the queue's.\<close>

lemma destroy_closes_unnamed_alloc_sem:
  assumes "message_queue_init msize d mallocs (True, x) sem_q = Some q"
  shows "Sem_close Unnamed_alloc \<in> set (message_queue_destroy q)
    \<and> Sem_destroy Unnamed_alloc \<notin> set (message_queue_destroy q)"
  using assms
  by (auto simp: message_queue_init_def setup_sem_def message_queue_destroy_def Let_def
      split: if_splits option.splits prod.splits)

section \<open>Properties\<close>

text \<open>
  C36: Run by one thread at a time, a message queue behaves as a list of at most \<open>depth\<close> pointers:
  every sequence of client operations (allocate, store and write; or read, load and free) returns
  the results of the list operations, oldest pointer first, and never spins.
\<close>

theorem message_queue_refines_list:
  assumes "mq_inv q"
  shows "\<exists>q'. run_ops mq_push mq_pop ops q = Some (fst (spec_ops (depth q) ops (mq_contents q)), q')
    \<and> mq_inv q' \<and> mq_contents q' = snd (spec_ops (depth q) ops (mq_contents q))"
  using mq.run_ops_spec [OF assms, of ops] by blast

definition ex_queue :: "nat message_queue" where
  "ex_queue = the (message_queue_init 8 3 (True, True, True) (True, True) (True, True))"

lemma ex_queue_init:
  "message_queue_init 8 3 (True, True, True) (True, True) (True, True) = Some ex_queue"
proof -
  have "message_queue_init 8 3 (True, True, True) (True, True) (True, True)
      \<noteq> (None :: nat message_queue option)"
    by code_simp
  then show ?thesis by (simp add: ex_queue_def)
qed

lemma ex_queue_inv: "mq_inv ex_queue \<and> mq_contents ex_queue = []"
proof -
  have "pad_size 8 * (2 * 3) \<le> 2 ^ 32" by (simp add: pad_size_def)
  from message_queue_init_ok [OF ex_queue_init _ _ _ this] show ?thesis by auto
qed

theorem message_queue_refines_list_witness:
  "\<exists>q'. run_ops mq_push mq_pop [Send 7, Send 8, Receive, Receive, Receive] ex_queue =
      Some (fst (spec_ops (depth ex_queue) [Send 7, Send 8, Receive, Receive, Receive]
              (mq_contents ex_queue)), q')
    \<and> mq_inv q' \<and> mq_contents q' = snd (spec_ops (depth ex_queue)
          [Send 7, Send 8, Receive, Receive, Receive] (mq_contents ex_queue))"
  by (rule message_queue_refines_list) (simp add: ex_queue_inv)

text \<open>
  A successful initialisation gives an empty queue whose depth is the least power of two that
  is at least the depth asked for, with every cell free, as long as the size of the cells and the
  depth do not overflow the 32-bit product.
\<close>

theorem message_queue_init_establishes:
  assumes "message_queue_init msize d mallocs sem_a sem_q = Some q"
    and "0 < d" and "d \<le> 2 ^ 30" and "0 < msize" and "pad_size msize * (2 * d) \<le> 2 ^ 32"
  shows "\<exists>j \<le> 30. depth q = 2 ^ j \<and> nat d \<le> 2 ^ j \<and> (\<forall>i. nat d \<le> 2 ^ i \<longrightarrow> j \<le> i)
    \<and> mq_inv q \<and> mq_contents q = [] \<and> free_cells q = [0..<depth q]"
  by (rule message_queue_init_ok [OF assms])

theorem message_queue_init_establishes_witness:
  "\<exists>j \<le> 30. depth ex_queue = 2 ^ j \<and> nat 3 \<le> 2 ^ j \<and> (\<forall>i. nat 3 \<le> 2 ^ i \<longrightarrow> j \<le> i)
    \<and> mq_inv ex_queue \<and> mq_contents ex_queue = [] \<and> free_cells ex_queue = [0..<depth ex_queue]"
  by (rule message_queue_init_establishes [OF ex_queue_init]) (simp_all add: pad_size_def)

text \<open>
  A blocking read returns the oldest cell of a queue that holds one, and does not return from
  an empty queue whose semaphore has not been posted.
\<close>

theorem message_queue_read_waits:
  assumes "mq_inv q"
  shows "(\<forall>c cs. queued_cells q = c # cs \<longrightarrow>
      (\<exists>q'. message_queue_read q = Some (c, q') \<and> queued_cells q' = cs \<and> cells q' = cells q))
    \<and> (queued_cells q = [] \<longrightarrow> queue_sem q = 0 \<longrightarrow> message_queue_read q = None)"
proof -
  have rep: "mq_rep q (free_cells q) (queued_cells q)"
    using assms by (simp add: mq_inv_def mq_wf_def)
  then show ?thesis
    using read_available [of q] read_empty_blocks [of q] mq_rep_lists by (metis (no_types, lifting))
qed

theorem message_queue_read_waits_witness: "message_queue_read ex_queue = None"
proof -
  have "queue_sem ex_queue = 0 \<and> queued_cells ex_queue = []" by code_simp
  then show ?thesis using message_queue_read_waits [of ex_queue] ex_queue_inv by blast
qed

text \<open>
  Destroying a queue whose allocator semaphore was initialised in place closes that semaphore
  as if it were a named one and never destroys it, because the code compares its address with
  that of the other semaphore.
\<close>

theorem message_queue_destroy_wrong_release:
  assumes "message_queue_init msize d mallocs (True, x) sem_q = Some q"
  shows "Sem_close Unnamed_alloc \<in> set (message_queue_destroy q)
    \<and> Sem_destroy Unnamed_alloc \<notin> set (message_queue_destroy q)"
  by (rule destroy_closes_unnamed_alloc_sem [OF assms])

theorem message_queue_destroy_wrong_release_witness:
  "Sem_close Unnamed_alloc \<in> set (message_queue_destroy ex_queue)
    \<and> Sem_destroy Unnamed_alloc \<notin> set (message_queue_destroy ex_queue)"
  by (rule message_queue_destroy_wrong_release [OF ex_queue_init])

text \<open>
  The bit tricks of \<open>round_to_pow2\<close> compute the reference definition: for an argument between
  1 and 2^31 the result is the least power of two that is not smaller than the argument.
\<close>

theorem round_to_pow2_least_power:
  assumes "0 < unat x" and "unat x \<le> 2 ^ 31"
  shows "unat (round_to_pow2 x) = 2 ^ (LEAST j. unat x \<le> 2 ^ j)"
proof -
  obtain j where j: "unat (round_to_pow2 x) = 2 ^ j" "unat x \<le> 2 ^ j"
    "\<forall>i. unat x \<le> 2 ^ i \<longrightarrow> j \<le> i"
    using round_to_pow2_least [OF assms] by blast
  then have "(LEAST i. unat x \<le> 2 ^ i) = j" by (intro Least_equality) simp_all
  then show ?thesis using j(1) by simp
qed

theorem round_to_pow2_least_power_witness:
  "unat (round_to_pow2 100) = 2 ^ (LEAST j. (100::nat) \<le> 2 ^ j)"
  using round_to_pow2_least_power [of 100] by simp

end
