(* ===== verification/ErrorCodes.thy ===== *)
theory ErrorCodes
  imports Prelude
begin

text \<open>
  The framework's error codes (framework/error.h): the enumeration, the 16-bit value a message
  header carries for each, and the checked cast back.
\<close>

datatype error_code =
    NONE
  | POLL_ERROR
  | FORK_FAILED
  | EXEC_FAILED
  | BAD_TESTCASE
  | BAD_FRAGMENT_ID
  | BAD_MESSAGE_CODE
  | MALFORMED_MESSAGE
  | RECV_ZERO_PENDING
  | RECV_WAIT_TIMEOUT
  | SEND_REQS_TIMEOUT
  | FRAGMENT_EXCEPTION
  | SOCKET_BIND_FAILED
  | SOCKET_ACCEPT_FAILED
  | SOCKET_CREATE_FAILED
  | SOCKET_LISTEN_FAILED
  | SOCKET_BAD_OPERATION
  | SOCKET_CONNECT_FAILED
  | SOCKET_OPTIONS_FAILED
  | SOCKET_ACCEPT_TIMEOUT
  | FRAGMENT_PCAP_MQ_FULL
  | CTRL_CONNECTION_BROKEN
  | PCAP_CONNECTION_BROKEN
  | FRAGMENT_INVALID_SADDR
  | FRAGMENT_INVALID_CADDR
  | MIXNET_BAD_PACKET_SIZE
  | MIXNET_CONNECTION_BROKEN
  | FRAGMENT_BAD_NEIGHBOR_COUNT
  | FRAGMENT_THREADS_NONRESPONSIVE
  | FRAGMENT_DUPLICATE_LOCAL_ADDRS

text \<open>The enumerators in declaration order: position is value.\<close>

definition error_code_enum :: "error_code list" where
  "error_code_enum =
    [NONE, POLL_ERROR, FORK_FAILED, EXEC_FAILED, BAD_TESTCASE, BAD_FRAGMENT_ID,
     BAD_MESSAGE_CODE, MALFORMED_MESSAGE, RECV_ZERO_PENDING, RECV_WAIT_TIMEOUT,
     SEND_REQS_TIMEOUT, FRAGMENT_EXCEPTION, SOCKET_BIND_FAILED, SOCKET_ACCEPT_FAILED,
     SOCKET_CREATE_FAILED, SOCKET_LISTEN_FAILED, SOCKET_BAD_OPERATION, SOCKET_CONNECT_FAILED,
     SOCKET_OPTIONS_FAILED, SOCKET_ACCEPT_TIMEOUT, FRAGMENT_PCAP_MQ_FULL,
     CTRL_CONNECTION_BROKEN, PCAP_CONNECTION_BROKEN, FRAGMENT_INVALID_SADDR,
     FRAGMENT_INVALID_CADDR, MIXNET_BAD_PACKET_SIZE, MIXNET_CONNECTION_BROKEN,
     FRAGMENT_BAD_NEIGHBOR_COUNT, FRAGMENT_THREADS_NONRESPONSIVE,
     FRAGMENT_DUPLICATE_LOCAL_ADDRS]"

definition ERROR_ENUMERATION_LIMIT :: nat where
  "ERROR_ENUMERATION_LIMIT = length error_code_enum"

text \<open>\<open>static_cast<uint16_t>(error_code)\<close>, and the cast of \<open>message::get_error_code\<close>.\<close>

definition error_code_value :: "error_code \<Rightarrow> u16" where
  "error_code_value e = of_nat (index_of e error_code_enum)"

definition error_code_of_value :: "u16 \<Rightarrow> error_code option" where
  "error_code_of_value v =
     (if unat v < ERROR_ENUMERATION_LIMIT then Some (error_code_enum ! unat v) else None)"

lemma error_code_enum_UNIV: "e \<in> set error_code_enum"
  by (cases e) (simp_all add: error_code_enum_def)

lemma distinct_error_code_enum: "distinct error_code_enum"
  by (simp add: error_code_enum_def)

lemma ERROR_ENUMERATION_LIMIT_eq [simp]: "ERROR_ENUMERATION_LIMIT = 30"
  by (simp add: ERROR_ENUMERATION_LIMIT_def error_code_enum_def)

lemma unat_error_code_value: "unat (error_code_value e) = index_of e error_code_enum"
proof -
  have "index_of e error_code_enum < 30"
    using index_of_less [OF error_code_enum_UNIV, of e]
    by (simp add: error_code_enum_def)
  then show ?thesis by (simp add: error_code_value_def unat_of_nat)
qed

lemma error_code_of_value_value [simp]: "error_code_of_value (error_code_value e) = Some e"
  using index_of_less [OF error_code_enum_UNIV, of e]
  by (simp add: error_code_of_value_def unat_error_code_value nth_index_of
      error_code_enum_UNIV ERROR_ENUMERATION_LIMIT_def del: ERROR_ENUMERATION_LIMIT_eq)

lemma error_code_value_NONE [simp]: "error_code_value NONE = 0"
  by (simp add: error_code_value_def error_code_enum_def)

lemma error_code_value_inject [simp]: "error_code_value a = error_code_value b \<longleftrightarrow> a = b"
  using error_code_of_value_value by (metis option.inject)

lemma error_code_value_eq_0 [simp]: "error_code_value e = 0 \<longleftrightarrow> e = NONE"
  using error_code_value_inject [of e NONE] by simp

lemma error_code_of_value_Some:
  "error_code_of_value v = Some e \<Longrightarrow> error_code_value e = v"
  by (auto simp: error_code_of_value_def error_code_value_def ERROR_ENUMERATION_LIMIT_def
      index_of_nth distinct_error_code_enum split: if_splits
      simp del: ERROR_ENUMERATION_LIMIT_eq)

section \<open>Properties\<close>

text \<open>
  Error codes survive the header: the value written for a code is below the enumeration
  limit and is read back as that code, and every value that is read back was written for it.
\<close>

theorem error_code_roundtrip:
  "unat (error_code_value e) < ERROR_ENUMERATION_LIMIT
    \<and> (error_code_of_value v = Some e \<longleftrightarrow> error_code_value e = v)"
proof -
  have "unat (error_code_value e) < ERROR_ENUMERATION_LIMIT"
    unfolding unat_error_code_value ERROR_ENUMERATION_LIMIT_def
    by (rule index_of_less [OF error_code_enum_UNIV])
  moreover have "error_code_of_value v = Some e \<longleftrightarrow> error_code_value e = v"
    by (metis error_code_of_value_Some error_code_of_value_value)
  ultimately show ?thesis ..
qed

end
