(* ===== verification/Networking.thy ===== *)
theory Networking
  imports ErrorCodes
begin

text \<open>
  The socket layer of the framework (framework/networking.h, framework/networking.cpp): opening
  and accepting connections, and sending and receiving length-prefixed messages.

  A system call is answered by the environment, one event per call in call order: the result of
  the call, the bytes that have arrived before it and the clock reading taken after it. A stream
  socket keeps the bytes that have arrived in order; \<open>recv\<close> takes from the front, or copies from
  the front with \<open>MSG_PEEK\<close>. A loop for which the events run out is \<open>Waiting\<close>; \<open>None\<close> is a
  failed \<open>assert\<close> or an access outside the caller's buffer.
\<close>

section \<open>Addresses and modes\<close>

record sockaddr_in =
  sin_family :: u16
  sin_port :: u16
  s_addr :: u32

definition equal_netaddrs :: "sockaddr_in \<Rightarrow> sockaddr_in \<Rightarrow> bool" where
  "equal_netaddrs a b \<longleftrightarrow>
     sin_port a = sin_port b \<and> sin_family a = sin_family b \<and> s_addr a = s_addr b"

lemma equal_netaddrs_eq [simp]: "equal_netaddrs a b \<longleftrightarrow> a = b"
  by (auto simp: equal_netaddrs_def)

datatype mode = RX_TX_BLOCKING | RX_TX_TIMEOUT | RX_TRY_ONCE

record config =
  rx_tx_mode :: mode
  timeout :: u64

definition block :: "config \<Rightarrow> bool" where
  "block c \<longleftrightarrow> rx_tx_mode c = RX_TX_BLOCKING"

definition try_once :: "config \<Rightarrow> bool" where
  "try_once c \<longleftrightarrow> rx_tx_mode c = RX_TRY_ONCE"

definition use_timeout :: "config \<Rightarrow> bool" where
  "use_timeout c \<longleftrightarrow> rx_tx_mode c = RX_TX_TIMEOUT"

lemmas mode_defs = block_def try_once_def use_timeout_def

text \<open>
  \<open>validate\<close> of networking.cpp. The first argument is what \<open>fcntl(F_GETFL)\<close> says of
  \<open>O_NONBLOCK\<close>, \<open>None\<close> when the call fails.
\<close>

definition validate_config :: "bool option \<Rightarrow> config \<Rightarrow> bool \<Rightarrow> error_code" where
  "validate_config nonblock c is_tx =
     (case nonblock of
        None \<Rightarrow> SOCKET_OPTIONS_FAILED
      | Some nb \<Rightarrow>
          if \<not> nb \<and> \<not> block c then SOCKET_BAD_OPERATION
          else if is_tx \<and> try_once c then SOCKET_BAD_OPERATION
          else NONE)"

section \<open>Sending\<close>

text \<open>
  The result of a \<open>send\<close>: bytes accepted, a transient error (\<open>EAGAIN\<close>, \<open>EWOULDBLOCK\<close>,
  \<open>ENOBUFS\<close>) or another error; and the milliseconds since the start of the operation.
\<close>

datatype tx_result = Tx nat | Tx_transient | Tx_error
type_synonym tx_event = "tx_result \<times> u64"

datatype 'a progress = Return error_code 'a | Waiting 'a

lemma map_progress_eq [simp]:
  "map_progress g r = Return ec y \<longleftrightarrow> (\<exists>x. r = Return ec x \<and> y = g x)"
  "map_progress g r = Waiting y \<longleftrightarrow> (\<exists>x. r = Waiting x \<and> y = g x)"
  by (cases r; auto)+

text \<open>The macro \<open>DIE_ON_ERROR\<close> of fragments and orchestrator.\<close>

fun die_on_error ::
  "'s progress option \<Rightarrow> ('s \<Rightarrow> 's progress option) \<Rightarrow> 's progress option" where
  "die_on_error None k = None"
| "die_on_error (Some (Waiting s)) k = Some (Waiting s)"
| "die_on_error (Some (Return ec s)) k = (if ec \<noteq> NONE then Some (Return ec s) else k s)"

text \<open>The last two arguments are the bytes still to send and the bytes on the wire.\<close>

fun send_loop ::
  "config \<Rightarrow> error_code \<Rightarrow> tx_event list \<Rightarrow> u64 \<Rightarrow> u8 list \<Rightarrow> u8 list \<Rightarrow> u8 list progress" where
  "send_loop c conn evs delta rest wire =
     (if rest \<noteq> [] \<and> (\<not> use_timeout c \<or> delta < timeout c)
      then case evs of
          [] \<Rightarrow> Waiting wire
        | (r, ms) # evs' \<Rightarrow>
            let delta' = (if use_timeout c then ms else delta)
            in case r of
                Tx_error \<Rightarrow> Return conn wire
              | Tx_transient \<Rightarrow> send_loop c conn evs' delta' rest wire
              | Tx k \<Rightarrow> send_loop c conn evs' delta' (drop k rest) (wire @ take k rest)
      else Return (if rest = [] then NONE else SEND_REQS_TIMEOUT) wire)"

declare send_loop.simps [simp del]

definition send_generic ::
  "config \<Rightarrow> bool option \<Rightarrow> u8 list \<Rightarrow> error_code \<Rightarrow> u16 \<Rightarrow> u16 \<Rightarrow> tx_event list
    \<Rightarrow> u8 list progress option" where
  "send_generic c nonblock mem conn min_len max_len evs =
     (if \<not> max_len \<ge> min_len then None
      else if \<not> unat min_len \<ge> 2 then None
      else let ec = validate_config nonblock c True
        in if ec \<noteq> NONE then Some (Return ec [])
           else do {
             len \<leftarrow> rd_le 2 0 mem;
             if len < min_len \<or> len > max_len then Some (Return MALFORMED_MESSAGE [])
             else if length mem < unat len then None
             else Some (send_loop c conn evs 0 (take (unat len) mem) [])
           })"

section \<open>Receiving\<close>

datatype rx_fault = Transient | Fatal

record rx_event =
  arrived :: "u8 list"
  fault :: "rx_fault option"
  peer_closed :: bool
  chunk :: nat \<comment> \<open>most bytes this call returns; a call that finds bytes returns at least one\<close>
  elapsed :: u64

datatype rx_rc = Rc_transient | Rc_fatal | Rc_closed | Rc_bytes "u8 list"

text \<open>\<open>recv\<close> for \<open>n\<close> bytes: the result and the queue with the bytes that had arrived.\<close>

definition sys_recv :: "rx_event \<Rightarrow> u8 list \<Rightarrow> nat \<Rightarrow> rx_rc \<times> u8 list" where
  "sys_recv e q n =
     (let q' = q @ arrived e
      in (case fault e of
            Some Transient \<Rightarrow> Rc_transient
          | Some Fatal \<Rightarrow> Rc_fatal
          | None \<Rightarrow>
              if q' = [] then (if peer_closed e then Rc_closed else Rc_transient)
              else Rc_bytes (take (min n (max 1 (chunk e))) q'),
          q'))"

text \<open>
  The local variables of \<open>recv_generic\<close>: the position of \<open>buffer\<close> in the caller's memory, the
  \<open>MSG_PEEK\<close> flag, \<open>recv_started\<close>, \<open>expected_size\<close> and \<open>msg_length\<close>.
\<close>

record rx =
  rx_queue :: "u8 list"
  rx_mem :: buffer
  rx_off :: nat
  rx_peek :: bool
  recv_started :: bool
  expected_size :: nat
  msg_length :: nat

definition after_recv ::
  "config \<Rightarrow> error_code \<Rightarrow> u16 \<Rightarrow> u16 \<Rightarrow> nat \<Rightarrow> rx \<Rightarrow> error_code option \<times> rx" where
  "after_recv c conn min_len max_len n s =
     (if msg_length s = 0
      then if n = expected_size s
        then let len = (le_word (slice (rx_mem s) (rx_off s) 2) :: u16)
          in if len < min_len \<or> len > max_len then (Some MALFORMED_MESSAGE, s)
             else (None, s\<lparr>msg_length := unat len, expected_size := unat len,
                           rx_peek := (if block c then False else rx_peek s)\<rparr>)
        else if try_once c then (Some RECV_ZERO_PENDING, s)
        else (None, s)
      else if try_once c \<or> use_timeout c \<and> \<not> recv_started s
      then if n = expected_size s
        then if \<not> recv_started s then (None, s\<lparr>rx_peek := False, recv_started := True\<rparr>)
             else (Some NONE, s)
        else if try_once c then (Some (if recv_started s then conn else RECV_ZERO_PENDING), s)
        else (None, s)
      else let s1 = s\<lparr>recv_started := True, expected_size := expected_size s - n,
                      rx_off := rx_off s + n\<rparr>
        in (if expected_size s1 = 0 then Some NONE else None, s1))"

definition recv_step ::
  "config \<Rightarrow> nat \<Rightarrow> error_code \<Rightarrow> u16 \<Rightarrow> u16 \<Rightarrow> rx_event \<Rightarrow> rx
    \<Rightarrow> (error_code option \<times> rx) option" where
  "recv_step c cap conn min_len max_len e s =
     (let (rc, q) = sys_recv e (rx_queue s) (expected_size s);
          s0 = s\<lparr>rx_queue := q\<rparr>
      in case rc of
           Rc_transient \<Rightarrow> Some (if try_once c then Some RECV_ZERO_PENDING else None, s0)
         | Rc_fatal \<Rightarrow> Some (Some conn, s0)
         | Rc_closed \<Rightarrow> Some (Some conn, s0)
         | Rc_bytes bs \<Rightarrow>
             if rx_off s + length bs \<le> cap
             then Some (after_recv c conn min_len max_len (length bs)
               (s0\<lparr>rx_mem := buf_put (rx_off s) bs (rx_mem s),
                   rx_queue := (if rx_peek s then q else drop (length bs) q)\<rparr>))
             else None)"

fun recv_loop ::
  "config \<Rightarrow> nat \<Rightarrow> error_code \<Rightarrow> u16 \<Rightarrow> u16 \<Rightarrow> rx_event list \<Rightarrow> u64 \<Rightarrow> rx
    \<Rightarrow> rx progress option" where
  "recv_loop c cap conn min_len max_len evs delta s =
     (if \<not> use_timeout c \<or> delta < timeout c
      then case evs of
          [] \<Rightarrow> Some (Waiting s)
        | e # evs' \<Rightarrow> do {
            (r, s1) \<leftarrow> recv_step c cap conn min_len max_len e s;
            (case r of
               Some ec \<Rightarrow> Some (Return ec s1)
             | None \<Rightarrow> recv_loop c cap conn min_len max_len evs'
                 (if use_timeout c then elapsed e else delta) s1)
          }
      else Some (Return (if recv_started s then RECV_WAIT_TIMEOUT else RECV_ZERO_PENDING) s))"

declare recv_loop.simps [simp del]

text \<open>\<open>mem\<close> is the caller's memory, of \<open>cap\<close> bytes, and \<open>q\<close> the receive queue of the socket.\<close>

definition recv_init :: "buffer \<Rightarrow> u8 list \<Rightarrow> rx" where
  "recv_init mem q = \<lparr>rx_queue = q, rx_mem = mem, rx_off = 0, rx_peek = True,
     recv_started = False, expected_size = 2, msg_length = 0\<rparr>"

definition recv_generic ::
  "config \<Rightarrow> bool option \<Rightarrow> buffer \<Rightarrow> nat \<Rightarrow> error_code \<Rightarrow> u16 \<Rightarrow> u16 \<Rightarrow> u8 list
    \<Rightarrow> rx_event list \<Rightarrow> rx progress option" where
  "recv_generic c nonblock mem cap conn min_len max_len q evs =
     (if \<not> max_len \<ge> min_len then None
      else if \<not> unat min_len \<ge> 2 then None
      else let ec = validate_config nonblock c False
        in if ec \<noteq> NONE then Some (Return ec (recv_init mem q))
           else recv_loop c cap conn min_len max_len evs 0 (recv_init mem q))"

section \<open>What a send puts on the wire\<close>

text \<open>A prefix of the message; all of it exactly when the result is \<open>NONE\<close>.\<close>

lemma send_loop_wire:
  assumes "send_loop c conn evs delta rest wire = Return ec w" and "conn \<noteq> NONE"
  shows "\<exists>k \<le> length rest. w = wire @ take k rest \<and> (ec = NONE \<longleftrightarrow> k = length rest)
    \<and> (ec = NONE \<or> ec = conn \<or> ec = SEND_REQS_TIMEOUT \<and> use_timeout c)"
  using assms
proof (induction evs arbitrary: delta rest wire)
  case Nil
  then show ?case
    by (auto simp: send_loop.simps [of _ _ "[]"] split: if_splits intro: exI [of _ 0])
next
  case (Cons e evs)
  obtain r ms where e: "e = (r, ms)" by fastforce
  let ?d = "if use_timeout c then ms else delta"
  show ?case
  proof (cases "rest \<noteq> [] \<and> (\<not> use_timeout c \<or> delta < timeout c)")
    case False
    then show ?thesis
      using Cons.prems by (auto simp: send_loop.simps [of _ _ "_ # _"] split: if_splits
          intro: exI [of _ 0])
  next
    case True
    show ?thesis
    proof (cases r)
      case (Tx k)
      then have "send_loop c conn evs ?d (drop k rest) (wire @ take k rest) = Return ec w"
        using Cons.prems True e by (simp add: send_loop.simps [of _ _ "_ # _"])
      from Cons.IH [OF this Cons.prems(2)] obtain j where
        j: "j \<le> length rest - k" "w = wire @ take k rest @ take j (drop k rest)"
          "ec = NONE \<longleftrightarrow> j = length rest - k"
          "ec = NONE \<or> ec = conn \<or> ec = SEND_REQS_TIMEOUT \<and> use_timeout c"
        by auto
      show ?thesis
      proof (cases "k \<le> length rest")
        case True
        then show ?thesis using j
          by (intro exI [of _ "k + j"]) (auto simp: take_add)
      next
        case False
        then show ?thesis using j by (intro exI [of _ "length rest"]) auto
      qed
    next
      case Tx_transient
      then have "send_loop c conn evs ?d rest wire = Return ec w"
        using Cons.prems True e by (simp add: send_loop.simps [of _ _ "_ # _"])
      from Cons.IH [OF this Cons.prems(2)] show ?thesis .
    next
      case Tx_error
      then show ?thesis
        using Cons.prems True e by (auto simp: send_loop.simps [of _ _ "_ # _"] intro: exI [of _ 0])
    qed
  qed
qed

lemma send_generic_wire:
  assumes "send_generic c nb mem conn min_len max_len evs = Some (Return ec w)" and "conn \<noteq> NONE"
  shows "\<exists>k. w = take k mem
    \<and> (ec = NONE \<longrightarrow> (\<exists>len. rd_le 2 0 mem = Some len \<and> min_len \<le> len \<and> len \<le> max_len
          \<and> k = unat len \<and> unat len \<le> length mem))
    \<and> (ec \<noteq> NONE \<longrightarrow> w = [] \<or> (\<exists>len :: u16. rd_le 2 0 mem = Some len \<and> k < unat len))"
proof (cases "validate_config nb c True = NONE")
  case False
  then show ?thesis
    using assms by (auto simp: send_generic_def split: if_splits intro: exI [of _ 0])
next
  case True
  then obtain len :: u16 where len: "rd_le 2 0 mem = Some len"
    using assms by (auto simp: send_generic_def bind_eq_Some_conv split: if_splits)
  show ?thesis
  proof (cases "len < min_len \<or> len > max_len")
    case bad: True
    then have "ec = MALFORMED_MESSAGE" "w = []"
      using assms True len by (auto simp: send_generic_def split: if_splits)
    then show ?thesis by (intro exI [of _ 0]) simp
  next
    case False
    then have l: "unat len \<le> length mem"
      and loop: "send_loop c conn evs 0 (take (unat len) mem) [] = Return ec w"
      using assms True len by (auto simp: send_generic_def split: if_splits)
    from send_loop_wire [OF loop assms(2)] l obtain k where
      "k \<le> unat len" "w = take k mem" "ec = NONE \<longleftrightarrow> k = unat len"
      by (auto simp: min_absorb1)
    then show ?thesis using len l False by (intro exI [of _ k]) (auto simp: not_less)
  qed
qed

text \<open>In blocking mode a send returns once the socket has accepted enough bytes.\<close>

fun tx_bytes :: "tx_event list \<Rightarrow> nat" where
  "tx_bytes [] = 0"
| "tx_bytes ((Tx k, ms) # evs) = k + tx_bytes evs"
| "tx_bytes ((_, ms) # evs) = tx_bytes evs"

lemma send_loop_completes:
  assumes "\<not> use_timeout c" and "\<forall>ev \<in> set evs. fst ev \<noteq> Tx_error" and "length rest \<le> tx_bytes evs"
  shows "send_loop c conn evs delta rest wire = Return NONE (wire @ rest)"
  using assms(2,3)
proof (induction evs arbitrary: rest wire rule: tx_bytes.induct)
  case 1
  then show ?case using assms(1) by (simp add: send_loop.simps [of _ _ "[]"])
next
  case (2 k ms evs)
  then show ?case
    using 2(1) [of "drop k rest" "wire @ take k rest"] assms(1)
    by (auto simp: send_loop.simps [of _ _ "_ # _"])
qed (use assms(1) in \<open>auto simp: send_loop.simps [of _ _ "_ # _"]\<close>)

section \<open>What a receive takes from the queue\<close>

text \<open>
  The invariant of the loop, for the bytes the socket has delivered since the call
  (\<open>stream\<close>, the queue at the call included): before the length is known nothing is consumed;
  after it, the bytes below \<open>rx_off\<close> are the consumed front of the stream.
\<close>

definition rx_inv :: "config \<Rightarrow> u16 \<Rightarrow> u16 \<Rightarrow> u8 list \<Rightarrow> rx \<Rightarrow> bool" where
  "rx_inv c min_len max_len stream s \<longleftrightarrow>
     (if msg_length s = 0
      then rx_off s = 0 \<and> rx_peek s \<and> \<not> recv_started s \<and> expected_size s = 2 \<and> rx_queue s = stream
      else unat min_len \<le> msg_length s \<and> msg_length s \<le> unat max_len
        \<and> 2 \<le> length stream \<and> msg_length s = unat (le_word (take 2 stream) :: u16)
        \<and> 0 < expected_size s \<and> rx_off s + expected_size s = msg_length s
        \<and> stream = slice (rx_mem s) 0 (rx_off s) @ rx_queue s
        \<and> (rx_peek s \<longrightarrow> rx_off s = 0 \<and> \<not> recv_started s)
        \<and> (rx_off s \<noteq> 0 \<longrightarrow> recv_started s)
        \<and> (block c \<longrightarrow> \<not> rx_peek s)
        \<and> (\<not> block c \<longrightarrow> recv_started s = (\<not> rx_peek s))
        \<and> (try_once c \<longrightarrow> rx_off s = 0))"

text \<open>What a result says of the stream.\<close>

definition rx_post :: "config \<Rightarrow> error_code \<Rightarrow> u16 \<Rightarrow> u16 \<Rightarrow> u8 list \<Rightarrow> error_code \<Rightarrow> rx \<Rightarrow> bool" where
  "rx_post c conn min_len max_len stream ec s \<longleftrightarrow>
     (case ec of
        NONE \<Rightarrow>
          (\<exists>n. n = unat (le_word (take 2 stream) :: u16) \<and> n \<le> length stream
             \<and> unat min_len \<le> n \<and> n \<le> unat max_len
             \<and> slice (rx_mem s) 0 n = take n stream \<and> rx_queue s = drop n stream)
      | RECV_ZERO_PENDING \<Rightarrow> \<not> block c \<and> rx_queue s = stream
      | MALFORMED_MESSAGE \<Rightarrow>
          2 \<le> length stream \<and> rx_queue s = stream
          \<and> (let len = (le_word (take 2 stream) :: u16) in len < min_len \<or> max_len < len)
      | RECV_WAIT_TIMEOUT \<Rightarrow> use_timeout c \<and> (\<exists>k. rx_queue s = drop k stream)
      | _ \<Rightarrow> ec = conn)"

definition conn_error :: "error_code \<Rightarrow> bool" where
  "conn_error e \<longleftrightarrow> e \<notin> {NONE, RECV_ZERO_PENDING, MALFORMED_MESSAGE, RECV_WAIT_TIMEOUT}"

lemma rx_post_conn: "conn_error conn \<Longrightarrow> rx_post c conn mn mx stream conn s"
  by (cases conn) (simp_all add: rx_post_def conn_error_def)

lemma sys_recv_queue: "snd (sys_recv e q n) = q @ arrived e"
  by (simp add: sys_recv_def Let_def)

lemma sys_recv_bytes:
  assumes "fst (sys_recv e q n) = Rc_bytes bs" and "0 < n"
  shows "\<exists>k. bs = take k (q @ arrived e) \<and> 0 < length bs \<and> length bs \<le> n"
proof -
  have "bs = take (min n (max 1 (chunk e))) (q @ arrived e)" "q @ arrived e \<noteq> []"
    using assms by (auto simp: sys_recv_def Let_def split: option.splits rx_fault.splits if_splits)
  then show ?thesis using assms(2) by (intro exI [of _ "min n (max 1 (chunk e))"]) auto
qed

lemma take2_append: "2 \<le> length xs \<Longrightarrow> take 2 (xs @ ys) = take 2 xs"
  by simp

text \<open>New arrivals keep the invariant.\<close>

lemma rx_inv_arrive:
  assumes "rx_inv c mn mx stream s"
  shows "rx_inv c mn mx (stream @ bs) (s\<lparr>rx_queue := rx_queue s @ bs\<rparr>)"
  using assms by (auto simp: rx_inv_def take2_append split: if_splits)

lemma rx_inv_init: "rx_inv c mn mx q (recv_init mem q)"
  by (simp add: rx_inv_def recv_init_def)

lemma slice_Nil [simp]: "slice b off 0 = []"
  by (simp add: slice_def)

lemma slice_put_prefix:
  "slice (buf_put 0 bs b) 0 n = take n bs" if "n \<le> length bs"
  using that by (intro nth_equalityI) (auto simp: slice_def buf_put_def)

lemma slice_put_append:
  "slice (buf_put off bs b) 0 (off + length bs) = slice b 0 off @ bs"
  by (rule nth_equalityI) (auto simp: slice_def buf_put_def nth_append)

lemma after_recv_inv:
  assumes inv: "rx_inv c mn mx stream s" and mn: "2 \<le> unat mn" and conn: "conn_error conn"
    and bs: "bs = take k (rx_queue s)" "0 < length bs" "length bs \<le> expected_size s"
    and s': "s' = s\<lparr>rx_mem := buf_put (rx_off s) bs (rx_mem s),
                  rx_queue := (if rx_peek s then rx_queue s else drop (length bs) (rx_queue s))\<rparr>"
    and res: "after_recv c conn mn mx (length bs) s' = (r, t)"
  shows "case r of None \<Rightarrow> rx_inv c mn mx stream t | Some ec \<Rightarrow> rx_post c conn mn mx stream ec t"
proof (cases "msg_length s = 0")
  case True
  then have s: "rx_off s = 0" "rx_peek s" "\<not> recv_started s" "expected_size s = 2" "rx_queue s = stream"
    using inv by (simp_all add: rx_inv_def)
  have s'q: "rx_queue s' = stream" "rx_off s' = 0" "rx_peek s'" "\<not> recv_started s'"
    "expected_size s' = 2" "msg_length s' = 0" "rx_mem s' = buf_put 0 bs (rx_mem s)"
    using s s' True by simp_all
  have same: "rx_inv c mn mx stream s'" using s'q by (simp add: rx_inv_def)
  show ?thesis
  proof (cases "length bs = 2")
    case two: True
    then have "2 \<le> length stream" "bs = take 2 stream"
      using bs(1) s(5) by (auto simp: min_def split: if_splits)
    then have len: "slice (rx_mem s') 0 2 = take 2 stream" and l2: "2 \<le> length stream"
      using two by (simp_all add: s'q slice_put_prefix)
    have mode: "\<not> try_once c \<or> \<not> block c" "block c \<or> \<not> block c" by (auto simp: mode_defs)
    show ?thesis
    proof (cases "(le_word (take 2 stream) :: u16) < mn \<or> mx < (le_word (take 2 stream) :: u16)")
      case bad: True
      then have "r = Some MALFORMED_MESSAGE" "t = s'"
        using res two len by (auto simp: after_recv_def s'q Let_def)
      then show ?thesis using bad l2 s'q by (simp add: rx_post_def Let_def)
    next
      case False
      then have rt: "r = None" "t = s'\<lparr>msg_length := unat (le_word (take 2 stream) :: u16),
          expected_size := unat (le_word (take 2 stream) :: u16),
          rx_peek := (if block c then False else rx_peek s')\<rparr>"
        using res two len by (auto simp: after_recv_def s'q Let_def)
      have bounds: "unat mn \<le> unat (le_word (take 2 stream) :: u16)"
        "unat (le_word (take 2 stream) :: u16) \<le> unat mx"
        using False by (simp_all add: not_less word_le_nat_alt)
      then have "0 < unat (le_word (take 2 stream) :: u16)" using mn by linarith
      then show ?thesis using rt bounds l2 s'q by (simp add: rx_inv_def)
    qed
  next
    case False
    then have "(r, t) = (if try_once c then Some RECV_ZERO_PENDING else None, s')"
      using res by (simp add: after_recv_def s'q split: if_splits)
    then show ?thesis
      using same s'q by (auto simp: rx_post_def mode_defs split: if_splits)
  qed
next
  case False
  let ?len = "msg_length s"
  have s: "unat mn \<le> ?len" "?len \<le> unat mx" "2 \<le> length stream"
    "?len = unat (le_word (take 2 stream) :: u16)" "0 < expected_size s"
    "rx_off s + expected_size s = ?len" "stream = slice (rx_mem s) 0 (rx_off s) @ rx_queue s"
    "rx_peek s \<Longrightarrow> rx_off s = 0 \<and> \<not> recv_started s" "rx_off s \<noteq> 0 \<Longrightarrow> recv_started s"
    "block c \<Longrightarrow> \<not> rx_peek s" "\<not> block c \<Longrightarrow> recv_started s = (\<not> rx_peek s)"
    "try_once c \<Longrightarrow> rx_off s = 0"
    using inv [unfolded rx_inv_def if_not_P [OF False]] by blast+
  have s'f: "rx_off s' = rx_off s" "rx_peek s' = rx_peek s" "recv_started s' = recv_started s"
    "expected_size s' = expected_size s" "msg_length s' = ?len"
    "rx_mem s' = buf_put (rx_off s) bs (rx_mem s)"
    "rx_queue s' = (if rx_peek s then rx_queue s else drop (length bs) (rx_queue s))"
    by (simp_all add: s')
  have full: "length bs = expected_size s \<Longrightarrow> bs = take (expected_size s) (rx_queue s)"
    using bs(1) by (metis append_take_drop_id append_eq_conv_conj)
  have whole: "slice (rx_mem s') 0 ?len = take ?len stream \<and> ?len \<le> length stream"
    if "length bs = expected_size s"
  proof -
    have "slice (rx_mem s') 0 (rx_off s + length bs) = slice (rx_mem s) 0 (rx_off s) @ bs"
      by (simp add: s'f slice_put_append)
    moreover have "length bs \<le> length (rx_queue s)" by (simp add: bs(1))
    moreover have d: "?len - rx_off s = expected_size s" "rx_off s \<le> ?len" using s(6) by simp_all
    ultimately show ?thesis
      using that full s(6) d by (simp add: s(7))
  qed
  show ?thesis
  proof (cases "try_once c \<or> use_timeout c \<and> \<not> recv_started s")
    case True
    then have nb: "\<not> block c" by (auto simp: mode_defs)
    then have st: "recv_started s = (\<not> rx_peek s)" by (rule s(11))
    have off0: "rx_off s = 0" using True s(9,12) by blast
    show ?thesis
    proof (cases "length bs = expected_size s")
      case all: True
      show ?thesis
      proof (cases "recv_started s")
        case started: True
        then have "r = Some NONE" "t = s'"
          using res True False all by (auto simp: after_recv_def s'f)
        moreover have "rx_queue s' = drop ?len stream"
          using started st off0 all s(6,7) by (simp add: s'f)
        ultimately show ?thesis
          using whole [OF all] s(1,2,4) by (simp add: rx_post_def)
      next
        case fresh: False
        then have "r = None" "t = s'\<lparr>rx_peek := False, recv_started := True\<rparr>"
          using res True False all by (auto simp: after_recv_def s'f)
        moreover have "rx_queue s' = stream" using fresh st off0 s(7) by (simp add: s'f)
        ultimately show ?thesis
          using s False off0 nb by (simp add: rx_inv_def s'f)
      qed
    next
      case part: False
      show ?thesis
      proof (cases "try_once c")
        case once: True
        then have rt: "r = Some (if recv_started s then conn else RECV_ZERO_PENDING)" "t = s'"
          using res False part by (auto simp: after_recv_def s'f)
        show ?thesis
        proof (cases "recv_started s")
          case True
          then show ?thesis using rt rx_post_conn [OF conn] by simp
        next
          case fresh: False
          then have "rx_queue s' = stream" using st off0 s(7) by (simp add: s'f)
          then show ?thesis using rt fresh nb by (simp add: rx_post_def)
        qed
      next
        case notonce: False
        then have fresh: "\<not> recv_started s" using True by blast
        then have "r = None" "t = s'"
          using res True False part notonce by (auto simp: after_recv_def s'f)
        moreover have "rx_queue s' = stream" using fresh st off0 s(7) by (simp add: s'f)
        ultimately show ?thesis
          using s False off0 nb fresh st notonce by (simp add: rx_inv_def s'f)
      qed
    qed
  next
    case consume: False
    have np: "\<not> rx_peek s"
      using consume s(10,11) by (cases "block c") (auto simp: mode_defs intro: mode.exhaust)
    let ?t = "s'\<lparr>recv_started := True, expected_size := expected_size s - length bs,
                 rx_off := rx_off s + length bs\<rparr>"
    have rt: "r = (if expected_size s = length bs then Some NONE else None)" "t = ?t"
      using res consume False bs(3) by (auto simp: after_recv_def s'f Let_def split: if_splits)
    have bq: "bs @ drop (length bs) (rx_queue s) = rx_queue s"
      using bs(1) by (metis append_take_drop_id append_eq_conv_conj)
    then have stream: "stream = slice (rx_mem ?t) 0 (rx_off ?t) @ rx_queue ?t"
      using s(7) np by (simp add: s'f slice_put_append)
    show ?thesis
    proof (cases "expected_size s = length bs")
      case True
      then have "?len = rx_off s + length bs" using s(6) by simp
      then have "rx_queue t = drop ?len stream"
        using arg_cong [OF stream, of "drop ?len"] rt(2) by simp
      then show ?thesis
        using rt True whole s(1,2,4) by (simp add: rx_post_def)
    next
      case more: False
      then have "0 < expected_size s - length bs" using bs(3) by simp
      moreover have tf: "rx_off t = rx_off s + length bs" "rx_peek t = False" "recv_started t = True"
        "expected_size t = expected_size s - length bs" "msg_length t = ?len"
        using np by (simp_all add: rt(2) s'f)
      moreover have "rx_off s + length bs + (expected_size s - length bs) = ?len"
        using s(6) bs(3) by simp
      moreover have "\<not> try_once c" using consume by blast
      ultimately have "rx_inv c mn mx stream t"
        using s(1-4) stream [folded rt(2)] unfolding rx_inv_def tf if_not_P [OF False] by blast
      then show ?thesis using rt(1) more by simp
    qed
  qed
qed

lemma rx_inv_expected: "rx_inv c mn mx stream s \<Longrightarrow> 0 < expected_size s"
  by (simp add: rx_inv_def split: if_splits)

lemma recv_step_inv:
  assumes inv: "rx_inv c mn mx stream s" and mn: "2 \<le> unat mn" and conn: "conn_error conn"
    and step: "recv_step c cap conn mn mx e s = Some (r, t)"
  shows "case r of None \<Rightarrow> rx_inv c mn mx (stream @ arrived e) t
    | Some ec \<Rightarrow> rx_post c conn mn mx (stream @ arrived e) ec t"
proof -
  obtain rc q where rcq: "sys_recv e (rx_queue s) (expected_size s) = (rc, q)" by fastforce
  then have q: "q = rx_queue s @ arrived e"
    using sys_recv_queue [of e "rx_queue s" "expected_size s"] by simp
  let ?s = "s\<lparr>rx_queue := q\<rparr>"
  have inv': "rx_inv c mn mx (stream @ arrived e) ?s"
    using rx_inv_arrive [OF inv, of "arrived e"] by (simp add: q)
  show ?thesis
  proof (cases rc)
    case Rc_transient
    then have rt: "r = (if try_once c then Some RECV_ZERO_PENDING else None)" "t = ?s"
      using step rcq by (auto simp: recv_step_def)
    show ?thesis
    proof (cases "try_once c")
      case True
      have "rx_queue ?s = stream @ arrived e"
        using inv' True unfolding rx_inv_def by (cases "msg_length ?s = 0") auto
      then show ?thesis using rt True by (simp add: rx_post_def mode_defs)
    next
      case False
      then show ?thesis using rt inv' by simp
    qed
  next
    case Rc_fatal
    then show ?thesis using step rcq rx_post_conn [OF conn] by (auto simp: recv_step_def)
  next
    case Rc_closed
    then show ?thesis using step rcq rx_post_conn [OF conn] by (auto simp: recv_step_def)
  next
    case (Rc_bytes bs)
    then have "fst (sys_recv e (rx_queue s) (expected_size s)) = Rc_bytes bs" by (simp add: rcq)
    from sys_recv_bytes [OF this rx_inv_expected [OF inv]] obtain k where
      bs: "bs = take k q" "0 < length bs" "length bs \<le> expected_size s"
      unfolding q by blast
    from Rc_bytes step rcq have "after_recv c conn mn mx (length bs)
        (?s\<lparr>rx_mem := buf_put (rx_off s) bs (rx_mem s),
            rx_queue := (if rx_peek s then q else drop (length bs) q)\<rparr>) = (r, t)"
      by (auto simp: recv_step_def split: if_splits)
    then have "after_recv c conn mn mx (length bs)
        (?s\<lparr>rx_mem := buf_put (rx_off ?s) bs (rx_mem ?s),
            rx_queue := (if rx_peek ?s then rx_queue ?s else drop (length bs) (rx_queue ?s))\<rparr>) = (r, t)"
      by (cases "rx_peek s") simp_all
    moreover have "bs = take k (rx_queue ?s)" "length bs \<le> expected_size ?s"
      using bs(1,3) by simp_all
    ultimately show ?thesis using after_recv_inv [OF inv' mn conn _ bs(2) _ refl] by blast
  qed
qed

text \<open>An access stays inside a buffer that is large enough for the largest message.\<close>

lemma recv_step_in_bounds:
  assumes inv: "rx_inv c mn mx stream s" and cap: "unat mx \<le> cap" "2 \<le> cap"
  shows "recv_step c cap conn mn mx e s \<noteq> None"
proof -
  obtain rc q where rcq: "sys_recv e (rx_queue s) (expected_size s) = (rc, q)" by fastforce
  have "rx_off s + expected_size s \<le> cap"
    using inv cap unfolding rx_inv_def by (cases "msg_length s = 0") auto
  then have "rx_off s + length bs \<le> cap" if "rc = Rc_bytes bs" for bs
    using sys_recv_bytes [of e "rx_queue s" "expected_size s" bs] rcq that rx_inv_expected [OF inv]
    by fastforce
  then show ?thesis by (cases rc) (simp_all add: recv_step_def rcq)
qed

lemma rx_inv_timeout:
  assumes "rx_inv c mn mx stream s" and "use_timeout c"
  shows "rx_post c conn mn mx stream (if recv_started s then RECV_WAIT_TIMEOUT else RECV_ZERO_PENDING) s"
proof (cases "recv_started s")
  case True
  then have "stream = slice (rx_mem s) 0 (rx_off s) @ rx_queue s"
    using assms(1) unfolding rx_inv_def by (cases "msg_length s = 0") simp_all
  then have "rx_queue s = drop (rx_off s) stream"
    by (metis append_eq_conv_conj length_slice)
  then show ?thesis using True assms(2) by (auto simp: rx_post_def)
next
  case False
  have "rx_queue s = stream"
    using assms(1) False unfolding rx_inv_def by (cases "msg_length s = 0") auto
  then show ?thesis using False assms(2) by (simp add: rx_post_def mode_defs)
qed

lemma recv_loop_post:
  assumes "rx_inv c mn mx stream s" and mn: "2 \<le> unat mn" and conn: "conn_error conn"
    and "recv_loop c cap conn mn mx evs delta s = Some (Return ec t)"
  shows "\<exists>k. rx_post c conn mn mx (stream @ concat (map arrived (take k evs))) ec t"
  using assms(1,4)
proof (induction evs arbitrary: delta s stream)
  case Nil
  then show ?case
    using rx_inv_timeout [OF Nil.prems(1), of conn]
    by (auto simp: recv_loop.simps [of _ _ _ _ _ "[]"] split: if_splits)
next
  case (Cons e evs)
  show ?case
  proof (cases "\<not> use_timeout c \<or> delta < timeout c")
    case False
    then show ?thesis
      using rx_inv_timeout [OF Cons.prems(1), of conn] Cons.prems(2)
      by (auto simp: recv_loop.simps [of _ _ _ _ _ "_ # _"] intro!: exI [of _ 0])
  next
    case True
    then have "Option.bind (recv_step c cap conn mn mx e s) (\<lambda>(r, s1). case r of
        Some ec' \<Rightarrow> Some (Return ec' s1)
      | None \<Rightarrow> recv_loop c cap conn mn mx evs (if use_timeout c then elapsed e else delta) s1)
      = Some (Return ec t)"
      using Cons.prems(2) by (simp add: recv_loop.simps [of _ _ _ _ _ "_ # _"])
    then obtain r s1 where step: "recv_step c cap conn mn mx e s = Some (r, s1)"
      and rest: "(case r of Some ec' \<Rightarrow> Some (Return ec' s1)
        | None \<Rightarrow> recv_loop c cap conn mn mx evs (if use_timeout c then elapsed e else delta) s1)
          = Some (Return ec t)"
      by (auto simp: bind_eq_Some_conv)
    note inv1 = recv_step_inv [OF Cons.prems(1) mn conn step]
    show ?thesis
    proof (cases r)
      case None
      then obtain k where "rx_post c conn mn mx
          ((stream @ arrived e) @ concat (map arrived (take k evs))) ec t"
        using Cons.IH [of "stream @ arrived e" s1] inv1 rest by auto
      then show ?thesis by (intro exI [of _ "Suc k"]) simp
    next
      case (Some ec')
      then show ?thesis using inv1 rest by (intro exI [of _ 1]) simp
    qed
  qed
qed

lemma recv_loop_in_bounds:
  assumes "rx_inv c mn mx stream s" and mn: "2 \<le> unat mn" and conn: "conn_error conn"
    and cap: "unat mx \<le> cap" "2 \<le> cap"
  shows "recv_loop c cap conn mn mx evs delta s \<noteq> None"
  using assms(1)
proof (induction evs arbitrary: delta s stream)
  case Nil
  then show ?case by (simp add: recv_loop.simps [of _ _ _ _ _ "[]"])
next
  case (Cons e evs)
  obtain r s1 where step: "recv_step c cap conn mn mx e s = Some (r, s1)"
    using recv_step_in_bounds [OF Cons.prems cap, of conn e] by auto
  show ?case
    using recv_step_inv [OF Cons.prems mn conn step] step Cons.IH [of "stream @ arrived e" s1]
    by (cases r) (auto simp: recv_loop.simps [of _ _ _ _ _ "_ # _"])
qed

lemma recv_generic_post:
  assumes "recv_generic c nb mem cap conn mn mx q evs = Some (Return ec t)"
    and "conn_error conn" and "validate_config nb c False = NONE"
  shows "\<exists>k. rx_post c conn mn mx (q @ concat (map arrived (take k evs))) ec t"
  using assms recv_loop_post [OF rx_inv_init]
  by (auto simp: recv_generic_def split: if_splits)

lemma recv_generic_in_bounds:
  assumes "mn \<le> mx" and "2 \<le> unat mn" and "conn_error conn" and "unat mx \<le> cap"
  shows "recv_generic c nb mem cap conn mn mx q evs \<noteq> None"
proof -
  have "2 \<le> cap" using assms by (simp add: word_le_nat_alt)
  then show ?thesis
    using assms recv_loop_in_bounds [OF rx_inv_init assms(2,3,4)]
    by (auto simp: recv_generic_def Let_def)
qed

text \<open>Three system calls are enough in try-once mode.\<close>

lemma recv_loop_step:
  assumes "\<not> use_timeout c" and "recv_step c cap conn mn mx e s = Some (r, s1)"
  shows "recv_loop c cap conn mn mx (e # evs) delta s =
    (case r of Some ec \<Rightarrow> Some (Return ec s1)
     | None \<Rightarrow> recv_loop c cap conn mn mx evs delta s1)"
  using assms by (simp add: recv_loop.simps [of _ _ _ _ _ "_ # _"])

text \<open>The progress of a try-once receive: length unknown, length known, committed.\<close>

definition once_phase :: "rx \<Rightarrow> nat" where
  "once_phase s = (if msg_length s = 0 then 2 else if \<not> recv_started s then 1 else 0)"

lemma once_phase_step:
  assumes "try_once c" and "rx_inv c mn mx stream s" and "2 \<le> unat mn"
    and "recv_step c cap conn mn mx e s = Some (None, t)"
  shows "once_phase t < once_phase s"
proof -
  have nb: "\<not> block c" using assms(1) by (simp add: mode_defs)
  have "mn \<le> w \<Longrightarrow> unat w \<noteq> 0" for w :: u16 using assms(3) by (auto simp: word_le_nat_alt)
  then show ?thesis
    using assms(1,4) nb
    by (auto simp: recv_step_def after_recv_def once_phase_def Let_def not_less
        split: rx_rc.splits if_splits prod.splits)
qed

lemma recv_loop_once_returns:
  assumes "try_once c" and mn: "2 \<le> unat mn" and conn: "conn_error conn"
    and cap: "unat mx \<le> cap" "2 \<le> cap"
    and "rx_inv c mn mx stream s" and "once_phase s < length evs"
  shows "\<exists>ec t. recv_loop c cap conn mn mx evs delta s = Some (Return ec t)"
  using assms(6,7)
proof (induction evs arbitrary: s stream)
  case Nil
  then show ?case by simp
next
  case (Cons e evs)
  obtain r s1 where step: "recv_step c cap conn mn mx e s = Some (r, s1)"
    using recv_step_in_bounds [OF Cons.prems(1) cap, of conn e] by auto
  have nt: "\<not> use_timeout c" using assms(1) by (simp add: mode_defs)
  show ?case
  proof (cases r)
    case None
    then have "once_phase s1 < length evs"
      using once_phase_step [OF assms(1) Cons.prems(1) mn, of cap conn e s1] step Cons.prems(2) by simp
    then show ?thesis
      using Cons.IH [of "stream @ arrived e" s1] recv_step_inv [OF Cons.prems(1) mn conn step] None
      by (simp add: recv_loop_step [OF nt step])
  next
    case (Some ec)
    then show ?thesis by (simp add: recv_loop_step [OF nt step])
  qed
qed

text \<open>A call that meets no fault returns all the bytes asked for, when they are there.\<close>

definition quiet :: "nat \<Rightarrow> rx_event \<Rightarrow> bool" where
  "quiet n e \<longleftrightarrow> fault e = None \<and> n \<le> chunk e"

lemma sys_recv_quiet:
  assumes "quiet n e" and "0 < n" and "n \<le> length q"
  shows "sys_recv e q n = (Rc_bytes (take n q), q @ arrived e)"
proof -
  have "q \<noteq> []" "min n (max 1 (chunk e)) = n" using assms by (auto simp: quiet_def)
  then show ?thesis using assms by (simp add: sys_recv_def quiet_def Let_def)
qed

text \<open>One call in try-once mode on a queue that holds the whole message.\<close>

lemma recv_step_quiet:
  assumes "try_once c" and "quiet (expected_size s) e" and "0 < expected_size s"
    and "expected_size s \<le> length (rx_queue s)" and "rx_off s = 0" and "expected_size s \<le> cap"
  shows "recv_step c cap conn mn mx e s =
    Some (after_recv c conn mn mx (expected_size s)
      (s\<lparr>rx_mem := buf_put 0 (take (expected_size s) (rx_queue s)) (rx_mem s),
         rx_queue := drop (if rx_peek s then 0 else expected_size s) (rx_queue s @ arrived e)\<rparr>))"
  using assms by (simp add: recv_step_def sys_recv_quiet)

lemma recv_once_delivers:
  fixes q :: "u8 list"
  defines "n \<equiv> (le_word (take 2 q) :: u16)"
  assumes once: "try_once c" and mn: "2 \<le> unat mn" and len: "mn \<le> n" "n \<le> mx"
    and q: "unat n \<le> length q" and cap: "unat mx \<le> cap"
    and quiet: "quiet (unat n) e1" "quiet (unat n) e2" "quiet (unat n) e3"
  shows "\<exists>t. recv_loop c cap conn mn mx (e1 # e2 # e3 # evs) delta (recv_init mem q) =
    Some (Return NONE t)"
proof -
  have n: "2 \<le> unat n" "unat n \<le> cap" using mn len cap by (simp_all add: word_le_nat_alt)
  have nt: "\<not> use_timeout c" "\<not> block c" using once by (simp_all add: mode_defs)
  have q1: "quiet 2 e1" using quiet(1) n by (simp add: quiet_def)
  let ?s1 = "(recv_init mem q)\<lparr>rx_mem := buf_put 0 (take 2 q) mem, rx_queue := q @ arrived e1,
      msg_length := unat n, expected_size := unat n\<rparr>"
  have take2: "slice (buf_put 0 (take 2 q) mem) 0 2 = take 2 q"
    using n q by (simp add: slice_put_prefix)
  have lw: "(le_word (take 2 q) :: u16) = n" by (simp add: n_def)
  have step1: "recv_step c cap conn mn mx e1 (recv_init mem q) = Some (None, ?s1)"
    using recv_step_quiet [OF once, of "recv_init mem q" e1 cap conn mn mx] q1 n q len nt
    by (simp add: recv_init_def after_recv_def take2 lw Let_def not_less)
  let ?s2 = "?s1\<lparr>rx_mem := buf_put 0 (take (unat n) (q @ arrived e1)) (rx_mem ?s1),
      rx_queue := (q @ arrived e1) @ arrived e2, rx_peek := False, recv_started := True\<rparr>"
  have step2: "recv_step c cap conn mn mx e2 ?s1 = Some (None, ?s2)"
    using recv_step_quiet [OF once, of ?s1 e2 cap conn mn mx] quiet(2) n q once
    by (simp add: recv_init_def after_recv_def)
  have step3: "\<exists>t. recv_step c cap conn mn mx e3 ?s2 = Some (Some NONE, t)"
    using recv_step_quiet [OF once, of ?s2 e3 cap conn mn mx] quiet(3) n q once
    by (simp add: recv_init_def after_recv_def)
  show ?thesis
    using step3 by (auto simp: recv_loop_step [OF nt(1) step1] recv_loop_step [OF nt(1) step2]
        recv_loop_step [OF nt(1)])
qed

text \<open>A message that was sent whole comes back whole, also with more bytes behind it.\<close>

lemma rx_post_sent:
  assumes post: "rx_post c conn mn mx stream NONE t"
    and w: "rd_le 2 0 mem = Some (len :: u16)" "w = take (unat len) mem" "2 \<le> unat len"
      "unat len \<le> length mem"
    and stream: "stream = w @ rest"
  shows "slice (rx_mem t) 0 (length w) = w \<and> rx_queue t = rest"
proof -
  have "take 2 stream = take 2 mem" using w stream by (simp add: min_def)
  then have "(le_word (take 2 stream) :: u16) = len"
    using w(1) by (auto simp: rd_le_def split: if_splits)
  moreover have "length w = unat len" using w by simp
  ultimately show ?thesis using post stream by (simp add: rx_post_def)
qed

section \<open>Properties\<close>

text \<open>
  C35: What a receive returns says what it did to the stream of the socket (the queue at the call
  and what arrived during it). \<open>NONE\<close>: exactly the first message, of permitted length, was taken
  off the stream into the caller's buffer. \<open>RECV_ZERO_PENDING\<close>: nothing was taken.
  \<open>MALFORMED_MESSAGE\<close>: nothing was taken and the length field is out of range. Otherwise it timed
  out within a message or the connection failed.
\<close>

theorem recv_generic_result:
  assumes "recv_generic c nb mem cap conn min_len max_len q evs = Some (Return ec t)"
    and "conn_error conn" and "validate_config nb c False = NONE"
  shows "\<exists>k S. S = q @ concat (map arrived (take k evs))
    \<and> (ec = NONE \<longrightarrow> (\<exists>n. n = unat (le_word (take 2 S) :: u16) \<and> n \<le> length S
          \<and> unat min_len \<le> n \<and> n \<le> unat max_len
          \<and> slice (rx_mem t) 0 n = take n S \<and> rx_queue t = drop n S))
    \<and> (ec = RECV_ZERO_PENDING \<longrightarrow> \<not> block c \<and> rx_queue t = S)
    \<and> (ec = MALFORMED_MESSAGE \<longrightarrow> 2 \<le> length S \<and> rx_queue t = S
          \<and> ((le_word (take 2 S) :: u16) < min_len \<or> max_len < (le_word (take 2 S) :: u16)))
    \<and> (ec = RECV_WAIT_TIMEOUT \<longrightarrow> use_timeout c)
    \<and> ec \<in> {NONE, RECV_ZERO_PENDING, MALFORMED_MESSAGE, RECV_WAIT_TIMEOUT, conn}"
proof -
  obtain k where post: "rx_post c conn min_len max_len (q @ concat (map arrived (take k evs))) ec t"
    using recv_generic_post [OF assms] by blast
  have "ec \<in> {NONE, RECV_ZERO_PENDING, MALFORMED_MESSAGE, RECV_WAIT_TIMEOUT, conn}"
    using post by (cases ec) (simp_all add: rx_post_def)
  with post show ?thesis
    by (intro exI [of _ k] exI [of _ "q @ concat (map arrived (take k evs))"])
      (auto simp: rx_post_def Let_def)
qed

definition ex_once :: config where
  "ex_once = \<lparr>rx_tx_mode = RX_TRY_ONCE, timeout = 0\<rparr>"

definition ex_quiet :: rx_event where
  "ex_quiet = \<lparr>arrived = [], fault = None, peer_closed = False, chunk = 100, elapsed = 0\<rparr>"

definition ex_stream :: "u8 list" where
  "ex_stream = [4, 0, 1, 2, 9]"

definition ex_received :: rx where
  "ex_received = (case recv_generic ex_once (Some True) (\<lambda>_. 0) 8 MIXNET_CONNECTION_BROKEN 2 8
     ex_stream [ex_quiet, ex_quiet, ex_quiet] of
       Some (Return ec t) \<Rightarrow> t | _ \<Rightarrow> recv_init (\<lambda>_. 0) [])"

lemma ex_recv_generic:
  "recv_generic ex_once (Some True) (\<lambda>_. 0) 8 MIXNET_CONNECTION_BROKEN 2 8 ex_stream
     [ex_quiet, ex_quiet, ex_quiet] = Some (Return NONE ex_received)"
proof -
  have "\<exists>t. recv_loop ex_once 8 MIXNET_CONNECTION_BROKEN 2 8 [ex_quiet, ex_quiet, ex_quiet] 0
      (recv_init (\<lambda>_. 0) ex_stream) = Some (Return NONE t)"
    by (rule recv_once_delivers)
      (simp_all add: ex_once_def mode_defs ex_stream_def quiet_def ex_quiet_def)
  moreover have "validate_config (Some True) ex_once False = NONE"
    by (simp add: validate_config_def ex_once_def)
  ultimately show ?thesis
    by (auto simp: recv_generic_def ex_received_def)
qed

theorem recv_generic_result_witness:
  "\<exists>k S. S = ex_stream @ concat (map arrived (take k [ex_quiet, ex_quiet, ex_quiet]))
    \<and> (\<exists>n. n = unat (le_word (take 2 S) :: u16) \<and> n \<le> length S
        \<and> slice (rx_mem ex_received) 0 n = take n S \<and> rx_queue ex_received = drop n S)"
proof -
  have "conn_error MIXNET_CONNECTION_BROKEN" "validate_config (Some True) ex_once False = NONE"
    by (simp_all add: conn_error_def validate_config_def ex_once_def)
  from recv_generic_result [OF ex_recv_generic this] show ?thesis by blast
qed

text \<open>
  A receive never writes outside the caller's buffer when the buffer holds \<open>max_len\<close> bytes,
  whatever arrives and however the system calls split it.
\<close>

theorem recv_generic_stays_in_bounds:
  assumes "min_len \<le> max_len" and "2 \<le> unat min_len" and "conn_error conn" and "unat max_len \<le> cap"
  shows "recv_generic c nb mem cap conn min_len max_len q evs \<noteq> None"
  by (rule recv_generic_in_bounds [OF assms])

theorem recv_generic_stays_in_bounds_witness:
  "recv_generic ex_once None (\<lambda>_. 0) 4096 MIXNET_CONNECTION_BROKEN 12 4096 ex_stream [ex_quiet] \<noteq> None"
  by (rule recv_generic_stays_in_bounds) (simp_all add: conn_error_def)

text \<open>
  In try-once mode a receive returns after at most three calls of \<open>recv\<close>, and when the whole
  first message is pending and the calls meet no fault it delivers it.
\<close>

theorem recv_once_returns:
  assumes "try_once c" and "2 \<le> unat min_len" and "conn_error conn" and "unat max_len \<le> cap" and "2 \<le> cap"
    and "3 \<le> length evs"
  shows "\<exists>ec t. recv_loop c cap conn min_len max_len evs 0 (recv_init mem q) = Some (Return ec t)
    \<and> (min_len \<le> (le_word (take 2 q) :: u16) \<and> (le_word (take 2 q) :: u16) \<le> max_len
       \<and> unat (le_word (take 2 q) :: u16) \<le> length q
       \<and> (\<forall>e \<in> set (take 3 evs). quiet (unat (le_word (take 2 q) :: u16)) e) \<longrightarrow> ec = NONE)"
proof -
  obtain e1 e2 e3 rest where evs: "evs = e1 # e2 # e3 # rest"
    using assms(6) by (auto simp: numeral_3_eq_3 Suc_le_length_iff)
  obtain ec t where r: "recv_loop c cap conn min_len max_len evs 0 (recv_init mem q) = Some (Return ec t)"
    using recv_loop_once_returns [OF assms(1-5) rx_inv_init, of mem q evs 0] assms(6)
    by (auto simp: once_phase_def recv_init_def)
  then show ?thesis
    using recv_once_delivers [OF assms(1,2) _ _ _ assms(4), of q e1 e2 e3 conn rest 0 mem]
    by (auto simp: evs)
qed

theorem recv_once_returns_witness:
  "\<exists>ec t. recv_loop ex_once 8 MIXNET_CONNECTION_BROKEN 2 8 [ex_quiet, ex_quiet, ex_quiet] 0
      (recv_init (\<lambda>_. 0) ex_stream) = Some (Return ec t) \<and> ec = NONE"
  using recv_once_returns [of ex_once 2 MIXNET_CONNECTION_BROKEN 8 8 "[ex_quiet, ex_quiet, ex_quiet]"
      "\<lambda>_. 0" ex_stream]
  by (simp add: ex_once_def mode_defs conn_error_def ex_stream_def quiet_def ex_quiet_def)

text \<open>
  A send puts a prefix of the message on the wire: the whole message when it returns \<open>NONE\<close>,
  and less than the message otherwise.
\<close>

theorem send_generic_sends_prefix:
  assumes "send_generic c nb mem conn min_len max_len evs = Some (Return ec w)" and "conn \<noteq> NONE"
  shows "\<exists>k. w = take k mem
    \<and> (ec = NONE \<longrightarrow> (\<exists>len. rd_le 2 0 mem = Some len \<and> min_len \<le> len \<and> len \<le> max_len
          \<and> k = unat len \<and> unat len \<le> length mem))
    \<and> (ec \<noteq> NONE \<longrightarrow> w = [] \<or> (\<exists>len :: u16. rd_le 2 0 mem = Some len \<and> k < unat len))"
  by (rule send_generic_wire [OF assms])

definition ex_blocking :: config where
  "ex_blocking = \<lparr>rx_tx_mode = RX_TX_BLOCKING, timeout = 0\<rparr>"

lemma ex_send:
  "send_generic ex_blocking (Some True) [4, 0, 1, 2, 9] CTRL_CONNECTION_BROKEN 2 8
     [(Tx 3, 0), (Tx_transient, 0), (Tx 1, 0)] = Some (Return NONE [4, 0, 1, 2])"
  by code_simp

theorem send_generic_sends_prefix_witness:
  "\<exists>k. [4, 0, 1, 2] = take k [4, 0, 1, 2, 9 :: u8]
    \<and> (\<exists>len :: u16. rd_le 2 0 [4, 0, 1, 2, 9] = Some len \<and> 2 \<le> len \<and> len \<le> 8
         \<and> k = unat len \<and> unat len \<le> length [4, 0, 1, 2, 9 :: u8])"
  using send_generic_sends_prefix [OF ex_send] by blast

text \<open>
  C39: A message that one side sent whole, at the head of the stream of the other side, is what the
  next successful receive there returns; the bytes behind it stay in the queue.
\<close>

theorem sent_message_is_received:
  assumes "send_generic c nb mem conn min_len max_len evs = Some (Return NONE w)" and "conn \<noteq> NONE"
    and "2 \<le> unat min_len"
    and "recv_generic c' nb' mem' cap conn' min' max' (w @ rest) evs' = Some (Return NONE t)"
    and "conn_error conn'" and "validate_config nb' c' False = NONE"
  shows "slice (rx_mem t) 0 (length w) = w
    \<and> (\<exists>k. rx_queue t = rest @ concat (map arrived (take k evs')))"
proof -
  obtain len where len: "rd_le 2 0 mem = Some len" "min_len \<le> len" "w = take (unat len) mem"
    "unat len \<le> length mem"
    using send_generic_wire [OF assms(1,2)] by blast
  have "2 \<le> unat len" using len(2) assms(3) by (simp add: word_le_nat_alt)
  obtain k where "rx_post c' conn' min' max' ((w @ rest) @ concat (map arrived (take k evs'))) NONE t"
    using recv_generic_post [OF assms(4-6)] by blast
  from rx_post_sent [OF this len(1,3) \<open>2 \<le> unat len\<close> len(4), of "rest @ concat (map arrived (take k evs'))"]
  show ?thesis by auto
qed

theorem sent_message_is_received_witness:
  "slice (rx_mem ex_received) 0 (length [4, 0, 1, 2 :: u8]) = [4, 0, 1, 2]"
proof -
  have r: "recv_generic ex_once (Some True) (\<lambda>_. 0) 8 MIXNET_CONNECTION_BROKEN 2 8 ([4, 0, 1, 2] @ [9])
      [ex_quiet, ex_quiet, ex_quiet] = Some (Return NONE ex_received)"
    using ex_recv_generic by (simp add: ex_stream_def)
  have "conn_error MIXNET_CONNECTION_BROKEN" "validate_config (Some True) ex_once False = NONE"
    by (simp_all add: conn_error_def validate_config_def ex_once_def)
  from sent_message_is_received [OF ex_send _ _ r this] show ?thesis by simp
qed

end
