(* ===== verification/NodeContext.thy ===== *)
theory NodeContext
  imports Config MessageQueue Networking "HOL-Library.Sublist"
begin

text \<open>
  The node's side of the framework (\<open>fragment::node_context\<close> of framework/fragment.h and
  framework/fragment.cpp): what \<open>mixnet_send\<close> and \<open>mixnet_recv\<close> of mixnet/connection.h do.

  Sockets are named by their descriptors; the state of the sockets is the receive queue and the
  bytes accepted for transmission of every descriptor. Every call takes the answers of the system
  calls it makes, as in the socket layer.
\<close>

section \<open>State\<close>

record sockets =
  rxq :: "int \<Rightarrow> u8 list"
  txd :: "int \<Rightarrow> u8 list"

record thread_state =
  exited :: bool
  thread_started :: bool
  thread_keep_running :: bool
  exit_code :: error_code

definition new_thread_state :: thread_state where
  "new_thread_state =
     \<lparr>exited = False, thread_started = False, thread_keep_running = True, exit_code = NONE\<rparr>"

text \<open>A cell of the capture queue holds a packet or the NULL sentinel (\<open>None\<close>).\<close>

record node_context =
  node_config :: mixnet_node_config
  tx_listen_fd :: int
  tx_socket_fds :: "int list"
  tx_server_netaddr :: sockaddr_in
  rx_port_idx :: u16
  rx_socket_fds :: "int list"
  neighbor_netaddrs :: "sockaddr_in list"
  ts :: thread_state
  mq_pcap :: "mixnet_packet option message_queue"
  mq_user :: "mixnet_packet message_queue"
  link_states :: "bool list"
  recv_buffer :: buffer
  is_pcap_subscribed :: bool

definition max_port_id :: "node_context \<Rightarrow> u16" where
  "max_port_id ctx = cfg_num_neighbors (node_config ctx)"

text \<open>The \<open>topology\<close> request, and the context made from it.\<close>

record topology_request =
  tr_mixaddr :: mixnet_address
  tr_num_neighbors :: u16
  tr_do_random_routing :: bool
  tr_mixing_factor :: u16
  tr_root_hello_interval_ms :: u32
  tr_reelection_interval_ms :: u32
  tr_link_costs :: "u16 list"

definition unset_netaddr :: sockaddr_in where
  "unset_netaddr = \<lparr>sin_family = 0, sin_port = 0, s_addr = 0\<rparr>"

definition init_node_context ::
  "mixnet_packet option message_queue \<Rightarrow> mixnet_packet message_queue \<Rightarrow> topology_request
    \<Rightarrow> node_context" where
  "init_node_context pcap user p =
     (let n = tr_num_neighbors p;
          cfg = default_node_config\<lparr>node_addr := tr_mixaddr p, cfg_num_neighbors := n,
                  mixing_factor := tr_mixing_factor p, do_random_routing := tr_do_random_routing p,
                  root_hello_interval_ms := tr_root_hello_interval_ms p,
                  reelection_interval_ms := tr_reelection_interval_ms p\<rparr>;
          ctx = \<lparr>node_config = cfg, tx_listen_fd = - 1, tx_socket_fds = [],
                 tx_server_netaddr = unset_netaddr, rx_port_idx = 0, rx_socket_fds = [],
                 neighbor_netaddrs = [], ts = new_thread_state, mq_pcap = pcap, mq_user = user,
                 link_states = [], recv_buffer = (\<lambda>_. 0), is_pcap_subscribed = False\<rparr>
      in if n = 0 then ctx
         else ctx\<lparr>node_config := cfg\<lparr>link_costs := take (unat n) (tr_link_costs p)\<rparr>,
                  tx_socket_fds := replicate (unat n) (- 1),
                  rx_socket_fds := replicate (unat n) (- 1),
                  link_states := replicate (unat n) True,
                  neighbor_netaddrs := replicate (unat n) unset_netaddr\<rparr>)"

section \<open>Sending\<close>

definition blocking_config :: config where
  "blocking_config = \<lparr>rx_tx_mode = RX_TX_BLOCKING, timeout = 0\<rparr>"

definition once_config :: config where
  "once_config = \<lparr>rx_tx_mode = RX_TRY_ONCE, timeout = 0\<rparr>"

text \<open>The memory of a packet whose reserved field has been set to zero.\<close>

definition bleached :: "mixnet_packet \<Rightarrow> mixnet_packet" where
  "bleached p = p\<lparr>reserved := Some 0\<rparr>"

definition packet_memory :: "mixnet_packet \<Rightarrow> u8 list" where
  "packet_memory p =
     header_bytes (total_size p) (ptype p) (case reserved p of None \<Rightarrow> 0 | Some r \<Rightarrow> r) @ payload p"

definition node_send_blocking ::
  "bool option \<Rightarrow> mixnet_packet \<Rightarrow> tx_event list \<Rightarrow> u8 list progress option" where
  "node_send_blocking nonblock p evs =
     send_generic blocking_config nonblock (packet_memory p) MIXNET_CONNECTION_BROKEN
       MIN_MIXNET_PACKET_SIZE MAX_MIXNET_PACKET_SIZE evs"

text \<open>The size check of \<open>node_send\<close>; \<open>None\<close> when a count is read outside the packet.\<close>

definition validate_size :: "mixnet_packet \<Rightarrow> bool option" where
  "validate_size p =
     (let n = unat (total_size p - of_nat sizeof_mixnet_packet)
      in if ptype p = packet_type_code PACKET_TYPE_STP then Some (n = sizeof_stp)
         else if ptype p = packet_type_code PACKET_TYPE_FLOOD then Some (n = 0)
         else if ptype p = packet_type_code PACKET_TYPE_LSA
         then map_option (\<lambda>lsa. n = sizeof_lsa + sizeof_link_params * unat (neighbor_count lsa))
                (dec_lsa (payload p))
         else if ptype p = packet_type_code PACKET_TYPE_DATA then Some True
         else if ptype p = packet_type_code PACKET_TYPE_PING
         then map_option (\<lambda>rh. n = sizeof_ping + sizeof_routing_header
                + sizeof_mixnet_address * unat (route_length rh)) (dec_routing_header (payload p))
         else Some False)"

text \<open>A call returns, throws \<open>exit_exception\<close>, or is still blocked when the events run out.\<close>

datatype send_outcome = Sent_rc int | Send_thrown | Send_blocked

definition thread_exit :: "error_code \<Rightarrow> node_context \<Rightarrow> node_context" where
  "thread_exit e ctx = ctx\<lparr>ts := (ts ctx)\<lparr>exited := True, exit_code := e\<rparr>\<rparr>"

definition transmit :: "int \<Rightarrow> u8 list \<Rightarrow> sockets \<Rightarrow> sockets" where
  "transmit fd bs net = net\<lparr>txd := (txd net)(fd := txd net fd @ bs)\<rparr>"

definition node_send ::
  "bool option \<Rightarrow> tx_event list \<Rightarrow> u8 \<Rightarrow> mixnet_packet \<Rightarrow> node_context \<times> sockets
    \<Rightarrow> (send_outcome \<times> node_context \<times> sockets) option" where
  "node_send nonblock evs port p w =
     (let (ctx, net) = w
      in if unat port > unat (max_port_id ctx) then Some (Sent_rc (- 1), ctx, net)
         else if total_size p < MIN_MIXNET_PACKET_SIZE \<or> total_size p > MAX_MIXNET_PACKET_SIZE
         then Some (Sent_rc (- 1), ctx, net)
         else do {
           valid \<leftarrow> validate_size (bleached p);
           if \<not> valid then Some (Sent_rc (- 1), ctx, net)
           else if unat port = unat (max_port_id ctx)
           then if ptype p \<noteq> packet_type_code PACKET_TYPE_FLOOD
                   \<and> ptype p \<noteq> packet_type_code PACKET_TYPE_DATA
                   \<and> ptype p \<noteq> packet_type_code PACKET_TYPE_PING
                then Some (Sent_rc (- 1), ctx, net)
                else if is_pcap_subscribed ctx
                then do {
                  (ok, q) \<leftarrow> mq_push (Some (bleached p)) (mq_pcap ctx);
                  let ctx1 = ctx\<lparr>mq_pcap := q\<rparr>;
                  Some (if ok then (Sent_rc 1, ctx1, net)
                        else (Send_thrown, thread_exit FRAGMENT_PCAP_MQ_FULL ctx1, net))
                }
                else Some (Sent_rc 1, ctx, net)
           else if unat port < length (tx_socket_fds ctx)
           then do {
             r \<leftarrow> node_send_blocking nonblock (bleached p) evs;
             let fd = tx_socket_fds ctx ! unat port;
             Some (case r of
                 Waiting bs \<Rightarrow> (Send_blocked, ctx, transmit fd bs net)
               | Return ec bs \<Rightarrow>
                   if ec \<noteq> NONE then (Send_thrown, thread_exit ec ctx, transmit fd bs net)
                   else (Sent_rc 1, ctx, transmit fd bs net))
           }
           else None
         })"

section \<open>Receiving\<close>

datatype 'a poll = Got u8 mixnet_packet 'a | Nothing 'a | Failed 'a | Stalled 'a

definition recv_once ::
  "bool option \<Rightarrow> buffer \<Rightarrow> u8 list \<Rightarrow> rx_event list \<Rightarrow> rx progress option" where
  "recv_once nonblock buf q evs =
     recv_generic once_config nonblock buf (unat MAX_MIXNET_PACKET_SIZE) MIXNET_CONNECTION_BROKEN
       MIN_MIXNET_PACKET_SIZE MAX_MIXNET_PACKET_SIZE q evs"

text \<open>The answers for one call of \<open>node_recv\<close>: per port, \<open>fcntl\<close> and the events of the socket.\<close>

type_synonym recv_env = "nat \<Rightarrow> bool option \<times> rx_event list"

text \<open>\<open>transmit\<close> for the receiving side: the socket's queue and the scratch buffer after a call.\<close>

definition put_rx :: "int \<Rightarrow> rx \<Rightarrow> node_context \<times> sockets \<Rightarrow> node_context \<times> sockets" where
  "put_rx fd t w =
     ((fst w)\<lparr>recv_buffer := rx_mem t\<rparr>, (snd w)\<lparr>rxq := (rxq (snd w))(fd := rx_queue t)\<rparr>)"

text \<open>One iteration of the loop: look at the port \<open>rx_port_idx\<close>.\<close>

definition poll_port :: "recv_env \<Rightarrow> node_context \<times> sockets \<Rightarrow> (node_context \<times> sockets) poll option" where
  "poll_port env w =
     (let (ctx, net) = w; i = unat (rx_port_idx ctx)
      in if rx_port_idx ctx = max_port_id ctx
         then do {
           (v, q) \<leftarrow> mq_pop (mq_user ctx);
           Some (case v of
               Some p \<Rightarrow> Got (ucast (rx_port_idx ctx)) p (ctx\<lparr>mq_user := q\<rparr>, net)
             | None \<Rightarrow> Nothing (ctx\<lparr>mq_user := q\<rparr>, net))
         }
         else if i < length (link_states ctx) \<and> i < length (rx_socket_fds ctx)
         then if link_states ctx ! i
           then do {
             let fd = rx_socket_fds ctx ! i;
             r \<leftarrow> recv_once (fst (env i)) (recv_buffer ctx) (rxq net fd) (snd (env i));
             (case r of
                Waiting t \<Rightarrow> Some (Stalled (put_rx fd t w))
              | Return ec t \<Rightarrow>
                  if ec = NONE
                  then let size = unat (le_word (slice (rx_mem t) 0 2) :: u16)
                    in map_option (\<lambda>p. Got (ucast (rx_port_idx ctx)) p (put_rx fd t w))
                         (packet_of_bytes (slice (rx_mem t) 0 size))
                  else if ec \<noteq> RECV_ZERO_PENDING
                  then Some (Failed (thread_exit ec (fst (put_rx fd t w)), snd (put_rx fd t w)))
                  else Some (Nothing (put_rx fd t w)))
           }
           else Some (Nothing w)
         else None)"

definition next_port :: "node_context \<times> sockets \<Rightarrow> node_context \<times> sockets" where
  "next_port w =
     (let ctx = fst w
      in (ctx\<lparr>rx_port_idx :=
                of_nat ((unat (rx_port_idx ctx) + 1) mod (unat (max_port_id ctx) + 1))\<rparr>,
          snd w))"

text \<open>
  The loop, with a bound on the number of iterations; \<open>None\<close> when the bound is used up. There are
  at most as many iterations as ports.
\<close>

fun recv_ports ::
  "nat \<Rightarrow> u16 \<Rightarrow> recv_env \<Rightarrow> node_context \<times> sockets \<Rightarrow> (node_context \<times> sockets) poll option" where
  "recv_ports 0 stop env w = None"
| "recv_ports (Suc fuel) stop env w = do {
     r \<leftarrow> poll_port env w;
     (case r of
        Got port p w1 \<Rightarrow> Some (Got port p (next_port w1))
      | Nothing w1 \<Rightarrow>
          (let w2 = next_port w1
           in if rx_port_idx (fst w2) = stop then Some (Nothing w2)
              else recv_ports fuel stop env w2)
      | Failed w1 \<Rightarrow> Some (Failed w1)
      | Stalled w1 \<Rightarrow> Some (Stalled w1))
   }"

definition node_recv ::
  "recv_env \<Rightarrow> node_context \<times> sockets \<Rightarrow> (node_context \<times> sockets) poll option" where
  "node_recv env w =
     recv_ports (unat (max_port_id (fst w)) + 1) (rx_port_idx (fst w)) env w"

section \<open>Well-formed contexts\<close>

definition ctx_wf :: "node_context \<Rightarrow> bool" where
  "ctx_wf ctx \<longleftrightarrow>
     length (tx_socket_fds ctx) = unat (max_port_id ctx)
     \<and> length (rx_socket_fds ctx) = unat (max_port_id ctx)
     \<and> length (link_states ctx) = unat (max_port_id ctx)
     \<and> rx_port_idx ctx \<le> max_port_id ctx \<and> mq_inv (mq_pcap ctx) \<and> mq_inv (mq_user ctx)"

lemma ctx_wf_init:
  assumes "mq_inv pcap" and "mq_inv user"
  shows "ctx_wf (init_node_context pcap user p)"
  using assms by (simp add: ctx_wf_def init_node_context_def max_port_id_def Let_def)

text \<open>What a receive leaves alone.\<close>

definition core :: "node_context \<Rightarrow>
    mixnet_node_config \<times> int list \<times> int list \<times> bool list \<times> mixnet_packet option message_queue \<times> bool"
where
  "core ctx = (node_config ctx, tx_socket_fds ctx, rx_socket_fds ctx, link_states ctx, mq_pcap ctx,
     is_pcap_subscribed ctx)"

lemma core_simps [simp]:
  "core (ctx\<lparr>mq_user := q\<rparr>) = core ctx"
  "core (ctx\<lparr>recv_buffer := b\<rparr>) = core ctx"
  "core (ctx\<lparr>rx_port_idx := i\<rparr>) = core ctx"
  "core (thread_exit e ctx) = core ctx"
  by (simp_all add: core_def thread_exit_def)

lemma core_eq:
  "core a = core b \<longleftrightarrow> node_config a = node_config b \<and> tx_socket_fds a = tx_socket_fds b
    \<and> rx_socket_fds a = rx_socket_fds b \<and> link_states a = link_states b \<and> mq_pcap a = mq_pcap b
    \<and> is_pcap_subscribed a = is_pcap_subscribed b"
  by (auto simp: core_def)

lemma core_max_port: "core a = core b \<Longrightarrow> max_port_id a = max_port_id b"
  by (simp add: core_eq max_port_id_def)

lemma ctx_wf_core:
  "core a = core b \<Longrightarrow> ctx_wf b \<Longrightarrow> rx_port_idx a \<le> max_port_id a \<Longrightarrow> mq_inv (mq_user a) \<Longrightarrow> ctx_wf a"
  using core_max_port [of a b] unfolding ctx_wf_def core_eq by simp

section \<open>What a receive delivers\<close>

text \<open>
  \<open>arriving\<close> are the bytes a link delivers when all events of the call happen, the ones that are
  queued already first. A packet is taken off a link as the bytes of one frame, and the rest of
  the stream stays.
\<close>

definition arriving :: "recv_env \<Rightarrow> node_context \<times> sockets \<Rightarrow> nat \<Rightarrow> u8 list" where
  "arriving env w i =
     rxq (snd w) (rx_socket_fds (fst w) ! i) @ concat (map arrived (snd (env i)))"

definition frame_size :: "u8 list \<Rightarrow> nat" where
  "frame_size bs = unat (le_word (take 2 bs) :: u16)"

definition takes_frame ::
  "recv_env \<Rightarrow> node_context \<times> sockets \<Rightarrow> nat \<Rightarrow> mixnet_packet \<Rightarrow> u8 list \<Rightarrow> bool" where
  "takes_frame env w i p q' \<longleftrightarrow>
     (\<exists>S. prefix (rxq (snd w) (rx_socket_fds (fst w) ! i)) S \<and> prefix S (arriving env w i)
        \<and> 12 \<le> frame_size S \<and> frame_size S \<le> 4096 \<and> frame_size S \<le> length S
        \<and> packet_of_bytes (take (frame_size S) S) = Some p \<and> q' = drop (frame_size S) S)"

lemma prefix_take_arrivals: "prefix (q @ concat (map arrived (take k evs))) (q @ concat (map arrived evs))"
  by (metis append_take_drop_id concat_append map_append prefixI same_prefix_prefix)

lemma packet_of_bytes_defined: "12 \<le> length bs \<Longrightarrow> \<exists>p. packet_of_bytes bs = Some p"
  by (auto simp: packet_of_bytes_def rd_le_def)

text \<open>The outcome of a try-once receive on a link.\<close>

lemma recv_once_result:
  assumes "3 \<le> length evs"
  shows "\<exists>ec t. recv_once nb buf q evs = Some (Return ec t)
    \<and> (\<exists>S. prefix q S \<and> prefix S (q @ concat (map arrived evs))
        \<and> (ec = NONE \<longrightarrow> 12 \<le> frame_size S \<and> frame_size S \<le> 4096 \<and> frame_size S \<le> length S
              \<and> slice (rx_mem t) 0 (frame_size S) = take (frame_size S) S
              \<and> rx_queue t = drop (frame_size S) S)
        \<and> (ec = RECV_ZERO_PENDING \<longrightarrow> rx_queue t = S))"
proof (cases "validate_config nb once_config False = NONE")
  case False
  then have "recv_once nb buf q evs =
      Some (Return (validate_config nb once_config False) (recv_init buf q))"
    by (simp add: recv_once_def recv_generic_def const_defs)
  moreover have "validate_config nb once_config False \<noteq> RECV_ZERO_PENDING"
    by (simp add: validate_config_def split: option.splits)
  ultimately show ?thesis using False by (auto intro: exI [of _ q])
next
  case True
  let ?loop = "recv_loop once_config (unat MAX_MIXNET_PACKET_SIZE) MIXNET_CONNECTION_BROKEN
    MIN_MIXNET_PACKET_SIZE MAX_MIXNET_PACKET_SIZE evs 0 (recv_init buf q)"
  have once: "try_once once_config" by (simp add: once_config_def mode_defs)
  have conn: "conn_error MIXNET_CONNECTION_BROKEN" by (simp add: conn_error_def)
  have eq: "recv_once nb buf q evs = ?loop"
    using True by (simp add: recv_once_def recv_generic_def const_defs)
  obtain ec t where loop: "?loop = Some (Return ec t)"
    using recv_loop_once_returns [OF once _ conn _ _ rx_inv_init, of MIN_MIXNET_PACKET_SIZE
        MAX_MIXNET_PACKET_SIZE "unat MAX_MIXNET_PACKET_SIZE" buf q evs 0] assms
    by (auto simp: const_defs once_phase_def recv_init_def)
  obtain k where post: "rx_post once_config MIXNET_CONNECTION_BROKEN MIN_MIXNET_PACKET_SIZE
      MAX_MIXNET_PACKET_SIZE (q @ concat (map arrived (take k evs))) ec t"
    using recv_loop_post [OF rx_inv_init _ conn loop] by (auto simp: const_defs)
  let ?S = "q @ concat (map arrived (take k evs))"
  have "prefix q ?S" "prefix ?S (q @ concat (map arrived evs))"
    using prefix_take_arrivals by auto
  moreover have "ec = NONE \<longrightarrow> 12 \<le> frame_size ?S \<and> frame_size ?S \<le> 4096 \<and> frame_size ?S \<le> length ?S
      \<and> slice (rx_mem t) 0 (frame_size ?S) = take (frame_size ?S) ?S
      \<and> rx_queue t = drop (frame_size ?S) ?S"
    using post unfolding frame_size_def by (auto simp: rx_post_def const_defs)
  moreover have "ec = RECV_ZERO_PENDING \<longrightarrow> rx_queue t = ?S"
    using post by (auto simp: rx_post_def)
  ultimately show ?thesis using eq loop by metis
qed

definition poll_post ::
  "recv_env \<Rightarrow> node_context \<times> sockets \<Rightarrow> (node_context \<times> sockets) poll \<Rightarrow> bool" where
  "poll_post env w r \<longleftrightarrow>
     (let ctx = fst w; i = rx_port_idx ctx; fd = rx_socket_fds ctx ! unat i
      in case r of
           Got port p w' \<Rightarrow>
             port = ucast i \<and> core (fst w') = core ctx \<and> rx_port_idx (fst w') = i
             \<and> mq_inv (mq_user (fst w'))
             \<and> (if i = max_port_id ctx
                then mq_contents (mq_user ctx) = p # mq_contents (mq_user (fst w'))
                  \<and> rxq (snd w') = rxq (snd w)
                else link_states ctx ! unat i \<and> mq_user (fst w') = mq_user ctx
                  \<and> takes_frame env w (unat i) p (rxq (snd w') fd)
                  \<and> (\<forall>fd'. fd' \<noteq> fd \<longrightarrow> rxq (snd w') fd' = rxq (snd w) fd'))
         | Nothing w' \<Rightarrow>
             core (fst w') = core ctx \<and> rx_port_idx (fst w') = i \<and> mq_inv (mq_user (fst w'))
             \<and> mq_contents (mq_user (fst w')) = mq_contents (mq_user ctx)
             \<and> (if i = max_port_id ctx
                then mq_contents (mq_user ctx) = [] \<and> rxq (snd w') = rxq (snd w)
                else prefix (rxq (snd w) fd) (rxq (snd w') fd)
                  \<and> prefix (rxq (snd w') fd) (arriving env w (unat i))
                  \<and> (\<forall>fd'. fd' \<noteq> fd \<longrightarrow> rxq (snd w') fd' = rxq (snd w) fd'))
         | Failed w' \<Rightarrow> exited (ts (fst w')) \<and> exit_code (ts (fst w')) \<noteq> NONE
         | Stalled w' \<Rightarrow> False)"

lemma poll_port_user:
  assumes "ctx_wf ctx" and "rx_port_idx ctx = max_port_id ctx"
  shows "\<exists>r. poll_port env (ctx, net) = Some r \<and> poll_post env (ctx, net) r"
proof -
  have "mq_inv (mq_user ctx)" using assms(1) by (simp add: ctx_wf_def)
  from mq.pop_result [OF this] obtain q where
    q: "mq_pop (mq_user ctx) = Some (if mq_contents (mq_user ctx) = [] then None
          else Some (hd (mq_contents (mq_user ctx))), q)"
    "mq_inv q" "mq_contents q = tl (mq_contents (mq_user ctx))"
    by blast
  then show ?thesis
    using assms(2) by (cases "mq_contents (mq_user ctx)") (simp_all add: poll_port_def poll_post_def)
qed

lemma poll_port_link:
  assumes wf: "ctx_wf ctx" and link: "rx_port_idx ctx \<noteq> max_port_id ctx"
    and evs: "3 \<le> length (snd (env (unat (rx_port_idx ctx))))"
  shows "\<exists>r. poll_port env (ctx, net) = Some r \<and> poll_post env (ctx, net) r"
proof -
  let ?i = "unat (rx_port_idx ctx)"
  let ?fd = "rx_socket_fds ctx ! ?i"
  have mq: "mq_inv (mq_user ctx)" using wf by (simp add: ctx_wf_def)
  have "rx_port_idx ctx < max_port_id ctx"
    using wf link by (simp add: ctx_wf_def order.strict_iff_order)
  then have i: "?i < length (link_states ctx)" "?i < length (rx_socket_fds ctx)"
    using wf by (simp_all add: ctx_wf_def word_less_nat_alt)
  show ?thesis
  proof (cases "link_states ctx ! ?i")
    case False
    then show ?thesis
      using link i mq by (simp add: poll_port_def poll_post_def arriving_def)
  next
    case up: True
    obtain ec t S where r: "recv_once (fst (env ?i)) (recv_buffer ctx) (rxq net ?fd) (snd (env ?i))
        = Some (Return ec t)"
      and S: "prefix (rxq net ?fd) S" "prefix S (arriving env (ctx, net) ?i)"
      and none: "ec = NONE \<Longrightarrow> 12 \<le> frame_size S \<and> frame_size S \<le> 4096 \<and> frame_size S \<le> length S
              \<and> slice (rx_mem t) 0 (frame_size S) = take (frame_size S) S
              \<and> rx_queue t = drop (frame_size S) S"
      and zero: "ec = RECV_ZERO_PENDING \<Longrightarrow> rx_queue t = S"
      using recv_once_result [OF evs, of "fst (env ?i)" "recv_buffer ctx" "rxq net ?fd"]
      unfolding arriving_def fst_conv snd_conv by blast
    show ?thesis
    proof (cases "ec = NONE")
      case True
      note n = none [OF True]
      then obtain p where p: "packet_of_bytes (take (frame_size S) S) = Some p"
        using packet_of_bytes_defined [of "take (frame_size S) S"] by auto
      have "slice (rx_mem t) 0 2 = take 2 (slice (rx_mem t) 0 (frame_size S))"
        using n by (intro slice_take) simp
      also have "\<dots> = take 2 S" using n by (simp add: min_def)
      finally have size: "unat (le_word (slice (rx_mem t) 0 2) :: u16) = frame_size S"
        by (simp add: frame_size_def)
      have "poll_port env (ctx, net) =
          Some (Got (ucast (rx_port_idx ctx)) p (put_rx ?fd t (ctx, net)))"
        using link i up r True n p by (simp add: poll_port_def size)
      moreover have "takes_frame env (ctx, net) ?i p (rx_queue t)"
        unfolding takes_frame_def using S n p by auto
      ultimately show ?thesis
        using link up mq by (simp add: poll_post_def put_rx_def)
    next
      case False
      show ?thesis
      proof (cases "ec = RECV_ZERO_PENDING")
        case True
        then have "poll_port env (ctx, net) = Some (Nothing (put_rx ?fd t (ctx, net)))"
          using link i up r by (simp add: poll_port_def)
        then show ?thesis
          using link mq S zero [OF True] by (simp add: poll_post_def put_rx_def)
      next
        case error: False
        then show ?thesis
          using link i up r False
          by (simp add: poll_port_def poll_post_def put_rx_def thread_exit_def)
      qed
    qed
  qed
qed

lemma poll_port_result:
  assumes "ctx_wf (fst w)" and "\<forall>i. 3 \<le> length (snd (env i))"
  shows "\<exists>r. poll_port env w = Some r \<and> poll_post env w r"
  using assms poll_port_user [of "fst w" env "snd w"] poll_port_link [of "fst w" env "snd w"]
  by (cases "rx_port_idx (fst w) = max_port_id (fst w)") auto

section \<open>One call of \<open>node_recv\<close>\<close>

definition num_ports :: "node_context \<times> sockets \<Rightarrow> nat" where
  "num_ports w = unat (max_port_id (fst w))"

definition link_fd :: "node_context \<times> sockets \<Rightarrow> nat \<Rightarrow> int" where
  "link_fd w i = rx_socket_fds (fst w) ! i"

definition link_queue :: "node_context \<times> sockets \<Rightarrow> node_context \<times> sockets \<Rightarrow> nat \<Rightarrow> u8 list" where
  "link_queue w0 w i = rxq (snd w) (link_fd w0 i)"

text \<open>On link \<open>i\<close> bytes have arrived and none has been taken.\<close>

definition untaken ::
  "recv_env \<Rightarrow> node_context \<times> sockets \<Rightarrow> node_context \<times> sockets \<Rightarrow> nat \<Rightarrow> bool" where
  "untaken env w0 w i \<longleftrightarrow>
     prefix (link_queue w0 w0 i) (link_queue w0 w i) \<and> prefix (link_queue w0 w i) (arriving env w0 i)"

definition user_contents :: "node_context \<times> sockets \<Rightarrow> mixnet_packet list" where
  "user_contents w = mq_contents (mq_user (fst w))"

text \<open>The result of a whole call. Ports are served in rotation from \<open>rx_port_idx\<close>.\<close>

definition recv_post ::
  "recv_env \<Rightarrow> node_context \<times> sockets \<Rightarrow> (node_context \<times> sockets) poll \<Rightarrow> bool" where
  "recv_post env w0 r \<longleftrightarrow>
     (case r of
        Got port p w \<Rightarrow>
          core (fst w) = core (fst w0) \<and> ctx_wf (fst w)
          \<and> (\<exists>i \<le> num_ports w0. port = of_nat i
               \<and> unat (rx_port_idx (fst w)) = (i + 1) mod (num_ports w0 + 1)
               \<and> (if i = num_ports w0 then user_contents w0 = p # user_contents w
                  else link_states (fst w0) ! i \<and> user_contents w = user_contents w0
                    \<and> takes_frame env w0 i p (link_queue w0 w i))
               \<and> (\<forall>k < num_ports w0. k \<noteq> i \<longrightarrow> untaken env w0 w k))
      | Nothing w \<Rightarrow>
          core (fst w) = core (fst w0) \<and> ctx_wf (fst w)
          \<and> rx_port_idx (fst w) = rx_port_idx (fst w0)
          \<and> user_contents w0 = [] \<and> user_contents w = []
          \<and> (\<forall>k < num_ports w0. untaken env w0 w k)
      | Failed w \<Rightarrow> exited (ts (fst w)) \<and> exit_code (ts (fst w)) \<noteq> NONE
      | Stalled w \<Rightarrow> False)"

text \<open>The state after \<open>j\<close> ports had nothing.\<close>

definition scan_port :: "node_context \<times> sockets \<Rightarrow> nat \<Rightarrow> nat" where
  "scan_port w0 j = (unat (rx_port_idx (fst w0)) + j) mod (num_ports w0 + 1)"

definition scan_inv ::
  "recv_env \<Rightarrow> node_context \<times> sockets \<Rightarrow> nat \<Rightarrow> node_context \<times> sockets \<Rightarrow> bool" where
  "scan_inv env w0 j w \<longleftrightarrow>
     core (fst w) = core (fst w0) \<and> ctx_wf (fst w)
     \<and> unat (rx_port_idx (fst w)) = scan_port w0 j
     \<and> user_contents w = user_contents w0
     \<and> (\<forall>k < num_ports w0. untaken env w0 w k)
     \<and> (\<forall>m. j \<le> m \<longrightarrow> m \<le> num_ports w0 \<longrightarrow> scan_port w0 m < num_ports w0
           \<longrightarrow> link_queue w0 w (scan_port w0 m) = link_queue w0 w0 (scan_port w0 m))
     \<and> (\<forall>m < j. scan_port w0 m = num_ports w0 \<longrightarrow> user_contents w0 = [])"

lemma scan_port_le: "scan_port w0 j \<le> num_ports w0"
  using mod_less_divisor [of "num_ports w0 + 1"] by (simp add: scan_port_def less_Suc_eq_le)

lemma scan_port_Suc: "scan_port w0 (Suc j) = (scan_port w0 j + 1) mod (num_ports w0 + 1)"
  by (simp add: scan_port_def mod_Suc_eq)

lemma scan_port_0: "ctx_wf (fst w0) \<Longrightarrow> scan_port w0 0 = unat (rx_port_idx (fst w0))"
  by (simp add: scan_port_def num_ports_def ctx_wf_def word_le_nat_alt)

lemma scan_port_inj:
  "scan_port w0 j = scan_port w0 m \<Longrightarrow> j \<le> num_ports w0 \<Longrightarrow> m \<le> num_ports w0 \<Longrightarrow> j = m"
  unfolding scan_port_def by (erule offset_inj) simp_all

lemma scan_port_onto: "\<exists>m \<le> num_ports w0. scan_port w0 m = num_ports w0" if "ctx_wf (fst w0)"
proof -
  have "unat (rx_port_idx (fst w0)) \<le> num_ports w0"
    using that by (simp add: ctx_wf_def num_ports_def word_le_nat_alt)
  then show ?thesis
    by (intro exI [of _ "num_ports w0 - unat (rx_port_idx (fst w0))"]) (simp add: scan_port_def)
qed

lemma next_port_simps [simp]:
  "core (fst (next_port w)) = core (fst w)" "snd (next_port w) = snd w"
  "mq_user (fst (next_port w)) = mq_user (fst w)" "user_contents (next_port w) = user_contents w"
  "link_queue w0 (next_port w) i = link_queue w0 w i"
  "untaken env w0 (next_port w) i = untaken env w0 w i"
  by (simp_all add: next_port_def Let_def user_contents_def link_queue_def untaken_def)

lemma next_port_idx:
  "unat (rx_port_idx (fst (next_port w))) = (unat (rx_port_idx (fst w)) + 1) mod (num_ports w + 1)"
proof -
  have "(unat (rx_port_idx (fst w)) + 1) mod (num_ports w + 1) < num_ports w + 1" by simp
  also have "\<dots> \<le> 65536" using unat_u16_less [of "max_port_id (fst w)"] by (simp add: num_ports_def)
  finally have "(unat (rx_port_idx (fst w)) + 1) mod (num_ports w + 1) < 65536" .
  then show ?thesis
    by (simp add: next_port_def Let_def num_ports_def unat_of_nat)
qed

lemma ctx_wf_next_port:
  assumes "ctx_wf c0" and "core (fst w) = core c0" and "mq_inv (mq_user (fst w))"
  shows "ctx_wf (fst (next_port w))"
proof (rule ctx_wf_core [OF _ assms(1)])
  show "core (fst (next_port w)) = core c0" using assms(2) by simp
  have "unat (rx_port_idx (fst (next_port w))) < num_ports w + 1"
    unfolding next_port_idx by (rule mod_less_divisor) simp
  moreover have "num_ports w = num_ports (next_port w)"
    using core_max_port [of "fst w" "fst (next_port w)"] by (simp add: num_ports_def)
  ultimately show "rx_port_idx (fst (next_port w)) \<le> max_port_id (fst (next_port w))"
    by (simp add: num_ports_def word_le_nat_alt)
  show "mq_inv (mq_user (fst (next_port w)))" using assms(3) by simp
qed

lemma scan_inv_same:
  assumes "scan_inv env w0 j w"
  shows "num_ports w = num_ports w0" and "link_fd w i = link_fd w0 i"
    and "link_states (fst w) = link_states (fst w0)"
  using assms core_max_port [of "fst w" "fst w0"]
  by (simp_all add: scan_inv_def num_ports_def core_eq link_fd_def)

text \<open>The port that is looked at next has the queue it had at the call.\<close>

lemma scan_inv_fresh:
  assumes "scan_inv env w0 j w" and "j \<le> num_ports w0"
    and "rx_port_idx (fst w) \<noteq> max_port_id (fst w)"
  shows "scan_port w0 j < num_ports w0"
    and "link_queue w0 w (scan_port w0 j) = link_queue w0 w0 (scan_port w0 j)"
    and "arriving env w (scan_port w0 j) = arriving env w0 (scan_port w0 j)"
proof -
  have idx: "unat (rx_port_idx (fst w)) = scan_port w0 j" using assms(1) by (simp add: scan_inv_def)
  then have "scan_port w0 j \<noteq> num_ports w"
    using assms(3) by (metis num_ports_def word_unat_eq_iff)
  then show lt: "scan_port w0 j < num_ports w0"
    using scan_port_le [of w0 j] scan_inv_same(1) [OF assms(1)] by simp
  then show q: "link_queue w0 w (scan_port w0 j) = link_queue w0 w0 (scan_port w0 j)"
    using assms(1,2) unfolding scan_inv_def by blast
  then show "arriving env w (scan_port w0 j) = arriving env w0 (scan_port w0 j)"
    using scan_inv_same(2) [OF assms(1)] by (simp add: arriving_def link_queue_def link_fd_def)
qed

lemma scan_inv_start: "ctx_wf (fst w0) \<Longrightarrow> scan_inv env w0 0 w0"
  by (simp add: scan_inv_def scan_port_0 untaken_def arriving_def link_queue_def link_fd_def)

lemma link_fd_distinct:
  assumes "ctx_wf (fst w0)" and "distinct (rx_socket_fds (fst w0))"
    and "i < num_ports w0" and "k < num_ports w0" and "k \<noteq> i"
  shows "link_fd w0 k \<noteq> link_fd w0 i"
  using assms by (simp add: link_fd_def ctx_wf_def num_ports_def nth_eq_iff_index_eq)

text \<open>The queues of the other links are those before the port was looked at.\<close>

lemma scan_others:
  assumes wf: "ctx_wf (fst w0)" and dist: "distinct (rx_socket_fds (fst w0))"
    and inv: "scan_inv env w0 j w" and j: "j \<le> num_ports w0"
    and link: "rx_port_idx (fst w) \<noteq> max_port_id (fst w)"
    and same: "\<forall>fd'. fd' \<noteq> link_fd w (unat (rx_port_idx (fst w))) \<longrightarrow> rxq (snd w') fd' = rxq (snd w) fd'"
    and k: "k < num_ports w0" "k \<noteq> scan_port w0 j"
  shows "link_queue w0 w' k = link_queue w0 w k"
proof -
  have "unat (rx_port_idx (fst w)) = scan_port w0 j" using inv by (simp add: scan_inv_def)
  moreover have "link_fd w0 k \<noteq> link_fd w0 (scan_port w0 j)"
    using link_fd_distinct [OF wf dist scan_inv_fresh(1) [OF inv j link] k] .
  ultimately show ?thesis
    using same scan_inv_same(2) [OF inv] by (simp add: link_queue_def)
qed

lemma scan_nothing:
  assumes wf: "ctx_wf (fst w0)" and dist: "distinct (rx_socket_fds (fst w0))"
    and inv: "scan_inv env w0 j w" and j: "j \<le> num_ports w0"
    and post: "poll_post env w (Nothing w')"
  shows "scan_inv env w0 (Suc j) (next_port w')"
proof -
  have P: "core (fst w') = core (fst w)" "rx_port_idx (fst w') = rx_port_idx (fst w)"
    "mq_inv (mq_user (fst w'))" "user_contents w' = user_contents w"
    using post by (simp_all add: poll_post_def Let_def user_contents_def)
  have I: "core (fst w) = core (fst w0)" "unat (rx_port_idx (fst w)) = scan_port w0 j"
    "user_contents w = user_contents w0" "\<And>k. k < num_ports w0 \<Longrightarrow> untaken env w0 w k"
    using inv by (simp_all add: scan_inv_def)
  have np: "num_ports w' = num_ports w0"
    using core_max_port [of "fst w'" "fst w0"] P(1) I(1) by (simp add: num_ports_def)
  have idx: "unat (rx_port_idx (fst (next_port w'))) = scan_port w0 (Suc j)"
    by (simp add: next_port_idx P(2) I(2) np scan_port_Suc)
  have wf': "ctx_wf (fst (next_port w'))"
    using ctx_wf_next_port [OF wf, of w'] P I(1) by simp
  have queues: "untaken env w0 w' k
      \<and> (k \<noteq> scan_port w0 j \<longrightarrow> link_queue w0 w' k = link_queue w0 w k)"
    if k: "k < num_ports w0" for k
  proof (cases "rx_port_idx (fst w) = max_port_id (fst w)")
    case True
    then have "rxq (snd w') = rxq (snd w)" using post by (simp add: poll_post_def Let_def)
    then have "link_queue w0 w' k = link_queue w0 w k" by (simp add: link_queue_def)
    then show ?thesis using I(4) [OF k] by (simp add: untaken_def)
  next
    case False
    note fresh = scan_inv_fresh [OF inv j False]
    have Q: "prefix (link_queue w0 w (scan_port w0 j)) (link_queue w0 w' (scan_port w0 j))"
      "prefix (link_queue w0 w' (scan_port w0 j)) (arriving env w (scan_port w0 j))"
      "\<forall>fd'. fd' \<noteq> link_fd w (unat (rx_port_idx (fst w))) \<longrightarrow> rxq (snd w') fd' = rxq (snd w) fd'"
      using post False scan_inv_same(2) [OF inv, of "scan_port w0 j"]
      by (simp_all add: poll_post_def Let_def I(2) link_queue_def link_fd_def)
    show ?thesis
    proof (cases "k = scan_port w0 j")
      case True
      then show ?thesis using Q(1,2) fresh by (simp add: untaken_def)
    next
      case other: False
      then have "link_queue w0 w' k = link_queue w0 w k"
        using scan_others [OF wf dist inv j False Q(3) k] by blast
      then show ?thesis using I(4) [OF k] by (simp add: untaken_def)
    qed
  qed
  have later: "link_queue w0 w' (scan_port w0 m) = link_queue w0 w0 (scan_port w0 m)"
    if m: "Suc j \<le> m" "m \<le> num_ports w0" "scan_port w0 m < num_ports w0" for m
  proof -
    have "scan_port w0 m \<noteq> scan_port w0 j" using scan_port_inj [of w0 m j] m j by auto
    then have "link_queue w0 w' (scan_port w0 m) = link_queue w0 w (scan_port w0 m)"
      using queues [OF m(3)] by blast
    then show ?thesis using inv m unfolding scan_inv_def by simp
  qed
  have user: "user_contents w0 = []" if m: "m < Suc j" "scan_port w0 m = num_ports w0" for m
  proof (cases "m = j")
    case True
    then have "rx_port_idx (fst w) = max_port_id (fst w)"
      using I(2) m(2) scan_inv_same(1) [OF inv] by (simp add: num_ports_def word_unat_eq_iff)
    then have "user_contents w = []" using post by (simp add: poll_post_def Let_def user_contents_def)
    then show ?thesis using I(3) by simp
  next
    case False
    then show ?thesis using inv m unfolding scan_inv_def by (metis less_Suc_eq)
  qed
  show ?thesis
    unfolding scan_inv_def
    using P(1,4) I(1,3) idx wf' queues later user by simp
qed

lemma scan_got:
  assumes wf: "ctx_wf (fst w0)" and dist: "distinct (rx_socket_fds (fst w0))"
    and inv: "scan_inv env w0 j w" and j: "j \<le> num_ports w0"
    and post: "poll_post env w (Got port p w')"
  shows "recv_post env w0 (Got port p (next_port w'))"
proof -
  let ?i = "scan_port w0 j"
  have P: "core (fst w') = core (fst w)" "rx_port_idx (fst w') = rx_port_idx (fst w)"
    "mq_inv (mq_user (fst w'))" "port = ucast (rx_port_idx (fst w))"
    using post by (simp_all add: poll_post_def Let_def)
  have I: "core (fst w) = core (fst w0)" "unat (rx_port_idx (fst w)) = ?i"
    "user_contents w = user_contents w0" "\<And>k. k < num_ports w0 \<Longrightarrow> untaken env w0 w k"
    using inv by (simp_all add: scan_inv_def)
  have np: "num_ports w' = num_ports w0"
    using core_max_port [of "fst w'" "fst w0"] P(1) I(1) by (simp add: num_ports_def)
  have idx: "unat (rx_port_idx (fst (next_port w'))) = (?i + 1) mod (num_ports w0 + 1)"
    by (simp add: next_port_idx P(2) I(2) np)
  have port: "port = of_nat ?i"
    unfolding I(2) [symmetric] P(4) by (rule unat_ucast_eq_of_nat)
  have wf': "ctx_wf (fst (next_port w'))"
    using ctx_wf_next_port [OF wf, of w'] P I(1) by simp
  have "(if ?i = num_ports w0 then user_contents w0 = p # user_contents w'
        else link_states (fst w0) ! ?i \<and> user_contents w' = user_contents w0
          \<and> takes_frame env w0 ?i p (link_queue w0 w' ?i))
      \<and> (\<forall>k < num_ports w0. k \<noteq> ?i \<longrightarrow> untaken env w0 w' k)"
  proof (cases "rx_port_idx (fst w) = max_port_id (fst w)")
    case True
    then have "?i = num_ports w0"
      using I(2) scan_inv_same(1) [OF inv] by (simp add: num_ports_def)
    moreover have "user_contents w = p # user_contents w'" "rxq (snd w') = rxq (snd w)"
      using post True by (simp_all add: poll_post_def Let_def user_contents_def)
    ultimately show ?thesis
      using I(3,4) by (simp add: untaken_def link_queue_def)
  next
    case False
    note fresh = scan_inv_fresh [OF inv j False]
    have Q: "link_states (fst w) ! ?i" "mq_user (fst w') = mq_user (fst w)"
      "takes_frame env w ?i p (link_queue w0 w' ?i)"
      "\<forall>fd'. fd' \<noteq> link_fd w (unat (rx_port_idx (fst w))) \<longrightarrow> rxq (snd w') fd' = rxq (snd w) fd'"
      using post False scan_inv_same(2) [OF inv, of ?i]
      by (simp_all add: poll_post_def Let_def I(2) link_queue_def link_fd_def)
    have "takes_frame env w0 ?i p (link_queue w0 w' ?i)"
      using Q(3) fresh(2,3) scan_inv_same(2) [OF inv, of ?i]
      by (simp add: takes_frame_def link_queue_def link_fd_def)
    moreover have "untaken env w0 w' k" if "k < num_ports w0" "k \<noteq> ?i" for k
      using scan_others [OF wf dist inv j False Q(4) that] I(4) [OF that(1)]
      by (simp add: untaken_def)
    ultimately show ?thesis
      using fresh(1) Q(1,2) I(3) scan_inv_same(3) [OF inv] by (simp add: user_contents_def)
  qed
  then have "\<exists>i \<le> num_ports w0. port = of_nat i
      \<and> unat (rx_port_idx (fst (next_port w'))) = (i + 1) mod (num_ports w0 + 1)
      \<and> (if i = num_ports w0 then user_contents w0 = p # user_contents (next_port w')
         else link_states (fst w0) ! i \<and> user_contents (next_port w') = user_contents w0
           \<and> takes_frame env w0 i p (link_queue w0 (next_port w') i))
      \<and> (\<forall>k < num_ports w0. k \<noteq> i \<longrightarrow> untaken env w0 (next_port w') k)"
    using idx port scan_port_le [of w0 j] unfolding next_port_simps by blast
  then show ?thesis
    unfolding recv_post_def poll.case using P(1) I(1) wf' by simp
qed

lemma recv_ports_result:
  assumes wf: "ctx_wf (fst w0)" and dist: "distinct (rx_socket_fds (fst w0))"
    and evs: "\<forall>i. 3 \<le> length (snd (env i))"
    and "scan_inv env w0 j w" and "j + fuel = num_ports w0 + 1" and "0 < fuel"
  shows "\<exists>r. recv_ports fuel (rx_port_idx (fst w0)) env w = Some r \<and> recv_post env w0 r"
  using assms(4-6)
proof (induction fuel arbitrary: j w)
  case 0
  then show ?case by simp
next
  case (Suc fuel)
  have j: "j \<le> num_ports w0" using Suc.prems(2) by simp
  have "ctx_wf (fst w)" using Suc.prems(1) by (simp add: scan_inv_def)
  from poll_port_result [OF this evs] obtain r where
    poll: "poll_port env w = Some r" and post: "poll_post env w r" by blast
  show ?case
  proof (cases r)
    case (Got port p w')
    then show ?thesis
      using poll scan_got [OF wf dist Suc.prems(1) j] post by simp
  next
    case (Nothing w')
    have inv': "scan_inv env w0 (Suc j) (next_port w')"
      using scan_nothing [OF wf dist Suc.prems(1) j] post Nothing by simp
    then have idx: "unat (rx_port_idx (fst (next_port w'))) = scan_port w0 (Suc j)"
      by (simp add: scan_inv_def)
    show ?thesis
    proof (cases "rx_port_idx (fst (next_port w')) = rx_port_idx (fst w0)")
      case True
      have "Suc j = num_ports w0 + 1"
      proof (rule ccontr)
        assume "Suc j \<noteq> num_ports w0 + 1"
        then have "Suc j \<le> num_ports w0" using j by simp
        moreover have "scan_port w0 (Suc j) = scan_port w0 0"
          using idx True scan_port_0 [OF wf] by simp
        ultimately show False using scan_port_inj [of w0 "Suc j" 0] by simp
      qed
      moreover obtain m where m: "m \<le> num_ports w0" "scan_port w0 m = num_ports w0"
        using scan_port_onto [OF wf] by blast
      ultimately have "m < Suc j" by simp
      then have "user_contents w0 = []" using inv' m(2) unfolding scan_inv_def by blast
      then have "recv_post env w0 (Nothing (next_port w'))"
        using inv' True by (simp add: recv_post_def scan_inv_def)
      then show ?thesis using poll Nothing True by (simp add: Let_def)
    next
      case False
      have "fuel \<noteq> 0"
      proof
        assume "fuel = 0"
        then have "Suc j = num_ports w0 + 1" using Suc.prems(2) by simp
        then have "scan_port w0 (Suc j) = (unat (rx_port_idx (fst w0)) + (num_ports w0 + 1))
            mod (num_ports w0 + 1)"
          by (simp add: scan_port_def)
        also have "\<dots> = scan_port w0 0" unfolding scan_port_def mod_add_self2 by simp
        finally have "scan_port w0 (Suc j) = scan_port w0 0" .
        then show False
          using idx False scan_port_0 [OF wf] by (simp add: word_unat_eq_iff)
      qed
      then show ?thesis
        using Suc.IH [OF inv'] Suc.prems(2) poll Nothing False by (simp add: Let_def)
    qed
  next
    case (Failed w')
    then show ?thesis using poll post by (simp add: poll_post_def recv_post_def)
  next
    case (Stalled w')
    then show ?thesis using post by (simp add: poll_post_def)
  qed
qed

lemma node_recv_result:
  assumes "ctx_wf (fst w)" and "distinct (rx_socket_fds (fst w))"
    and "\<forall>i. 3 \<le> length (snd (env i))"
  shows "\<exists>r. node_recv env w = Some r \<and> recv_post env w r"
  unfolding node_recv_def
  by (rule recv_ports_result [OF assms scan_inv_start [OF assms(1)]]) (simp_all add: num_ports_def)

section \<open>Frames on a link\<close>

text \<open>A frame is the image of a packet that passes the size check of \<open>node_send\<close>.\<close>

definition valid_frame :: "u8 list \<Rightarrow> bool" where
  "valid_frame bs \<longleftrightarrow>
     (case packet_of_bytes bs of
        None \<Rightarrow> False
      | Some p \<Rightarrow> unat (total_size p) = length bs \<and> length bs \<le> 4096 \<and> validate_size p = Some True)"

text \<open>A stream of frames, the last of which may still be incomplete.\<close>

function valid_stream :: "u8 list \<Rightarrow> bool" where
  "valid_stream bs =
     (if length bs < 2 then True
      else let n = frame_size bs
        in if n < 12 \<or> 4096 < n then False
           else if length bs < n then True
           else valid_frame (take n bs) \<and> valid_stream (drop n bs))"
  by pat_completeness auto
termination by (relation "measure length") auto

declare valid_stream.simps [simp del]

lemma frame_size_prefix: "prefix S T \<Longrightarrow> 2 \<le> length S \<Longrightarrow> frame_size S = frame_size T"
  by (auto simp: prefix_def frame_size_def)

lemma valid_stream_prefix: "valid_stream T \<Longrightarrow> prefix S T \<Longrightarrow> valid_stream S"
proof (induction T arbitrary: S rule: valid_stream.induct)
  case (1 T)
  show ?case
  proof (cases "length S < 2")
    case True
    then show ?thesis by (simp add: valid_stream.simps [of S])
  next
    case False
    then have n: "frame_size S = frame_size T" "2 \<le> length S"
      using frame_size_prefix [OF 1(3)] by simp_all
    have T: "\<not> length T < 2" using n(2) prefix_length_le [OF 1(3)] by simp
    then have size: "\<not> (frame_size T < 12 \<or> 4096 < frame_size T)"
      using 1(2) by (auto simp: valid_stream.simps [of T] Let_def)
    show ?thesis
    proof (cases "length S < frame_size S")
      case True
      then show ?thesis using size n by (simp add: valid_stream.simps [of S] Let_def)
    next
      case full: False
      then have T': "\<not> length T < frame_size T" using n prefix_length_le [OF 1(3)] by simp
      then have vt: "valid_frame (take (frame_size T) T)" "valid_stream (drop (frame_size T) T)"
        using 1(2) T size by (simp_all add: valid_stream.simps [of T] Let_def)
      obtain U where U: "T = S @ U" using 1(3) by (auto simp: prefix_def)
      have "take (frame_size T) S = take (frame_size T) T"
        "prefix (drop (frame_size T) S) (drop (frame_size T) T)"
        using full n(1) by (simp_all add: U)
      then have "valid_stream (drop (frame_size S) S)" "valid_frame (take (frame_size S) S)"
        using 1(1) [OF T refl size T' vt(2)] vt(1) n(1) by simp_all
      then show ?thesis
        using size n full False by (simp add: valid_stream.simps [of S] Let_def)
    qed
  qed
qed

lemma valid_stream_frame:
  assumes "valid_stream S" and "12 \<le> frame_size S" and "frame_size S \<le> length S"
  shows "valid_frame (take (frame_size S) S) \<and> valid_stream (drop (frame_size S) S)"
  using assms by (simp add: valid_stream.simps [of S] Let_def split: if_splits)

lemma valid_stream_append_frame:
  assumes "valid_frame bs" and "valid_stream rest"
  shows "valid_stream (bs @ rest)"
proof -
  obtain p where p: "packet_of_bytes bs = Some p" "unat (total_size p) = length bs" "length bs \<le> 4096"
    using assms(1) by (auto simp: valid_frame_def split: option.splits)
  have "12 \<le> length bs" "(le_word (take 2 bs) :: u16) = total_size p"
    using p(1) by (auto simp: packet_of_bytes_def bind_eq_Some_conv rd_le_def split: if_splits)
  then have "frame_size (bs @ rest) = length bs" "12 \<le> length bs"
    using p(2) by (simp_all add: frame_size_def)
  then show ?thesis
    using assms p(3) by (simp add: valid_stream.simps [of "bs @ rest"])
qed

lemma valid_frame_stp:
  assumes "valid_frame bs" and "packet_of_bytes bs = Some p"
    and "ptype p = packet_type_code PACKET_TYPE_STP"
  shows "length (payload p) = 6"
proof -
  have "12 \<le> length bs" and pl: "payload p = drop 12 bs"
    using assms(2) by (auto simp: packet_of_bytes_def bind_eq_Some_conv rd_le_def const_defs split: if_splits)
  moreover have "unat (total_size p) = length bs" "unat (total_size p - 12) = 6"
    using assms by (simp_all add: valid_frame_def validate_size_def const_defs)
  ultimately have "unat (total_size p) - 12 = 6"
    using unat_sub [of "12 :: u16" "total_size p"] by (simp add: word_le_nat_alt)
  then show ?thesis using pl \<open>unat (total_size p) = length bs\<close> by simp
qed

section \<open>Properties\<close>


definition ex_mq :: "'a message_queue" where
  "ex_mq = the (message_queue_init 8 2 (True, True, True) (True, True) (True, True))"

lemma ex_mq_inv: "mq_inv (ex_mq :: 'a message_queue) \<and> mq_contents (ex_mq :: 'a message_queue) = []"
proof -
  have "message_queue_init 8 2 (True, True, True) (True, True) (True, True)
      \<noteq> (None :: 'a message_queue option)"
    by (simp add: message_queue_init_def Let_def setup_sem_def)
  then have init: "message_queue_init 8 2 (True, True, True) (True, True) (True, True)
      = Some (ex_mq :: 'a message_queue)"
    by (simp add: ex_mq_def)
  have "pad_size 8 * (2 * 2) \<le> 2 ^ 32" by (simp add: pad_size_def)
  from message_queue_init_ok [OF init _ _ _ this]
  show ?thesis by auto
qed

lemma ex_mq_simps [simp]: "mq_inv ex_mq" "mq_contents ex_mq = []"
  using ex_mq_inv by blast+

definition ex_topology :: topology_request where
  "ex_topology = \<lparr>tr_mixaddr = 9, tr_num_neighbors = 2, tr_do_random_routing = False,
     tr_mixing_factor = 1, tr_root_hello_interval_ms = 2000, tr_reelection_interval_ms = 20000,
     tr_link_costs = [1, 1]\<rparr>"

text \<open>A node with two connected neighbours; the first one has sent an STP packet.\<close>

definition ex_world :: "node_context \<times> sockets" where
  "ex_world =
     ((init_node_context ex_mq ex_mq ex_topology)\<lparr>tx_socket_fds := [10, 11], rx_socket_fds := [12, 13]\<rparr>,
      \<lparr>rxq = (\<lambda>fd. if fd = 12 then packet_memory (bleached (stp_packet 3 1 5)) else []),
       txd = (\<lambda>_. [])\<rparr>)"

definition ex_env :: recv_env where
  "ex_env i = (Some True, replicate 3 ex_quiet)"

lemma ex_world_wf: "ctx_wf (fst ex_world) \<and> distinct (rx_socket_fds (fst ex_world))"
proof -
  have "ctx_wf (init_node_context ex_mq ex_mq ex_topology)"
    by (intro ctx_wf_init) simp_all
  then show ?thesis
    by (simp add: ex_world_def ctx_wf_def max_port_id_def init_node_context_def ex_topology_def Let_def)
qed


end
