(* ===== verification/NodeRun.thy ===== *)
theory NodeRun
  imports Node NodeContext
begin

text \<open>
  A node on the framework: the loop of mixnet/node.c over \<open>mixnet_recv\<close> and \<open>mixnet_send\<close> as
  framework/fragment.cpp provides them (\<open>worker_node\<close> runs the loop with the node context as its
  handle). The interface between the two is a locale: what a receive may deliver, what a send
  accepts.
\<close>

section \<open>The thread as a state machine\<close>

text \<open>
  Sends in call order, with their results; \<open>None\<close> when one of them leaves the thread (by an
  exception) or does not return.
\<close>

fun send_all ::
  "('f \<Rightarrow> u8 \<times> mixnet_packet \<Rightarrow> 's \<Rightarrow> (int \<times> 's) option) \<Rightarrow> 'f list \<Rightarrow> sends \<Rightarrow> 's
    \<Rightarrow> (int list \<times> 's) option" where
  "send_all send fs [] w = Some ([], w)"
| "send_all send [] (x # out) w = None"
| "send_all send (f # fs) (x # out) w = do {
     (n, w1) \<leftarrow> send f x w;
     (ns, w2) \<leftarrow> send_all send fs out w1;
     Some (n # ns, w2)
   }"

text \<open>
  The states the thread passes through at the head of its loop. \<open>env_ok\<close> limits what the
  environment does during a receive.
\<close>

inductive node_reach ::
  "mixnet_node_config \<Rightarrow> ('e \<Rightarrow> 's \<Rightarrow> bool)
    \<Rightarrow> ('e \<Rightarrow> 's \<Rightarrow> ((u8 \<times> mixnet_packet) option \<times> 's) option)
    \<Rightarrow> ('f \<Rightarrow> u8 \<times> mixnet_packet \<Rightarrow> 's \<Rightarrow> (int \<times> 's) option) \<Rightarrow> clock \<Rightarrow> 's
    \<Rightarrow> node_loop \<Rightarrow> 's \<Rightarrow> bool"
  for c env_ok recv send clk w0 where
  start: "loop_init c clk = (s, out) \<Longrightarrow> send_all send fs out w0 = Some (ns, w) \<Longrightarrow>
    node_reach c env_ok recv send clk w0 s w"
| step: "node_reach c env_ok recv send clk w0 s w \<Longrightarrow> env_ok e w \<Longrightarrow> recv e w = Some (r, w1) \<Longrightarrow>
    loop_body c clk r s = Some (s', out) \<Longrightarrow> send_all send fs out w1 = Some (ns, w2) \<Longrightarrow>
    node_reach c env_ok recv send clk w0 s' w2"

section \<open>The interface\<close>

locale connection =
  fixes c :: mixnet_node_config
    and inv :: "'s \<Rightarrow> bool" and env_ok :: "'e \<Rightarrow> 's \<Rightarrow> bool"
    and recv :: "'e \<Rightarrow> 's \<Rightarrow> ((u8 \<times> mixnet_packet) option \<times> 's) option"
    and send :: "'f \<Rightarrow> u8 \<times> mixnet_packet \<Rightarrow> 's \<Rightarrow> (int \<times> 's) option"
  assumes recv_law: "inv w \<Longrightarrow> env_ok e w \<Longrightarrow> recv e w = Some (r, w') \<Longrightarrow> recv_ok c r \<and> inv w'"
    and send_law: "inv w \<Longrightarrow> send_allowed c x \<Longrightarrow> send f x w = Some (n, w') \<Longrightarrow> n = 1 \<and> inv w'"
begin

lemma send_all_law:
  "inv w \<Longrightarrow> list_all (send_allowed c) out \<Longrightarrow> send_all send fs out w = Some (ns, w') \<Longrightarrow>
    inv w' \<and> set ns \<subseteq> {1}"
proof (induction out arbitrary: fs w ns)
  case Nil
  then show ?case by simp
next
  case (Cons x out)
  then obtain f fs' n w1 ms where *: "fs = f # fs'" "send f x w = Some (n, w1)"
    "send_all send fs' out w1 = Some (ms, w')" "ns = n # ms"
    by (cases fs) (auto simp: bind_eq_Some_conv)
  have "n = 1 \<and> inv w1" using send_law [OF Cons.prems(1) _ *(2)] Cons.prems(2) by simp
  then show ?case using Cons.IH [OF _ _ *(3)] Cons.prems(2) * by simp
qed

lemma node_reach_inv:
  assumes "node_reach c env_ok recv send clk w0 s w" and "inv w0"
  shows "node_wf c (nd s) \<and> inv w"
  using assms
proof (induction rule: node_reach.induct)
  case (start s out fs ns w)
  have s: "nd s = node_init c" "out = send_STP (node_init c)"
    using start(1) by (auto simp: loop_init_def read_clock_def Let_def)
  show ?case
    using send_all_law [OF start(3) _ start(2)] send_STP_allowed [OF node_wf_init]
    by (simp add: s node_wf_init)
next
  case (step s w e r w1 s' out fs ns w2)
  then have IH: "node_wf c (nd s)" "inv w" by simp_all
  have "inv w1" using recv_law [OF IH(2) step(2,3)] by simp
  then show ?case
    using node_wf_loop_body [OF step(4) IH(1)] loop_body_allowed [OF step(4) IH(1)]
      send_all_law [OF _ _ step(5)]
    by simp
qed

text \<open>
  In a state the thread reaches, the loop body stays inside its arrays and every send that
  returns is accepted.
\<close>

lemma node_reach_progress:
  assumes "node_reach c env_ok recv send clk w0 s w" and "inv w0"
    and "env_ok e w" and "recv e w = Some (r, w1)"
  shows "\<exists>s' out. loop_body c clk r s = Some (s', out)
    \<and> (\<forall>fs ns w2. send_all send fs out w1 = Some (ns, w2) \<longrightarrow> set ns \<subseteq> {1})"
proof -
  have *: "node_wf c (nd s)" "inv w" using node_reach_inv [OF assms(1,2)] by simp_all
  have r: "recv_ok c r" "inv w1" using recv_law [OF *(2) assms(3,4)] by simp_all
  from loop_body_defined [OF *(1) r(1)] obtain s' out where
    body: "loop_body c clk r s = Some (s', out)" by blast
  then show ?thesis
    using send_all_law [OF r(2) loop_body_allowed [OF body *(1)]] by blast
qed

end

section \<open>The framework's connection\<close>

definition context_recv :: "recv_env \<Rightarrow> node_context \<times> sockets
    \<Rightarrow> ((u8 \<times> mixnet_packet) option \<times> node_context \<times> sockets) option" where
  "context_recv env w =
     (case node_recv env w of
        Some (Got port p w') \<Rightarrow> Some (Some (port, p), w')
      | Some (Nothing w') \<Rightarrow> Some (None, w')
      | _ \<Rightarrow> None)"

definition context_send :: "bool option \<times> tx_event list \<Rightarrow> u8 \<times> mixnet_packet
    \<Rightarrow> node_context \<times> sockets \<Rightarrow> (int \<times> node_context \<times> sockets) option" where
  "context_send f x w =
     (case node_send (fst f) (snd f) (fst x) (snd x) w of
        Some (Sent_rc n, w') \<Rightarrow> Some (n, w')
      | _ \<Rightarrow> None)"

text \<open>
  The links carry frames, as the neighbours' \<open>node_send\<close> produces them; the user port carries no
  STP packets; and there are fewer than 256 neighbours, which node.c counts in 8 bits.
\<close>

definition context_inv :: "mixnet_node_config \<Rightarrow> node_context \<times> sockets \<Rightarrow> bool" where
  "context_inv c w \<longleftrightarrow>
     ctx_wf (fst w) \<and> distinct (rx_socket_fds (fst w)) \<and> node_config (fst w) = c
     \<and> unat (cfg_num_neighbors c) < 256
     \<and> (\<forall>k < num_ports w. valid_stream (link_queue w w k))
     \<and> (\<forall>p \<in> set (user_contents w). ptype p \<noteq> packet_type_code PACKET_TYPE_STP)"

definition links_ok :: "recv_env \<Rightarrow> node_context \<times> sockets \<Rightarrow> bool" where
  "links_ok env w \<longleftrightarrow>
     (\<forall>i. 3 \<le> length (snd (env i))) \<and> (\<forall>k < num_ports w. valid_stream (arriving env w k))"

lemma untaken_valid:
  "untaken env w0 w k \<Longrightarrow> valid_stream (arriving env w0 k) \<Longrightarrow> valid_stream (link_queue w0 w k)"
  unfolding untaken_def by (blast intro: valid_stream_prefix)

lemma takes_frame_valid:
  assumes "takes_frame env w i p q'" and "valid_stream (arriving env w i)"
  shows "valid_stream q' \<and> (ptype p = packet_type_code PACKET_TYPE_STP \<longrightarrow> copy_in_bounds p)"
proof -
  obtain S where S: "prefix S (arriving env w i)" "12 \<le> frame_size S" "frame_size S \<le> length S"
    "packet_of_bytes (take (frame_size S) S) = Some p" "q' = drop (frame_size S) S"
    using assms(1) by (auto simp: takes_frame_def)
  have "valid_stream S" using valid_stream_prefix [OF assms(2) S(1)] .
  from valid_stream_frame [OF this S(2,3)] S(4,5) valid_frame_stp show ?thesis
    by (auto simp: copy_in_bounds_def const_defs)
qed

lemma context_recv_law:
  assumes inv: "context_inv c w" and env: "links_ok env w"
    and recv: "context_recv env w = Some (r, w')"
  shows "recv_ok c r \<and> context_inv c w'"
proof -
  have I: "ctx_wf (fst w)" "distinct (rx_socket_fds (fst w))" "node_config (fst w) = c"
    "unat (cfg_num_neighbors c) < 256"
    "\<And>p. p \<in> set (user_contents w) \<Longrightarrow> ptype p \<noteq> packet_type_code PACKET_TYPE_STP"
    using inv by (auto simp: context_inv_def)
  have evs: "\<forall>i. 3 \<le> length (snd (env i))"
    and arr: "\<And>k. k < num_ports w \<Longrightarrow> valid_stream (arriving env w k)"
    using env by (simp_all add: links_ok_def)
  have n: "num_ports w = unat (cfg_num_neighbors c)"
    using I(3) by (simp add: num_ports_def max_port_id_def)
  have same: "num_ports w' = num_ports w \<and> link_queue w' w' k = link_queue w w' k
      \<and> distinct (rx_socket_fds (fst w')) \<and> node_config (fst w') = c"
    if "core (fst w') = core (fst w)" for k
    using that I(2,3) core_max_port [OF that]
    by (simp add: num_ports_def core_eq link_queue_def link_fd_def)
  from node_recv_result [OF I(1,2) evs] obtain res where
    res: "node_recv env w = Some res" "recv_post env w res" by blast
  show ?thesis
  proof (cases res)
    case (Got port p w1)
    then have r: "r = Some (port, p)" "w1 = w'" using recv res by (simp_all add: context_recv_def)
    obtain i where i: "i \<le> num_ports w" "port = of_nat i"
      and got: "if i = num_ports w then user_contents w = p # user_contents w'
          else user_contents w' = user_contents w \<and> takes_frame env w i p (link_queue w w' i)"
      and others: "\<And>k. k < num_ports w \<Longrightarrow> k \<noteq> i \<Longrightarrow> untaken env w w' k"
      and core: "core (fst w') = core (fst w)" "ctx_wf (fst w')"
      using res(2) Got r(2) by (auto simp: recv_post_def)
    have port: "unat port = i" using i n I(4) by (simp add: unat_of_nat)
    have "recv_ok c r \<and> (i < num_ports w \<longrightarrow> valid_stream (link_queue w w' i))
        \<and> (\<forall>p \<in> set (user_contents w'). ptype p \<noteq> packet_type_code PACKET_TYPE_STP)"
    proof (cases "i = num_ports w")
      case True
      then have "user_contents w = p # user_contents w'" using got by simp
      then show ?thesis using True I(5) port n r(1) by (simp add: recv_ok_def)
    next
      case False
      then have "i < num_ports w" using i by simp
      then show ?thesis
        using False got takes_frame_valid [OF _ arr, of i p "link_queue w w' i"] I(5) port n r(1)
        by (simp add: recv_ok_def)
    qed
    then show ?thesis
      using core same [OF core(1)] I(4) others untaken_valid arr
      unfolding context_inv_def by metis
  next
    case (Nothing w1)
    then have r: "r = None" "w1 = w'" using recv res by (simp_all add: context_recv_def)
    have N: "core (fst w') = core (fst w)" "ctx_wf (fst w')" "user_contents w' = []"
      "\<And>k. k < num_ports w \<Longrightarrow> untaken env w w' k"
      using res(2) Nothing r(2) by (simp_all add: recv_post_def)
    then have "valid_stream (link_queue w w' k)" if "k < num_ports w" for k
      using that untaken_valid arr by blast
    then show ?thesis
      using r(1) same N I(4) by (simp add: context_inv_def recv_ok_def)
  next
    case (Failed w1)
    then show ?thesis using recv res by (simp add: context_recv_def)
  next
    case (Stalled w1)
    then show ?thesis using recv res by (simp add: context_recv_def)
  qed
qed

section \<open>What the framework accepts\<close>

lemma sends_are_valid:
  assumes "send_allowed c (port, p)"
  shows "MIN_MIXNET_PACKET_SIZE \<le> total_size p \<and> total_size p \<le> MAX_MIXNET_PACKET_SIZE
    \<and> validate_size (bleached p) = Some True \<and> unat port \<le> unat (cfg_num_neighbors c) mod 256
    \<and> length (packet_memory (bleached p)) = 18"
  using assms
  by (auto simp: validate_size_def bleached_def const_defs packet_memory_def word_less_nat_alt
      word_le_nat_alt unat_ucast_u16_u8 split: if_splits)

lemma packet_memory_size: "rd_le 2 0 (packet_memory p) = Some (total_size p)"
  by (simp add: packet_memory_def header_bytes_def)

text \<open>The bytes a blocking send puts on the wire: a prefix of the packet, the packet on success.\<close>

lemma node_send_blocking_wire:
  assumes "node_send_blocking nb p evs = Some (Return ec bs)"
  shows "\<exists>k. bs = take k (packet_memory p)
    \<and> (ec = NONE \<longrightarrow> k = unat (total_size p) \<and> unat (total_size p) \<le> length (packet_memory p))"
  using send_generic_wire [of blocking_config nb "packet_memory p" MIXNET_CONNECTION_BROKEN
      MIN_MIXNET_PACKET_SIZE MAX_MIXNET_PACKET_SIZE evs ec bs] assms
  unfolding node_send_blocking_def packet_memory_size by auto

lemma node_send_blocking_defined:
  assumes "unat (total_size p) \<le> length (packet_memory p)"
  shows "\<exists>r. node_send_blocking nb p evs = Some r"
  using assms
  by (auto simp: node_send_blocking_def send_generic_def packet_memory_size const_defs Let_def)

text \<open>A packet of node.c on a port of the node is never refused.\<close>

lemma node_send_allowed:
  assumes wf: "ctx_wf ctx" and c: "node_config ctx = c" "unat (cfg_num_neighbors c) < 256"
    and p: "send_allowed c (port, p)"
  shows "\<exists>res ctx' net'. node_send nb evs port p (ctx, net) = Some (res, ctx', net')
    \<and> (res = Sent_rc 1 \<or> res = Send_thrown \<or> res = Send_blocked)
    \<and> rxq net' = rxq net \<and> (res = Sent_rc 1 \<longrightarrow> ctx_wf ctx' \<and> node_config ctx' = c
        \<and> rx_socket_fds ctx' = rx_socket_fds ctx \<and> mq_user ctx' = mq_user ctx
        \<and> link_states ctx' = link_states ctx)"
proof -
  have n: "max_port_id ctx = cfg_num_neighbors c" using c(1) by (simp add: max_port_id_def)
  note v = sends_are_valid [OF p]
  have port: "unat port \<le> unat (cfg_num_neighbors c)" using v c(2) by simp
  show ?thesis
  proof (cases "unat port = unat (cfg_num_neighbors c)")
    case user: True
    then have "ptype p = packet_type_code PACKET_TYPE_FLOOD"
      using p c(2) by (auto simp: word_less_nat_alt unat_ucast_u16_u8 split: if_splits)
    moreover obtain ok q where q: "mq_push (Some (bleached p)) (mq_pcap ctx) = Some (ok, q)" "mq_inv q"
      using mq.push_result [of "mq_pcap ctx" "Some (bleached p)"] wf by (auto simp: ctx_wf_def)
    ultimately show ?thesis
      using user v wf c by (auto simp: node_send_def n Let_def not_less ctx_wf_def max_port_id_def)
  next
    case False
    then have lt: "unat port < length (tx_socket_fds ctx)"
      using port wf by (simp add: ctx_wf_def n)
    have "unat (total_size (bleached p)) \<le> length (packet_memory (bleached p))"
      using v p by (auto simp: bleached_def split: if_splits)
    then obtain r where r: "node_send_blocking nb (bleached p) evs = Some r"
      using node_send_blocking_defined by blast
    show ?thesis
      using False port v wf c lt r
      by (cases r) (auto simp: node_send_def n Let_def not_less transmit_def)
  qed
qed

lemma context_send_law:
  assumes inv: "context_inv c w" and p: "send_allowed c x"
    and send: "context_send f x w = Some (n, w')"
  shows "n = 1 \<and> context_inv c w'"
proof -
  obtain port pkt where x: "x = (port, pkt)" by fastforce
  obtain ctx net where w: "w = (ctx, net)" by fastforce
  have I: "ctx_wf ctx" "node_config ctx = c" "unat (cfg_num_neighbors c) < 256"
    using inv by (simp_all add: context_inv_def w)
  obtain res ctx' net' where r: "node_send (fst f) (snd f) port pkt (ctx, net) = Some (res, ctx', net')"
    "res = Sent_rc 1 \<or> res = Send_thrown \<or> res = Send_blocked" "rxq net' = rxq net"
    "res = Sent_rc 1 \<Longrightarrow> ctx_wf ctx' \<and> node_config ctx' = c
        \<and> rx_socket_fds ctx' = rx_socket_fds ctx \<and> mq_user ctx' = mq_user ctx"
    using node_send_allowed [OF I p [unfolded x], of "fst f" "snd f" net] by blast
  have "res = Sent_rc 1" "n = 1" "w' = (ctx', net')"
    using send r(1,2) by (auto simp: context_send_def x w)
  then show ?thesis
    using inv r(3,4) I
    by (simp add: context_inv_def w num_ports_def max_port_id_def link_queue_def link_fd_def
        user_contents_def)
qed

interpretation ctx: connection c "context_inv c" links_ok context_recv context_send
  for c
  by unfold_locales ((rule context_recv_law context_send_law; assumption)+)

section \<open>Frames sent by a node\<close>

lemma node_send_frame:
  assumes c: "node_config ctx = c" "unat (cfg_num_neighbors c) < 256"
    and p: "send_allowed c (port, p)" and link: "unat port < unat (cfg_num_neighbors c)"
    and send: "node_send nb evs port p (ctx, net) = Some (Sent_rc 1, ctx', net')"
  shows "\<exists>bs. valid_frame bs \<and> net' = transmit (tx_socket_fds ctx ! unat port) bs net
    \<and> packet_of_bytes bs = Some ((bleached p)\<lparr>payload :=
          take (unat (total_size p) - sizeof_mixnet_packet) (payload p)\<rparr>)"
proof -
  let ?p = "bleached p"
  let ?n = "unat (total_size p)"
  have n: "max_port_id ctx = cfg_num_neighbors c" using c(1) by (simp add: max_port_id_def)
  have size: "?n = 18 \<and> ptype p = packet_type_code PACKET_TYPE_STP
      \<or> ?n = 12 \<and> ptype p = packet_type_code PACKET_TYPE_FLOOD" "length (payload p) = 6"
    using p by (auto split: if_splits)
  note v = sends_are_valid [OF p]
  have "unat (total_size ?p) \<le> length (packet_memory ?p)"
    using v size by (auto simp: bleached_def)
  then obtain r where r: "node_send_blocking nb ?p evs = Some r"
    using node_send_blocking_defined by blast
  have *: "unat port < length (tx_socket_fds ctx)
      \<and> (case r of Waiting bs \<Rightarrow> False
         | Return ec bs \<Rightarrow> ec = NONE \<and> net' = transmit (tx_socket_fds ctx ! unat port) bs net)"
    using send v link r
    by (cases r) (auto simp: node_send_def n Let_def not_less split: if_splits)
  then obtain bs where blk: "node_send_blocking nb ?p evs = Some (Return NONE bs)"
    and net: "net' = transmit (tx_socket_fds ctx ! unat port) bs net"
    using r by (cases r) auto
  have "bs = take ?n (packet_memory ?p)"
    using node_send_blocking_wire [OF blk] by (auto simp: bleached_def)
  then have "packet_bytes ?p = Some bs"
    using size by (auto simp: packet_bytes_def packet_memory_def bleached_def const_defs)
  then have len: "length bs = ?n" and dec: "packet_of_bytes bs = Some ((bleached p)\<lparr>payload :=
          take (?n - sizeof_mixnet_packet) (payload p)\<rparr>)"
    using packet_bytes_Some [of ?p bs] packet_of_packet_bytes [of ?p bs] size
    by (auto simp: bleached_def const_defs)
  have "total_size p = 18 \<or> total_size p = 12"
    using p by (auto split: if_splits)
  then have "valid_frame bs"
    using len dec size by (auto simp: valid_frame_def validate_size_def bleached_def const_defs)
  then show ?thesis using net dec by blast
qed

section \<open>Properties\<close>


definition ex_node_config :: mixnet_node_config where
  "ex_node_config = node_config (fst ex_world)"

lemma ex_frame: "valid_frame (packet_memory (bleached (stp_packet 3 1 5)))"
  by code_simp

lemma ex_context_inv: "context_inv ex_node_config ex_world"
proof -
  have "valid_stream (packet_memory (bleached (stp_packet 3 1 5)) @ [])"
    by (rule valid_stream_append_frame [OF ex_frame]) (simp add: valid_stream.simps [of "[]"])
  moreover have "valid_stream []" by (simp add: valid_stream.simps [of "[]"])
  ultimately have "valid_stream (link_queue ex_world ex_world k)" for k
    by (simp add: link_queue_def ex_world_def)
  moreover have "user_contents ex_world = []"
    by (simp add: user_contents_def ex_world_def init_node_context_def ex_topology_def Let_def)
  moreover have "unat (cfg_num_neighbors ex_node_config) = 2"
    by (simp add: ex_node_config_def ex_world_def init_node_context_def ex_topology_def Let_def
        default_node_config_def)
  ultimately show ?thesis
    using ex_world_wf by (simp add: context_inv_def ex_node_config_def)
qed

text \<open>The announcement of a node that starts, sent to both neighbours.\<close>

definition ex_tx :: "bool option \<times> tx_event list" where
  "ex_tx = (Some True, [(Tx 18, 0)])"

lemma ex_reach:
  "\<exists>s w. node_reach ex_node_config links_ok context_recv context_send ex_clock ex_world s w"
proof -
  have "\<not> Option.is_none (send_all context_send [ex_tx, ex_tx]
      (snd (loop_init ex_node_config ex_clock)) ex_world)"
    by code_simp
  then obtain ns w where "send_all context_send [ex_tx, ex_tx]
      (snd (loop_init ex_node_config ex_clock)) ex_world = Some (ns, w)"
    by (auto simp: Option.is_none_def)
  from node_reach.start [OF prod.collapse [symmetric] this] show ?thesis by blast
qed


text \<open>
  A packet that node.c sends to one of its ports is never refused: \<open>node_send\<close> sends it
  (result 1), leaves the thread because a connection or the capture queue failed, or blocks; the
  context stays well formed.
\<close>

theorem node_send_accepts:
  assumes "ctx_wf ctx" and "node_config ctx = c" and "unat (cfg_num_neighbors c) < 256"
    and "send_allowed c (port, p)"
  shows "\<exists>res ctx' net'. node_send nb evs port p (ctx, net) = Some (res, ctx', net')
    \<and> (res = Sent_rc 1 \<or> res = Send_thrown \<or> res = Send_blocked)
    \<and> (res = Sent_rc 1 \<longrightarrow> ctx_wf ctx')"
  using node_send_allowed [OF assms, of nb evs net] by blast

lemma ex_allowed: "send_allowed ex_node_config (0, stp_packet 9 0 9)"
  by (simp add: ex_node_config_def ex_world_def init_node_context_def ex_topology_def
      default_node_config_def Let_def)

theorem node_send_accepts_witness:
  "\<exists>res ctx' net'. node_send (Some True) [(Tx 18, 0)] 0 (stp_packet 9 0 9) (fst ex_world, snd ex_world)
      = Some (res, ctx', net')
    \<and> (res = Sent_rc 1 \<or> res = Send_thrown \<or> res = Send_blocked)
    \<and> (res = Sent_rc 1 \<longrightarrow> ctx_wf ctx')"
proof -
  have "ctx_wf (fst ex_world)" "node_config (fst ex_world) = ex_node_config"
    "unat (cfg_num_neighbors ex_node_config) < 256"
    using ex_context_inv by (simp_all add: context_inv_def)
  from node_send_accepts [OF this ex_allowed] show ?thesis .
qed

text \<open>
  C38: What \<open>node_send\<close> puts on a link for a packet of node.c is one valid frame that reads back as
  that packet with its reserved field zeroed: the frames the neighbour's receive relies on.
\<close>

theorem node_send_emits_frame:
  assumes "node_config ctx = c" and "unat (cfg_num_neighbors c) < 256"
    and "send_allowed c (port, p)" and "unat port < unat (cfg_num_neighbors c)"
    and "node_send nb evs port p (ctx, net) = Some (Sent_rc 1, ctx', net')"
  shows "\<exists>bs. valid_frame bs \<and> net' = transmit (tx_socket_fds ctx ! unat port) bs net
    \<and> packet_of_bytes bs = Some ((bleached p)\<lparr>payload :=
          take (unat (total_size p) - sizeof_mixnet_packet) (payload p)\<rparr>)"
  by (rule node_send_frame [OF assms])


theorem node_send_emits_frame_witness:
  "\<exists>bs ctx' net'. node_send (Some True) [(Tx 18, 0)] 0 (stp_packet 9 0 9) ex_world
      = Some (Sent_rc 1, ctx', net')
    \<and> valid_frame bs \<and> net' = transmit 10 bs (snd ex_world)"
proof -
  have "case node_send (Some True) [(Tx 18, 0)] 0 (stp_packet 9 0 9) ex_world of
      Some (Sent_rc n, _) \<Rightarrow> n = 1 | _ \<Rightarrow> False"
    by code_simp
  then obtain ctx' net' where r: "node_send (Some True) [(Tx 18, 0)] 0 (stp_packet 9 0 9)
      (fst ex_world, snd ex_world) = Some (Sent_rc 1, ctx', net')"
    by (auto split: option.splits prod.splits send_outcome.splits)
  have c: "node_config (fst ex_world) = ex_node_config" "unat (cfg_num_neighbors ex_node_config) < 256"
    using ex_context_inv by (simp_all add: context_inv_def)
  have "unat (0 :: u8) < unat (cfg_num_neighbors ex_node_config)" by code_simp
  moreover have "tx_socket_fds (fst ex_world) ! unat (0 :: u8) = 10" by (simp add: ex_world_def)
  ultimately show ?thesis using node_send_emits_frame [OF c ex_allowed _ r] r by auto
qed

end
