(* ===== verification/Message.thy ===== *)
theory Message
  imports ErrorCodes Packet
begin

text \<open>
  Framework messages (framework/message.h, framework/message.cpp): the message types, the header,
  the length computation and the canary. A message is its buffer: a byte for every offset below
  \<open>MAX_MESSAGE_LENGTH\<close>; an access beyond it is \<open>None\<close>, as is a failed \<open>assert\<close>.
\<close>

section \<open>Message types and codes\<close>

datatype message_type =
    MSG_NOOP
  | MSG_SETUP_CTRL
  | MSG_SETUP_PCAP
  | MSG_TOPOLOGY
  | MSG_START_MIXNET_SERVER
  | MSG_START_MIXNET_CLIENTS
  | MSG_RESOLVE_MIXNET_CONNS
  | MSG_CHANGE_LINK_STATE
  | MSG_PCAP_DATA
  | MSG_PCAP_SUBSCRIPTION
  | MSG_SEND_PACKET
  | MSG_START_TESTCASE
  | MSG_END_TESTCASE
  | MSG_SHUTDOWN

definition message_type_enum :: "message_type list" where
  "message_type_enum =
    [MSG_NOOP, MSG_SETUP_CTRL, MSG_SETUP_PCAP, MSG_TOPOLOGY, MSG_START_MIXNET_SERVER,
     MSG_START_MIXNET_CLIENTS, MSG_RESOLVE_MIXNET_CONNS, MSG_CHANGE_LINK_STATE, MSG_PCAP_DATA,
     MSG_PCAP_SUBSCRIPTION, MSG_SEND_PACKET, MSG_START_TESTCASE, MSG_END_TESTCASE, MSG_SHUTDOWN]"

definition message_type_value :: "message_type \<Rightarrow> u16" where
  "message_type_value t = of_nat (index_of t message_type_enum)"

definition code_create :: "bool \<Rightarrow> message_type \<Rightarrow> u16" where
  "code_create request t =
     push_bit 15 (of_bool (\<not> request)) OR (message_type_value t AND 0x7FFF)"

definition code_is_request :: "u16 \<Rightarrow> bool" where
  "code_is_request code \<longleftrightarrow> code AND 0x8000 = 0"

definition code_to_type :: "u16 \<Rightarrow> message_type option" where
  "code_to_type code =
     (let code_type = unat (code AND 0x7FFF)
      in if code_type < length message_type_enum then Some (message_type_enum ! code_type)
         else None)"

lemma message_type_enum_UNIV: "t \<in> set message_type_enum"
  by (cases t) (simp_all add: message_type_enum_def)

lemma code_to_type_create [simp]: "code_to_type (code_create r t) = Some t"
  by (cases t; cases r)
    (simp_all add: code_create_def code_to_type_def message_type_value_def message_type_enum_def)

lemma code_is_request_create [simp]: "code_is_request (code_create r t) = r"
  by (cases t; cases r)
    (simp_all add: code_create_def code_is_request_def message_type_value_def message_type_enum_def)

section \<open>The buffer\<close>

definition MAX_MESSAGE_LENGTH :: nat where
  [const_defs]: "MAX_MESSAGE_LENGTH = 65535"

definition sizeof_header :: nat where
  [const_defs]: "sizeof_header = 8"

definition canary :: u32 where
  [const_defs]: "canary = 0xdeadbeef"

definition sizeof_canary :: nat where
  [const_defs]: "sizeof_canary = 4"

definition MIN_MESSAGE_LENGTH :: nat where
  [const_defs]: "MIN_MESSAGE_LENGTH = sizeof_header + sizeof_canary"

definition buf_rd :: "nat \<Rightarrow> nat \<Rightarrow> buffer \<Rightarrow> 'a::len word option" where
  "buf_rd k off b =
     (if off + k \<le> MAX_MESSAGE_LENGTH then Some (le_word (slice b off k)) else None)"

definition buf_wr :: "nat \<Rightarrow> u8 list \<Rightarrow> buffer \<Rightarrow> buffer option" where
  "buf_wr off bs b =
     (if off + length bs \<le> MAX_MESSAGE_LENGTH then Some (buf_put off bs b) else None)"

text \<open>Header fields, at offsets 0, 2, 4 and 6: always inside the buffer.\<close>

definition get_u16 :: "nat \<Rightarrow> buffer \<Rightarrow> u16" where
  "get_u16 off b = le_word (slice b off 2)"

definition get_total_length :: "buffer \<Rightarrow> u16" where
  "get_total_length = get_u16 0"

definition get_message_code :: "buffer \<Rightarrow> u16" where
  "get_message_code = get_u16 2"

definition get_fragment_id :: "buffer \<Rightarrow> u16" where
  "get_fragment_id = get_u16 4"

definition get_error_code :: "buffer \<Rightarrow> error_code option" where
  "get_error_code b = error_code_of_value (get_u16 6 b)"

definition is_request_msg :: "buffer \<Rightarrow> bool" where
  "is_request_msg b = code_is_request (get_message_code b)"

definition get_type :: "buffer \<Rightarrow> message_type option" where
  "get_type b = code_to_type (get_message_code b)"

definition clear :: "buffer \<Rightarrow> buffer" where
  "clear = buf_put 0 (replicate sizeof_header 0)"

definition set_fragment_id :: "u16 \<Rightarrow> buffer \<Rightarrow> buffer" where
  "set_fragment_id fid = buf_put 4 (le_bytes 2 fid)"

definition set_error_code :: "error_code \<Rightarrow> buffer \<Rightarrow> buffer" where
  "set_error_code e = buf_put 6 (le_bytes 2 (error_code_value e))"

definition set_code :: "bool \<Rightarrow> message_type \<Rightarrow> buffer \<Rightarrow> buffer" where
  "set_code request t = buf_put 2 (le_bytes 2 (code_create request t))"

section \<open>Lengths\<close>

definition sizeof_sockaddr_in :: nat where
  [const_defs]: "sizeof_sockaddr_in = 16"

text \<open>
  \<open>length()\<close> of the payload structures: fixed sizes, and a fixed part plus an array whose element
  count is read from the payload; the result type \<open>length_t\<close> keeps the low 16 bits.
\<close>

definition array_length :: "nat \<Rightarrow> nat \<Rightarrow> u16 \<Rightarrow> u16" where
  "array_length fixed elem count = of_nat (fixed + unat count * elem)"

fun payload_length :: "bool \<Rightarrow> message_type \<Rightarrow> buffer \<Rightarrow> u16 option" where
  "payload_length request MSG_SETUP_CTRL b = Some (if request then 1 else 4)"
| "payload_length request MSG_SETUP_PCAP b =
     Some (if request then of_nat sizeof_sockaddr_in else 0)"
| "payload_length request MSG_TOPOLOGY b =
     Some (if request then array_length 16 2 (get_u16 (sizeof_header + 2) b) else 0)"
| "payload_length request MSG_START_MIXNET_SERVER b =
     Some (if request then 0 else of_nat sizeof_sockaddr_in)"
| "payload_length request MSG_START_MIXNET_CLIENTS b =
     Some (array_length 8 sizeof_sockaddr_in (get_u16 sizeof_header b))"
| "payload_length request MSG_RESOLVE_MIXNET_CONNS b =
     Some (if request then array_length 8 sizeof_sockaddr_in (get_u16 sizeof_header b) else 0)"
| "payload_length request MSG_CHANGE_LINK_STATE b = Some (if request then 4 else 0)"
| "payload_length request MSG_PCAP_DATA b =
     Some (if request then 0 else get_u16 sizeof_header b)"
| "payload_length request MSG_PCAP_SUBSCRIPTION b = Some (if request then 1 else 0)"
| "payload_length request MSG_SEND_PACKET b =
     Some (if request then array_length 8 1 (get_u16 (sizeof_header + 6) b) else 0)"
| "payload_length request MSG_START_TESTCASE b = Some 0"
| "payload_length request MSG_END_TESTCASE b = Some 0"
| "payload_length request MSG_SHUTDOWN b = Some 0"
| "payload_length request MSG_NOOP b = None"

definition compute_total_length :: "buffer \<Rightarrow> u16 option" where
  "compute_total_length b = do {
     t \<leftarrow> get_type b;
     len \<leftarrow> payload_length (is_request_msg b) t b;
     Some (of_nat (sizeof_header + unat len + sizeof_canary))
   }"

definition validate :: "buffer \<Rightarrow> bool option" where
  "validate b = do {
     len \<leftarrow> compute_total_length b;
     if unat len < MIN_MESSAGE_LENGTH \<or> unat len > MAX_MESSAGE_LENGTH then Some False
     else do {
       c \<leftarrow> buf_rd 4 (unat len - sizeof_canary) b;
       Some (c = canary)
     }
   }"

definition finalize :: "buffer \<Rightarrow> buffer option" where
  "finalize b = do {
     len \<leftarrow> compute_total_length b;
     if unat len \<ge> MIN_MESSAGE_LENGTH \<and> unat len \<le> MAX_MESSAGE_LENGTH
     then buf_wr (unat len - sizeof_canary) (le_bytes 4 canary) (buf_put 0 (le_bytes 2 len) b)
     else None
   }"

section \<open>Reading back what was written\<close>

lemma get_u16_put [simp]:
  "get_u16 off (buf_put off (le_bytes 2 w) b) = w"
  "off + 2 \<le> p \<or> p + length bs \<le> off \<Longrightarrow> get_u16 off (buf_put p bs b) = get_u16 off b"
  by (simp_all add: get_u16_def le_word_le_bytes)

lemma header_accessors [simp]:
  "get_fragment_id (set_fragment_id fid b) = fid"
  "get_fragment_id (set_error_code e b) = get_fragment_id b"
  "get_fragment_id (set_code r t b) = get_fragment_id b"
  "get_error_code (set_error_code e b) = Some e"
  "get_error_code (set_fragment_id fid b) = get_error_code b"
  "get_error_code (set_code r t b) = get_error_code b"
  "get_type (set_code r t b) = Some t"
  "get_type (set_fragment_id fid b) = get_type b"
  "get_type (set_error_code e b) = get_type b"
  "is_request_msg (set_code r t b) = r"
  "is_request_msg (set_fragment_id fid b) = is_request_msg b"
  "is_request_msg (set_error_code e b) = is_request_msg b"
  by (simp_all add: get_fragment_id_def get_error_code_def get_type_def is_request_msg_def
      get_message_code_def set_fragment_id_def set_error_code_def set_code_def)

section \<open>Messages whose length does not wrap around\<close>

text \<open>The payload size without truncation to 16 bits.\<close>

fun payload_size :: "bool \<Rightarrow> message_type \<Rightarrow> buffer \<Rightarrow> nat option" where
  "payload_size request MSG_SETUP_CTRL b = Some (if request then 1 else 4)"
| "payload_size request MSG_SETUP_PCAP b = Some (if request then 16 else 0)"
| "payload_size request MSG_TOPOLOGY b =
     Some (if request then 16 + 2 * unat (get_u16 10 b) else 0)"
| "payload_size request MSG_START_MIXNET_SERVER b = Some (if request then 0 else 16)"
| "payload_size request MSG_START_MIXNET_CLIENTS b = Some (8 + 16 * unat (get_u16 8 b))"
| "payload_size request MSG_RESOLVE_MIXNET_CONNS b =
     Some (if request then 8 + 16 * unat (get_u16 8 b) else 0)"
| "payload_size request MSG_CHANGE_LINK_STATE b = Some (if request then 4 else 0)"
| "payload_size request MSG_PCAP_DATA b =
     Some (if request then 0 else unat (get_u16 8 b))"
| "payload_size request MSG_PCAP_SUBSCRIPTION b = Some (if request then 1 else 0)"
| "payload_size request MSG_SEND_PACKET b =
     Some (if request then 8 + unat (get_u16 14 b) else 0)"
| "payload_size request MSG_START_TESTCASE b = Some 0"
| "payload_size request MSG_END_TESTCASE b = Some 0"
| "payload_size request MSG_SHUTDOWN b = Some 0"
| "payload_size request MSG_NOOP b = None"

lemma payload_length_size: "payload_length r t b = map_option of_nat (payload_size r t b)"
  by (cases t) (simp_all add: array_length_def const_defs mult.commute)

definition msg_size :: "buffer \<Rightarrow> nat option" where
  "msg_size b = Option.bind (get_type b) (\<lambda>t. payload_size (is_request_msg b) t b)"

text \<open>
  A message fits when its true length is at most \<open>MAX_MESSAGE_LENGTH\<close>. The second part excludes
  packet captures shorter than their own size field.
\<close>

definition well_sized :: "buffer \<Rightarrow> bool" where
  "well_sized b \<longleftrightarrow>
     (case msg_size b of
        None \<Rightarrow> False
      | Some n \<Rightarrow> n + MIN_MESSAGE_LENGTH \<le> MAX_MESSAGE_LENGTH
          \<and> (get_type b = Some MSG_PCAP_DATA \<and> \<not> is_request_msg b \<longrightarrow> 2 \<le> n))"

lemma compute_total_length_size:
  assumes "msg_size b = Some n" and "n + MIN_MESSAGE_LENGTH \<le> MAX_MESSAGE_LENGTH"
  shows "compute_total_length b = Some (of_nat (n + MIN_MESSAGE_LENGTH))"
proof -
  obtain t where t: "get_type b = Some t" "payload_size (is_request_msg b) t b = Some n"
    using assms(1) by (auto simp: msg_size_def bind_eq_Some_conv)
  have "unat (of_nat n :: u16) = n"
    using assms(2) by (simp add: unat_of_nat const_defs)
  then show ?thesis
    using t by (simp add: compute_total_length_def payload_length_size const_defs algebra_simps)
qed

text \<open>The computed size depends on the message code and the payload only.\<close>

lemma get_u16_cong:
  "(\<And>i. off \<le> i \<Longrightarrow> i < off + 2 \<Longrightarrow> b i = b' i) \<Longrightarrow> get_u16 off b = get_u16 off b'"
  unfolding get_u16_def by (rule arg_cong [where f = le_word], rule slice_cong)

lemma msg_size_cong:
  assumes n: "msg_size b = Some n"
    and pcap: "get_type b = Some MSG_PCAP_DATA \<and> \<not> is_request_msg b \<longrightarrow> 2 \<le> n"
    and same: "\<And>i. 2 \<le> i \<Longrightarrow> i < sizeof_header + n \<Longrightarrow> b' i = b i"
  shows "msg_size b' = Some n \<and> get_type b' = get_type b \<and> is_request_msg b' = is_request_msg b"
proof -
  have code: "get_message_code b' = get_message_code b"
    unfolding get_message_code_def by (rule get_u16_cong) (simp add: same const_defs)
  then have hdr: "get_type b' = get_type b" "is_request_msg b' = is_request_msg b"
    by (simp_all add: get_type_def is_request_msg_def)
  have u16: "off + 2 \<le> 8 + n \<Longrightarrow> 2 \<le> off \<Longrightarrow> get_u16 off b' = get_u16 off b" for off
    by (rule get_u16_cong) (simp add: same const_defs)
  obtain t where t: "get_type b = Some t" "payload_size (is_request_msg b) t b = Some n"
    using n by (auto simp: msg_size_def bind_eq_Some_conv)
  have "payload_size (is_request_msg b) t b' = Some n"
    using t(2) pcap t(1) u16 [of 8] u16 [of 10] u16 [of 14]
    by (cases t) (auto split: if_splits)
  with t(1) hdr show ?thesis by (simp add: msg_size_def)
qed

lemma finalize_correct:
  assumes ws: "well_sized b" and n: "msg_size b = Some n"
  shows "\<exists>b'. finalize b = Some b' \<and> unat (get_total_length b') = n + MIN_MESSAGE_LENGTH
    \<and> (\<forall>i. 2 \<le> i \<and> i < sizeof_header + n \<longrightarrow> b' i = b i)
    \<and> slice b' (sizeof_header + n) sizeof_canary = le_bytes 4 canary"
proof -
  have fit: "n + MIN_MESSAGE_LENGTH \<le> MAX_MESSAGE_LENGTH"
    using ws n by (simp add: well_sized_def)
  define w :: u16 where "w = of_nat (n + MIN_MESSAGE_LENGTH)"
  have len: "unat w = n + MIN_MESSAGE_LENGTH"
    unfolding w_def using fit by (subst unat_of_nat) (simp add: const_defs)
  have off: "n + MIN_MESSAGE_LENGTH - sizeof_canary = sizeof_header + n"
    by (simp add: const_defs)
  have total: "compute_total_length b = Some w"
    unfolding w_def using compute_total_length_size [OF n fit] .
  let ?b' = "buf_put (sizeof_header + n) (le_bytes 4 canary) (buf_put 0 (le_bytes 2 w) b)"
  have "finalize b = Some ?b'"
    using fit by (simp add: finalize_def total len off buf_wr_def) (simp add: const_defs)
  moreover have "get_total_length ?b' = w"
    by (simp add: get_total_length_def const_defs)
  moreover have "slice ?b' (sizeof_header + n) sizeof_canary = le_bytes 4 canary"
    by (simp add: const_defs)
  moreover have "\<forall>i. 2 \<le> i \<and> i < sizeof_header + n \<longrightarrow> ?b' i = b i"
    by (simp add: buf_put_def)
  ultimately show ?thesis using len by metis
qed

text \<open>A buffer that agrees with a finalized message on its bytes passes the validation.\<close>

lemma validate_finalized:
  assumes ws: "well_sized b" and n: "msg_size b = Some n" and fin: "finalize b = Some b'"
    and same: "\<And>i. i < n + MIN_MESSAGE_LENGTH \<Longrightarrow> c i = b' i"
  shows "validate c = Some True \<and> msg_size c = Some n \<and> get_type c = get_type b
    \<and> is_request_msg c = is_request_msg b"
proof -
  have fit: "n + MIN_MESSAGE_LENGTH \<le> MAX_MESSAGE_LENGTH"
    and pcap: "get_type b = Some MSG_PCAP_DATA \<and> \<not> is_request_msg b \<longrightarrow> 2 \<le> n"
    using ws n by (simp_all add: well_sized_def)
  from finalize_correct [OF ws n] fin
  have payload: "\<forall>i. 2 \<le> i \<and> i < sizeof_header + n \<longrightarrow> b' i = b i"
    and can: "slice b' (sizeof_header + n) sizeof_canary = le_bytes 4 canary"
    by auto
  have "c i = b i" if "2 \<le> i" "i < sizeof_header + n" for i
    using that payload same [of i] by (simp add: const_defs)
  from msg_size_cong [OF n pcap this]
  have c: "msg_size c = Some n" "get_type c = get_type b" "is_request_msg c = is_request_msg b"
    by auto
  have "slice c (sizeof_header + n) sizeof_canary = le_bytes 4 canary"
    unfolding can [symmetric] by (rule slice_cong) (simp add: same const_defs)
  moreover have "unat (of_nat (n + MIN_MESSAGE_LENGTH) :: u16) = n + MIN_MESSAGE_LENGTH"
    using fit by (subst unat_of_nat) (simp add: const_defs)
  moreover have "n + MIN_MESSAGE_LENGTH - sizeof_canary = sizeof_header + n"
    by (simp add: const_defs)
  ultimately have "validate c = Some True"
    using compute_total_length_size [OF c(1) fit] fit
    by (simp add: validate_def buf_rd_def) (simp add: const_defs le_word_le_bytes)
  with c show ?thesis by simp
qed

section \<open>Messages whose length wraps around\<close>

text \<open>
  The length of the list of client or server addresses is computed in 16 bits, also where it does
  not fit: the canary then overwrites the addresses.
\<close>

lemma start_clients_total:
  assumes "get_type b = Some MSG_START_MIXNET_CLIENTS"
  shows "compute_total_length b = Some (20 + 16 * get_u16 8 b)"
proof -
  have "array_length 8 sizeof_sockaddr_in w = 8 + 16 * w" for w
    by (simp add: array_length_def const_defs mult.commute)
  moreover have "(of_nat (8 + unat (8 + 16 * w) + 4) :: u16) = 20 + 16 * w" for w :: u16
    by simp
  ultimately show ?thesis
    using assms by (simp add: compute_total_length_def const_defs)
qed

lemma start_clients_wraps:
  assumes t: "get_type b = Some MSG_START_MIXNET_CLIENTS" and n: "get_u16 8 b = 4096"
  shows "\<exists>b'. finalize b = Some b' \<and> get_total_length b' = 20 \<and> msg_size b = Some 65544
    \<and> slice b' 16 4 = le_bytes 4 canary"
proof -
  have "compute_total_length b = Some 20" using start_clients_total [OF t] n by simp
  then have "finalize b = Some (buf_put 16 (le_bytes 4 canary) (buf_put 0 (le_bytes 2 (20::u16)) b))"
    by (simp add: finalize_def buf_wr_def const_defs)
  then show ?thesis using t n by (simp add: get_total_length_def msg_size_def)
qed

section \<open>Properties\<close>

text \<open>
  \<open>finalize\<close> on a message that fits writes its true length and the canary and keeps the
  header fields and the payload; every buffer with the bytes of the finalized message validates.
\<close>

theorem finalize_then_validate:
  assumes "well_sized b" and "msg_size b = Some n"
  shows "\<exists>b'. finalize b = Some b' \<and> unat (get_total_length b') = n + MIN_MESSAGE_LENGTH
    \<and> (\<forall>i. 2 \<le> i \<and> i < sizeof_header + n \<longrightarrow> b' i = b i)
    \<and> (\<forall>c. slice c 0 (n + MIN_MESSAGE_LENGTH) = slice b' 0 (n + MIN_MESSAGE_LENGTH)
          \<longrightarrow> validate c = Some True)"
proof -
  obtain b' where b': "finalize b = Some b'" "unat (get_total_length b') = n + MIN_MESSAGE_LENGTH"
    "\<forall>i. 2 \<le> i \<and> i < sizeof_header + n \<longrightarrow> b' i = b i"
    using finalize_correct [OF assms] by blast
  have "validate c = Some True"
    if "slice c 0 (n + MIN_MESSAGE_LENGTH) = slice b' 0 (n + MIN_MESSAGE_LENGTH)" for c
    using validate_finalized [OF assms b'(1), of c] that by (simp add: slice_def)
  with b' show ?thesis by blast
qed

definition ex_message :: buffer where
  "ex_message = set_code True MSG_CHANGE_LINK_STATE (\<lambda>_. 7)"

lemma ex_message_size: "msg_size ex_message = Some 4 \<and> well_sized ex_message"
proof -
  have "get_type ex_message = Some MSG_CHANGE_LINK_STATE" "is_request_msg ex_message"
    by (simp_all add: ex_message_def)
  then show ?thesis by (simp add: well_sized_def msg_size_def const_defs)
qed

theorem finalize_then_validate_witness:
  "\<exists>b'. finalize ex_message = Some b' \<and> unat (get_total_length b') = 4 + MIN_MESSAGE_LENGTH
    \<and> (\<forall>i. 2 \<le> i \<and> i < sizeof_header + 4 \<longrightarrow> b' i = ex_message i)
    \<and> (\<forall>c. slice c 0 (4 + MIN_MESSAGE_LENGTH) = slice b' 0 (4 + MIN_MESSAGE_LENGTH)
          \<longrightarrow> validate c = Some True)"
  using finalize_then_validate [of ex_message 4] ex_message_size by blast

text \<open>
  The message code carries direction and type: both are read back from the code that is
  created for them.
\<close>

theorem message_code_roundtrip:
  "code_to_type (code_create request t) = Some t \<and> code_is_request (code_create request t) = request"
  by simp

text \<open>
  The length of a list of client addresses is computed in 16 bits: for 4096 neighbours
  \<open>finalize\<close> announces 20 bytes instead of 65556 and overwrites the first address with the canary.
\<close>

theorem start_clients_length_wraps:
  assumes "get_type b = Some MSG_START_MIXNET_CLIENTS" and "get_u16 8 b = 4096"
  shows "\<exists>b'. finalize b = Some b' \<and> get_total_length b' = 20 \<and> msg_size b = Some 65544
    \<and> slice b' 16 4 = le_bytes 4 canary"
  by (rule start_clients_wraps [OF assms])

theorem start_clients_length_wraps_witness:
  "let b = buf_put 8 (le_bytes 2 (4096 :: u16)) (set_code False MSG_START_MIXNET_CLIENTS (\<lambda>_. 0))
   in \<exists>b'. finalize b = Some b' \<and> get_total_length b' = 20 \<and> msg_size b = Some 65544
    \<and> slice b' 16 4 = le_bytes 4 canary"
  unfolding Let_def
proof (rule start_clients_length_wraps)
  let ?b = "buf_put 8 (le_bytes 2 (4096 :: u16)) (set_code False MSG_START_MIXNET_CLIENTS (\<lambda>_. 0))"
  have "get_message_code ?b = get_message_code (set_code False MSG_START_MIXNET_CLIENTS (\<lambda>_. 0))"
    by (simp add: get_message_code_def)
  then show "get_type ?b = Some MSG_START_MIXNET_CLIENTS"
    by (metis get_type_def header_accessors(7))
  show "get_u16 8 ?b = 4096" by simp
qed

end
