(* ===== verification/Headers.thy ===== *)
theory Headers
  imports Message
begin

text \<open>
  The headers of requests and responses: how orchestrator and fragments fill them in, and how the
  receiver checks them (\<open>prepare_header\<close> and \<open>check_header\<close> of framework/orchestrator.cpp and
  framework/fragment.cpp). \<open>None\<close> is a failed \<open>assert\<close>.
\<close>

section \<open>Orchestrator\<close>

definition orchestrator_prepare_header :: "u16 \<Rightarrow> message_type \<Rightarrow> buffer \<Rightarrow> buffer" where
  "orchestrator_prepare_header fid t m =
     set_error_code NONE (set_code True t (set_fragment_id fid m))"

definition orchestrator_check_header ::
  "buffer \<Rightarrow> bool \<Rightarrow> u16 \<Rightarrow> message_type \<Rightarrow> error_code option" where
  "orchestrator_check_header m check_id fid t = do {
     valid \<leftarrow> validate m;
     if \<not> valid then Some MALFORMED_MESSAGE
     else if check_id \<and> get_fragment_id m \<noteq> fid then Some BAD_FRAGMENT_ID
     else if is_request_msg m then Some BAD_MESSAGE_CODE
     else do {
       ty \<leftarrow> get_type m;
       if ty \<noteq> t then Some BAD_MESSAGE_CODE
       else do {
         ec \<leftarrow> get_error_code m;
         Some (if ec \<noteq> NONE then FRAGMENT_EXCEPTION else NONE)
       }
     }
   }"

section \<open>Fragment\<close>

text \<open>The first argument is the member \<open>fid_\<close>.\<close>

definition fragment_prepare_header ::
  "u16 \<Rightarrow> buffer \<Rightarrow> message_type \<Rightarrow> error_code \<Rightarrow> buffer" where
  "fragment_prepare_header fid m t ec = set_fragment_id fid (set_code False t (set_error_code ec m))"

definition fragment_check_header ::
  "u16 \<Rightarrow> bool \<Rightarrow> bool \<Rightarrow> buffer \<Rightarrow> message_type \<Rightarrow> error_code option" where
  "fragment_check_header fid check_id check_type m t = do {
     valid \<leftarrow> validate m;
     if \<not> valid then Some MALFORMED_MESSAGE
     else if \<not> is_request_msg m then Some BAD_MESSAGE_CODE
     else if check_id \<and> get_fragment_id m \<noteq> fid then Some BAD_FRAGMENT_ID
     else do {
       bad_type \<leftarrow> (if check_type then map_option (\<lambda>ty. ty \<noteq> t) (get_type m) else Some False);
       if bad_type then Some BAD_MESSAGE_CODE
       else do {
         ec \<leftarrow> get_error_code m;
         Some (if ec \<noteq> NONE then FRAGMENT_EXCEPTION else NONE)
       }
     }
   }"

section \<open>Checking a message that was prepared and finalized\<close>

text \<open>\<open>c\<close> holds the bytes of the message \<open>b\<close> after \<open>finalize\<close>.\<close>

definition delivered :: "buffer \<Rightarrow> buffer \<Rightarrow> bool" where
  "delivered b c \<longleftrightarrow>
     well_sized b
     \<and> (case finalize b of
          None \<Rightarrow> False
        | Some b' \<Rightarrow> slice c 0 (unat (get_total_length b')) = slice b' 0 (unat (get_total_length b')))"

lemma slice_eq_iff: "slice b off n = slice b' off n \<longleftrightarrow> (\<forall>i. off \<le> i \<and> i < off + n \<longrightarrow> b i = b' i)"
  by (auto simp: slice_def)

lemma delivered_header:
  assumes "delivered b c"
  shows "validate c = Some True" and "get_type c = get_type b" and "get_type c \<noteq> None"
    and "is_request_msg c = is_request_msg b" and "get_fragment_id c = get_fragment_id b"
    and "get_error_code c = get_error_code b"
proof -
  have ws: "well_sized b" using assms by (simp add: delivered_def)
  then obtain n where n: "msg_size b = Some n" by (auto simp: well_sized_def split: option.splits)
  obtain b' where b': "finalize b = Some b'" "unat (get_total_length b') = n + MIN_MESSAGE_LENGTH"
    and old: "\<forall>i. 2 \<le> i \<and> i < sizeof_header + n \<longrightarrow> b' i = b i"
    using finalize_correct [OF ws n] by blast
  have same: "i < n + MIN_MESSAGE_LENGTH \<Longrightarrow> c i = b' i" for i
    using assms b' by (simp add: delivered_def slice_eq_iff)
  from validate_finalized [OF ws n b'(1) same]
  show "validate c = Some True" "get_type c = get_type b" "is_request_msg c = is_request_msg b"
    by auto
  then show "get_type c \<noteq> None" using n by (auto simp: msg_size_def bind_eq_Some_conv)
  have "get_u16 off c = get_u16 off b" if "2 \<le> off" "off + 2 \<le> sizeof_header" for off
    using that old same by (intro get_u16_cong) (simp add: const_defs)
  then show "get_fragment_id c = get_fragment_id b" "get_error_code c = get_error_code b"
    by (simp_all add: get_fragment_id_def get_error_code_def const_defs)
qed

lemma fragment_check_delivered:
  assumes "delivered b c" and "get_error_code b = Some e"
  shows "fragment_check_header fid check_id check_type c t =
    Some (if \<not> is_request_msg b then BAD_MESSAGE_CODE
          else if check_id \<and> get_fragment_id b \<noteq> fid then BAD_FRAGMENT_ID
          else if check_type \<and> get_type b \<noteq> Some t then BAD_MESSAGE_CODE
          else if e \<noteq> NONE then FRAGMENT_EXCEPTION else NONE)"
  using delivered_header [OF assms(1)] assms(2) by (auto simp: fragment_check_header_def)

lemma orchestrator_check_delivered:
  assumes "delivered b c" and "get_error_code b = Some e"
  shows "orchestrator_check_header c check_id fid t =
    Some (if check_id \<and> get_fragment_id b \<noteq> fid then BAD_FRAGMENT_ID
          else if is_request_msg b \<or> get_type b \<noteq> Some t then BAD_MESSAGE_CODE
          else if e \<noteq> NONE then FRAGMENT_EXCEPTION else NONE)"
  using delivered_header [OF assms(1)] assms(2) by (auto simp: orchestrator_check_header_def)

text \<open>Writing the payload keeps the header.\<close>

definition same_header :: "buffer \<Rightarrow> buffer \<Rightarrow> bool" where
  "same_header b b' \<longleftrightarrow> slice b' 0 sizeof_header = slice b 0 sizeof_header"

lemma same_header_accessors:
  assumes "same_header b b'"
  shows "get_type b' = get_type b" "is_request_msg b' = is_request_msg b"
    "get_fragment_id b' = get_fragment_id b" "get_error_code b' = get_error_code b"
proof -
  have "off + 2 \<le> sizeof_header \<Longrightarrow> get_u16 off b' = get_u16 off b" for off
    using assms by (intro get_u16_cong) (simp add: same_header_def slice_eq_iff)
  then show "get_type b' = get_type b" "is_request_msg b' = is_request_msg b"
    "get_fragment_id b' = get_fragment_id b" "get_error_code b' = get_error_code b"
    by (simp_all add: get_type_def is_request_msg_def get_fragment_id_def get_error_code_def
        get_message_code_def const_defs)
qed

lemma fragment_accepts_request:
  assumes "same_header (orchestrator_prepare_header fid t m) b" and "delivered b c"
  shows "fragment_check_header fid' check_id check_type c t' =
    Some (if check_id \<and> fid \<noteq> fid' then BAD_FRAGMENT_ID
          else if check_type \<and> t \<noteq> t' then BAD_MESSAGE_CODE else NONE)"
  using same_header_accessors [OF assms(1)] fragment_check_delivered [OF assms(2), of NONE]
  by (simp add: orchestrator_prepare_header_def)

lemma orchestrator_accepts_response:
  assumes "same_header (fragment_prepare_header fid m t ec) b" and "delivered b c"
  shows "orchestrator_check_header c check_id fid' t' =
    Some (if check_id \<and> fid \<noteq> fid' then BAD_FRAGMENT_ID
          else if t \<noteq> t' then BAD_MESSAGE_CODE
          else if ec \<noteq> NONE then FRAGMENT_EXCEPTION else NONE)"
  using same_header_accessors [OF assms(1)] orchestrator_check_delivered [OF assms(2), of ec]
  by (simp add: fragment_prepare_header_def)

text \<open>A message code without a message type stops the receiver instead of being reported.\<close>

lemma validate_unknown_type:
  "get_type c = None \<or> get_type c = Some MSG_NOOP \<Longrightarrow> validate c = None"
  by (auto simp: validate_def compute_total_length_def)

lemma check_header_aborts:
  assumes "get_type c = None \<or> get_type c = Some MSG_NOOP"
  shows "fragment_check_header fid check_id check_type c t = None"
    and "orchestrator_check_header c check_id fid t = None"
  using validate_unknown_type [OF assms]
  by (simp_all add: fragment_check_header_def orchestrator_check_header_def)

section \<open>Properties\<close>

text \<open>
  A request that the orchestrator prepared for fragment \<open>fid\<close>, filled in, finalized and
  delivered is accepted by a fragment, unless the fragment checks the identifier and has another
  one or checks the type and expects another one: then it reports exactly that.
\<close>

theorem fragment_checks_request:
  assumes "same_header (orchestrator_prepare_header fid t m) b" and "delivered b c"
  shows "fragment_check_header fid' check_id check_type c t' =
    Some (if check_id \<and> fid \<noteq> fid' then BAD_FRAGMENT_ID
          else if check_type \<and> t \<noteq> t' then BAD_MESSAGE_CODE else NONE)"
  by (rule fragment_accepts_request [OF assms])

definition ex_request :: buffer where
  "ex_request = orchestrator_prepare_header 3 MSG_SHUTDOWN (\<lambda>_. 0)"

definition ex_response :: buffer where
  "ex_response = fragment_prepare_header 3 (\<lambda>_. 0) MSG_SHUTDOWN FRAGMENT_EXCEPTION"

lemma finalized_delivered: "well_sized b \<Longrightarrow> delivered b (the (finalize b))"
  using finalize_correct [of b] by (auto simp: delivered_def well_sized_def split: option.splits)

lemma ex_well_sized: "well_sized ex_request \<and> well_sized ex_response"
  by (simp add: well_sized_def msg_size_def ex_request_def ex_response_def
      orchestrator_prepare_header_def fragment_prepare_header_def const_defs)

theorem fragment_checks_request_witness:
  "fragment_check_header 4 True True (the (finalize ex_request)) MSG_NOOP = Some BAD_FRAGMENT_ID"
  using fragment_checks_request [of 3 MSG_SHUTDOWN "\<lambda>_. 0" ex_request "the (finalize ex_request)"
      4 True True MSG_NOOP] finalized_delivered [of ex_request] ex_well_sized
  by (simp add: ex_request_def same_header_def)

text \<open>
  A response that fragment \<open>fid\<close> prepared with error \<open>ec\<close>, filled in, finalized and delivered
  is accepted by the orchestrator, unless it checks the identifier and expects another one,
  expects another type, or \<open>ec\<close> is an error: then it reports exactly that.
\<close>

theorem orchestrator_checks_response:
  assumes "same_header (fragment_prepare_header fid m t ec) b" and "delivered b c"
  shows "orchestrator_check_header c check_id fid' t' =
    Some (if check_id \<and> fid \<noteq> fid' then BAD_FRAGMENT_ID
          else if t \<noteq> t' then BAD_MESSAGE_CODE
          else if ec \<noteq> NONE then FRAGMENT_EXCEPTION else NONE)"
  by (rule orchestrator_accepts_response [OF assms])

theorem orchestrator_checks_response_witness:
  "orchestrator_check_header (the (finalize ex_response)) True 3 MSG_SHUTDOWN = Some FRAGMENT_EXCEPTION"
  using orchestrator_checks_response [of 3 "\<lambda>_. 0" MSG_SHUTDOWN FRAGMENT_EXCEPTION ex_response
      "the (finalize ex_response)" True 3 MSG_SHUTDOWN] finalized_delivered [of ex_response] ex_well_sized
  by (simp add: ex_response_def same_header_def)

text \<open>
  A message whose code has no message type, or the type \<open>NOOP\<close>, is not reported as malformed
  or as a bad message code: checking it aborts the fragment and the orchestrator.
\<close>

theorem unknown_message_type_aborts:
  assumes "get_type c = None \<or> get_type c = Some MSG_NOOP"
  shows "fragment_check_header fid check_id check_type c t = None
    \<and> orchestrator_check_header c check_id fid t = None"
  using check_header_aborts [OF assms] by blast

theorem unknown_message_type_aborts_witness:
  "fragment_check_header 3 True True (\<lambda>_. 0) MSG_SHUTDOWN = None
    \<and> orchestrator_check_header (\<lambda>_. 0) True 3 MSG_SHUTDOWN = None"
  by (rule unknown_message_type_aborts) code_simp

end
