(* ===== verification/Payloads.thy ===== *)
theory Payloads
  imports Headers NodeContext
begin

text \<open>
  The payloads of framework messages (the structures of framework/message.h behind the header):
  how a sender stores them and a receiver reads them. Fixed fields lie inside the buffer; an
  element of a variable-length array may lie outside, then its access is \<open>None\<close>.
\<close>

section \<open>Arrays in a message buffer\<close>

text \<open>Stores and loads of consecutive array elements, in the order of the loops of the source.\<close>

fun put_elems :: "('a \<Rightarrow> u8 list) \<Rightarrow> nat \<Rightarrow> 'a list \<Rightarrow> buffer \<Rightarrow> buffer option" where
  "put_elems enc off [] b = Some b"
| "put_elems enc off (x # xs) b = do {
     b1 \<leftarrow> buf_wr off (enc x) b;
     put_elems enc (off + length (enc x)) xs b1
   }"

definition get_elem :: "(u8 list \<Rightarrow> 'a option) \<Rightarrow> nat \<Rightarrow> nat \<Rightarrow> buffer \<Rightarrow> 'a option" where
  "get_elem dec sz off b =
     (if off + sz \<le> MAX_MESSAGE_LENGTH then dec (slice b off sz) else None)"

fun get_elems :: "(u8 list \<Rightarrow> 'a option) \<Rightarrow> nat \<Rightarrow> nat \<Rightarrow> nat \<Rightarrow> buffer \<Rightarrow> 'a list option" where
  "get_elems dec sz off 0 b = Some []"
| "get_elems dec sz off (Suc n) b = do {
     x \<leftarrow> get_elem dec sz off b;
     xs \<leftarrow> get_elems dec sz (off + sz) n b;
     Some (x # xs)
   }"

lemma buf_put_append:
  "p = off + length xs \<Longrightarrow> buf_put p ys (buf_put off xs b) = buf_put off (xs @ ys) b"
  by (rule ext) (auto simp: buf_put_def nth_append)

lemma buf_put_Nil [simp]: "buf_put off [] b = b"
  by (rule ext) (auto simp: buf_put_def)

lemma slice_add: "slice b off (m + n) = slice b off m @ slice b (off + m) n"
  by (rule nth_equalityI) (simp_all add: slice_def nth_append)

context layout
begin

lemma length_concat_enc: "length (concat (map enc xs)) = sz * length xs"
  by (induction xs) (simp_all add: length_enc)

lemma put_elems_eq:
  "off + sz * length xs \<le> MAX_MESSAGE_LENGTH \<Longrightarrow>
    put_elems enc off xs b = Some (buf_put off (concat (map enc xs)) b)"
  by (induction xs arbitrary: off b) (auto simp: buf_wr_def length_enc buf_put_append)

lemma put_elems_Some:
  "put_elems enc off xs b = Some b' \<Longrightarrow> b' = buf_put off (concat (map enc xs)) b"
  by (induction xs arbitrary: off b)
    (auto simp: buf_wr_def length_enc bind_eq_Some_conv split: if_splits,
      metis buf_put_append length_enc)

lemma get_elem_enc:
  "off + sz \<le> MAX_MESSAGE_LENGTH \<Longrightarrow> slice b off sz = enc x \<Longrightarrow> get_elem dec sz off b = Some x"
  by (simp add: get_elem_def dec_enc_only)

lemma get_elems_enc:
  "off + sz * length xs \<le> MAX_MESSAGE_LENGTH \<Longrightarrow> slice b off (sz * length xs) = concat (map enc xs) \<Longrightarrow>
    get_elems dec sz off (length xs) b = Some xs"
proof (induction xs arbitrary: off)
  case Nil
  then show ?case by simp
next
  case (Cons x xs)
  have "slice b off sz = enc x" "slice b (off + sz) (sz * length xs) = concat (map enc xs)"
    using Cons.prems(2) by (simp_all add: slice_add length_enc)
  then show ?case using Cons by (simp add: get_elem_enc)
qed

end

section \<open>Elements\<close>

text \<open>
  A \<open>sockaddr_in\<close>: family, port and address, and eight bytes \<open>sin_zero\<close>, which the program never
  looks at.
\<close>

definition enc_sockaddr_in :: "sockaddr_in \<Rightarrow> u8 list" where
  "enc_sockaddr_in a =
     le_bytes 2 (sin_family a) @ le_bytes 2 (sin_port a) @ le_bytes 4 (s_addr a) @ replicate 8 0"

definition dec_sockaddr_in :: "u8 list \<Rightarrow> sockaddr_in option" where
  "dec_sockaddr_in bs = do {
     f \<leftarrow> rd_le 2 0 bs;
     p \<leftarrow> rd_le 2 2 bs;
     a \<leftarrow> rd_le 4 4 bs;
     if sizeof_sockaddr_in \<le> length bs then Some \<lparr>sin_family = f, sin_port = p, s_addr = a\<rparr> else None
   }"

interpretation netaddr_layout: layout enc_sockaddr_in dec_sockaddr_in sizeof_sockaddr_in
  by unfold_locales
    (auto simp: enc_sockaddr_in_def dec_sockaddr_in_def const_defs rd_append_right
      bind_eq_None_conv split: option.splits)

abbreviation enc_u16 :: "u16 \<Rightarrow> u8 list" where
  "enc_u16 \<equiv> le_bytes 2"

abbreviation dec_u16 :: "u8 list \<Rightarrow> u16 option" where
  "dec_u16 \<equiv> rd_le 2 0"

interpretation u16_layout: layout enc_u16 dec_u16 2
  by unfold_locales auto

definition get_u32 :: "nat \<Rightarrow> buffer \<Rightarrow> u32" where
  "get_u32 off b = le_word (slice b off 4)"

definition get_bool :: "nat \<Rightarrow> buffer \<Rightarrow> bool" where
  "get_bool off b \<longleftrightarrow> b off \<noteq> 0"

section \<open>Payloads\<close>

definition put_setup_ctrl_request :: "bool \<Rightarrow> buffer \<Rightarrow> buffer" where
  "put_setup_ctrl_request autotest = buf_put sizeof_header [of_bool autotest]"

definition get_setup_ctrl_request :: "buffer \<Rightarrow> bool" where
  "get_setup_ctrl_request = get_bool sizeof_header"

definition put_setup_ctrl_response :: "u32 \<Rightarrow> buffer \<Rightarrow> buffer" where
  "put_setup_ctrl_response pid = buf_put sizeof_header (le_bytes 4 pid)"

definition get_setup_ctrl_response :: "buffer \<Rightarrow> u32" where
  "get_setup_ctrl_response = get_u32 sizeof_header"

text \<open>The address of \<open>request::setup_pcap\<close> and of \<open>response::start_mixnet_server\<close>.\<close>

definition put_netaddr :: "sockaddr_in \<Rightarrow> buffer \<Rightarrow> buffer" where
  "put_netaddr a = buf_put sizeof_header (enc_sockaddr_in a)"

definition get_netaddr :: "buffer \<Rightarrow> sockaddr_in option" where
  "get_netaddr = get_elem dec_sockaddr_in sizeof_sockaddr_in sizeof_header"

text \<open>
  The address lists of \<open>start_mixnet_clients\<close> (request and response) and
  \<open>resolve_mixnet_connections\<close>: a 16-bit count, six bytes of padding, the addresses.
\<close>

definition put_netaddrs :: "u16 \<Rightarrow> sockaddr_in list \<Rightarrow> buffer \<Rightarrow> buffer option" where
  "put_netaddrs n as b =
     put_elems enc_sockaddr_in (sizeof_header + 8) as (buf_put sizeof_header (le_bytes 2 n) b)"

definition get_num_neighbors :: "buffer \<Rightarrow> u16" where
  "get_num_neighbors = get_u16 sizeof_header"

definition get_netaddrs :: "nat \<Rightarrow> buffer \<Rightarrow> sockaddr_in list option" where
  "get_netaddrs = get_elems dec_sockaddr_in sizeof_sockaddr_in (sizeof_header + 8)"

definition put_topology :: "topology_request \<Rightarrow> buffer \<Rightarrow> buffer option" where
  "put_topology r b =
     (let b1 = buf_put sizeof_header (le_bytes 2 (tr_mixaddr r)) b;
          b2 = buf_put (sizeof_header + 2) (le_bytes 2 (tr_num_neighbors r)) b1;
          b3 = buf_put (sizeof_header + 6) (le_bytes 2 (tr_mixing_factor r)) b2;
          b4 = buf_put (sizeof_header + 4) [of_bool (tr_do_random_routing r)] b3;
          b5 = buf_put (sizeof_header + 12) (le_bytes 4 (tr_reelection_interval_ms r)) b4;
          b6 = buf_put (sizeof_header + 8) (le_bytes 4 (tr_root_hello_interval_ms r)) b5
      in put_elems enc_u16 (sizeof_header + 16) (tr_link_costs r) b6)"

definition get_topology :: "buffer \<Rightarrow> topology_request option" where
  "get_topology b = do {
     let n = (get_u16 (sizeof_header + 2) b);
     costs \<leftarrow> get_elems dec_u16 2 (sizeof_header + 16) (unat n) b;
     Some \<lparr>tr_mixaddr = get_u16 sizeof_header b, tr_num_neighbors = n,
           tr_do_random_routing = get_bool (sizeof_header + 4) b,
           tr_mixing_factor = get_u16 (sizeof_header + 6) b,
           tr_root_hello_interval_ms = get_u32 (sizeof_header + 8) b,
           tr_reelection_interval_ms = get_u32 (sizeof_header + 12) b,
           tr_link_costs = costs\<rparr>
   }"

record link_state_request =
  neighbor_id :: u16
  link_enabled :: bool

definition put_link_state :: "link_state_request \<Rightarrow> buffer \<Rightarrow> buffer" where
  "put_link_state r b =
     buf_put (sizeof_header + 2) [of_bool (link_enabled r)]
       (buf_put sizeof_header (le_bytes 2 (neighbor_id r)) b)"

definition get_link_state :: "buffer \<Rightarrow> link_state_request" where
  "get_link_state b =
     \<lparr>neighbor_id = get_u16 sizeof_header b, link_enabled = get_bool (sizeof_header + 2) b\<rparr>"

definition put_subscription :: "bool \<Rightarrow> buffer \<Rightarrow> buffer" where
  "put_subscription subscribe = buf_put sizeof_header [of_bool subscribe]"

definition get_subscription :: "buffer \<Rightarrow> bool" where
  "get_subscription = get_bool sizeof_header"

record send_packet_request =
  sp_type :: u16
  src_mixaddr :: mixnet_address
  dst_mixaddr :: mixnet_address
  sp_data :: "u8 list"

text \<open>The orchestrator stores the data before its length.\<close>

definition put_send_packet :: "send_packet_request \<Rightarrow> buffer \<Rightarrow> buffer option" where
  "put_send_packet r b = do {
     let b1 = buf_put sizeof_header (le_bytes 2 (sp_type r)) b;
     let b2 = buf_put (sizeof_header + 2) (le_bytes 2 (src_mixaddr r)) b1;
     let b3 = buf_put (sizeof_header + 4) (le_bytes 2 (dst_mixaddr r)) b2;
     b4 \<leftarrow> buf_wr (sizeof_header + 8) (sp_data r) b3;
     Some (buf_put (sizeof_header + 6) (le_bytes 2 (of_nat (length (sp_data r)) :: u16)) b4)
   }"

text \<open>The fields of the request before the data; the data is read where it is used.\<close>

definition data_length :: "buffer \<Rightarrow> u16" where
  "data_length = get_u16 (sizeof_header + 6)"

definition request_data :: "buffer \<Rightarrow> u8 list option" where
  "request_data b =
     (if sizeof_header + 8 + unat (data_length b) \<le> MAX_MESSAGE_LENGTH
      then Some (slice b (sizeof_header + 8) (unat (data_length b))) else None)"

section \<open>Sending a message buffer\<close>

lemma unat_message_lengths [simp]:
  "unat (of_nat MIN_MESSAGE_LENGTH :: u16) = MIN_MESSAGE_LENGTH"
  "unat (of_nat MAX_MESSAGE_LENGTH :: u16) = MAX_MESSAGE_LENGTH"
  by (simp_all add: const_defs unat_of_nat)

lemma rd_slice_total:
  "rd_le 2 0 (slice m 0 MAX_MESSAGE_LENGTH) = Some (get_total_length m)"
  by (simp add: rd_le_def get_total_length_def get_u16_def slice_take [symmetric] const_defs)

text \<open>A send of the whole buffer without listing the buffer.\<close>

lemma send_message_eq:
  "send_generic c nb (slice m 0 MAX_MESSAGE_LENGTH) e (of_nat MIN_MESSAGE_LENGTH)
      (of_nat MAX_MESSAGE_LENGTH) evs =
    (let ec = validate_config nb c True
     in if ec \<noteq> NONE then Some (Return ec [])
        else let len = get_total_length m
          in if len < of_nat MIN_MESSAGE_LENGTH then Some (Return MALFORMED_MESSAGE [])
             else Some (send_loop c e evs 0 (slice m 0 (unat len)) []))"
proof -
  have max: "\<not> of_nat MAX_MESSAGE_LENGTH < (w :: u16)" for w
    by (simp add: word_less_nat_alt not_less const_defs)
  have len: "unat (get_total_length m) \<le> MAX_MESSAGE_LENGTH" by (simp add: const_defs)
  have bounds: "(of_nat MIN_MESSAGE_LENGTH :: u16) \<le> of_nat MAX_MESSAGE_LENGTH" "2 \<le> MIN_MESSAGE_LENGTH"
    by (simp_all add: const_defs)
  note take = slice_take [OF len, of m 0, symmetric]
  show ?thesis
    using bounds len by (simp add: send_generic_def rd_slice_total Let_def max take)
qed

lemma send_message_NONE:
  assumes "send_generic c nb (slice m 0 MAX_MESSAGE_LENGTH) e (of_nat MIN_MESSAGE_LENGTH)
      (of_nat MAX_MESSAGE_LENGTH) evs = Some (Return NONE bs)" and "e \<noteq> NONE"
  shows "bs = slice m 0 (unat (get_total_length m)) \<and> MIN_MESSAGE_LENGTH \<le> unat (get_total_length m)"
proof -
  from send_generic_wire [OF assms]
  obtain k where k: "bs = take k (slice m 0 MAX_MESSAGE_LENGTH)"
    "of_nat MIN_MESSAGE_LENGTH \<le> get_total_length m" "k = unat (get_total_length m)"
    "k \<le> MAX_MESSAGE_LENGTH"
    by (auto simp: rd_slice_total)
  then show ?thesis
    using unat_message_lengths(1) by (simp add: slice_take [symmetric] word_le_nat_alt)
qed

section \<open>Payloads that arrive\<close>

text \<open>The payload of a delivered message is the one that was stored.\<close>

lemma delivered_payload:
  assumes "delivered b c" and n: "msg_size b = Some n" and "2 \<le> i" "i < sizeof_header + n"
  shows "c i = b i"
proof -
  have ws: "well_sized b" using assms(1) by (simp add: delivered_def)
  obtain b' where b': "finalize b = Some b'" "unat (get_total_length b') = n + MIN_MESSAGE_LENGTH"
    and old: "\<forall>i. 2 \<le> i \<and> i < sizeof_header + n \<longrightarrow> b' i = b i"
    using finalize_correct [OF ws n] by blast
  have "c i = b' i"
    using assms(1,4) b' by (simp add: delivered_def slice_eq_iff const_defs)
  then show ?thesis using old assms(3,4) by simp
qed

lemma delivered_slice:
  assumes "delivered b c" and "msg_size b = Some n" and "2 \<le> off" "off + k \<le> sizeof_header + n"
  shows "slice c off k = slice b off k"
  using assms by (intro slice_cong) (auto intro: delivered_payload)

lemma delivered_u16:
  assumes "delivered b c" and "msg_size b = Some n" and "2 \<le> off" "off + 2 \<le> sizeof_header + n"
  shows "get_u16 off c = get_u16 off b"
  using delivered_slice [OF assms] by (simp add: get_u16_def)

lemma delivered_u32:
  assumes "delivered b c" and "msg_size b = Some n" and "2 \<le> off" "off + 4 \<le> sizeof_header + n"
  shows "get_u32 off c = get_u32 off b"
  using delivered_slice [OF assms] by (simp add: get_u32_def)

lemma delivered_bool:
  assumes "delivered b c" and "msg_size b = Some n" and "2 \<le> off" "off < sizeof_header + n"
  shows "get_bool off c = get_bool off b"
  using delivered_payload [OF assms] by (simp add: get_bool_def)

lemma delivered_fits:
  assumes "delivered b c" and "msg_size b = Some n"
  shows "sizeof_header + n + sizeof_canary \<le> MAX_MESSAGE_LENGTH"
  using assms by (simp add: delivered_def well_sized_def const_defs)

lemma get_u32_put [simp]:
  "get_u32 off (buf_put off (le_bytes 4 v) b) = v"
  "off + 4 \<le> p \<or> p + length bs \<le> off \<Longrightarrow> get_u32 off (buf_put p bs b) = get_u32 off b"
  by (simp_all add: get_u32_def le_word_le_bytes)

lemma get_bool_put [simp]:
  "get_bool off (buf_put off [of_bool x] b) = x"
  "off < p \<or> p + length bs \<le> off \<Longrightarrow> get_bool off (buf_put p bs b) = get_bool off b"
  by (auto simp: get_bool_def buf_put_def)

lemma header_put_payload [simp]:
  "sizeof_header \<le> p \<Longrightarrow> get_type (buf_put p bs b) = get_type b"
  "sizeof_header \<le> p \<Longrightarrow> is_request_msg (buf_put p bs b) = is_request_msg b"
  "sizeof_header \<le> p \<Longrightarrow> get_fragment_id (buf_put p bs b) = get_fragment_id b"
  "sizeof_header \<le> p \<Longrightarrow> get_error_code (buf_put p bs b) = get_error_code b"
  by (simp_all add: get_type_def is_request_msg_def get_fragment_id_def get_error_code_def
      get_message_code_def const_defs)

lemma topology_delivered:
  assumes put: "put_topology r b0 = Some b" and n: "length (tr_link_costs r) = unat (tr_num_neighbors r)"
    and ty: "get_type b = Some MSG_TOPOLOGY" "is_request_msg b" and d: "delivered b c"
  shows "get_topology c = Some r"
proof -
  let ?n = "unat (tr_num_neighbors r)"
  let ?costs = "concat (map enc_u16 (tr_link_costs r))"
  note lens = u16_layout.length_concat_enc n
  have b: "get_u16 8 b = tr_mixaddr r" "get_u16 10 b = tr_num_neighbors r"
    "get_bool 12 b = tr_do_random_routing r" "get_u16 14 b = tr_mixing_factor r"
    "get_u32 16 b = tr_root_hello_interval_ms r" "get_u32 20 b = tr_reelection_interval_ms r"
    "slice b 24 (2 * ?n) = ?costs"
    using u16_layout.put_elems_Some [OF put [unfolded put_topology_def Let_def]] lens
    by (simp_all add: const_defs)
  have size: "msg_size b = Some (16 + 2 * ?n)" using ty b(2) by (simp add: msg_size_def)
  note del = delivered_u16 [OF d size] delivered_u32 [OF d size] delivered_bool [OF d size]
    delivered_slice [OF d size]
  have "get_elems dec_u16 2 24 (length (tr_link_costs r)) c = Some (tr_link_costs r)"
    using delivered_fits [OF d size] del(4) [of 24 "2 * ?n"] b(7) n
    by (intro u16_layout.get_elems_enc) (simp_all add: const_defs)
  then show ?thesis
    using b del n by (simp add: get_topology_def const_defs)
qed

lemma netaddrs_delivered:
  assumes put: "put_netaddrs n as b0 = Some b" and len: "length as = unat n"
    and size: "msg_size b = Some (8 + 16 * unat (get_u16 8 b))" and d: "delivered b c"
  shows "get_num_neighbors c = n \<and> get_netaddrs (unat n) c = Some as"
proof -
  let ?as = "concat (map enc_sockaddr_in as)"
  have l: "length ?as = 16 * unat n"
    using netaddr_layout.length_concat_enc [of as] len by (simp add: const_defs)
  have b: "get_u16 8 b = n" "slice b 16 (16 * unat n) = ?as"
    using netaddr_layout.put_elems_Some [OF put [unfolded put_netaddrs_def]] l
    by (simp_all add: const_defs)
  have "get_elems dec_sockaddr_in sizeof_sockaddr_in 16 (length as) c = Some as"
    using delivered_fits [OF d size] delivered_slice [OF d size, of 16 "16 * unat n"] b len
    by (intro netaddr_layout.get_elems_enc) (simp_all add: const_defs)
  then show ?thesis
    using b(1) len delivered_u16 [OF d size, of 8]
    by (simp add: get_num_neighbors_def get_netaddrs_def const_defs)
qed

lemma send_packet_delivered:
  assumes put: "put_send_packet r b0 = Some b"
    and ty: "get_type b = Some MSG_SEND_PACKET" "is_request_msg b" and d: "delivered b c"
  shows "get_u16 sizeof_header c = sp_type r \<and> get_u16 (sizeof_header + 2) c = src_mixaddr r
    \<and> get_u16 (sizeof_header + 4) c = dst_mixaddr r \<and> request_data c = Some (sp_data r)"
proof -
  let ?k = "length (sp_data r)"
  have k: "16 + ?k \<le> 65535"
    using put by (auto simp: put_send_packet_def buf_wr_def const_defs split: if_splits)
  have w: "unat (of_nat ?k :: u16) = ?k" using k by (subst unat_of_nat) simp
  have b: "get_u16 8 b = sp_type r" "get_u16 10 b = src_mixaddr r" "get_u16 12 b = dst_mixaddr r"
    "get_u16 14 b = of_nat ?k" "slice b 16 ?k = sp_data r"
    using put by (auto simp: put_send_packet_def buf_wr_def const_defs split: if_splits)
  have size: "msg_size b = Some (8 + ?k)" using ty b(4) w by (simp add: msg_size_def)
  have "slice c 16 ?k = sp_data r" "data_length c = of_nat ?k"
    using delivered_slice [OF d size, of 16 ?k] delivered_u16 [OF d size, of 14] b
    by (simp_all add: data_length_def const_defs)
  then show ?thesis
    using b delivered_u16 [OF d size] w k by (simp add: request_data_def const_defs)
qed

end
