(* ===== verification/Connections.thy ===== *)
theory Connections
  imports Networking
begin

text \<open>
  Opening, accepting and establishing connections (framework/networking.h,
  framework/networking.cpp). As in the socket layer, the answers of the system calls are
  arguments of the operations.
\<close>

section \<open>Opening sockets\<close>

text \<open>
  The results of \<open>socket(2)\<close>, of the two \<open>fcntl\<close> calls and of \<open>setsockopt\<close>; the result of the
  function and whether it closed the descriptor.
\<close>

definition open_socket ::
  "bool \<Rightarrow> bool \<Rightarrow> int \<Rightarrow> int \<Rightarrow> bool \<Rightarrow> bool \<Rightarrow> int \<times> bool" where
  "open_socket reuse_addr is_blocking socket_fd flags setfl_ok reuse_ok =
     (if socket_fd = - 1 then (- 1, False)
      else let success = True;
               success = (if \<not> is_blocking then success \<and> flags \<ge> 0 \<and> setfl_ok else success);
               success = (if reuse_addr then success \<and> reuse_ok else success)
           in (if success then socket_fd else - 1, \<not> success))"

definition AF_INET :: u16 where
  [const_defs]: "AF_INET = 2"

definition open_fd :: "bool \<Rightarrow> bool \<Rightarrow> int \<times> int \<times> bool \<times> bool \<Rightarrow> int" where
  "open_fd reuse_addr is_blocking a =
     (case a of (fd, flags, setfl_ok, reuse_ok) \<Rightarrow>
        fst (open_socket reuse_addr is_blocking fd flags setfl_ok reuse_ok))"

text \<open>
  The arguments are the value of \<open>addr->sin_port\<close>, the result of opening the socket, and the
  results of \<open>bind\<close>, \<open>getsockname\<close> and \<open>listen\<close>; the second result is \<open>*socket_fd\<close>.
\<close>

definition server_setup ::
  "int \<Rightarrow> u16 \<Rightarrow> int \<Rightarrow> int \<Rightarrow> bool \<Rightarrow> bool \<Rightarrow> bool \<Rightarrow> error_code \<times> int" where
  "server_setup fd0 port queue sock bind_ok getsockname_ok listen_ok =
     (if queue = 0 then (NONE, fd0)
      else if \<not> sock > 0 then (SOCKET_CREATE_FAILED, sock)
      else if \<not> bind_ok then (SOCKET_BIND_FAILED, sock)
      else let success = (if port = 0 then getsockname_ok else True)
        in if \<not> (success \<and> listen_ok) then (SOCKET_LISTEN_FAILED, sock)
           else (NONE, sock))"

section \<open>Accepting connections\<close>

record accepted_state =
  connection_fd :: int
  address :: sockaddr_in

record accept_args =
  acc_use_timeout :: bool
  acc_timeout_ms :: u64
  max_clients :: u16
  acc_rc :: int
  num_accepted :: u16
  acc_done :: bool
  acc_started :: bool
  states :: "accepted_state list"

definition no_netaddr :: sockaddr_in where
  "no_netaddr = \<lparr>sin_family = 0, sin_port = 0, s_addr = 0\<rparr>"

definition init_accept_args :: "bool \<Rightarrow> u64 \<Rightarrow> u16 \<Rightarrow> accept_args" where
  "init_accept_args with_timeout t clients =
     \<lparr>acc_use_timeout = with_timeout, acc_timeout_ms = t, max_clients = clients, acc_rc = 0,
      num_accepted = 0, acc_done = False, acc_started = False,
      states = replicate (unat clients) \<lparr>connection_fd = - 1, address = no_netaddr\<rparr>\<rparr>"

text \<open>
  One iteration of the accept loop: \<open>keep_running\<close> as another thread has left it at the loop
  head, the milliseconds since the start, and what \<open>accept\<close> and then \<open>fcntl\<close> answer.
\<close>

datatype accept_result = Acc int sockaddr_in bool | Acc_again | Acc_error

record accept_event =
  keep_running :: bool
  acc_elapsed :: u64
  acc_result :: accept_result

definition set_state :: "u16 \<Rightarrow> (accepted_state \<Rightarrow> accepted_state) \<Rightarrow> accept_args \<Rightarrow> accept_args" where
  "set_state i f a = a\<lparr>states := (states a)[unat i := f (states a ! unat i)]\<rparr>"

definition accept_step :: "accept_result \<Rightarrow> accept_args \<Rightarrow> accept_args" where
  "accept_step r a0 =
     (let i = num_accepted a0;
          a = set_state i (\<lambda>s. s\<lparr>connection_fd := - 1\<rparr>) a0
      in case r of
           Acc_again \<Rightarrow> a
         | Acc_error \<Rightarrow> a\<lparr>acc_rc := - 1\<rparr>
         | Acc fd addr nonblock_ok \<Rightarrow>
             let a1 = (set_state i (\<lambda>s. s\<lparr>connection_fd := fd, address := addr\<rparr>) a)
                        \<lparr>num_accepted := num_accepted a + 1\<rparr>
             in if nonblock_ok then a1 else a1\<lparr>acc_rc := - 1\<rparr>)"

fun accept_loop :: "accept_event list \<Rightarrow> accept_args \<Rightarrow> accept_args \<times> bool" where
  "accept_loop [] a = (a, \<not> (num_accepted a < max_clients a \<and> acc_rc a = 0))"
| "accept_loop (e # evs) a =
     (if num_accepted a < max_clients a \<and> acc_rc a = 0 \<and> keep_running e
      then if acc_use_timeout a \<and> acc_elapsed e \<ge> acc_timeout_ms a then (a, True)
           else accept_loop evs (accept_step (acc_result e) a)
      else (a, True))"

text \<open>\<open>None\<close>: the arguments were used before. The loop may still be running when the events end.\<close>

definition server_accept :: "accept_event list \<Rightarrow> accept_args \<Rightarrow> accept_args option" where
  "server_accept evs a =
     (if acc_rc a = 0 \<and> num_accepted a = 0 \<and> \<not> acc_started a \<and> \<not> acc_done a
      then let (a', finished) = accept_loop evs (a\<lparr>acc_started := True\<rparr>)
        in Some (a'\<lparr>acc_done := finished\<rparr>)
      else None)"

text \<open>
  What the accept loop leaves: the connections in the order of acceptance, at most
  \<open>max_clients\<close> of them, and \<open>rc\<close> nonzero exactly when an accept or its \<open>fcntl\<close> failed.
\<close>

definition accept_inv :: "accept_args \<Rightarrow> bool" where
  "accept_inv a \<longleftrightarrow> num_accepted a \<le> max_clients a \<and> length (states a) = unat (max_clients a)"

definition accepted :: "accept_args \<Rightarrow> (int \<times> sockaddr_in) list" where
  "accepted a = map (\<lambda>s. (connection_fd s, address s)) (take (unat (num_accepted a)) (states a))"

fun accept_results :: "accept_event list \<Rightarrow> (int \<times> sockaddr_in) list" where
  "accept_results [] = []"
| "accept_results (e # evs) =
     (case acc_result e of Acc fd addr ok \<Rightarrow> [(fd, addr)] | _ \<Rightarrow> []) @ accept_results evs"

lemma accept_step_simps [simp]:
  "max_clients (accept_step r a) = max_clients a"
  "length (states (accept_step r a)) = length (states a)"
  "acc_use_timeout (accept_step r a) = acc_use_timeout a"
  by (simp_all add: accept_step_def set_state_def Let_def split: accept_result.splits)

lemma accept_step_inv:
  assumes inv: "accept_inv a" and lt: "num_accepted a < max_clients a"
  shows "accept_inv (accept_step r a) \<and> accepted (accept_step r a) = accepted a
    @ (case r of Acc fd addr ok \<Rightarrow> [(fd, addr)] | _ \<Rightarrow> [])"
proof -
  let ?n = "unat (num_accepted a)"
  have n: "?n < length (states a)" using inv lt by (simp add: accept_inv_def word_less_nat_alt)
  have same: "take ?n ((states a)[?n := x]) = take ?n (states a)" for x
    by simp
  have inc: "unat (num_accepted a + 1) = Suc ?n"
  proof -
    have "Suc ?n < 65536"
      using lt unat_u16_less [of "max_clients a"] unfolding word_less_nat_alt by linarith
    then show ?thesis by (simp add: unat_word_ariths)
  qed
  show ?thesis
  proof (cases r)
    case (Acc fd addr ok)
    have "num_accepted a + 1 \<le> max_clients a"
      using lt inc by (simp add: word_le_nat_alt word_less_nat_alt)
    then show ?thesis
      using Acc inv n inc
      by (auto simp: accept_step_def accept_inv_def accepted_def set_state_def Let_def take_Suc_conv_app_nth)
  next
    case Acc_again
    then show ?thesis
      using inv by (simp add: accept_step_def accept_inv_def accepted_def set_state_def Let_def)
  next
    case Acc_error
    then show ?thesis
      using inv by (simp add: accept_step_def accept_inv_def accepted_def set_state_def Let_def)
  qed
qed

lemma accept_loop_max: "accept_loop evs a = (a', fin) \<Longrightarrow> max_clients a' = max_clients a"
  by (induction evs arbitrary: a) (auto split: if_splits)

lemma accept_loop_inv:
  "accept_inv a \<Longrightarrow> accept_loop evs a = (a', fin) \<Longrightarrow>
    accept_inv a' \<and> (\<exists>k. accepted a' = accepted a @ accept_results (take k evs))"
proof (induction evs arbitrary: a)
  case Nil
  then show ?case by simp
next
  case (Cons e evs)
  show ?case
  proof (cases "num_accepted a < max_clients a \<and> acc_rc a = 0 \<and> keep_running e
      \<and> \<not> (acc_use_timeout a \<and> acc_elapsed e \<ge> acc_timeout_ms a)")
    case True
    then have "accept_loop evs (accept_step (acc_result e) a) = (a', fin)"
      using Cons.prems by auto
    from Cons.IH [OF _ this] accept_step_inv [OF Cons.prems(1), of "acc_result e"] True
    obtain k where "accept_inv a'"
      "accepted a' = accepted (accept_step (acc_result e) a) @ accept_results (take k evs)"
      "accepted (accept_step (acc_result e) a) = accepted a
        @ (case acc_result e of Acc fd addr ok \<Rightarrow> [(fd, addr)] | _ \<Rightarrow> [])"
      by blast
    then show ?thesis by (intro conjI exI [of _ "Suc k"]) simp_all
  next
    case False
    then have "a' = a" using Cons.prems(2) by (auto split: if_splits)
    then show ?thesis using Cons.prems(1) by (auto intro: exI [of _ 0])
  qed
qed

lemma server_accept_inv:
  assumes "server_accept evs (init_accept_args tm t clients) = Some a"
  shows "num_accepted a \<le> clients
    \<and> (\<exists>k. accepted a = accept_results (take k evs) \<and> length (accepted a) = unat (num_accepted a))"
proof -
  let ?a0 = "(init_accept_args tm t clients)\<lparr>acc_started := True\<rparr>"
  obtain a' fin where loop: "accept_loop evs ?a0 = (a', fin)" by fastforce
  then have a: "a = a'\<lparr>acc_done := fin\<rparr>"
    using assms by (auto simp: server_accept_def init_accept_args_def)
  have "accept_inv ?a0" "accepted ?a0 = []" "max_clients ?a0 = clients"
    by (simp_all add: accept_inv_def accepted_def init_accept_args_def)
  moreover have "max_clients a' = max_clients ?a0"
    using accept_loop_max [OF loop] .
  ultimately obtain k where k: "accept_inv a'" "accepted a' = accept_results (take k evs)"
    "max_clients a' = clients"
    using accept_loop_inv [OF _ loop] by auto
  have "length (accepted a') = unat (num_accepted a')"
    using k(1) by (simp add: accepted_def accept_inv_def word_le_nat_alt)
  moreover have "accepted a = accepted a'" "num_accepted a = num_accepted a'"
    by (simp_all add: a accepted_def)
  ultimately show ?thesis using k by (auto simp: accept_inv_def)
qed

section \<open>Connecting with a timeout\<close>

text \<open>
  \<open>connect\<close> succeeds, is still in progress, or fails; \<open>poll\<close> reports the socket (then come the
  result of \<open>getsockopt\<close> and the value of \<open>SO_ERROR\<close>), times out, or fails with an \<open>errno\<close>.
\<close>

datatype connect_result = Conn_ok | Conn_pending | Conn_error
datatype poll_result = Poll_ready bool int | Poll_none | Poll_error int

definition EINTR :: int where
  "EINTR = 4"

fun poll_loop :: "u64 \<Rightarrow> (u64 \<times> poll_result) list \<Rightarrow> int option" where
  "poll_loop timeout_ms [] = None"
| "poll_loop timeout_ms ((delta, r) # evs) =
     (if delta \<ge> timeout_ms then Some 0
      else case r of
          Poll_none \<Rightarrow> Some 0
        | Poll_error e \<Rightarrow> if e = EINTR then poll_loop timeout_ms evs else Some (- 1)
        | Poll_ready ok err \<Rightarrow>
            if ok \<and> err \<noteq> 0 then (if err = EINTR then poll_loop timeout_ms evs else Some (- 1))
            else Some 1)"

definition connect_with_timeout ::
  "bool \<Rightarrow> bool \<Rightarrow> connect_result \<Rightarrow> u64 \<Rightarrow> (u64 \<times> poll_result) list \<Rightarrow> bool \<Rightarrow> int option" where
  "connect_with_timeout getfl_ok setfl_ok conn timeout_ms evs restore_ok =
     (if \<not> getfl_ok then Some (- 1)
      else if \<not> setfl_ok then Some (- 1)
      else do {
        rc \<leftarrow> (case conn of
            Conn_ok \<Rightarrow> Some 0
          | Conn_error \<Rightarrow> Some (- 1)
          | Conn_pending \<Rightarrow> do {
              rc \<leftarrow> poll_loop timeout_ms evs;
              Some (if rc = 0 then - 1 else rc)
            });
        Some (if \<not> restore_ok then - 1 else rc)
      })"

text \<open>The socket is connected: the first event that is not an interruption reports no error.\<close>

fun polled_ready :: "u64 \<Rightarrow> (u64 \<times> poll_result) list \<Rightarrow> bool" where
  "polled_ready timeout_ms [] = False"
| "polled_ready timeout_ms ((delta, r) # evs) =
     (delta < timeout_ms
      \<and> (r = Poll_error EINTR \<or> r = Poll_ready True EINTR \<longrightarrow> polled_ready timeout_ms evs)
      \<and> (case r of
            Poll_ready ok err \<Rightarrow> ok \<longrightarrow> err = 0 \<or> err = EINTR
          | Poll_none \<Rightarrow> False
          | Poll_error e \<Rightarrow> e = EINTR))"

lemma poll_loop_ready:
  "poll_loop timeout_ms evs = Some rc \<Longrightarrow>
    (rc = 1 \<longleftrightarrow> polled_ready timeout_ms evs) \<and> rc \<in> {- 1, 0, 1}"
  by (induction timeout_ms evs rule: poll_loop.induct)
    (auto simp: not_le EINTR_def split: if_splits poll_result.splits)

lemma connect_result:
  assumes "connect_with_timeout getfl_ok setfl_ok conn timeout_ms evs restore_ok = Some rc"
  shows "rc = (if getfl_ok \<and> setfl_ok \<and> restore_ok
      then (case conn of Conn_ok \<Rightarrow> 0 | Conn_error \<Rightarrow> - 1
            | Conn_pending \<Rightarrow> if polled_ready timeout_ms evs then 1 else - 1)
      else - 1)"
  using assms poll_loop_ready [of timeout_ms evs]
  by (auto simp: connect_with_timeout_def bind_eq_Some_conv split: if_splits connect_result.splits)

section \<open>Properties\<close>

text \<open>
  The accept loop keeps the accepted connections in the order of acceptance, at most as many
  as were asked for, and counts them.
\<close>

theorem server_accept_collects:
  assumes "server_accept evs (init_accept_args tm t clients) = Some a"
  shows "num_accepted a \<le> clients
    \<and> (\<exists>k. accepted a = accept_results (take k evs) \<and> length (accepted a) = unat (num_accepted a))"
  by (rule server_accept_inv [OF assms])

definition ex_accepts :: "accept_event list" where
  "ex_accepts = map (\<lambda>r. \<lparr>keep_running = True, acc_elapsed = 0, acc_result = r\<rparr>)
     [Acc_again, Acc 5 no_netaddr True, Acc 6 no_netaddr True, Acc 7 no_netaddr True]"

theorem server_accept_collects_witness:
  "\<exists>a k. server_accept ex_accepts (init_accept_args False 0 2) = Some a
    \<and> num_accepted a \<le> 2 \<and> accepted a = accept_results (take k ex_accepts)
    \<and> length (accepted a) = unat (num_accepted a)"
proof -
  have "server_accept ex_accepts (init_accept_args False 0 2) \<noteq> None"
    by (simp add: server_accept_def init_accept_args_def Let_def case_prod_unfold)
  then obtain a where "server_accept ex_accepts (init_accept_args False 0 2) = Some a" by auto
  from server_accept_collects [OF this] this show ?thesis by blast
qed

text \<open>
  \<open>connect_with_timeout\<close> returns 0 only for a connection that is established at once. One that
  had to be waited for gives 1, the result of \<open>poll\<close>, not the 0 its comment promises; everything
  else, including a failure to restore the flags, gives \<open>- 1\<close>.
\<close>

theorem connect_with_timeout_result:
  assumes "connect_with_timeout getfl_ok setfl_ok conn t evs restore_ok = Some rc"
  shows "rc = (if getfl_ok \<and> setfl_ok \<and> restore_ok
      then (case conn of Conn_ok \<Rightarrow> 0 | Conn_error \<Rightarrow> - 1
            | Conn_pending \<Rightarrow> if polled_ready t evs then 1 else - 1)
      else - 1)"
  by (rule connect_result [OF assms])

theorem connect_with_timeout_result_witness:
  "connect_with_timeout True True Conn_pending 5000
     [(1, Poll_error EINTR), (2, Poll_ready True 0)] True = Some 1"
proof -
  have "connect_with_timeout True True Conn_pending 5000
      [(1, Poll_error EINTR), (2, Poll_ready True 0)] True \<noteq> None"
    by code_simp
  then obtain rc where "connect_with_timeout True True Conn_pending 5000
      [(1, Poll_error EINTR), (2, Poll_ready True 0)] True = Some rc"
    by blast
  with connect_with_timeout_result [OF this] show ?thesis by (simp add: EINTR_def)
qed

end
