(* ===== verification/FragmentIO.thy ===== *)
theory FragmentIO
  imports Payloads Connections
begin

text \<open>
  A fragment process (class \<open>fragment\<close> of framework/fragment.h): its state, its environment, and
  how it receives requests and sends responses (\<open>send_response\<close>, \<open>recv_request\<close> of
  framework/fragment.cpp).
\<close>

section \<open>State\<close>

datatype fragment_state =
    FS_SETUP_CTRL
  | FS_SETUP_PCAP
  | FS_CREATE_TOPOLOGY
  | FS_START_MIXNET_SERVER
  | FS_START_MIXNET_CLIENT
  | FS_RESOLVE_MIXNET_CONNECTIONS
  | FS_START_TESTCASE
  | FS_RUN_TESTCASE
  | FS_SHUTDOWN
  | FS_DONE

text \<open>
  The members of the class. The two queues are members of the fragment to which the node context
  holds references: while there is a context they are the ones in it. A thread member is
  represented by whether it is joinable. \<open>pcap_netaddr\<close> is the local variable of
  \<open>run_state_setup_pcap\<close> that its lambda stores to, \<open>closed_fds\<close> are the descriptors that were
  closed, \<open>net\<close> is the state of the sockets, \<open>calls\<close> the
  number of answers taken from the environment so far.
\<close>

record fragment =
  fid :: u16
  autotest_mode :: bool
  fstate :: fragment_state
  msg_ctrl :: buffer
  msg_pcap :: buffer
  local_fd_ctrl :: int
  local_fd_pcap :: int
  orc_netaddr :: sockaddr_in
  timeout_connect_long :: u64
  timeout_connect_short :: u64
  frag_context :: "node_context option"
  ts_pcap :: thread_state
  node_joinable :: bool
  pcap_joinable :: bool
  frag_mq_pcap :: "mixnet_packet option message_queue"
  frag_mq_user :: "mixnet_packet message_queue"
  accept_joinable :: bool
  node_accept_args :: "accept_args option"
  pcap_netaddr :: sockaddr_in
  closed_fds :: "int list"
  net :: sockets
  calls :: nat

text \<open>What the other threads of the process may change while the control thread is in a call.\<close>

type_synonym shared = "node_context \<times> thread_state \<times> buffer \<times> sockets"

text \<open>
  The environment of the control thread. An answer that depends on the time of the call is a
  function of the number of answers taken before.
\<close>

record fragment_env =
  env_pid :: u32
  env_nonblock :: "nat \<Rightarrow> bool option" \<comment> \<open>\<open>fcntl(F_GETFL)\<close> in \<open>send_generic\<close>, \<open>recv_generic\<close>\<close>
  env_tx :: "nat \<Rightarrow> tx_event list"
  env_rx :: "nat \<Rightarrow> rx_event list"
  env_socket :: "nat \<Rightarrow> int \<times> int \<times> bool \<times> bool" \<comment> \<open>\<open>socket\<close>, \<open>fcntl\<close> twice, \<open>setsockopt\<close>\<close>
  env_connect :: "nat \<Rightarrow> sockaddr_in
    \<Rightarrow> bool \<times> bool \<times> connect_result \<times> (u64 \<times> poll_result) list \<times> bool"
  env_bind :: "nat \<Rightarrow> bool"
  env_listen :: "nat \<Rightarrow> bool"
  env_sockname :: "int \<Rightarrow> sockaddr_in option" \<comment> \<open>\<open>getsockname\<close> of a descriptor\<close>
  env_accept :: "accept_event list"
  env_threads :: "nat \<Rightarrow> shared \<Rightarrow> shared"
  env_malloc :: "nat \<Rightarrow> bool"

definition tick :: "fragment \<Rightarrow> nat \<times> fragment" where
  "tick f = (calls f, f\<lparr>calls := Suc (calls f)\<rparr>)"

section \<open>Messages\<close>

definition get_msg :: "bool \<Rightarrow> fragment \<Rightarrow> buffer" where
  "get_msg is_ctrl f = (if is_ctrl then msg_ctrl f else msg_pcap f)"

definition put_msg :: "bool \<Rightarrow> buffer \<Rightarrow> fragment \<Rightarrow> fragment" where
  "put_msg is_ctrl m f = (if is_ctrl then f\<lparr>msg_ctrl := m\<rparr> else f\<lparr>msg_pcap := m\<rparr>)"

definition plane_fd :: "bool \<Rightarrow> fragment \<Rightarrow> int" where
  "plane_fd is_ctrl f = (if is_ctrl then local_fd_ctrl f else local_fd_pcap f)"

definition plane_error :: "bool \<Rightarrow> error_code" where
  "plane_error is_ctrl = (if is_ctrl then CTRL_CONNECTION_BROKEN else PCAP_CONNECTION_BROKEN)"

definition fragment_send_blocking ::
  "bool option \<Rightarrow> buffer \<Rightarrow> error_code \<Rightarrow> tx_event list \<Rightarrow> u8 list progress option" where
  "fragment_send_blocking nonblock m e evs =
     send_generic blocking_config nonblock (slice m 0 MAX_MESSAGE_LENGTH) e
       (of_nat MIN_MESSAGE_LENGTH) (of_nat MAX_MESSAGE_LENGTH) evs"

definition fragment_recv_blocking ::
  "bool option \<Rightarrow> buffer \<Rightarrow> error_code \<Rightarrow> u8 list \<Rightarrow> rx_event list \<Rightarrow> rx progress option" where
  "fragment_recv_blocking nonblock m e q evs =
     recv_generic blocking_config nonblock m MAX_MESSAGE_LENGTH e
       (of_nat MIN_MESSAGE_LENGTH) (of_nat MAX_MESSAGE_LENGTH) q evs"

definition sent_on :: "int \<Rightarrow> u8 list \<Rightarrow> fragment \<Rightarrow> fragment" where
  "sent_on fd bs f = f\<lparr>net := transmit fd bs (net f)\<rparr>"

definition received_on :: "int \<Rightarrow> rx \<Rightarrow> fragment \<Rightarrow> fragment" where
  "received_on fd t f = f\<lparr>net := (net f)\<lparr>rxq := (rxq (net f))(fd := rx_queue t)\<rparr>\<rparr>"

text \<open>The lambda of a response fills in the payload, and may fail.\<close>

definition send_response ::
  "fragment_env \<Rightarrow> bool \<Rightarrow> message_type \<Rightarrow> error_code \<Rightarrow> (buffer \<Rightarrow> (error_code \<times> buffer) option)
    \<Rightarrow> fragment \<Rightarrow> fragment progress option" where
  "send_response env is_ctrl t ec fill f = do {
     let fd = plane_fd is_ctrl f;
     let m0 = fragment_prepare_header (fid f) (get_msg is_ctrl f) t ec;
     (e, m1) \<leftarrow> fill m0;
     if e \<noteq> NONE then Some (Return e (put_msg is_ctrl m1 f))
     else do {
       m2 \<leftarrow> finalize m1;
       let (k, f1) = tick (put_msg is_ctrl m2 f);
       r \<leftarrow> fragment_send_blocking (env_nonblock env k) m2 (plane_error is_ctrl) (env_tx env k);
       Some (map_progress (\<lambda>bs. sent_on fd bs f1) r)
     }
   }"

text \<open>The lambda of a request reads the payload and updates the fragment.\<close>

definition recv_request ::
  "fragment_env \<Rightarrow> bool \<Rightarrow> bool \<Rightarrow> bool \<Rightarrow> message_type
    \<Rightarrow> (buffer \<Rightarrow> fragment \<Rightarrow> (error_code \<times> fragment) option) \<Rightarrow> fragment \<Rightarrow> fragment progress option"
where
  "recv_request env is_ctrl check_id check_type t handle f = do {
     let fd = plane_fd is_ctrl f;
     let (k, f1) = tick f;
     r \<leftarrow> fragment_recv_blocking (env_nonblock env k) (get_msg is_ctrl f) (plane_error is_ctrl)
            (rxq (net f) fd) (env_rx env k);
     (case r of
        Waiting s \<Rightarrow> Some (Waiting (put_msg is_ctrl (rx_mem s) (received_on fd s f1)))
      | Return e s \<Rightarrow>
          let f2 = put_msg is_ctrl (rx_mem s) (received_on fd s f1)
          in if e \<noteq> NONE then Some (Return e f2)
             else do {
               e2 \<leftarrow> fragment_check_header (fid f2) check_id check_type (rx_mem s) t;
               if e2 \<noteq> NONE then Some (Return e2 f2)
               else do {
                 (e3, f3) \<leftarrow> handle (rx_mem s) f2;
                 Some (Return e3 f3)
               }
             })
   }"

definition no_payload :: "buffer \<Rightarrow> (error_code \<times> buffer) option" where
  "no_payload m = Some (NONE, m)"

definition no_action :: "buffer \<Rightarrow> fragment \<Rightarrow> (error_code \<times> fragment) option" where
  "no_action m f = Some (NONE, f)"

end
