(* ===== verification/Fragment.thy ===== *)
theory Fragment
  imports FragmentIO
begin

text \<open>
  The state machine of a fragment (\<open>run\<close>, the \<open>run_state_\<close> methods and the testcase tasks of
  framework/fragment.cpp): setup of both overlays, topology, connections to the neighbours, the
  testcase with its tasks, shutdown.

  A method returns an error code, waits (a call does not return), or is \<open>None\<close> on a failed
  \<open>assert\<close>, on undefined behaviour and on \<open>std::terminate\<close>.
\<close>

section \<open>Setup of the overlays\<close>

definition connect_to ::
  "bool \<times> bool \<times> connect_result \<times> (u64 \<times> poll_result) list \<times> bool \<Rightarrow> u64 \<Rightarrow> int option" where
  "connect_to a timeout_ms =
     (case a of (getfl_ok, setfl_ok, conn, evs, restore_ok) \<Rightarrow>
        connect_with_timeout getfl_ok setfl_ok conn timeout_ms evs restore_ok)"

text \<open>A connection attempt: the events ran out, or the result decides.\<close>

definition try_connect ::
  "fragment_env \<Rightarrow> sockaddr_in \<Rightarrow> u64 \<Rightarrow> fragment \<Rightarrow> fragment progress" where
  "try_connect env addr timeout_ms f =
     (let (k, f1) = tick f
      in case connect_to (env_connect env k addr) timeout_ms of
           None \<Rightarrow> Waiting f1
         | Some rc \<Rightarrow> Return (if rc < 0 then SOCKET_CONNECT_FAILED else NONE) f1)"

definition fragment_setup_ctrl :: "fragment_env \<Rightarrow> fragment \<Rightarrow> fragment progress option" where
  "fragment_setup_ctrl env f =
     (if fstate f \<noteq> FS_SETUP_CTRL then None
      else let (k, f1) = tick f;
               fd = open_fd False True (env_socket env k);
               f2 = f1\<lparr>local_fd_ctrl := fd\<rparr>
        in if fd < 0 then Some (Return SOCKET_CREATE_FAILED f2)
           else die_on_error (Some (try_connect env (orc_netaddr f2) (timeout_connect_long f2) f2))
             (\<lambda>f3. die_on_error
               (send_response env True MSG_SETUP_CTRL NONE
                  (\<lambda>m. Some (NONE, put_setup_ctrl_response (env_pid env) m)) f3)
               (recv_request env True False True MSG_SETUP_CTRL
                  (\<lambda>m g. Some (NONE, g\<lparr>fid := get_fragment_id m,
                                      autotest_mode := get_setup_ctrl_request m\<rparr>)))))"

definition fragment_setup_pcap :: "fragment_env \<Rightarrow> fragment \<Rightarrow> fragment progress option" where
  "fragment_setup_pcap env f =
     (if fstate f \<noteq> FS_SETUP_PCAP then None
      else die_on_error
        (recv_request env True True True MSG_SETUP_PCAP
           (\<lambda>m g. do {
              a \<leftarrow> get_netaddr m;
              Some (NONE, g\<lparr>pcap_netaddr := a\<lparr>s_addr := s_addr (orc_netaddr g)\<rparr>\<rparr>)
            }) f)
        (\<lambda>f1. die_on_error (send_response env True MSG_SETUP_PCAP NONE no_payload f1)
          (\<lambda>f2. let (k, f3) = tick f2;
                    fd = open_fd False True (env_socket env k);
                    f4 = f3\<lparr>local_fd_pcap := fd\<rparr>
            in if fd < 0 then Some (Return SOCKET_CREATE_FAILED f4)
               else die_on_error
                 (Some (try_connect env (pcap_netaddr f4) (timeout_connect_short f4) f4))
                 (\<lambda>f5. die_on_error (send_response env False MSG_SETUP_PCAP NONE no_payload f5)
                   (recv_request env False True True MSG_SETUP_PCAP no_action)))))"

section \<open>Topology and Mixnet connections\<close>

definition fragment_create_topology :: "fragment_env \<Rightarrow> fragment \<Rightarrow> fragment progress option" where
  "fragment_create_topology env f =
     (if fstate f \<noteq> FS_CREATE_TOPOLOGY then None
      else die_on_error
        (recv_request env True True True MSG_TOPOLOGY
           (\<lambda>m g. do {
              r \<leftarrow> get_topology m;
              Some (NONE, g\<lparr>frag_context :=
                Some (init_node_context (frag_mq_pcap g) (frag_mq_user g) r)\<rparr>)
            }) f)
        (send_response env True MSG_TOPOLOGY NONE no_payload))"

text \<open>
  Joining the accept thread: it has run since it was started, and \<open>join\<close> returns when its loop
  has ended. The environment says at which loop head the thread first reads \<open>keep_running\<close> as
  false.
\<close>

definition join_accept ::
  "fragment_env \<Rightarrow> fragment \<Rightarrow> (fragment \<Rightarrow> fragment progress option) \<Rightarrow> fragment progress option"
where
  "join_accept env f k = do {
     args \<leftarrow> node_accept_args f;
     a \<leftarrow> server_accept (env_accept env) args;
     if acc_done a then k (f\<lparr>node_accept_args := Some a, accept_joinable := False\<rparr>)
     else Some (Waiting f)
   }"

text \<open>The macro \<open>DIE_DURING_ACCEPT\<close>.\<close>

definition die_during_accept ::
  "fragment_env \<Rightarrow> fragment progress option \<Rightarrow> (fragment \<Rightarrow> fragment progress option)
    \<Rightarrow> fragment progress option" where
  "die_during_accept env m k =
     (case m of
        None \<Rightarrow> None
      | Some (Waiting f) \<Rightarrow> Some (Waiting f)
      | Some (Return ec f) \<Rightarrow>
          if ec \<noteq> NONE
          then (if accept_joinable f then join_accept env f (\<lambda>g. Some (Return ec g))
                else Some (Return ec f))
          else k f)"

definition num_neighbors_of :: "node_context \<Rightarrow> u16" where
  "num_neighbors_of ctx = cfg_num_neighbors (node_config ctx)"

text \<open>
  The server on a port of the system's choice: \<open>getsockname\<close> stores the address when the socket
  could be opened and bound.
\<close>

definition start_server :: "fragment_env \<Rightarrow> nat \<Rightarrow> node_context \<Rightarrow> error_code \<times> node_context" where
  "start_server env k ctx0 =
     (let ctx = ctx0\<lparr>tx_server_netaddr := (tx_server_netaddr ctx0)\<lparr>sin_family := AF_INET, s_addr := 0\<rparr>\<rparr>;
          queue = int (unat (num_neighbors_of ctx));
          sock = open_fd False False (env_socket env k);
          name = env_sockname env sock;
          (ec, fd) = server_setup (tx_listen_fd ctx) (sin_port (tx_server_netaddr ctx)) queue sock
             (env_bind env k) (name \<noteq> None) (env_listen env k);
          addr = (if queue \<noteq> 0 \<and> sock > 0 \<and> env_bind env k \<and> sin_port (tx_server_netaddr ctx) = 0
                  then (case name of Some a \<Rightarrow> a | None \<Rightarrow> tx_server_netaddr ctx)
                  else tx_server_netaddr ctx)
      in (ec, ctx\<lparr>tx_listen_fd := fd, tx_server_netaddr := addr\<rparr>))"

definition fragment_start_server :: "fragment_env \<Rightarrow> fragment \<Rightarrow> fragment progress option" where
  "fragment_start_server env f =
     (if fstate f \<noteq> FS_START_MIXNET_SERVER then None
      else die_on_error (recv_request env True True True MSG_START_MIXNET_SERVER no_action f)
        (\<lambda>f1. do {
           ctx0 \<leftarrow> frag_context f1;
           let (k, f2) = tick f1;
           let (ec, ctx) = start_server env k ctx0;
           let f3 = f2\<lparr>frag_context := Some ctx\<rparr>;
           if ec \<noteq> NONE then Some (Return ec f3)
           else let f4 = f3\<lparr>node_accept_args := Some (init_accept_args False 0 (num_neighbors_of ctx)),
                            accept_joinable := True\<rparr>
             in die_during_accept env
               (send_response env True MSG_START_MIXNET_SERVER NONE
                  (\<lambda>m. Some (NONE, put_netaddr ((tx_server_netaddr ctx)\<lparr>s_addr := - 1\<rparr>) m)) f4)
               (\<lambda>g. Some (Return NONE g))
         }))"

text \<open>The client side: one socket and one connection per neighbour, in the order of the neighbours.\<close>

fun connect_neighbors ::
  "fragment_env \<Rightarrow> nat \<Rightarrow> sockaddr_in list \<Rightarrow> fragment \<Rightarrow> fragment progress option" where
  "connect_neighbors env nid [] f = Some (Return NONE f)"
| "connect_neighbors env nid (a # as) f = do {
     ctx \<leftarrow> frag_context f;
     let (k, f1) = tick f;
     let fd = open_fd False False (env_socket env k);
     if nid < length (rx_socket_fds ctx)
     then let f2 = f1\<lparr>frag_context := Some (ctx\<lparr>rx_socket_fds := (rx_socket_fds ctx)[nid := fd]\<rparr>)\<rparr>
       in if fd < 0 then Some (Return SOCKET_CREATE_FAILED f2)
          else die_on_error (Some (try_connect env a (timeout_connect_short f2) f2))
            (connect_neighbors env (Suc nid) as)
     else None
   }"

text \<open>
  The addresses of the client sockets in the response, up to the first one that \<open>getsockname\<close>
  does not know.
\<close>

definition client_names :: "fragment_env \<Rightarrow> node_context \<Rightarrow> buffer \<Rightarrow> (error_code \<times> buffer) option" where
  "client_names env ctx m = do {
     let names = map (env_sockname env) (take (unat (num_neighbors_of ctx)) (rx_socket_fds ctx));
     m1 \<leftarrow> put_netaddrs (num_neighbors_of ctx) (map the (takeWhile (\<lambda>x. x \<noteq> None) names)) m;
     Some (if None \<in> set names then SOCKET_OPTIONS_FAILED else NONE, m1)
   }"

text \<open>The lambda of the client request.\<close>

definition store_neighbor_addrs :: "buffer \<Rightarrow> fragment \<Rightarrow> (error_code \<times> fragment) option" where
  "store_neighbor_addrs m f = do {
     ctx \<leftarrow> frag_context f;
     if num_neighbors_of ctx \<noteq> get_num_neighbors m then Some (FRAGMENT_BAD_NEIGHBOR_COUNT, f)
     else do {
       as \<leftarrow> get_netaddrs (unat (num_neighbors_of ctx)) m;
       if length as \<le> length (neighbor_netaddrs ctx)
       then Some (NONE, f\<lparr>frag_context := Some (ctx\<lparr>neighbor_netaddrs :=
              as @ drop (length as) (neighbor_netaddrs ctx)\<rparr>)\<rparr>)
       else None
     }
   }"

text \<open>
  \<open>num_neighbors\<close> is read before the request arrives. The loop that waits for the accept thread or
  the deadline is part of \<open>join_accept\<close>.
\<close>

definition fragment_start_client :: "fragment_env \<Rightarrow> fragment \<Rightarrow> fragment progress option" where
  "fragment_start_client env f =
     (if fstate f \<noteq> FS_START_MIXNET_CLIENT then None
      else do {
        ctx0 \<leftarrow> frag_context f;
        die_during_accept env
          (recv_request env True True True MSG_START_MIXNET_CLIENTS store_neighbor_addrs f)
          (\<lambda>f1. do {
             ctx1 \<leftarrow> frag_context f1;
             die_during_accept env
               (connect_neighbors env 0
                  (take (unat (num_neighbors_of ctx0)) (neighbor_netaddrs ctx1)) f1)
               (\<lambda>f2. join_accept env f2
                 (\<lambda>f3. do {
                    a \<leftarrow> node_accept_args f3;
                    ctx3 \<leftarrow> frag_context f3;
                    if num_accepted a \<noteq> num_neighbors_of ctx0
                    then Some (Return SOCKET_ACCEPT_TIMEOUT f3)
                    else send_response env True MSG_START_MIXNET_CLIENTS NONE
                      (client_names env ctx3) f3
                  }))
           })
      })"

text \<open>
  Mapping the neighbours to accepted connections: for each neighbour's client address the first
  accepted connection that came from it.
\<close>

fun resolve_neighbors ::
  "accepted_state list \<Rightarrow> nat \<Rightarrow> sockaddr_in list \<Rightarrow> int list \<Rightarrow> error_code \<times> int list" where
  "resolve_neighbors sts nid [] fds = (NONE, fds)"
| "resolve_neighbors sts nid (a # as) fds =
     (case find (\<lambda>s. equal_netaddrs (address s) a) sts of
        None \<Rightarrow> (FRAGMENT_EXCEPTION, fds)
      | Some s \<Rightarrow> resolve_neighbors sts (Suc nid) as (fds[nid := connection_fd s]))"

definition resolve_request :: "buffer \<Rightarrow> fragment \<Rightarrow> (error_code \<times> fragment) option" where
  "resolve_request m f = do {
     ctx \<leftarrow> frag_context f;
     let n = num_neighbors_of ctx;
     if get_num_neighbors m \<noteq> n then Some (FRAGMENT_BAD_NEIGHBOR_COUNT, f)
     else do {
       args \<leftarrow> node_accept_args f;
       as \<leftarrow> get_netaddrs (unat n) m;
       if unat n \<le> length (states args) \<and> unat n \<le> length (tx_socket_fds ctx)
       then let (ec, fds) = resolve_neighbors (take (unat n) (states args)) 0 as (tx_socket_fds ctx)
         in Some (ec, f\<lparr>frag_context := Some (ctx\<lparr>tx_socket_fds := fds\<rparr>)\<rparr>)
       else None
     }
   }"

definition fragment_resolve :: "fragment_env \<Rightarrow> fragment \<Rightarrow> fragment progress option" where
  "fragment_resolve env f =
     (if fstate f \<noteq> FS_RESOLVE_MIXNET_CONNECTIONS then None
      else do {
        ctx0 \<leftarrow> frag_context f;
        die_during_accept env
          (recv_request env True True True MSG_RESOLVE_MIXNET_CONNS resolve_request f)
          (send_response env True MSG_RESOLVE_MIXNET_CONNS NONE no_payload)
      })"

section \<open>The testcase\<close>

definition fragment_start_testcase :: "fragment_env \<Rightarrow> fragment \<Rightarrow> fragment progress option" where
  "fragment_start_testcase env f =
     (if fstate f \<noteq> FS_START_TESTCASE then None
      else die_on_error (recv_request env True True True MSG_START_TESTCASE no_action f)
        (send_response env True MSG_START_TESTCASE NONE no_payload))"

text \<open>The node thread and the capture thread run while the control thread waits.\<close>

definition let_threads_run :: "fragment_env \<Rightarrow> fragment \<Rightarrow> fragment" where
  "let_threads_run env f =
     (let (k, f1) = tick f
      in case frag_context f1 of
           None \<Rightarrow> f1
         | Some ctx \<Rightarrow>
             let (ctx', t, m, n) = env_threads env k (ctx, ts_pcap f1, msg_pcap f1, net f1)
             in f1\<lparr>frag_context := Some ctx', ts_pcap := t, msg_pcap := m, net := n\<rparr>)"

text \<open>
  Draining a link that goes down, into the buffer of the control plane, with a bound on the number
  of frames looked at: \<open>Waiting\<close> when more arrive.
\<close>

fun drain_link :: "fragment_env \<Rightarrow> nat \<Rightarrow> int \<Rightarrow> fragment \<Rightarrow> fragment progress option" where
  "drain_link env 0 fd f = Some (Waiting f)"
| "drain_link env (Suc n) fd f = do {
     let (k, f1) = tick f;
     r \<leftarrow> recv_once (env_nonblock env k) (msg_ctrl f1) (rxq (net f1) fd) (env_rx env k);
     (case r of
        Waiting s \<Rightarrow> Some (Waiting (put_msg True (rx_mem s) (received_on fd s f1)))
      | Return ec s \<Rightarrow>
          let f2 = put_msg True (rx_mem s) (received_on fd s f1)
          in if ec = NONE then drain_link env n fd f2 else Some (Return ec f2))
   }"

definition task_update_link_state ::
  "fragment_env \<Rightarrow> nat \<Rightarrow> u16 \<Rightarrow> bool \<Rightarrow> fragment \<Rightarrow> fragment progress option" where
  "task_update_link_state env n nid state f = do {
     ctx \<leftarrow> frag_context f;
     if \<not> nid < num_neighbors_of ctx then None
     else if unat nid < length (link_states ctx) \<and> unat nid < length (rx_socket_fds ctx)
     then do {
       let f1 = f\<lparr>frag_context := Some (ctx\<lparr>link_states := (link_states ctx)[unat nid := state]\<rparr>)\<rparr>;
       if state then Some (Return NONE f1)
       else do {
         r \<leftarrow> drain_link env n (rx_socket_fds ctx ! unat nid) f1;
         Some (case r of
             Waiting g \<Rightarrow> Waiting g
           | Return ec g \<Rightarrow> Return (if ec = RECV_ZERO_PENDING then NONE else ec) g)
       }
     }
     else None
   }"

definition task_update_pcap_subscription :: "bool \<Rightarrow> fragment \<Rightarrow> fragment progress option" where
  "task_update_pcap_subscription v f = do {
     ctx \<leftarrow> frag_context f;
     Some (Return NONE (f\<lparr>frag_context := Some (ctx\<lparr>is_pcap_subscribed := v\<rparr>)\<rparr>))
   }"

text \<open>
  The packet of a request: a header, the routing header of DATA and PING packets, the data of DATA
  packets. The packet's memory has \<open>MAX_MIXNET_PACKET_SIZE\<close> bytes; a copy beyond it is \<open>None\<close>.
\<close>

definition injected_packet :: "buffer \<Rightarrow> mixnet_packet option" where
  "injected_packet m =
     (let ty = get_u16 sizeof_header m;
          rh = enc_routing_header \<lparr>src_address = get_u16 (sizeof_header + 2) m,
            dst_address = get_u16 (sizeof_header + 4) m, route_length = 0, hop_index = 0\<rparr>;
          size = of_nat sizeof_mixnet_packet :: u16
      in if ty = packet_type_code PACKET_TYPE_DATA
         then do {
           dat \<leftarrow> request_data m;
           if sizeof_mixnet_packet + sizeof_routing_header + length dat \<le> unat MAX_MIXNET_PACKET_SIZE
           then Some \<lparr>total_size = size + of_nat sizeof_routing_header + data_length m, ptype = ty,
                      reserved = None, payload = rh @ dat\<rparr>
           else None
         }
         else if ty = packet_type_code PACKET_TYPE_PING
         then Some \<lparr>total_size = size + of_nat sizeof_routing_header, ptype = ty, reserved = None,
                    payload = rh\<rparr>
         else Some \<lparr>total_size = size, ptype = ty, reserved = None, payload = []\<rparr>)"

definition task_send_packet :: "fragment_env \<Rightarrow> fragment \<Rightarrow> fragment progress option" where
  "task_send_packet env f = do {
     let (k, f1) = tick f;
     if \<not> env_malloc env k then Some (Return FRAGMENT_EXCEPTION f1)
     else do {
       p \<leftarrow> injected_packet (msg_ctrl f1);
       ctx \<leftarrow> frag_context f1;
       (ok, q) \<leftarrow> mq_push p (mq_user ctx);
       Some (Return (if ok then NONE else FRAGMENT_EXCEPTION)
               (f1\<lparr>frag_context := Some (ctx\<lparr>mq_user := q\<rparr>)\<rparr>))
     }
   }"

text \<open>The threads get a second to stop when they have not stopped yet.\<close>

definition both_exited :: "fragment \<Rightarrow> bool option" where
  "both_exited f = map_option (\<lambda>ctx. exited (ts ctx) \<and> exited (ts_pcap f)) (frag_context f)"

definition task_end_testcase :: "fragment_env \<Rightarrow> fragment \<Rightarrow> fragment progress option" where
  "task_end_testcase env f = do {
     ctx \<leftarrow> frag_context f;
     let ctx1 = ctx\<lparr>ts := (ts ctx)\<lparr>thread_keep_running := False\<rparr>\<rparr>;
     let f1 = f\<lparr>ts_pcap := (ts_pcap f)\<lparr>thread_keep_running := False\<rparr>\<rparr>;
     (ok, q) \<leftarrow> mq_push None (mq_pcap ctx1);
     let f2 = f1\<lparr>frag_context := Some (ctx1\<lparr>mq_pcap := q\<rparr>)\<rparr>;
     if \<not> ok then Some (Return FRAGMENT_EXCEPTION f2)
     else do {
       ended \<leftarrow> both_exited f2;
       let f3 = (if ended then f2 else let_threads_run env f2);
       ended3 \<leftarrow> both_exited f3;
       Some (if ended3 then Return NONE (f3\<lparr>pcap_joinable := False, node_joinable := False\<rparr>)
             else Return FRAGMENT_THREADS_NONRESPONSIVE f3)
     }
   }"

fun run_request :: "fragment_env \<Rightarrow> nat \<Rightarrow> message_type \<Rightarrow> fragment \<Rightarrow> fragment progress option" where
  "run_request env n MSG_CHANGE_LINK_STATE f =
     (let r = get_link_state (msg_ctrl f)
      in task_update_link_state env n (neighbor_id r) (link_enabled r) f)"
| "run_request env n MSG_PCAP_SUBSCRIPTION f =
     task_update_pcap_subscription (get_subscription (msg_ctrl f)) f"
| "run_request env n MSG_SEND_PACKET f = task_send_packet env f"
| "run_request env n MSG_END_TESTCASE f = task_end_testcase env f"
| "run_request env n _ f = Some (Return BAD_MESSAGE_CODE f)"

definition do_respond :: "message_type \<Rightarrow> error_code \<Rightarrow> bool" where
  "do_respond t ec \<longleftrightarrow>
     t \<in> {MSG_CHANGE_LINK_STATE, MSG_PCAP_SUBSCRIPTION, MSG_SEND_PACKET}
     \<or> t = MSG_END_TESTCASE \<and> ec = NONE"

text \<open>The response carries the task's error; its own result replaces it.\<close>

definition respond ::
  "fragment_env \<Rightarrow> message_type \<Rightarrow> fragment progress option \<Rightarrow> fragment progress option" where
  "respond env t m =
     (case m of
        Some (Return ec f) \<Rightarrow>
          if do_respond t ec then send_response env True t ec no_payload f else Some (Return ec f)
      | _ \<Rightarrow> m)"

text \<open>
  The request loop, with a bound on the number of requests served: \<open>Waiting\<close> when it goes on. The
  waiting time of a request is when the other threads run.
\<close>

fun testcase_loop :: "fragment_env \<Rightarrow> nat \<Rightarrow> nat \<Rightarrow> fragment \<Rightarrow> fragment progress option" where
  "testcase_loop env n 0 f = Some (Waiting f)"
| "testcase_loop env n (Suc i) f = do {
     r \<leftarrow> recv_request env True True False MSG_NOOP no_action (let_threads_run env f);
     (case r of
        Waiting g \<Rightarrow> Some (Waiting g)
      | Return ec g \<Rightarrow>
          if ec = RECV_WAIT_TIMEOUT then None
          else if ec \<noteq> NONE then Some (Return ec g)
          else do {
            t \<leftarrow> get_type (msg_ctrl g);
            r' \<leftarrow> respond env t (run_request env n t g);
            (case r' of
               Waiting h \<Rightarrow> Some (Waiting h)
             | Return ec' h \<Rightarrow>
                 if t = MSG_END_TESTCASE then Some (Return ec' h)
                 else do {
                   ctx \<leftarrow> frag_context h;
                   let ec'' = (if exited (ts ctx) \<or> exited (ts_pcap h) then FRAGMENT_EXCEPTION else ec');
                   if ec'' \<noteq> NONE then Some (Return ec'' h) else testcase_loop env n i h
                 })
          })
   }"

definition fragment_run_testcase ::
  "fragment_env \<Rightarrow> nat \<Rightarrow> fragment \<Rightarrow> fragment progress option" where
  "fragment_run_testcase env n f =
     (if fstate f \<noteq> FS_RUN_TESTCASE then None
      else testcase_loop env n n (f\<lparr>node_joinable := True, pcap_joinable := True\<rparr>))"

section \<open>Shutdown\<close>

text \<open>The descriptors the destructor of a node context closes, and the end of a context.\<close>

definition context_fds :: "node_context \<Rightarrow> int list" where
  "context_fds ctx =
     filter (\<lambda>fd. fd \<noteq> - 1) (tx_socket_fds ctx)
     @ (if tx_listen_fd ctx \<noteq> - 1 then [tx_listen_fd ctx] else [])
     @ filter (\<lambda>fd. fd \<noteq> - 1) (rx_socket_fds ctx)"

definition destroy_node_context :: "fragment \<Rightarrow> fragment option" where
  "destroy_node_context f = do {
     ctx \<leftarrow> frag_context f;
     Some (f\<lparr>closed_fds := closed_fds f @ context_fds ctx, frag_mq_pcap := mq_pcap ctx,
             frag_mq_user := mq_user ctx, frag_context := None\<rparr>)
   }"

definition fragment_do_shutdown :: "fragment_env \<Rightarrow> fragment \<Rightarrow> fragment progress option" where
  "fragment_do_shutdown env f =
     (if fstate f \<noteq> FS_SHUTDOWN then None
      else die_on_error (recv_request env True True True MSG_SHUTDOWN no_action f)
        (\<lambda>f1. die_on_error (send_response env True MSG_SHUTDOWN NONE no_payload f1)
          (\<lambda>f2. map_option (Return NONE) (destroy_node_context f2))))"

section \<open>The capture thread\<close>

text \<open>
  An iteration of the capture thread: \<open>keep_running\<close> at the loop head, and the capture queue after
  what the other threads did to it before the read. A read that does not return is \<open>Waiting\<close>.
\<close>

record pcap_event =
  pe_running :: bool
  pe_queue :: "mixnet_packet option message_queue \<Rightarrow> mixnet_packet option message_queue"

definition pcap_payload :: "mixnet_packet \<Rightarrow> buffer \<Rightarrow> (error_code \<times> buffer) option" where
  "pcap_payload p m = do {
     bs \<leftarrow> packet_bytes p;
     Some (NONE, buf_put sizeof_header bs m)
   }"

definition pcap_exit :: "fragment \<Rightarrow> fragment" where
  "pcap_exit f = f\<lparr>ts_pcap := (ts_pcap f)\<lparr>exited := True\<rparr>\<rparr>"

fun worker_pcap ::
  "fragment_env \<Rightarrow> pcap_event list \<Rightarrow> error_code \<Rightarrow> fragment \<Rightarrow> fragment progress option" where
  "worker_pcap env [] ec f = Some (Waiting f)"
| "worker_pcap env (e # es) ec f =
     (if \<not> (pe_running e \<and> ec = NONE) then Some (Return ec (pcap_exit f))
      else do {
        ctx \<leftarrow> frag_context f;
        let q0 = pe_queue e (mq_pcap ctx);
        (case message_queue_read q0 of
           None \<Rightarrow> Some (Waiting (f\<lparr>frag_context := Some (ctx\<lparr>mq_pcap := q0\<rparr>)\<rparr>))
         | Some (c, q1) \<Rightarrow> do {
             x \<leftarrow> load_cell c q1;
             q2 \<leftarrow> message_queue_message_free q1 c;
             let f1 = f\<lparr>frag_context := Some (ctx\<lparr>mq_pcap := q2\<rparr>)\<rparr>;
             (case x of
                None \<Rightarrow> Some (Return NONE (pcap_exit f1))
              | Some p \<Rightarrow>
                  if \<not> total_size p \<le> MAX_MIXNET_PACKET_SIZE then None
                  else do {
                    r \<leftarrow> send_response env False MSG_PCAP_DATA NONE (pcap_payload p) f1;
                    (case r of
                       Waiting g \<Rightarrow> Some (Waiting g)
                     | Return ec' g \<Rightarrow>
                         worker_pcap env es ec' (g\<lparr>ts_pcap := (ts_pcap g)\<lparr>exit_code := ec'\<rparr>\<rparr>))
                  })
           })
      })"

section \<open>Construction and destruction\<close>

definition MQ_DEPTH :: int where
  "MQ_DEPTH = 128"

text \<open>
  The queues hold pointers of eight bytes. The constructor ignores the results of the
  initialisations; \<open>None\<close> stands for a fragment with a queue that was not initialised. \<open>mem\<close> is what
  the memory of the two message buffers holds.
\<close>

definition new_fragment ::
  "(bool \<times> bool \<times> bool) \<times> (bool \<times> bool) \<times> (bool \<times> bool)
    \<Rightarrow> (bool \<times> bool \<times> bool) \<times> (bool \<times> bool) \<times> (bool \<times> bool)
    \<Rightarrow> buffer \<times> buffer \<Rightarrow> sockets \<Rightarrow> sockaddr_in \<Rightarrow> fragment option" where
  "new_fragment a b mem n orc = do {
     pcap \<leftarrow> message_queue_init 8 MQ_DEPTH (fst a) (fst (snd a)) (snd (snd a));
     user \<leftarrow> message_queue_init 8 MQ_DEPTH (fst b) (fst (snd b)) (snd (snd b));
     Some \<lparr>fid = - 1, autotest_mode = False, fstate = FS_SETUP_CTRL, msg_ctrl = fst mem,
       msg_pcap = snd mem, local_fd_ctrl = - 1, local_fd_pcap = - 1, orc_netaddr = orc,
       timeout_connect_long = 5000, timeout_connect_short = 5000, frag_context = None,
       ts_pcap = new_thread_state, node_joinable = False, pcap_joinable = False,
       frag_mq_pcap = pcap, frag_mq_user = user, accept_joinable = False,
       node_accept_args = None, pcap_netaddr = unset_netaddr, closed_fds = [], net = n, calls = 0\<rparr>
   }"

text \<open>
  The destructor releases the queues and closes the sockets; then the members are destroyed, among
  them the threads: one that is still joinable terminates the process.
\<close>

definition destroy_fragment :: "fragment \<Rightarrow> (release list \<times> release list \<times> int list) option" where
  "destroy_fragment f =
     (if accept_joinable f \<or> node_joinable f \<or> pcap_joinable f then None
      else let (pcap, user, fds) = (case frag_context f of
                   None \<Rightarrow> (frag_mq_pcap f, frag_mq_user f, [])
                 | Some ctx \<Rightarrow> (mq_pcap ctx, mq_user ctx, context_fds ctx))
        in Some (message_queue_destroy pcap, message_queue_destroy user,
             closed_fds f @ filter (\<lambda>fd. fd \<noteq> - 1) [local_fd_pcap f, local_fd_ctrl f] @ fds))"

section \<open>The main loop\<close>

fun next_state :: "fragment_state \<Rightarrow> fragment_state" where
  "next_state FS_SETUP_CTRL = FS_SETUP_PCAP"
| "next_state FS_SETUP_PCAP = FS_CREATE_TOPOLOGY"
| "next_state FS_CREATE_TOPOLOGY = FS_START_MIXNET_SERVER"
| "next_state FS_START_MIXNET_SERVER = FS_START_MIXNET_CLIENT"
| "next_state FS_START_MIXNET_CLIENT = FS_RESOLVE_MIXNET_CONNECTIONS"
| "next_state FS_RESOLVE_MIXNET_CONNECTIONS = FS_START_TESTCASE"
| "next_state FS_START_TESTCASE = FS_RUN_TESTCASE"
| "next_state FS_RUN_TESTCASE = FS_SHUTDOWN"
| "next_state FS_SHUTDOWN = FS_DONE"
| "next_state FS_DONE = FS_DONE"

definition run_state :: "fragment_env \<Rightarrow> nat \<Rightarrow> fragment \<Rightarrow> fragment progress option" where
  "run_state env n f =
     (case fstate f of
        FS_SETUP_CTRL \<Rightarrow> fragment_setup_ctrl env f
      | FS_SETUP_PCAP \<Rightarrow> fragment_setup_pcap env f
      | FS_CREATE_TOPOLOGY \<Rightarrow> fragment_create_topology env f
      | FS_START_MIXNET_SERVER \<Rightarrow> fragment_start_server env f
      | FS_START_MIXNET_CLIENT \<Rightarrow> fragment_start_client env f
      | FS_RESOLVE_MIXNET_CONNECTIONS \<Rightarrow> fragment_resolve env f
      | FS_START_TESTCASE \<Rightarrow> fragment_start_testcase env f
      | FS_RUN_TESTCASE \<Rightarrow> fragment_run_testcase env n f
      | FS_SHUTDOWN \<Rightarrow> fragment_do_shutdown env f
      | FS_DONE \<Rightarrow> Some (Return NONE f))"

text \<open>The number of states before the last one.\<close>

fun states_left :: "fragment_state \<Rightarrow> nat" where
  "states_left FS_SETUP_CTRL = 9"
| "states_left FS_SETUP_PCAP = 8"
| "states_left FS_CREATE_TOPOLOGY = 7"
| "states_left FS_START_MIXNET_SERVER = 6"
| "states_left FS_START_MIXNET_CLIENT = 5"
| "states_left FS_RESOLVE_MIXNET_CONNECTIONS = 4"
| "states_left FS_START_TESTCASE = 3"
| "states_left FS_RUN_TESTCASE = 2"
| "states_left FS_SHUTDOWN = 1"
| "states_left FS_DONE = 0"

lemma states_left_next: "next_state s \<noteq> FS_DONE \<Longrightarrow> states_left (next_state s) < states_left s"
  by (cases s) simp_all

function fragment_loop :: "fragment_env \<Rightarrow> nat \<Rightarrow> fragment \<Rightarrow> fragment progress option" where
  "fragment_loop env n f =
     (case run_state env n f of
        None \<Rightarrow> None
      | Some (Waiting g) \<Rightarrow> Some (Waiting g)
      | Some (Return ec g) \<Rightarrow>
          let h = g\<lparr>fstate := next_state (fstate f)\<rparr>
          in if fstate h \<noteq> FS_DONE \<and> ec = NONE then fragment_loop env n h
             else Some (Return ec h))"
  by pat_completeness auto

termination
  by (relation "measure (\<lambda>(env, n, f). states_left (fstate f))")
    (auto simp: states_left_next)

declare fragment_loop.simps [simp del]

text \<open>A fragment that failed in autotest mode spins until it is killed.\<close>

definition fragment_run :: "fragment_env \<Rightarrow> nat \<Rightarrow> fragment \<Rightarrow> fragment progress option" where
  "fragment_run env n f =
     (if fstate f \<noteq> FS_SETUP_CTRL then None
      else do {
        r \<leftarrow> fragment_loop env n f;
        Some (case r of
            Return ec g \<Rightarrow> if ec \<noteq> NONE \<and> autotest_mode g then Waiting g else Return ec g
          | Waiting g \<Rightarrow> Waiting g)
      })"

end
