(* ===== verification/FragmentRun.thy ===== *)
theory FragmentRun
  imports Fragment
begin

text \<open>
  What the methods of a fragment guarantee: the requests it accepts and the responses it sends, the
  invariant of its state through the state machine, the mapping of connections to neighbours, and
  the effect of the testcase tasks.
\<close>

section \<open>Requests and responses\<close>

lemma die_on_error_NONE:
  "die_on_error m k = Some (Return NONE s) \<longleftrightarrow> (\<exists>s1. m = Some (Return NONE s1) \<and> k s1 = Some (Return NONE s))"
  by (cases "(m, k)" rule: die_on_error.cases) auto

lemma die_during_accept_NONE:
  "die_during_accept env m k = Some (Return NONE s) \<Longrightarrow>
    \<exists>s1. m = Some (Return NONE s1) \<and> k s1 = Some (Return NONE s)"
  by (auto simp: die_during_accept_def join_accept_def bind_eq_Some_conv
      split: option.splits progress.splits if_splits)

lemma plane_error_neq [simp]: "plane_error c \<noteq> NONE" "conn_error (plane_error c)"
  by (simp_all add: plane_error_def conn_error_def)

lemma put_msg_simps [simp]:
  "fid (put_msg c m f) = fid f" "fstate (put_msg c m f) = fstate f" "net (put_msg c m f) = net f"
  "frag_context (put_msg c m f) = frag_context f" "node_accept_args (put_msg c m f) = node_accept_args f"
  "frag_mq_pcap (put_msg c m f) = frag_mq_pcap f" "frag_mq_user (put_msg c m f) = frag_mq_user f"
  "ts_pcap (put_msg c m f) = ts_pcap f" "calls (put_msg c m f) = calls f"
  "autotest_mode (put_msg c m f) = autotest_mode f" "orc_netaddr (put_msg c m f) = orc_netaddr f"
  "plane_fd p (put_msg c m f) = plane_fd p f" "closed_fds (put_msg c m f) = closed_fds f"
  "accept_joinable (put_msg c m f) = accept_joinable f" "node_joinable (put_msg c m f) = node_joinable f"
  "pcap_joinable (put_msg c m f) = pcap_joinable f"
  by (simp_all add: put_msg_def plane_fd_def)

lemma get_put_msg [simp]: "get_msg c (put_msg c m f) = m"
  by (simp add: get_msg_def put_msg_def)

text \<open>The members that sending and receiving leave alone.\<close>

definition kept :: "fragment \<Rightarrow> _" where
  "kept f = (fid f, autotest_mode f, fstate f, frag_context f, ts_pcap f, node_joinable f,
     pcap_joinable f, frag_mq_pcap f, frag_mq_user f, accept_joinable f, node_accept_args f,
     closed_fds f)"

lemma kept_simps [simp]:
  "kept (put_msg c m f) = kept f" "kept (sent_on fd bs f) = kept f" "kept (received_on fd s f) = kept f"
  "kept (f\<lparr>calls := k\<rparr>) = kept f" "kept (snd (tick f)) = kept f"
  by (simp_all add: kept_def put_msg_def sent_on_def received_on_def tick_def)

lemma tick_simps [simp]: "tick f = (calls f, f\<lparr>calls := Suc (calls f)\<rparr>)"
  by (simp add: tick_def)

text \<open>
  A response that was sent: the finalized message is on the wire.
\<close>

lemma send_blocking_NONE:
  "fragment_send_blocking nb m e evs = Some (Return NONE bs) \<Longrightarrow> e \<noteq> NONE \<Longrightarrow>
    bs = slice m 0 (unat (get_total_length m)) \<and> MIN_MESSAGE_LENGTH \<le> unat (get_total_length m)"
  unfolding fragment_send_blocking_def by (rule send_message_NONE)

lemma send_response_NONE:
  assumes "send_response env c t ec fill f = Some (Return NONE f')"
  shows "\<exists>m1 m2. fill (fragment_prepare_header (fid f) (get_msg c f) t ec) = Some (NONE, m1)
    \<and> finalize m1 = Some m2
    \<and> f' = sent_on (plane_fd c f) (slice m2 0 (unat (get_total_length m2)))
             ((put_msg c m2 f)\<lparr>calls := Suc (calls f)\<rparr>)"
  using assms
  by (auto simp: send_response_def Let_def bind_eq_Some_conv split: if_splits progress.split_asm
      dest!: send_blocking_NONE)

lemma send_response_kept:
  "send_response env c t ec fill f = Some (Return e f') \<Longrightarrow> kept f' = kept f"
  by (auto simp: send_response_def Let_def bind_eq_Some_conv split: if_splits progress.split_asm)

text \<open>A request that was accepted.\<close>

lemma recv_request_NONE:
  assumes "recv_request env c check_id check_type t h f = Some (Return NONE f')"
  shows "\<exists>s f2. fragment_check_header (fid f) check_id check_type (rx_mem s) t = Some NONE
    \<and> kept f2 = kept f \<and> h (rx_mem s) f2 = Some (NONE, f') \<and> get_msg c f2 = rx_mem s
    \<and> f2 = put_msg c (rx_mem s) (received_on (plane_fd c f) s (f\<lparr>calls := Suc (calls f)\<rparr>))
    \<and> fragment_recv_blocking (env_nonblock env (calls f)) (get_msg c f) (plane_error c)
        (rxq (net f) (plane_fd c f)) (env_rx env (calls f)) = Some (Return NONE s)"
proof -
  let ?r = "fragment_recv_blocking (env_nonblock env (calls f)) (get_msg c f) (plane_error c)
      (rxq (net f) (plane_fd c f)) (env_rx env (calls f))"
  obtain r where r: "?r = Some r"
    using assms by (cases ?r) (simp_all add: recv_request_def Let_def)
  show ?thesis
  proof (cases r)
    case (Waiting s)
    then show ?thesis using assms r by (simp add: recv_request_def Let_def)
  next
    case (Return e s)
    let ?f2 = "put_msg c (rx_mem s) (received_on (plane_fd c f) s (f\<lparr>calls := Suc (calls f)\<rparr>))"
    have "fid ?f2 = fid f" by (simp add: received_on_def)
    then have "e = NONE" "fragment_check_header (fid f) check_id check_type (rx_mem s) t = Some NONE"
      "h (rx_mem s) ?f2 = Some (NONE, f')"
      using assms r Return
      by (auto simp: recv_request_def Let_def bind_eq_Some_conv split: if_splits)
    then show ?thesis using r Return by (intro exI [of _ s] exI [of _ ?f2]) simp
  qed
qed

lemma recv_request_handled:
  assumes "recv_request env c check_id check_type t h f = Some (Return NONE f')"
  obtains m f2 where "fragment_check_header (fid f) check_id check_type m t = Some NONE"
    and "kept f2 = kept f" and "h m f2 = Some (NONE, f')"
  using recv_request_NONE [OF assms] by blast

lemma recv_request_kept:
  assumes "recv_request env c check_id check_type t no_action f = Some (Return NONE f')"
  shows "kept f' = kept f"
  using recv_request_NONE [OF assms] by (auto simp: no_action_def)

lemma keptD:
  assumes "kept a = kept b"
  shows "fid a = fid b" "fstate a = fstate b" "frag_context a = frag_context b"
    "frag_mq_pcap a = frag_mq_pcap b" "frag_mq_user a = frag_mq_user b"
    "node_accept_args a = node_accept_args b" "ts_pcap a = ts_pcap b"
    "accept_joinable a = accept_joinable b" "closed_fds a = closed_fds b"
    "node_joinable a = node_joinable b" "pcap_joinable a = pcap_joinable b"
  using assms by (simp_all add: kept_def)

lemma kept_context:
  "kept a = kept b \<Longrightarrow> kept (a\<lparr>frag_context := c\<rparr>) = kept (b\<lparr>frag_context := c\<rparr>)"
  by (simp add: kept_def)

lemma try_connect_kept: "try_connect env a t f = Return ec f' \<Longrightarrow> kept f' = kept f"
  by (auto simp: try_connect_def Let_def split: option.splits)

section \<open>The invariant of the state machine\<close>

text \<open>
  The node context is well formed, and it exists from the creation of the topology to the shutdown;
  the accept thread was started before the client connections, and afterwards it has accepted
  exactly one connection per neighbour.
\<close>

definition frag_ctx_wf :: "node_context \<Rightarrow> bool" where
  "frag_ctx_wf ctx \<longleftrightarrow> ctx_wf ctx \<and> length (neighbor_netaddrs ctx) = unat (num_neighbors_of ctx)"

definition accept_ok :: "fragment \<Rightarrow> node_context \<Rightarrow> bool" where
  "accept_ok f ctx \<longleftrightarrow>
     (states_left (fstate f) = 5 \<longrightarrow>
        node_accept_args f = Some (init_accept_args False 0 (num_neighbors_of ctx)))
     \<and> (states_left (fstate f) < 5 \<longrightarrow>
        (\<exists>a. node_accept_args f = Some a \<and> length (states a) = unat (num_neighbors_of ctx)
           \<and> num_accepted a = num_neighbors_of ctx))"

definition frag_inv :: "fragment \<Rightarrow> bool" where
  "frag_inv f \<longleftrightarrow>
     (case frag_context f of
        None \<Rightarrow> mq_inv (frag_mq_pcap f) \<and> mq_inv (frag_mq_user f)
          \<and> (fstate f = FS_DONE \<or> 6 < states_left (fstate f))
      | Some ctx \<Rightarrow> frag_ctx_wf ctx \<and> 1 \<le> states_left (fstate f) \<and> states_left (fstate f) \<le> 6
          \<and> accept_ok f ctx)"

text \<open>What the control thread relies on while the other threads run.\<close>

definition fixed_part :: "node_context \<Rightarrow> _" where
  "fixed_part ctx = (node_config ctx, tx_listen_fd ctx, tx_socket_fds ctx, tx_server_netaddr ctx,
     rx_socket_fds ctx, neighbor_netaddrs ctx, link_states ctx, is_pcap_subscribed ctx)"

definition threads_rely :: "fragment_env \<Rightarrow> bool" where
  "threads_rely env \<longleftrightarrow>
     (\<forall>k ctx t m n. ctx_wf ctx \<longrightarrow>
        (case env_threads env k (ctx, t, m, n) of (ctx', _) \<Rightarrow>
           ctx_wf ctx' \<and> fixed_part ctx' = fixed_part ctx))"

lemma frag_inv_kept: "kept a = kept b \<Longrightarrow> frag_inv a = frag_inv b"
  using keptD [of a b] by (simp add: frag_inv_def accept_ok_def split: option.splits)

lemma num_neighbors_max_port: "num_neighbors_of ctx = max_port_id ctx"
  by (simp add: num_neighbors_of_def max_port_id_def)

lemma frag_ctx_wf_init:
  "mq_inv pcap \<Longrightarrow> mq_inv user \<Longrightarrow> frag_ctx_wf (init_node_context pcap user r)"
  by (simp add: frag_ctx_wf_def ctx_wf_init num_neighbors_of_def)
    (simp add: init_node_context_def Let_def)

lemma setup_ctrl_kept:
  assumes "fragment_setup_ctrl env f = Some (Return NONE g)"
  shows "fstate f = FS_SETUP_CTRL \<and> frag_context g = frag_context f \<and> frag_mq_pcap g = frag_mq_pcap f
    \<and> frag_mq_user g = frag_mq_user f"
proof -
  let ?f2 = "f\<lparr>calls := Suc (calls f), local_fd_ctrl := open_fd False True (env_socket env (calls f))\<rparr>"
  have st: "fstate f = FS_SETUP_CTRL" using assms by (simp add: fragment_setup_ctrl_def split: if_splits)
  with assms obtain f3 f4 where
    c: "try_connect env (orc_netaddr ?f2) (timeout_connect_long ?f2) ?f2 = Return NONE f3"
    and s: "send_response env True MSG_SETUP_CTRL NONE
      (\<lambda>m. Some (NONE, put_setup_ctrl_response (env_pid env) m)) f3 = Some (Return NONE f4)"
    and r: "recv_request env True False True MSG_SETUP_CTRL
      (\<lambda>m g. Some (NONE, g\<lparr>fid := get_fragment_id m, autotest_mode := get_setup_ctrl_request m\<rparr>)) f4
      = Some (Return NONE g)"
    by (auto simp: fragment_setup_ctrl_def Let_def die_on_error_NONE split: if_splits)
  have "kept f4 = kept ?f2"
    using try_connect_kept [OF c] send_response_kept [OF s] by simp
  moreover obtain m f5 where "kept f5 = kept f4" "Some (NONE, f5\<lparr>fid := get_fragment_id m,
      autotest_mode := get_setup_ctrl_request m\<rparr>) = Some (NONE, g)"
    using recv_request_handled [OF r] by blast
  ultimately show ?thesis using st keptD [of f5 ?f2] by auto
qed

lemma setup_pcap_kept:
  assumes "fragment_setup_pcap env f = Some (Return NONE g)"
  shows "kept g = kept f \<and> fstate f = FS_SETUP_PCAP"
proof -
  let ?h = "\<lambda>m g. do {
      a \<leftarrow> get_netaddr m;
      Some (NONE, g\<lparr>pcap_netaddr := a\<lparr>s_addr := s_addr (orc_netaddr g)\<rparr>\<rparr>)
    }"
  let ?f4 = "\<lambda>f2. f2\<lparr>calls := Suc (calls f2), local_fd_pcap := open_fd False True (env_socket env (calls f2))\<rparr>"
  have st: "fstate f = FS_SETUP_PCAP" using assms by (simp add: fragment_setup_pcap_def split: if_splits)
  with assms obtain f1 f2 f5 f6 where
    r1: "recv_request env True True True MSG_SETUP_PCAP ?h f = Some (Return NONE f1)"
    and s1: "send_response env True MSG_SETUP_PCAP NONE no_payload f1 = Some (Return NONE f2)"
    and c: "try_connect env (pcap_netaddr (?f4 f2)) (timeout_connect_short (?f4 f2)) (?f4 f2) = Return NONE f5"
    and s2: "send_response env False MSG_SETUP_PCAP NONE no_payload f5 = Some (Return NONE f6)"
    and r2: "recv_request env False True True MSG_SETUP_PCAP no_action f6 = Some (Return NONE g)"
    by (auto simp: fragment_setup_pcap_def Let_def die_on_error_NONE split: if_splits)
  obtain m h where "kept h = kept f" "?h m h = Some (NONE, f1)"
    using recv_request_handled [OF r1] by blast
  then have "kept f1 = kept f" by (auto simp: bind_eq_Some_conv kept_def)
  moreover have "kept (?f4 f2) = kept f2" by (simp add: kept_def)
  ultimately show ?thesis
    using st send_response_kept [OF s1] try_connect_kept [OF c] send_response_kept [OF s2]
      recv_request_kept [OF r2] by simp
qed

lemma create_topology_context:
  assumes "fragment_create_topology env f = Some (Return NONE g)"
  shows "fstate f = FS_CREATE_TOPOLOGY \<and> (\<exists>m r. get_topology m = Some r
    \<and> fragment_check_header (fid f) True True m MSG_TOPOLOGY = Some NONE
    \<and> frag_context g = Some (init_node_context (frag_mq_pcap f) (frag_mq_user f) r))"
proof -
  let ?h = "\<lambda>m g. do {
      r \<leftarrow> get_topology m;
      Some (NONE, g\<lparr>frag_context := Some (init_node_context (frag_mq_pcap g) (frag_mq_user g) r)\<rparr>)
    }"
  have st: "fstate f = FS_CREATE_TOPOLOGY"
    using assms by (simp add: fragment_create_topology_def split: if_splits)
  with assms obtain f1 where
    r: "recv_request env True True True MSG_TOPOLOGY ?h f = Some (Return NONE f1)"
    and s: "send_response env True MSG_TOPOLOGY NONE no_payload f1 = Some (Return NONE g)"
    by (auto simp: fragment_create_topology_def die_on_error_NONE)
  obtain m f2 where m: "fragment_check_header (fid f) True True m MSG_TOPOLOGY = Some NONE"
    "kept f2 = kept f" "?h m f2 = Some (NONE, f1)"
    using recv_request_handled [OF r] by blast
  then show ?thesis
    using st keptD [OF m(2)] keptD(3) [OF send_response_kept [OF s]]
    by (fastforce simp: bind_eq_Some_conv)
qed

lemma num_neighbors_simps [simp]:
  "num_neighbors_of (ctx\<lparr>tx_server_netaddr := a\<rparr>) = num_neighbors_of ctx"
  "num_neighbors_of (ctx\<lparr>tx_listen_fd := fd\<rparr>) = num_neighbors_of ctx"
  "num_neighbors_of (ctx\<lparr>rx_socket_fds := fds\<rparr>) = num_neighbors_of ctx"
  "num_neighbors_of (ctx\<lparr>tx_socket_fds := fds\<rparr>) = num_neighbors_of ctx"
  "num_neighbors_of (ctx\<lparr>neighbor_netaddrs := as\<rparr>) = num_neighbors_of ctx"
  by (simp_all add: num_neighbors_of_def)

lemma frag_ctx_wf_simps [simp]:
  "frag_ctx_wf (ctx\<lparr>tx_server_netaddr := a\<rparr>) = frag_ctx_wf ctx"
  "frag_ctx_wf (ctx\<lparr>tx_listen_fd := fd\<rparr>) = frag_ctx_wf ctx"
  by (simp_all add: frag_ctx_wf_def ctx_wf_def max_port_id_def)

lemma frag_ctx_wf_fds:
  "frag_ctx_wf ctx \<Longrightarrow> length fds = length (rx_socket_fds ctx) \<Longrightarrow> frag_ctx_wf (ctx\<lparr>rx_socket_fds := fds\<rparr>)"
  "frag_ctx_wf ctx \<Longrightarrow> length fds = length (tx_socket_fds ctx) \<Longrightarrow> frag_ctx_wf (ctx\<lparr>tx_socket_fds := fds\<rparr>)"
  "frag_ctx_wf ctx \<Longrightarrow> length as = length (neighbor_netaddrs ctx) \<Longrightarrow>
     frag_ctx_wf (ctx\<lparr>neighbor_netaddrs := as\<rparr>)"
  by (simp_all add: frag_ctx_wf_def ctx_wf_def max_port_id_def)

lemma start_server_context:
  assumes "start_server env k ctx0 = (ec, ctx)"
  shows "num_neighbors_of ctx = num_neighbors_of ctx0 \<and> frag_ctx_wf ctx = frag_ctx_wf ctx0"
  using assms by (auto simp: start_server_def Let_def case_prod_unfold)

lemma start_server_result:
  assumes "fragment_start_server env f = Some (Return NONE g)"
  shows "fstate f = FS_START_MIXNET_SERVER \<and> (\<exists>ctx0 ctx. frag_context f = Some ctx0
    \<and> frag_context g = Some ctx \<and> num_neighbors_of ctx = num_neighbors_of ctx0
    \<and> frag_ctx_wf ctx = frag_ctx_wf ctx0
    \<and> node_accept_args g = Some (init_accept_args False 0 (num_neighbors_of ctx)))"
proof -
  have st: "fstate f = FS_START_MIXNET_SERVER"
    using assms by (simp add: fragment_start_server_def split: if_splits)
  with assms obtain f1 ctx0 where
    r: "recv_request env True True True MSG_START_MIXNET_SERVER no_action f = Some (Return NONE f1)"
    and c0: "frag_context f1 = Some ctx0"
    by (auto simp: fragment_start_server_def die_on_error_NONE bind_eq_Some_conv)
  obtain ec ctx where srv: "start_server env (calls f1) ctx0 = (ec, ctx)" by fastforce
  have rest: "(if ec \<noteq> NONE then Some (Return ec (f1\<lparr>calls := Suc (calls f1), frag_context := Some ctx\<rparr>))
       else die_during_accept env
         (send_response env True MSG_START_MIXNET_SERVER NONE
            (\<lambda>m. Some (NONE, put_netaddr ((tx_server_netaddr ctx)\<lparr>s_addr := - 1\<rparr>) m))
            (f1\<lparr>calls := Suc (calls f1), frag_context := Some ctx,
               node_accept_args := Some (init_accept_args False 0 (num_neighbors_of ctx)),
               accept_joinable := True\<rparr>))
         (\<lambda>g. Some (Return NONE g))) = Some (Return NONE g)"
    using assms st r c0 srv by (cases "ec = NONE") (simp_all add: fragment_start_server_def Let_def)
  from rest have "kept g = kept (f1\<lparr>calls := Suc (calls f1), frag_context := Some ctx,
      node_accept_args := Some (init_accept_args False 0 (num_neighbors_of ctx)), accept_joinable := True\<rparr>)"
    by (auto dest!: die_during_accept_NONE send_response_kept split: if_splits)
  then show ?thesis
    using st c0 start_server_context [OF srv] keptD [of g] keptD(3) [OF recv_request_kept [OF r]]
    by simp
qed

lemma server_accept_states:
  assumes "server_accept evs (init_accept_args tm t n) = Some a"
  shows "length (states a) = unat n"
proof -
  let ?a0 = "(init_accept_args tm t n)\<lparr>acc_started := True\<rparr>"
  obtain a' fin where loop: "accept_loop evs ?a0 = (a', fin)" by fastforce
  have "accept_inv ?a0" "max_clients ?a0 = n" by (simp_all add: accept_inv_def init_accept_args_def)
  then have "accept_inv a'" "max_clients a' = n"
    using accept_loop_inv [OF _ loop] accept_loop_max [OF loop] by auto
  moreover have "a = a'\<lparr>acc_done := fin\<rparr>"
    using assms loop by (auto simp: server_accept_def init_accept_args_def)
  ultimately show ?thesis by (simp add: accept_inv_def)
qed

lemma connect_neighbors_result:
  "connect_neighbors env nid as f = Some (Return NONE g) \<Longrightarrow> frag_context f = Some ctx \<Longrightarrow>
    \<exists>fds. length fds = length (rx_socket_fds ctx)
      \<and> kept g = kept (f\<lparr>frag_context := Some (ctx\<lparr>rx_socket_fds := fds\<rparr>)\<rparr>)"
proof (induction as arbitrary: nid f ctx)
  case Nil
  then show ?case by (intro exI [of _ "rx_socket_fds ctx"]) (auto simp: kept_def)
next
  case (Cons a as)
  let ?fds = "(rx_socket_fds ctx)[nid := open_fd False False (env_socket env (calls f))]"
  let ?f2 = "f\<lparr>calls := Suc (calls f), frag_context := Some (ctx\<lparr>rx_socket_fds := ?fds\<rparr>)\<rparr>"
  obtain f3 where c: "try_connect env a (timeout_connect_short ?f2) ?f2 = Return NONE f3"
    and rest: "connect_neighbors env (Suc nid) as f3 = Some (Return NONE g)"
    using Cons.prems by (auto simp: Let_def die_on_error_NONE split: if_splits)
  note k = try_connect_kept [OF c]
  have "frag_context f3 = Some (ctx\<lparr>rx_socket_fds := ?fds\<rparr>)" using keptD(3) [OF k] by simp
  from Cons.IH [OF rest this] obtain fds where fds: "length fds = length (rx_socket_fds ctx)"
    "kept g = kept (f3\<lparr>frag_context := Some (ctx\<lparr>rx_socket_fds := fds\<rparr>)\<rparr>)"
    by auto
  moreover have "kept (?f2\<lparr>frag_context := c\<rparr>) = kept (f\<lparr>frag_context := c\<rparr>)" for c
    by (simp add: kept_def)
  ultimately show ?case using kept_context [OF k] by auto
qed

lemma start_client_result:
  assumes "fragment_start_client env f = Some (Return NONE g)"
    and ctx0: "frag_context f = Some ctx0" "frag_ctx_wf ctx0"
    and a0: "node_accept_args f = Some a0"
  shows "fstate f = FS_START_MIXNET_CLIENT \<and> (\<exists>ctx a. frag_context g = Some ctx \<and> frag_ctx_wf ctx
    \<and> num_neighbors_of ctx = num_neighbors_of ctx0 \<and> node_accept_args g = Some a
    \<and> server_accept (env_accept env) a0 = Some a \<and> num_accepted a = num_neighbors_of ctx0)"
proof -
  have st: "fstate f = FS_START_MIXNET_CLIENT"
    using assms(1) by (simp add: fragment_start_client_def split: if_splits)
  with assms(1) ctx0(1) obtain f1 ctx1 f2 where
    r: "recv_request env True True True MSG_START_MIXNET_CLIENTS store_neighbor_addrs f = Some (Return NONE f1)"
    and c1: "frag_context f1 = Some ctx1"
    and conn: "connect_neighbors env 0
      (take (unat (num_neighbors_of ctx0)) (neighbor_netaddrs ctx1)) f1 = Some (Return NONE f2)"
    and join: "join_accept env f2 (\<lambda>f3. do {
         a \<leftarrow> node_accept_args f3;
         ctx3 \<leftarrow> frag_context f3;
         if num_accepted a \<noteq> num_neighbors_of ctx0 then Some (Return SOCKET_ACCEPT_TIMEOUT f3)
         else send_response env True MSG_START_MIXNET_CLIENTS NONE (client_names env ctx3) f3
       }) = Some (Return NONE g)"
    by (auto simp: fragment_start_client_def bind_eq_Some_conv dest!: die_during_accept_NONE)
  obtain m h where h: "kept h = kept f" "store_neighbor_addrs m h = Some (NONE, f1)"
    using recv_request_handled [OF r] by blast
  let ?old = "neighbor_netaddrs ctx0"
  obtain bs where bs: "length bs \<le> length ?old"
    "f1 = h\<lparr>frag_context := Some (ctx0\<lparr>neighbor_netaddrs := bs @ drop (length bs) ?old\<rparr>)\<rparr>"
    using h(2) keptD(3) [OF h(1)] ctx0(1)
    by (auto simp: store_neighbor_addrs_def Let_def bind_eq_Some_conv split: if_splits)
  then have ctx1: "frag_ctx_wf ctx1" "num_neighbors_of ctx1 = num_neighbors_of ctx0"
    using c1 frag_ctx_wf_fds(3) [OF ctx0(2), of "bs @ drop (length bs) ?old"] by auto
  obtain fds where fds: "length fds = length (rx_socket_fds ctx1)"
    "kept f2 = kept (f1\<lparr>frag_context := Some (ctx1\<lparr>rx_socket_fds := fds\<rparr>)\<rparr>)"
    using connect_neighbors_result [OF conn c1] by blast
  let ?ctx = "ctx1\<lparr>rx_socket_fds := fds\<rparr>"
  have f2: "frag_context f2 = Some ?ctx" "node_accept_args f2 = Some a0"
    using keptD(3,6) [OF fds(2)] keptD(6) [OF h(1)] a0 bs(2) by simp_all
  obtain a where a: "server_accept (env_accept env) a0 = Some a" "num_accepted a = num_neighbors_of ctx0"
    and snd: "send_response env True MSG_START_MIXNET_CLIENTS NONE (client_names env ?ctx)
      (f2\<lparr>node_accept_args := Some a, accept_joinable := False\<rparr>) = Some (Return NONE g)"
    using join f2 by (auto simp: join_accept_def bind_eq_Some_conv split: if_splits)
  have "frag_ctx_wf ?ctx" "num_neighbors_of ?ctx = num_neighbors_of ctx0"
    using ctx1 fds(1) by (simp_all add: frag_ctx_wf_fds)
  then show ?thesis
    using st a f2 keptD(3,6) [OF send_response_kept [OF snd]] by auto
qed

text \<open>The resolution: every neighbour gets the first accepted connection from its address.\<close>

lemma resolve_neighbors_result:
  "resolve_neighbors sts nid as fds = (NONE, fds') \<Longrightarrow> nid + length as \<le> length fds \<Longrightarrow>
    length fds' = length fds \<and> (\<forall>j < nid. fds' ! j = fds ! j)
    \<and> (\<forall>i < length as. \<exists>s. find (\<lambda>s. address s = as ! i) sts = Some s
         \<and> fds' ! (nid + i) = connection_fd s)"
proof (induction as arbitrary: nid fds)
  case Nil
  then show ?case by simp
next
  case (Cons a as)
  from Cons.prems(1) obtain s where s: "find (\<lambda>s. address s = a) sts = Some s"
    and rest: "resolve_neighbors sts (Suc nid) as (fds[nid := connection_fd s]) = (NONE, fds')"
    by (auto split: option.splits)
  from Cons.IH [OF rest] Cons.prems(2)
  have IH: "length fds' = length fds" "\<forall>j < Suc nid. fds' ! j = fds[nid := connection_fd s] ! j"
    "\<forall>i < length as. \<exists>s. find (\<lambda>s. address s = as ! i) sts = Some s
       \<and> fds' ! (Suc nid + i) = connection_fd s"
    by auto
  have "\<forall>j < nid. fds' ! j = fds ! j" "fds' ! nid = connection_fd s"
    using IH(2) Cons.prems(2) by auto
  moreover have "\<exists>s. find (\<lambda>s. address s = (a # as) ! i) sts = Some s \<and> fds' ! (nid + i) = connection_fd s"
    if "i < length (a # as)" for i
    using that s IH(3) \<open>fds' ! nid = connection_fd s\<close> by (cases i) auto
  ultimately show ?case using IH(1) by auto
qed

lemma resolve_neighbors_length: "length (snd (resolve_neighbors sts nid as fds)) = length fds"
  by (induction as arbitrary: nid fds) (auto split: option.splits)

lemma get_elems_length: "get_elems dec sz off n b = Some xs \<Longrightarrow> length xs = n"
  by (induction dec sz off n b arbitrary: xs rule: get_elems.induct)
    (auto simp: bind_eq_Some_conv)

lemma resolve_result:
  assumes "fragment_resolve env f = Some (Return NONE g)"
    and ctx0: "frag_context f = Some ctx0" "frag_ctx_wf ctx0" and a: "node_accept_args f = Some a"
  shows "fstate f = FS_RESOLVE_MIXNET_CONNECTIONS \<and> node_accept_args g = Some a
    \<and> (\<exists>m as fds. fragment_check_header (fid f) True True m MSG_RESOLVE_MIXNET_CONNS = Some NONE
         \<and> get_netaddrs (unat (num_neighbors_of ctx0)) m = Some as
         \<and> length as = unat (num_neighbors_of ctx0)
         \<and> frag_context g = Some (ctx0\<lparr>tx_socket_fds := fds\<rparr>)
         \<and> frag_ctx_wf (ctx0\<lparr>tx_socket_fds := fds\<rparr>)
         \<and> (\<forall>i < unat (num_neighbors_of ctx0). \<exists>s.
              find (\<lambda>s. address s = as ! i) (take (unat (num_neighbors_of ctx0)) (states a)) = Some s
              \<and> fds ! i = connection_fd s))"
proof -
  let ?n = "unat (num_neighbors_of ctx0)"
  have st: "fstate f = FS_RESOLVE_MIXNET_CONNECTIONS"
    using assms(1) by (simp add: fragment_resolve_def split: if_splits)
  with assms(1) ctx0 obtain f1 where
    r: "recv_request env True True True MSG_RESOLVE_MIXNET_CONNS resolve_request f = Some (Return NONE f1)"
    and s: "send_response env True MSG_RESOLVE_MIXNET_CONNS NONE no_payload f1 = Some (Return NONE g)"
    by (auto simp: fragment_resolve_def bind_eq_Some_conv dest!: die_during_accept_NONE)
  obtain m h where m: "fragment_check_header (fid f) True True m MSG_RESOLVE_MIXNET_CONNS = Some NONE"
    and h: "kept h = kept f" "resolve_request m h = Some (NONE, f1)"
    using recv_request_handled [OF r] by blast
  have h_ctx: "frag_context h = Some ctx0" "node_accept_args h = Some a"
    using keptD(3,6) [OF h(1)] ctx0 a by simp_all
  obtain as where as: "get_netaddrs ?n m = Some as" "?n \<le> length (tx_socket_fds ctx0)"
    and res: "(let (ec, fds) = resolve_neighbors (take ?n (states a)) 0 as (tx_socket_fds ctx0)
       in Some (ec, h\<lparr>frag_context := Some (ctx0\<lparr>tx_socket_fds := fds\<rparr>)\<rparr>)) = Some (NONE, f1)"
    using h(2) h_ctx by (auto simp: resolve_request_def Let_def bind_eq_Some_conv split: if_splits)
  obtain ec fds where p: "resolve_neighbors (take ?n (states a)) 0 as (tx_socket_fds ctx0) = (ec, fds)"
    by fastforce
  with res have fds: "resolve_neighbors (take ?n (states a)) 0 as (tx_socket_fds ctx0) = (NONE, fds)"
    and f1: "f1 = h\<lparr>frag_context := Some (ctx0\<lparr>tx_socket_fds := fds\<rparr>)\<rparr>"
    by simp_all
  have len: "length as = ?n" using as(1) get_elems_length by (auto simp: get_netaddrs_def)
  note R = resolve_neighbors_result [OF fds]
  have "frag_ctx_wf (ctx0\<lparr>tx_socket_fds := fds\<rparr>)"
    using R as(2) len by (intro frag_ctx_wf_fds(2) [OF ctx0(2)]) auto
  moreover have "frag_context g = Some (ctx0\<lparr>tx_socket_fds := fds\<rparr>)" "node_accept_args g = Some a"
    using keptD(3,6) [OF send_response_kept [OF s]] f1 h_ctx by simp_all
  moreover have "\<forall>i < ?n. \<exists>s. find (\<lambda>s. address s = as ! i) (take ?n (states a)) = Some s
      \<and> fds ! i = connection_fd s"
    using R as(2) len by simp
  ultimately show ?thesis using st m as(1) len by blast
qed

section \<open>The testcase\<close>

text \<open>
  What the tasks and the other threads keep of a well-formed context: its configuration, its
  descriptors, and that it is well formed.
\<close>

definition steady :: "fragment \<Rightarrow> fragment \<Rightarrow> bool" where
  "steady f g \<longleftrightarrow> fid g = fid f \<and> fstate g = fstate f \<and> node_accept_args g = node_accept_args f
     \<and> (\<forall>ctx. frag_context f = Some ctx \<longrightarrow> frag_ctx_wf ctx \<longrightarrow>
          (\<exists>ctx'. frag_context g = Some ctx' \<and> frag_ctx_wf ctx' \<and> node_config ctx' = node_config ctx
             \<and> tx_socket_fds ctx' = tx_socket_fds ctx \<and> rx_socket_fds ctx' = rx_socket_fds ctx))"

lemma steady_trans: "steady f g \<Longrightarrow> steady g h \<Longrightarrow> steady f h"
  unfolding steady_def by fastforce

lemma steady_kept: "kept g = kept f \<Longrightarrow> steady f g"
  using keptD [of g f] by (simp add: steady_def)

text \<open>The control thread's own updates of the context.\<close>

lemma frag_ctx_wf_updates [simp]:
  "frag_ctx_wf (ctx\<lparr>is_pcap_subscribed := v\<rparr>) = frag_ctx_wf ctx"
  "frag_ctx_wf (ctx\<lparr>ts := t\<rparr>) = frag_ctx_wf ctx"
  "frag_ctx_wf (ctx\<lparr>link_states := (link_states ctx)[i := b]\<rparr>) = frag_ctx_wf ctx"
  by (simp_all add: frag_ctx_wf_def ctx_wf_def max_port_id_def num_neighbors_of_def)

lemma mq_push_inv:
  assumes "mq_push x q = Some (ok, q')" and "mq_inv q"
  shows "mq_inv q' \<and> ok = (length (mq_contents q) < depth q)
    \<and> mq_contents q' = (if ok then mq_contents q @ [x] else mq_contents q)"
  using mq.push_result [OF assms(2), of x] assms(1) by auto

lemma frag_ctx_wf_queues:
  "frag_ctx_wf ctx \<Longrightarrow> mq_inv q \<Longrightarrow> frag_ctx_wf (ctx\<lparr>mq_user := q\<rparr>)"
  "frag_ctx_wf ctx \<Longrightarrow> mq_inv p \<Longrightarrow> frag_ctx_wf (ctx\<lparr>mq_pcap := p\<rparr>)"
  "frag_ctx_wf ctx \<Longrightarrow> mq_inv (mq_user ctx) \<and> mq_inv (mq_pcap ctx)"
  by (simp_all add: frag_ctx_wf_def ctx_wf_def max_port_id_def num_neighbors_of_def)

lemma frag_ctx_wf_fixed:
  assumes "frag_ctx_wf ctx" and "ctx_wf ctx'" and "fixed_part ctx' = fixed_part ctx"
  shows "frag_ctx_wf ctx'"
  using assms by (simp add: frag_ctx_wf_def fixed_part_def num_neighbors_of_def)

lemma let_threads_run_steady:
  assumes "threads_rely env"
  shows "steady f (let_threads_run env f)"
proof (cases "frag_context f")
  case None
  then show ?thesis by (simp add: let_threads_run_def steady_def)
next
  case (Some ctx)
  let ?f1 = "f\<lparr>calls := Suc (calls f)\<rparr>"
  obtain ctx' t m n where th:
    "env_threads env (calls f) (ctx, ts_pcap ?f1, msg_pcap ?f1, net ?f1) = (ctx', t, m, n)"
    using prod_cases4 by blast
  then have g: "let_threads_run env f = ?f1\<lparr>frag_context := Some ctx', ts_pcap := t, msg_pcap := m, net := n\<rparr>"
    using Some by (simp add: let_threads_run_def Let_def)
  have "ctx_wf ctx \<Longrightarrow> ctx_wf ctx' \<and> fixed_part ctx' = fixed_part ctx"
    using assms [unfolded threads_rely_def, THEN spec [of _ "calls f"], THEN spec [of _ ctx],
        THEN spec [of _ "ts_pcap ?f1"], THEN spec [of _ "msg_pcap ?f1"], THEN spec [of _ "net ?f1"]]
    by (simp add: th [simplified])
  then show ?thesis
    using Some frag_ctx_wf_fixed [of ctx ctx'] unfolding steady_def g
    by (simp add: frag_ctx_wf_def fixed_part_def)
qed

lemma drain_link_kept:
  "drain_link env n fd f = Some r \<Longrightarrow> (case r of Return ec g \<Rightarrow> kept g = kept f | Waiting g \<Rightarrow> kept g = kept f)"
proof (induction n arbitrary: f)
  case 0
  then show ?case by auto
next
  case (Suc n)
  let ?r = "recv_once (env_nonblock env (calls f)) (msg_ctrl f) (rxq (net f) fd) (env_rx env (calls f))"
  obtain p where p: "?r = Some p" using Suc.prems by (cases ?r) (simp_all add: Let_def)
  show ?case
  proof (cases p)
    case (Return ec s)
    let ?f2 = "put_msg True (rx_mem s) (received_on fd s (f\<lparr>calls := Suc (calls f)\<rparr>))"
    have k: "kept ?f2 = kept f" by simp
    show ?thesis
    proof (cases "ec = NONE")
      case True
      then have "drain_link env n fd ?f2 = Some r" using Suc.prems p Return by (simp add: Let_def)
      from Suc.IH [OF this] k show ?thesis by (cases r) simp_all
    next
      case False
      then show ?thesis using Suc.prems p Return k by (auto simp: Let_def)
    qed
  next
    case (Waiting s)
    then show ?thesis using Suc.prems p by (auto simp: Let_def)
  qed
qed

lemma link_state_steady:
  assumes "task_update_link_state env n nid st f = Some (Return ec g)"
  shows "steady f g"
proof -
  obtain ctx where ctx: "frag_context f = Some ctx"
    using assms by (auto simp: task_update_link_state_def bind_eq_Some_conv)
  let ?f1 = "f\<lparr>frag_context := Some (ctx\<lparr>link_states := (link_states ctx)[unat nid := st]\<rparr>)\<rparr>"
  have "kept g = kept ?f1"
  proof (cases st)
    case True
    then show ?thesis
      using assms ctx by (auto simp: task_update_link_state_def split: if_splits)
  next
    case False
    let ?d = "drain_link env n (rx_socket_fds ctx ! unat nid) ?f1"
    obtain r where r: "?d = Some r"
      using assms ctx False by (cases ?d) (auto simp: task_update_link_state_def Let_def split: if_splits)
    then obtain e where "r = Return e g"
      using assms ctx False by (cases r) (auto simp: task_update_link_state_def Let_def split: if_splits)
    then show ?thesis using drain_link_kept [OF r] by simp
  qed
  moreover have "steady f ?f1" using ctx by (simp add: steady_def)
  ultimately show ?thesis using steady_kept steady_trans by blast
qed

lemma send_packet_steady:
  assumes "task_send_packet env f = Some (Return ec g)"
  shows "steady f g"
proof (cases "env_malloc env (calls f)")
  case False
  then show ?thesis using assms by (auto simp: task_send_packet_def intro: steady_kept)
next
  case True
  then obtain p ctx ok q where ctx: "frag_context f = Some ctx" and q: "mq_push p (mq_user ctx) = Some (ok, q)"
    and g: "g = f\<lparr>calls := Suc (calls f), frag_context := Some (ctx\<lparr>mq_user := q\<rparr>)\<rparr>"
    using assms by (auto simp: task_send_packet_def bind_eq_Some_conv)
  have "frag_ctx_wf ctx \<Longrightarrow> frag_ctx_wf (ctx\<lparr>mq_user := q\<rparr>)"
    using mq_push_inv [OF q] frag_ctx_wf_queues by blast
  then show ?thesis using ctx by (simp add: g steady_def)
qed

lemma both_exited_context: "both_exited f = Some b \<Longrightarrow> \<exists>ctx. frag_context f = Some ctx"
  by (auto simp: both_exited_def)

lemma end_testcase_steady:
  assumes "task_end_testcase env f = Some (Return ec g)" and rely: "threads_rely env"
  shows "steady f g"
proof -
  obtain ctx where ctx: "frag_context f = Some ctx"
    using assms(1) by (auto simp: task_end_testcase_def bind_eq_Some_conv)
  let ?ctx1 = "ctx\<lparr>ts := (ts ctx)\<lparr>thread_keep_running := False\<rparr>\<rparr>"
  let ?p = "mq_push None (mq_pcap ?ctx1)"
  obtain ok q where q: "?p = Some (ok, q)"
    using assms(1) ctx by (cases ?p) (auto simp: task_end_testcase_def Let_def)
  let ?f2 = "f\<lparr>ts_pcap := (ts_pcap f)\<lparr>thread_keep_running := False\<rparr>,
      frag_context := Some (?ctx1\<lparr>mq_pcap := q\<rparr>)\<rparr>"
  have "frag_ctx_wf ctx \<Longrightarrow> frag_ctx_wf (?ctx1\<lparr>mq_pcap := q\<rparr>)"
    using mq_push_inv [OF q] frag_ctx_wf_queues(2) [of ?ctx1] frag_ctx_wf_queues(3) [of ctx] by simp
  then have s2: "steady f ?f2" using ctx by (simp add: steady_def)
  have s3: "steady f (let_threads_run env ?f2)"
    using s2 let_threads_run_steady [OF rely] steady_trans by blast
  have joined: "steady f h \<Longrightarrow> steady f (h\<lparr>pcap_joinable := False, node_joinable := False\<rparr>)" for h
    by (simp add: steady_def)
  have "g \<in> {?f2, ?f2\<lparr>pcap_joinable := False, node_joinable := False\<rparr>, let_threads_run env ?f2,
      (let_threads_run env ?f2)\<lparr>pcap_joinable := False, node_joinable := False\<rparr>}"
    using assms(1) ctx q by (auto simp: task_end_testcase_def Let_def bind_eq_Some_conv split: if_splits)
  then show ?thesis using s2 s3 joined by auto
qed

lemma run_request_steady:
  assumes "run_request env n t f = Some (Return ec g)" and rely: "threads_rely env"
  shows "steady f g"
proof (cases t)
  case MSG_CHANGE_LINK_STATE
  then show ?thesis using assms by (auto simp: Let_def intro: link_state_steady)
next
  case MSG_PCAP_SUBSCRIPTION
  then show ?thesis
    using assms by (auto simp: task_update_pcap_subscription_def bind_eq_Some_conv steady_def)
next
  case MSG_SEND_PACKET
  then show ?thesis using assms by (auto intro: send_packet_steady)
next
  case MSG_END_TESTCASE
  then show ?thesis using assms by (auto intro: end_testcase_steady)
qed (use assms in \<open>auto intro: steady_kept\<close>)

lemma respond_steady:
  assumes "respond env t m = Some (Return ec g)"
  shows "\<exists>ec' h. m = Some (Return ec' h) \<and> steady h g
    \<and> (do_respond t ec' \<longrightarrow> send_response env True t ec' no_payload h = Some (Return ec g))"
  using assms
  by (cases m; simp add: respond_def split: progress.split_asm if_splits)
    (auto intro: steady_kept dest!: send_response_kept)

lemma testcase_loop_steady:
  assumes rely: "threads_rely env"
  shows "testcase_loop env n i f = Some (Return NONE g) \<Longrightarrow> steady f g"
proof (induction i arbitrary: f)
  case 0
  then show ?case by simp
next
  case (Suc i)
  let ?f0 = "let_threads_run env f"
  let ?r = "recv_request env True True False MSG_NOOP no_action ?f0"
  obtain p where p: "?r = Some p" using Suc.prems by (cases ?r) simp_all
  then obtain e f1 where e: "p = Return e f1" using Suc.prems by (cases p) simp_all
  then have r: "?r = Some (Return NONE f1)"
    using Suc.prems p by (cases "e = NONE") (auto split: if_splits)
  with Suc.prems obtain t r' where t: "get_type (msg_ctrl f1) = Some t"
    and r': "respond env t (run_request env n t f1) = Some r'"
    by (auto simp: bind_eq_Some_conv)
  with Suc.prems r obtain ec' h where h: "r' = Return ec' h" by (cases r') auto
  have "steady f f1"
    using let_threads_run_steady [OF rely] steady_kept [OF recv_request_kept [OF r]] steady_trans by blast
  moreover obtain ec0 h0 where "run_request env n t f1 = Some (Return ec0 h0)" "steady h0 h"
    using respond_steady r' h by blast
  ultimately have fh: "steady f h" using run_request_steady [OF _ rely] steady_trans by blast
  show ?case
  proof (cases "t = MSG_END_TESTCASE")
    case True
    then show ?thesis using Suc.prems r t r' h fh by auto
  next
    case False
    then have "testcase_loop env n i h = Some (Return NONE g)"
      using Suc.prems r t r' h by (auto simp: Let_def bind_eq_Some_conv split: if_splits)
    from Suc.IH [OF this] fh show ?thesis using steady_trans by blast
  qed
qed

section \<open>Every state of a run\<close>

lemma frag_inv_steady:
  assumes "steady f g" and "frag_inv f" and "frag_context f \<noteq> None"
  shows "frag_inv g"
proof -
  obtain ctx ctx' where "frag_context f = Some ctx" "frag_context g = Some ctx'" "frag_ctx_wf ctx"
    "frag_ctx_wf ctx'" "node_config ctx' = node_config ctx"
    using assms by (auto simp: steady_def frag_inv_def)
  then show ?thesis
    using assms by (simp add: frag_inv_def accept_ok_def steady_def num_neighbors_of_def)
qed

text \<open>The next state of an invariant that does not depend on the exact state.\<close>

lemma frag_inv_next:
  assumes "frag_inv f" and "frag_context f = Some ctx" and "states_left (fstate f) < 5"
    and "fstate f \<noteq> FS_SHUTDOWN" and "fstate f \<noteq> FS_DONE"
  shows "frag_inv (f\<lparr>fstate := next_state (fstate f)\<rparr>)"
  using assms by (cases "fstate f") (auto simp: frag_inv_def accept_ok_def)

lemma frag_inv_context:
  assumes "frag_inv f"
  shows "states_left (fstate f) \<in> {1..6} \<Longrightarrow> \<exists>ctx. frag_context f = Some ctx \<and> frag_ctx_wf ctx \<and> accept_ok f ctx"
    and "6 < states_left (fstate f) \<Longrightarrow> frag_context f = None \<and> mq_inv (frag_mq_pcap f) \<and> mq_inv (frag_mq_user f)"
  using assms by (auto simp: frag_inv_def split: option.splits)

lemma run_state_early:
  assumes "run_state env n f = Some (Return NONE g)" and inv: "frag_inv f"
    and "fstate f \<in> {FS_SETUP_CTRL, FS_SETUP_PCAP, FS_CREATE_TOPOLOGY}"
  shows "frag_inv (g\<lparr>fstate := next_state (fstate f)\<rparr>)"
proof -
  have none: "frag_context f = None" "mq_inv (frag_mq_pcap f)" "mq_inv (frag_mq_user f)"
    using assms(3) frag_inv_context(2) [OF inv] by auto
  show ?thesis
  proof (cases "fstate f = FS_CREATE_TOPOLOGY")
    case True
    then obtain r where "frag_context g = Some (init_node_context (frag_mq_pcap f) (frag_mq_user f) r)"
      using create_topology_context [of env f g] assms(1) by (auto simp: run_state_def)
    then show ?thesis
      using True none frag_ctx_wf_init by (simp add: frag_inv_def accept_ok_def)
  next
    case False
    then have "frag_context g = frag_context f \<and> frag_mq_pcap g = frag_mq_pcap f
        \<and> frag_mq_user g = frag_mq_user f"
      using assms(1,3) setup_ctrl_kept [of env f g] setup_pcap_kept [of env f g] keptD [of g f]
      by (auto simp: run_state_def)
    then show ?thesis using False assms(3) none by (auto simp: frag_inv_def)
  qed
qed

lemma run_state_connections:
  assumes run: "run_state env n f = Some (Return NONE g)" and inv: "frag_inv f"
    and "fstate f \<in> {FS_START_MIXNET_SERVER, FS_START_MIXNET_CLIENT, FS_RESOLVE_MIXNET_CONNECTIONS}"
  shows "frag_inv (g\<lparr>fstate := next_state (fstate f)\<rparr>)"
proof -
  obtain ctx0 where ctx0: "frag_context f = Some ctx0" "frag_ctx_wf ctx0" and ok: "accept_ok f ctx0"
    using assms(3) frag_inv_context(1) [OF inv] by auto
  consider "fstate f = FS_START_MIXNET_SERVER" | "fstate f = FS_START_MIXNET_CLIENT"
    | "fstate f = FS_RESOLVE_MIXNET_CONNECTIONS" using assms(3) by blast
  then show ?thesis
  proof cases
    case 1
    then show ?thesis
      using run start_server_result [of env f g] ctx0 by (auto simp: run_state_def frag_inv_def accept_ok_def)
  next
    case 2
    then have a0: "node_accept_args f = Some (init_accept_args False 0 (num_neighbors_of ctx0))"
      using ok by (simp add: accept_ok_def)
    from 2 have "fragment_start_client env f = Some (Return NONE g)" using run by (simp add: run_state_def)
    from start_client_result [OF this ctx0 a0] obtain ctx a where
      g: "frag_context g = Some ctx" "frag_ctx_wf ctx" "num_neighbors_of ctx = num_neighbors_of ctx0"
        "node_accept_args g = Some a" "num_accepted a = num_neighbors_of ctx0"
      and acc: "server_accept (env_accept env) (init_accept_args False 0 (num_neighbors_of ctx0)) = Some a"
      by blast
    with 2 server_accept_states [OF acc] show ?thesis by (simp add: frag_inv_def accept_ok_def)
  next
    case 3
    then obtain a where a: "node_accept_args f = Some a" "length (states a) = unat (num_neighbors_of ctx0)"
      "num_accepted a = num_neighbors_of ctx0"
      using ok by (auto simp: accept_ok_def)
    have "fragment_resolve env f = Some (Return NONE g)" using 3 run by (simp add: run_state_def)
    from resolve_result [OF this ctx0 a(1)] obtain fds where
      "node_accept_args g = Some a" "frag_context g = Some (ctx0\<lparr>tx_socket_fds := fds\<rparr>)"
      "frag_ctx_wf (ctx0\<lparr>tx_socket_fds := fds\<rparr>)"
      by blast
    then show ?thesis using 3 a by (simp add: frag_inv_def accept_ok_def)
  qed
qed

lemma run_state_late:
  assumes run: "run_state env n f = Some (Return NONE g)" and inv: "frag_inv f" and rely: "threads_rely env"
    and "fstate f \<in> {FS_START_TESTCASE, FS_RUN_TESTCASE}"
  shows "frag_inv (g\<lparr>fstate := next_state (fstate f)\<rparr>)"
proof -
  obtain ctx where ctx: "frag_context f = Some ctx" using assms(4) frag_inv_context(1) [OF inv] by auto
  have "steady f g"
  proof (cases "fstate f = FS_START_TESTCASE")
    case True
    then show ?thesis
      using run by (auto simp: run_state_def fragment_start_testcase_def die_on_error_NONE
          dest!: recv_request_kept send_response_kept intro: steady_kept)
  next
    case False
    then have "testcase_loop env n n (f\<lparr>node_joinable := True, pcap_joinable := True\<rparr>) = Some (Return NONE g)"
      using run assms(4) by (simp add: run_state_def fragment_run_testcase_def)
    moreover have "steady f (f\<lparr>node_joinable := True, pcap_joinable := True\<rparr>)" by (simp add: steady_def)
    ultimately show ?thesis using testcase_loop_steady [OF rely] steady_trans by blast
  qed
  then have "frag_inv g" "frag_context g \<noteq> None" "fstate g = fstate f"
    using frag_inv_steady [of f g] inv ctx by (auto simp: steady_def frag_inv_def)
  then show ?thesis using frag_inv_next [of g] assms(4) by auto
qed

lemma shutdown_result:
  assumes "fragment_do_shutdown env f = Some (Return NONE g)" and "frag_context f = Some ctx"
  shows "frag_context g = None \<and> frag_mq_pcap g = mq_pcap ctx \<and> frag_mq_user g = mq_user ctx
    \<and> closed_fds g = closed_fds f @ context_fds ctx"
proof -
  from assms(1) obtain f1 f2 where
    "recv_request env True True True MSG_SHUTDOWN no_action f = Some (Return NONE f1)"
    "send_response env True MSG_SHUTDOWN NONE no_payload f1 = Some (Return NONE f2)"
    and d: "destroy_node_context f2 = Some g"
    by (auto simp: fragment_do_shutdown_def die_on_error_NONE split: if_splits)
  then have "kept f2 = kept f" by (auto dest!: recv_request_kept send_response_kept)
  then show ?thesis using d assms(2) keptD [of f2 f] by (auto simp: destroy_node_context_def)
qed

lemma run_state_keeps_inv:
  assumes run: "run_state env n f = Some (Return NONE g)" and inv: "frag_inv f" and rely: "threads_rely env"
  shows "frag_inv (g\<lparr>fstate := next_state (fstate f)\<rparr>)"
proof (cases "fstate f = FS_SHUTDOWN \<or> fstate f = FS_DONE")
  case True
  show ?thesis
  proof (cases "fstate f = FS_DONE")
    case True
    then have "g = f" using run by (simp add: run_state_def)
    then show ?thesis using True inv by (cases f) simp
  next
    case False
    then have sd: "fstate f = FS_SHUTDOWN" using True by simp
    then obtain ctx where ctx: "frag_context f = Some ctx" "frag_ctx_wf ctx"
      using frag_inv_context(1) [OF inv] by auto
    then show ?thesis
      using shutdown_result [of env f g ctx] run sd frag_ctx_wf_queues(3) [OF ctx(2)]
      by (simp add: run_state_def frag_inv_def)
  qed
next
  case False
  then show ?thesis
    using run_state_early [OF run inv] run_state_connections [OF run inv] run_state_late [OF run inv rely]
    by (cases "fstate f") auto
qed

text \<open>The states in which a run of a fragment finds itself at the head of its loop.\<close>

inductive fragment_reach :: "fragment_env \<Rightarrow> nat \<Rightarrow> fragment \<Rightarrow> fragment \<Rightarrow> bool" for env n f0 where
  start: "fragment_reach env n f0 f0"
| step: "fragment_reach env n f0 f \<Longrightarrow> fstate f \<noteq> FS_DONE \<Longrightarrow> run_state env n f = Some (Return NONE g) \<Longrightarrow>
    fragment_reach env n f0 (g\<lparr>fstate := next_state (fstate f)\<rparr>)"

lemma fragment_reach_inv:
  "fragment_reach env n f0 f \<Longrightarrow> frag_inv f0 \<Longrightarrow> threads_rely env \<Longrightarrow> frag_inv f"
  by (induction rule: fragment_reach.induct) (auto intro: run_state_keeps_inv)

lemma fragment_loop_reach:
  "fragment_loop env n f = Some (Return NONE g) \<Longrightarrow> fragment_reach env n f0 f \<Longrightarrow> fstate f \<noteq> FS_DONE \<Longrightarrow>
    fragment_reach env n f0 g \<and> fstate g = FS_DONE"
proof (induction env n f rule: fragment_loop.induct)
  case (1 env n f)
  note unfold = fragment_loop.simps [of env n f]
  obtain e h where h: "run_state env n f = Some (Return e h)"
    using "1.prems"(1) by (subst (asm) unfold) (auto split: option.splits progress.splits)
  let ?h = "h\<lparr>fstate := next_state (fstate f)\<rparr>"
  have e: "e = NONE" using "1.prems"(1) h by (subst (asm) unfold) (auto simp: Let_def split: if_splits)
  have reach: "fragment_reach env n f0 ?h"
    using fragment_reach.step [OF "1.prems"(2,3)] h e by simp
  show ?case
  proof (cases "fstate ?h = FS_DONE")
    case True
    then have "g = ?h" using "1.prems"(1) h e by (subst (asm) unfold) (simp add: Let_def)
    then show ?thesis using reach True by simp
  next
    case False
    then have "fragment_loop env n ?h = Some (Return NONE g)"
      using "1.prems"(1) h e by (subst (asm) unfold) (simp add: Let_def)
    from "1.IH" [OF h _ refl _ this reach False] e False show ?thesis by simp
  qed
qed

end
