(* ===== verification/FragmentProps.thy ===== *)
theory FragmentProps
  imports FragmentRun "HOL-Library.Code_Target_Numeral"
begin

text \<open>
  The properties of a fragment: its states and its end, the responses it sends, the connections it
  resolves, and what the testcase tasks do to links and to the user queue.
\<close>

section \<open>Construction\<close>

lemma new_fragment_inv:
  assumes "new_fragment a b mem ns orc = Some f"
  shows "frag_inv f \<and> fstate f = FS_SETUP_CTRL \<and> fid f = - 1"
proof -
  obtain p u where p: "message_queue_init 8 MQ_DEPTH (fst a) (fst (snd a)) (snd (snd a)) = Some p"
    and u: "message_queue_init 8 MQ_DEPTH (fst b) (fst (snd b)) (snd (snd b)) = Some u"
    and f: "frag_context f = None" "frag_mq_pcap f = p" "frag_mq_user f = u" "fstate f = FS_SETUP_CTRL"
      "fid f = - 1"
    using assms by (auto simp: new_fragment_def bind_eq_Some_conv)
  have "pad_size 8 * (2 * MQ_DEPTH) \<le> 2 ^ 32" "0 < MQ_DEPTH" "MQ_DEPTH \<le> 2 ^ 30"
    by (simp_all add: pad_size_def MQ_DEPTH_def)
  then have "mq_inv p" "mq_inv u"
    using message_queue_init_ok [OF p] message_queue_init_ok [OF u] by auto
  then show ?thesis using f by (simp add: frag_inv_def)
qed

section \<open>Evaluating a fragment\<close>

text \<open>A response is evaluated without listing the whole buffer.\<close>

lemma fragment_send_blocking_code [code]:
  "fragment_send_blocking nb m e evs =
     (let ec = validate_config nb blocking_config True
      in if ec \<noteq> NONE then Some (Return ec [])
         else let len = get_total_length m
           in if len < of_nat MIN_MESSAGE_LENGTH then Some (Return MALFORMED_MESSAGE [])
              else Some (send_loop blocking_config e evs 0 (slice m 0 (unat len)) []))"
  unfolding fragment_send_blocking_def by (rule send_message_eq)

definition ex_fragment_env :: fragment_env where
  "ex_fragment_env =
     \<lparr>env_pid = 77, env_nonblock = (\<lambda>_. Some True), env_tx = (\<lambda>_. [(Tx 5000, 0)]),
      env_rx = (\<lambda>_. replicate 3 \<lparr>arrived = [], fault = None, peer_closed = False, chunk = 5000,
        elapsed = 0\<rparr>),
      env_socket = (\<lambda>k. (int k + 20, 0, True, True)),
      env_connect = (\<lambda>_ _. (True, True, Conn_ok, [], True)), env_bind = (\<lambda>_. True),
      env_listen = (\<lambda>_. True), env_sockname = (\<lambda>fd. Some no_netaddr), env_accept = [],
      env_threads = (\<lambda>_ s. s), env_malloc = (\<lambda>_. True)\<rparr>"

text \<open>A fragment with two neighbours at the shutdown, with the request in its control queue.\<close>

definition ex_ctx :: node_context where
  "ex_ctx = fst ex_world"

definition ex_fragment :: "fragment_state \<Rightarrow> u8 list \<Rightarrow> fragment" where
  "ex_fragment st q =
     \<lparr>fid = 3, autotest_mode = False, fstate = st, msg_ctrl = (\<lambda>_. 0), msg_pcap = (\<lambda>_. 0),
      local_fd_ctrl = 5, local_fd_pcap = 6, orc_netaddr = no_netaddr, timeout_connect_long = 5000,
      timeout_connect_short = 5000, frag_context = Some ex_ctx, ts_pcap = new_thread_state,
      node_joinable = False, pcap_joinable = False, frag_mq_pcap = ex_mq, frag_mq_user = ex_mq,
      accept_joinable = False,
      node_accept_args = Some \<lparr>acc_use_timeout = False, acc_timeout_ms = 0, max_clients = 2, acc_rc = 0,
        num_accepted = 2, acc_done = True, acc_started = True,
        states = [\<lparr>connection_fd = 31, address = \<lparr>sin_family = 2, sin_port = 7, s_addr = 1\<rparr>\<rparr>,
                  \<lparr>connection_fd = 32, address = \<lparr>sin_family = 2, sin_port = 8, s_addr = 1\<rparr>\<rparr>]\<rparr>,
      pcap_netaddr = no_netaddr, closed_fds = [],
      net = \<lparr>rxq = (\<lambda>fd. if fd = 5 then q else []), txd = (\<lambda>_. [])\<rparr>, calls = 0\<rparr>"

lemma ex_rely: "threads_rely ex_fragment_env"
  by (simp add: threads_rely_def ex_fragment_env_def)

lemma ex_ctx_wf: "frag_ctx_wf ex_ctx \<and> num_neighbors_of ex_ctx = 2"
  using ex_world_wf
  by (simp add: frag_ctx_wf_def ex_ctx_def num_neighbors_of_def)
    (simp add: ex_world_def init_node_context_def ex_topology_def Let_def)

lemma ex_fragment_inv:
  "st \<in> {FS_START_TESTCASE, FS_RUN_TESTCASE, FS_SHUTDOWN, FS_RESOLVE_MIXNET_CONNECTIONS} \<Longrightarrow>
    frag_inv (ex_fragment st q)"
  using ex_ctx_wf by (auto simp: frag_inv_def ex_fragment_def accept_ok_def)

section \<open>The end of a run\<close>

lemma fragment_loop_end:
  assumes run: "fragment_loop env n f0 = Some (Return NONE g)" and inv: "frag_inv f0"
    and rely: "threads_rely env" and going: "fstate f0 \<noteq> FS_DONE"
  shows "\<exists>f ctx. fragment_reach env n f0 f \<and> fstate f = FS_SHUTDOWN \<and> frag_context f = Some ctx
    \<and> frag_ctx_wf ctx \<and> fstate g = FS_DONE \<and> frag_context g = None
    \<and> closed_fds g = closed_fds f @ context_fds ctx
    \<and> frag_mq_pcap g = mq_pcap ctx \<and> frag_mq_user g = mq_user ctx"
proof -
  have reach: "fragment_reach env n f0 g" and fin: "fstate g = FS_DONE"
    using fragment_loop_reach [OF run fragment_reach.start going] by auto
  from reach fin going obtain f h where f: "fragment_reach env n f0 f" "fstate f \<noteq> FS_DONE"
    "run_state env n f = Some (Return NONE h)" and g: "g = h\<lparr>fstate := next_state (fstate f)\<rparr>"
    by (cases rule: fragment_reach.cases) auto
  have sd: "fstate f = FS_SHUTDOWN" using f(2) fin g by (cases "fstate f") simp_all
  obtain ctx where ctx: "frag_context f = Some ctx" "frag_ctx_wf ctx"
    using frag_inv_context(1) [OF fragment_reach_inv [OF f(1) inv rely]] sd by auto
  have "fragment_do_shutdown env f = Some (Return NONE h)" using f(3) sd by (simp add: run_state_def)
  from shutdown_result [OF this ctx(1)] show ?thesis using f(1) sd ctx fin g by auto
qed

section \<open>Responses\<close>

text \<open>The bytes of a response that was sent are a message the orchestrator can check.\<close>

lemma sent_response_check:
  assumes sent: "send_response env c t ec fill f = Some (Return NONE g)"
    and fill: "fill (fragment_prepare_header (fid f) (get_msg c f) t ec) = Some (NONE, m1)"
    and hdr: "same_header (fragment_prepare_header (fid f) (get_msg c f) t ec) m1" and ws: "well_sized m1"
  shows "\<exists>w. txd (net g) = (txd (net f))(plane_fd c f := txd (net f) (plane_fd c f) @ w)
    \<and> rxq (net g) = rxq (net f)
    \<and> (\<forall>b. slice b 0 (length w) = w \<longrightarrow>
         delivered m1 b
         \<and> orchestrator_check_header b True (fid f) t = Some (if ec = NONE then NONE else FRAGMENT_EXCEPTION))"
proof -
  obtain m2 where m2: "finalize m1 = Some m2"
    and g: "g = sent_on (plane_fd c f) (slice m2 0 (unat (get_total_length m2)))
      ((put_msg c m2 f)\<lparr>calls := Suc (calls f)\<rparr>)"
    using send_response_NONE [OF sent] fill by auto
  let ?w = "slice m2 0 (unat (get_total_length m2))"
  have "delivered m1 b" if "slice b 0 (length ?w) = ?w" for b
    using that ws m2 by (simp add: delivered_def)
  moreover have "orchestrator_check_header b True (fid f) t = Some (if ec = NONE then NONE else FRAGMENT_EXCEPTION)"
    if "delivered m1 b" for b
    using orchestrator_accepts_response [OF hdr that] by simp
  ultimately show ?thesis by (intro exI [of _ ?w]) (simp add: g sent_on_def transmit_def)
qed

lemma well_sized_no_payload:
  assumes "t \<in> {MSG_SETUP_PCAP, MSG_TOPOLOGY, MSG_RESOLVE_MIXNET_CONNS, MSG_CHANGE_LINK_STATE,
      MSG_PCAP_SUBSCRIPTION, MSG_SEND_PACKET, MSG_START_TESTCASE, MSG_END_TESTCASE, MSG_SHUTDOWN}"
  shows "well_sized (fragment_prepare_header i m t ec)"
  using assms by (auto simp: well_sized_def msg_size_def fragment_prepare_header_def const_defs)

section \<open>Requests to inject packets\<close>

lemma injected_data_packet:
  assumes put: "put_send_packet r b0 = Some b"
    and ty: "get_type b = Some MSG_SEND_PACKET" "is_request_msg b" and d: "delivered b m"
    and data: "sp_type r = packet_type_code PACKET_TYPE_DATA"
      "length (sp_data r) \<le> unat MAX_MIXNET_DATA_SIZE"
  shows "injected_packet m = Some \<lparr>total_size = of_nat (20 + length (sp_data r)),
    ptype = packet_type_code PACKET_TYPE_DATA, reserved = None,
    payload = enc_routing_header \<lparr>src_address = src_mixaddr r, dst_address = dst_mixaddr r,
      route_length = 0, hop_index = 0\<rparr> @ sp_data r\<rparr>"
proof -
  note R = send_packet_delivered [OF put ty d]
  have len: "length (sp_data r) \<le> 3564" using data(2) by (simp add: MAX_MIXNET_DATA_SIZE_eq)
  have "unat (data_length m) = length (sp_data r)"
    using R by (auto simp: request_data_def split: if_splits dest!: arg_cong [where f = length])
  then have "of_nat (unat (data_length m)) = (of_nat (length (sp_data r)) :: u16)" by simp
  then have dl: "data_length m = of_nat (length (sp_data r))" by simp
  have "(12 + (8 + of_nat (length (sp_data r))) :: u16) = of_nat (20 + length (sp_data r))" by simp
  then show ?thesis
    using R len by (simp add: injected_packet_def data Let_def dl const_defs add.assoc)
qed

section \<open>Draining a link\<close>

text \<open>
  Calls of \<open>recv\<close> during which the link is quiet: nothing arrives, no fault, the peer stays, and a
  call returns all that is asked for.
\<close>

definition calm_event :: "rx_event \<Rightarrow> bool" where
  "calm_event e \<longleftrightarrow> arrived e = [] \<and> fault e = None \<and> \<not> peer_closed e \<and> 4096 \<le> chunk e"

definition calm_env :: "fragment_env \<Rightarrow> bool" where
  "calm_env env \<longleftrightarrow>
     (\<forall>k. env_nonblock env k = Some True \<and> 3 \<le> length (env_rx env k) \<and> list_all calm_event (env_rx env k))"

text \<open>A complete frame at the head of a queue.\<close>

definition has_frame :: "u8 list \<Rightarrow> bool" where
  "has_frame q \<longleftrightarrow> 2 \<le> length q \<and> frame_size q \<le> length q"

lemma recv_step_calm:
  assumes "calm_event e" and "rx_off s + min (expected_size s) (length (rx_queue s)) \<le> cap"
    and "0 < expected_size s" "expected_size s \<le> 4096"
  shows "recv_step c cap conn mn mx e s =
    (if rx_queue s = [] then Some (if try_once c then Some RECV_ZERO_PENDING else None, s)
     else let bs = take (expected_size s) (rx_queue s)
       in Some (after_recv c conn mn mx (length bs)
            (s\<lparr>rx_mem := buf_put (rx_off s) bs (rx_mem s),
               rx_queue := (if rx_peek s then rx_queue s else drop (length bs) (rx_queue s))\<rparr>)))"
proof -
  have "min (expected_size s) (max 1 (chunk e)) = expected_size s"
    using assms(1,4) by (simp add: calm_event_def)
  moreover have "s\<lparr>rx_queue := rx_queue s\<rparr> = s" by simp
  ultimately show ?thesis
    using assms by (simp add: recv_step_def sys_recv_def calm_event_def Let_def min.commute)
qed

text \<open>Without a complete frame nothing is taken and nothing is reported.\<close>

lemma recv_once_no_frame:
  assumes calm: "list_all calm_event evs" "3 \<le> length evs" and stream: "valid_stream q"
    and none: "\<not> has_frame q"
  shows "\<exists>t. recv_once (Some True) buf q evs = Some (Return RECV_ZERO_PENDING t) \<and> rx_queue t = q"
proof -
  obtain e1 e2 rest where evs: "evs = e1 # e2 # rest"
    using calm(2) by (cases evs; cases "tl evs") auto
  then have e: "calm_event e1" "calm_event e2" using calm(1) by auto
  let ?c = once_config and ?conn = MIXNET_CONNECTION_BROKEN
  have mode: "\<not> use_timeout ?c" "try_once ?c" "\<not> block ?c"
    by (simp_all add: once_config_def mode_defs)
  have eq: "recv_once (Some True) buf q evs = recv_loop ?c 4096 ?conn 12 4096 evs 0 (recv_init buf q)"
    by (simp add: recv_once_def recv_generic_def validate_config_def once_config_def block_def
        try_once_def const_defs)
  let ?s = "recv_init buf q"
  show ?thesis
  proof (cases "length q < 2")
    case True
    have "\<exists>t. recv_step ?c 4096 ?conn 12 4096 e1 ?s = Some (Some RECV_ZERO_PENDING, t) \<and> rx_queue t = q"
      using True mode recv_step_calm [OF e(1), of ?s 4096 ?c ?conn 12 4096]
      by (auto simp: recv_init_def Let_def after_recv_def)
    then show ?thesis unfolding eq unfolding evs by (auto simp: recv_loop.simps [of _ _ _ _ _ "_ # _"] mode)
  next
    case False
    let ?n = "frame_size q"
    have n: "12 \<le> ?n" "?n \<le> 4096" "length q < ?n"
      using stream none False
      by (subst (asm) valid_stream.simps, auto simp: Let_def has_frame_def split: if_splits)+
    let ?w = "le_word (take 2 q) :: u16"
    have w: "unat ?w = ?n" by (simp add: frame_size_def)
    then have range: "\<not> ?w < 12" "\<not> 4096 < ?w" using n by (simp_all add: word_less_nat_alt)
    let ?s1 = "?s\<lparr>rx_mem := buf_put 0 (take 2 q) buf, msg_length := ?n, expected_size := ?n\<rparr>"
    have "slice (buf_put 0 (take 2 q) buf) 0 2 = take 2 q" using False by (simp add: slice_put_same)
    then have step1: "recv_step ?c 4096 ?conn 12 4096 e1 ?s = Some (None, ?s1)"
      using False mode range w recv_step_calm [OF e(1), of ?s 4096 ?c ?conn 12 4096]
      by (auto simp: recv_init_def Let_def after_recv_def min_def)
    have "\<exists>t. recv_step ?c 4096 ?conn 12 4096 e2 ?s1 = Some (Some RECV_ZERO_PENDING, t) \<and> rx_queue t = q"
      using False mode n recv_step_calm [OF e(2), of ?s1 4096 ?c ?conn 12 4096]
      by (auto simp: recv_init_def Let_def after_recv_def)
    then show ?thesis
      unfolding eq unfolding evs by (auto simp: recv_loop.simps [of _ _ _ _ _ "_ # _"] mode step1)
  qed
qed

lemma recv_once_frame:
  assumes calm: "list_all calm_event evs" "3 \<le> length evs" and stream: "valid_stream q"
    and frame: "has_frame q"
  shows "\<exists>t. recv_once (Some True) buf q evs = Some (Return NONE t) \<and> rx_queue t = drop (frame_size q) q"
proof -
  obtain e1 e2 e3 rest where evs: "evs = e1 # e2 # e3 # rest"
    using calm(2) by (auto simp: numeral_3_eq_3 Suc_le_length_iff)
  let ?n = "frame_size q" and ?w = "le_word (take 2 q) :: u16"
  have n: "12 \<le> ?n" "?n \<le> 4096" "?n \<le> length q"
    using stream frame
    by (subst (asm) valid_stream.simps, auto simp: Let_def has_frame_def split: if_splits)+
  have w: "unat ?w = ?n" by (simp add: frame_size_def)
  have "quiet (unat ?w) e1" "quiet (unat ?w) e2" "quiet (unat ?w) e3"
    using calm(1) n w by (auto simp: evs quiet_def calm_event_def)
  then have "\<exists>t. recv_loop once_config (unat MAX_MIXNET_PACKET_SIZE) MIXNET_CONNECTION_BROKEN
      MIN_MIXNET_PACKET_SIZE MAX_MIXNET_PACKET_SIZE evs 0 (recv_init buf q) = Some (Return NONE t)"
    unfolding evs using n w
    by (intro recv_once_delivers) (simp_all add: once_config_def mode_defs const_defs word_le_nat_alt)
  then obtain t where t: "recv_once (Some True) buf q evs = Some (Return NONE t)"
    by (auto simp: recv_once_def recv_generic_def validate_config_def once_config_def mode_defs const_defs)
  have arr: "concat (map arrived evs) = []"
    using calm(1) by (induction evs) (auto simp: calm_event_def)
  then obtain S where "prefix q S" "prefix S q" "rx_queue t = drop (frame_size S) S"
    using recv_once_result [OF calm(2), of "Some True" buf q, unfolded arr append_Nil2] t by auto
  then show ?thesis using t prefix_order.antisym by blast
qed

lemma drain_link_calm:
  assumes env: "calm_env env"
  shows "valid_stream (rxq (net f) fd) \<Longrightarrow> length (rxq (net f) fd) < n \<Longrightarrow>
    \<exists>g frames. drain_link env n fd f = Some (Return RECV_ZERO_PENDING g) \<and> kept g = kept f
      \<and> rxq (net f) fd = concat frames @ rxq (net g) fd \<and> list_all valid_frame frames
      \<and> \<not> has_frame (rxq (net g) fd)
      \<and> (\<forall>fd'. fd' \<noteq> fd \<longrightarrow> rxq (net g) fd' = rxq (net f) fd') \<and> txd (net g) = txd (net f)"
proof (induction n arbitrary: f)
  case 0
  then show ?case by simp
next
  case (Suc n)
  let ?q = "rxq (net f) fd" and ?k = "calls f"
  have calm: "list_all calm_event (env_rx env ?k)" "3 \<le> length (env_rx env ?k)"
    "env_nonblock env ?k = Some True"
    using env by (simp_all add: calm_env_def)
  let ?next = "\<lambda>s. put_msg True (rx_mem s) (received_on fd s (f\<lparr>calls := Suc ?k\<rparr>))"
  have next_net: "rxq (net (?next s)) = (rxq (net f))(fd := rx_queue s)" "txd (net (?next s)) = txd (net f)" for s
    by (simp_all add: received_on_def)
  show ?case
  proof (cases "has_frame ?q")
    case False
    from recv_once_no_frame [OF calm(1,2) Suc.prems(1) False] obtain s where
      s: "recv_once (Some True) (msg_ctrl f) ?q (env_rx env ?k) = Some (Return RECV_ZERO_PENDING s)"
        "rx_queue s = ?q" by blast
    then have "drain_link env (Suc n) fd f = Some (Return RECV_ZERO_PENDING (?next s))"
      using calm(3) by (simp add: Let_def)
    moreover have "rxq (net (?next s)) = rxq (net f)" using next_net s(2) by simp
    ultimately show ?thesis using False next_net(2) by (intro exI [of _ "?next s"] exI [of _ "[]"]) simp
  next
    case True
    let ?n = "frame_size ?q"
    from recv_once_frame [OF calm(1,2) Suc.prems(1) True] obtain s where
      s: "recv_once (Some True) (msg_ctrl f) ?q (env_rx env ?k) = Some (Return NONE s)"
        "rx_queue s = drop ?n ?q" by blast
    then have loop: "drain_link env (Suc n) fd f = drain_link env n fd (?next s)"
      using calm(3) by (simp add: Let_def)
    have fr: "valid_frame (take ?n ?q)" "valid_stream (drop ?n ?q)" "12 \<le> ?n" "?n \<le> length ?q"
      using Suc.prems(1) True
      by (subst (asm) valid_stream.simps, auto simp: Let_def has_frame_def split: if_splits)+
    have q: "rxq (net (?next s)) fd = drop ?n ?q" using next_net s(2) by simp
    have "length (drop ?n ?q) < n" using Suc.prems(2) fr(3,4) by simp
    with Suc.IH [of "?next s"] q fr(2) obtain g frames where
      g: "drain_link env n fd (?next s) = Some (Return RECV_ZERO_PENDING g)" "kept g = kept (?next s)"
        "drop ?n ?q = concat frames @ rxq (net g) fd" "list_all valid_frame frames"
        "\<not> has_frame (rxq (net g) fd)"
        "\<forall>fd'. fd' \<noteq> fd \<longrightarrow> rxq (net g) fd' = rxq (net (?next s)) fd'" "txd (net g) = txd (net (?next s))"
      by auto
    have "?q = concat (take ?n ?q # frames) @ rxq (net g) fd"
      using g(3) append_take_drop_id [of ?n ?q] by simp
    moreover have "list_all valid_frame (take ?n ?q # frames)" using fr(1) g(4) by simp
    moreover have "kept g = kept f" using g(2) by simp
    moreover have "\<forall>fd'. fd' \<noteq> fd \<longrightarrow> rxq (net g) fd' = rxq (net f) fd'" "txd (net g) = txd (net f)"
      using g(6,7) next_net by simp_all
    ultimately show ?thesis
      using loop g(1,5) by (intro exI [of _ g] exI [of _ "take ?n ?q # frames"]) simp
  qed
qed

section \<open>Properties\<close>

text \<open>
  C8: In every state that the loop of a new fragment reaches: it has no node context before the
  topology is created and after the shutdown, and a well-formed one in between; from the resolution
  of the connections on, exactly one connection per neighbour was accepted. The other threads are
  relied on to keep the context well formed and its configuration and descriptors as they are.
\<close>

theorem fragment_states_well_formed:
  assumes "new_fragment a b mem ns orc = Some f0" and "threads_rely env" and "fragment_reach env n f0 f"
  shows "case frag_context f of
      None \<Rightarrow> fstate f \<in> {FS_SETUP_CTRL, FS_SETUP_PCAP, FS_CREATE_TOPOLOGY, FS_DONE}
    | Some ctx \<Rightarrow> fstate f \<notin> {FS_SETUP_CTRL, FS_SETUP_PCAP, FS_CREATE_TOPOLOGY, FS_DONE}
        \<and> ctx_wf ctx \<and> length (neighbor_netaddrs ctx) = unat (cfg_num_neighbors (node_config ctx))
        \<and> (fstate f \<notin> {FS_START_MIXNET_SERVER, FS_START_MIXNET_CLIENT} \<longrightarrow>
             (\<exists>args. node_accept_args f = Some args
                \<and> num_accepted args = cfg_num_neighbors (node_config ctx)
                \<and> length (states args) = unat (cfg_num_neighbors (node_config ctx))))"
proof -
  have "frag_inv f" using fragment_reach_inv [OF assms(3) _ assms(2)] new_fragment_inv [OF assms(1)] by blast
  then show ?thesis
    by (cases "fstate f")
      (auto simp: frag_inv_def frag_ctx_wf_def accept_ok_def num_neighbors_of_def split: option.splits)
qed

definition ex_mallocs :: "(bool \<times> bool \<times> bool) \<times> (bool \<times> bool) \<times> (bool \<times> bool)" where
  "ex_mallocs = ((True, True, True), (True, True), (True, True))"

text \<open>The request that completes the handshake: fragment 3, not in autotest mode.\<close>

definition ex_setup_request :: "u8 list" where
  "ex_setup_request = [13, 0, 1, 0, 3, 0, 0, 0, 0, 0xef, 0xbe, 0xad, 0xde]"

definition ex_sockets :: sockets where
  "ex_sockets = \<lparr>rxq = (\<lambda>fd. if fd = 20 then ex_setup_request else []), txd = (\<lambda>_. [])\<rparr>"

definition ex_new :: fragment where
  "ex_new = the (new_fragment ex_mallocs ex_mallocs (\<lambda>_. 0, \<lambda>_. 0) ex_sockets no_netaddr)"

lemma ex_new_defined:
  "new_fragment ex_mallocs ex_mallocs (\<lambda>_. 0, \<lambda>_. 0) ex_sockets no_netaddr = Some ex_new"
  by (simp add: ex_new_def new_fragment_def ex_mallocs_def message_queue_init_def Let_def setup_sem_def)

text \<open>The queues play no part in the handshake.\<close>

definition ex_start :: "mixnet_packet option message_queue \<Rightarrow> mixnet_packet message_queue \<Rightarrow> fragment" where
  "ex_start p u =
     \<lparr>fid = - 1, autotest_mode = False, fstate = FS_SETUP_CTRL, msg_ctrl = (\<lambda>_. 0),
       msg_pcap = (\<lambda>_. 0), local_fd_ctrl = - 1, local_fd_pcap = - 1, orc_netaddr = no_netaddr,
       timeout_connect_long = 5000, timeout_connect_short = 5000, frag_context = None,
       ts_pcap = new_thread_state, node_joinable = False, pcap_joinable = False,
       frag_mq_pcap = p, frag_mq_user = u, accept_joinable = False,
       node_accept_args = None, pcap_netaddr = unset_netaddr, closed_fds = [], net = ex_sockets, calls = 0\<rparr>"

lemma ex_new_start: "\<exists>p u. ex_new = ex_start p u"
proof -
  have "\<exists>p u. Some (ex_start p u) = Some ex_new"
    using ex_new_defined by (auto simp: new_fragment_def ex_start_def bind_eq_Some_conv)
  then show ?thesis by (metis option.inject)
qed

lemma ex_setup:
  "case run_state ex_fragment_env 3 (ex_start p u) of
      Some (Return ec g) \<Rightarrow> ec = NONE \<and> fid g = 3 \<and> txd (net g) 20 =
        [16, 0, 1, 128, 255, 255, 0, 0, 77, 0, 0, 0, 0xef, 0xbe, 0xad, 0xde]
    | _ \<Rightarrow> False"
  by code_simp

theorem fragment_states_well_formed_witness:
  "\<exists>f. fragment_reach ex_fragment_env 3 ex_new f \<and> fstate f = FS_SETUP_PCAP \<and> fid f = 3
    \<and> frag_context f = None"
proof -
  obtain p u where "ex_new = ex_start p u" using ex_new_start by blast
  with ex_setup [of p u]
  obtain g where g: "run_state ex_fragment_env 3 ex_new = Some (Return NONE g)" "fid g = 3"
    by (auto split: option.splits progress.splits)
  have st: "fstate ex_new = FS_SETUP_CTRL" using new_fragment_inv [OF ex_new_defined] by simp
  let ?f = "g\<lparr>fstate := next_state (fstate ex_new)\<rparr>"
  have reach: "fragment_reach ex_fragment_env 3 ex_new ?f"
    using fragment_reach.step [OF fragment_reach.start _ g(1)] st by simp
  have "fstate ?f = FS_SETUP_PCAP" using st by simp
  with fragment_states_well_formed [OF ex_new_defined ex_rely reach] have "frag_context ?f = None"
    by (auto split: option.splits)
  with reach g(2) st show ?thesis by (intro exI [of _ ?f]) simp
qed


definition ex_shutdown_request :: "u8 list" where
  "ex_shutdown_request = [12, 0, 13, 0, 3, 0, 0, 0, 0xef, 0xbe, 0xad, 0xde]"

lemma ex_shutdown:
  "case fragment_loop ex_fragment_env 3 (ex_fragment FS_SHUTDOWN ex_shutdown_request) of
    Some (Return ec g) \<Rightarrow> ec = NONE \<and> closed_fds g = [10, 11, 12, 13] | _ \<Rightarrow> False"
  by code_simp



lemma ex_ack:
  "case send_response ex_fragment_env True MSG_SHUTDOWN NONE no_payload (ex_fragment FS_SHUTDOWN []) of
    Some (Return ec g) \<Rightarrow> ec = NONE | _ \<Rightarrow> False"
  by code_simp



text \<open>The neighbours' clients connected in the opposite order.\<close>

definition ex_resolve_request :: "u8 list" where
  "ex_resolve_request =
     [52, 0, 6, 0, 3, 0, 0, 0, 2, 0, 0, 0, 0, 0, 0, 0]
     @ [2, 0, 8, 0, 1, 0, 0, 0] @ replicate 8 0 @ [2, 0, 7, 0, 1, 0, 0, 0] @ replicate 8 0
     @ [0xef, 0xbe, 0xad, 0xde]"

lemma ex_resolve:
  "case fragment_resolve ex_fragment_env (ex_fragment FS_RESOLVE_MIXNET_CONNECTIONS ex_resolve_request) of
    Some (Return ec g) \<Rightarrow> ec = NONE \<and> map_option tx_socket_fds (frag_context g) = Some [32, 31]
  | _ \<Rightarrow> False"
  by code_simp


text \<open>
  C10: Taking a link down returns. The link is down afterwards, and what its neighbour had sent is
  drained: whole frames are taken off the queue, until no complete one is left; nothing else is
  received or sent. (While the link is drained nothing more arrives, and the neighbour's stream
  consists of well-formed frames.)
\<close>

theorem link_down_drains:
  assumes "frag_context f = Some ctx" and "frag_ctx_wf ctx" and "nid < num_neighbors_of ctx"
    and "calm_env env" and "valid_stream (rxq (net f) (rx_socket_fds ctx ! unat nid))"
    and "length (rxq (net f) (rx_socket_fds ctx ! unat nid)) < n"
  shows "\<exists>g frames. task_update_link_state env n nid False f = Some (Return NONE g)
    \<and> frag_context g = Some (ctx\<lparr>link_states := (link_states ctx)[unat nid := False]\<rparr>)
    \<and> (let fd = rx_socket_fds ctx ! unat nid
        in rxq (net f) fd = concat frames @ rxq (net g) fd \<and> list_all valid_frame frames
           \<and> \<not> has_frame (rxq (net g) fd)
           \<and> (\<forall>fd'. fd' \<noteq> fd \<longrightarrow> rxq (net g) fd' = rxq (net f) fd') \<and> txd (net g) = txd (net f))"
proof -
  let ?f1 = "f\<lparr>frag_context := Some (ctx\<lparr>link_states := (link_states ctx)[unat nid := False]\<rparr>)\<rparr>"
  let ?fd = "rx_socket_fds ctx ! unat nid"
  have len: "unat nid < length (link_states ctx)" "unat nid < length (rx_socket_fds ctx)"
    using assms(2,3) by (simp_all add: frag_ctx_wf_def ctx_wf_def num_neighbors_max_port word_less_nat_alt)
  obtain g frames where g: "drain_link env n ?fd ?f1 = Some (Return RECV_ZERO_PENDING g)"
    "kept g = kept ?f1" "rxq (net f) ?fd = concat frames @ rxq (net g) ?fd"
    "list_all valid_frame frames" "\<not> has_frame (rxq (net g) ?fd)"
    "\<forall>fd'. fd' \<noteq> ?fd \<longrightarrow> rxq (net g) fd' = rxq (net f) fd'" "txd (net g) = txd (net f)"
    using drain_link_calm [OF assms(4), of ?f1 ?fd n] assms(5,6) by auto
  have "task_update_link_state env n nid False f = Some (Return NONE g)"
    using assms(1,3) len g(1) by (simp add: task_update_link_state_def)
  then show ?thesis using g keptD(3) [OF g(2)] unfolding Let_def by auto
qed

text \<open>One whole announcement and the first bytes of another are pending.\<close>

definition ex_pending :: "u8 list" where
  "ex_pending = packet_memory (bleached (stp_packet 3 1 5)) @ [18, 0, 0]"

definition ex_link_down :: fragment where
  "ex_link_down = (ex_fragment FS_RUN_TESTCASE [])
     \<lparr>net := \<lparr>rxq = (\<lambda>fd. if fd = 12 then ex_pending else []), txd = (\<lambda>_. [])\<rparr>\<rparr>"

lemma ex_calm: "calm_env ex_fragment_env"
  by (simp add: calm_env_def ex_fragment_env_def calm_event_def list_all_iff)

theorem link_down_drains_witness:
  "\<exists>g frames. task_update_link_state ex_fragment_env 22 0 False ex_link_down = Some (Return NONE g)
    \<and> ex_pending = concat frames @ rxq (net g) 12 \<and> list_all valid_frame frames
    \<and> \<not> has_frame (rxq (net g) 12)"
proof -
  have "valid_frame (packet_memory (bleached (stp_packet 3 1 5)))" by code_simp
  moreover have "valid_stream [18, 0, 0]" by code_simp
  ultimately have s: "valid_stream ex_pending"
    unfolding ex_pending_def by (rule valid_stream_append_frame)
  have fd: "rx_socket_fds ex_ctx ! unat (0 :: u16) = 12" "frag_context ex_link_down = Some ex_ctx"
    "(0 :: u16) < num_neighbors_of ex_ctx" "rxq (net ex_link_down) 12 = ex_pending"
    using ex_ctx_wf by (simp_all add: ex_ctx_def ex_world_def ex_link_down_def ex_fragment_def)
  have "length ex_pending < 22" by code_simp
  with link_down_drains [OF fd(2) conjunct1 [OF ex_ctx_wf] fd(3) ex_calm, of 22] s fd
  show ?thesis unfolding Let_def by auto
qed

text \<open>
  A delivered request to inject data puts exactly one packet behind the user packets that are
  waiting: the DATA packet with the addresses and the data of the request and a routing header
  with an empty route, which fills its size; unless the queue is full or memory is short, and then
  the task fails and the queue is as before.
\<close>

theorem injected_data_is_queued:
  assumes "put_send_packet r b0 = Some b" and "get_type b = Some MSG_SEND_PACKET"
    and "is_request_msg b" and "delivered b (msg_ctrl f)"
    and "sp_type r = packet_type_code PACKET_TYPE_DATA"
    and "length (sp_data r) \<le> unat MAX_MIXNET_DATA_SIZE"
    and "frag_context f = Some ctx" and "frag_ctx_wf ctx"
  shows "\<exists>ec g. task_send_packet env f = Some (Return ec g)
    \<and> (let q = mq_user ctx; p = \<lparr>total_size = of_nat (20 + length (sp_data r)),
          ptype = packet_type_code PACKET_TYPE_DATA, reserved = None,
          payload = enc_routing_header \<lparr>src_address = src_mixaddr r, dst_address = dst_mixaddr r,
            route_length = 0, hop_index = 0\<rparr> @ sp_data r\<rparr>
        in if env_malloc env (calls f) \<and> length (mq_contents q) < depth q
           then ec = NONE \<and> (\<exists>q'. frag_context g = Some (ctx\<lparr>mq_user := q'\<rparr>) \<and> mq_inv q'
             \<and> mq_contents q' = mq_contents q @ [p])
           else ec = FRAGMENT_EXCEPTION \<and> frag_context g = Some ctx)"
proof (cases "env_malloc env (calls f)")
  case False
  then show ?thesis using assms(7) by (simp add: task_send_packet_def)
next
  case True
  note p = injected_data_packet [OF assms(1-6)]
  have q: "mq_inv (mq_user ctx)" using frag_ctx_wf_queues(3) [OF assms(8)] by simp
  show ?thesis
  proof (cases "length (mq_contents (mq_user ctx)) < depth (mq_user ctx)")
    case room: True
    let ?p = "\<lparr>total_size = of_nat (20 + length (sp_data r)),
        ptype = packet_type_code PACKET_TYPE_DATA, reserved = None,
        payload = enc_routing_header \<lparr>src_address = src_mixaddr r, dst_address = dst_mixaddr r,
          route_length = 0, hop_index = 0\<rparr> @ sp_data r\<rparr>"
    obtain q' where q': "mq_push ?p (mq_user ctx) = Some (True, q')" "mq_inv q'"
      "mq_contents q' = mq_contents (mq_user ctx) @ [?p]"
      using mq_push_room [OF q room] by blast
    let ?g = "f\<lparr>calls := Suc (calls f), frag_context := Some (ctx\<lparr>mq_user := q'\<rparr>)\<rparr>"
    have "task_send_packet env f = Some (Return NONE ?g)"
      using True p assms(7) q'(1) by (simp add: task_send_packet_def)
    then show ?thesis using True room q'(2,3) by (auto simp: Let_def)
  next
    case False
    then have "length (mq_contents (mq_user ctx)) = depth (mq_user ctx)"
      using mq_contents_bounded [OF q] by simp
    from mq_push_full [OF q this] show ?thesis
      using True False p assms(7) by (simp add: task_send_packet_def Let_def)
  qed
qed

definition ex_send_request :: send_packet_request where
  "ex_send_request = \<lparr>sp_type = 3, src_mixaddr = 9, dst_mixaddr = 5, sp_data = [104, 105]\<rparr>"

definition ex_send_message :: buffer where
  "ex_send_message =
     the (put_send_packet ex_send_request (orchestrator_prepare_header 3 MSG_SEND_PACKET (\<lambda>_. 0)))"

definition ex_injecting :: fragment where
  "ex_injecting = (ex_fragment FS_RUN_TESTCASE [])\<lparr>msg_ctrl := the (finalize ex_send_message)\<rparr>"

theorem injected_data_is_queued_witness:
  "\<exists>g q. task_send_packet ex_fragment_env ex_injecting = Some (Return NONE g)
    \<and> frag_context g = Some (ex_ctx\<lparr>mq_user := q\<rparr>) \<and> length (mq_contents q) = 1"
proof -
  have put: "put_send_packet ex_send_request (orchestrator_prepare_header 3 MSG_SEND_PACKET (\<lambda>_. 0))
      = Some ex_send_message"
    by (simp add: ex_send_message_def put_send_packet_def ex_send_request_def buf_wr_def const_defs)
  have ty: "get_type ex_send_message = Some MSG_SEND_PACKET" "is_request_msg ex_send_message"
    by code_simp+
  have "get_u16 14 ex_send_message = 2" by code_simp
  then have "well_sized ex_send_message"
    using ty by (simp add: well_sized_def msg_size_def const_defs)
  then have d: "delivered ex_send_message (msg_ctrl ex_injecting)"
    using finalized_delivered by (simp add: ex_injecting_def)
  have "sp_type ex_send_request = packet_type_code PACKET_TYPE_DATA"
    "length (sp_data ex_send_request) \<le> unat MAX_MIXNET_DATA_SIZE"
    "frag_context ex_injecting = Some ex_ctx"
    by (simp_all add: ex_send_request_def MAX_MIXNET_DATA_SIZE_eq ex_injecting_def ex_fragment_def)
  note R = injected_data_is_queued [OF put ty d this conjunct1 [OF ex_ctx_wf], of ex_fragment_env]
  have "mq_user ex_ctx = ex_mq"
    by (simp add: ex_ctx_def ex_world_def init_node_context_def ex_topology_def Let_def)
  moreover have "length (mq_contents (mq_user ex_ctx)) < depth (mq_user ex_ctx)" by code_simp
  moreover have "env_malloc ex_fragment_env k" for k by (simp add: ex_fragment_env_def)
  ultimately obtain g q where "task_send_packet ex_fragment_env ex_injecting = Some (Return NONE g)"
    "frag_context g = Some (ex_ctx\<lparr>mq_user := q\<rparr>)" "length (mq_contents q) = 1"
    using R by (auto simp: Let_def)
  then show ?thesis by (intro exI [of _ g] exI [of _ q]) simp
qed


text \<open>An injection request when memory is short.\<close>

definition ex_short_env :: fragment_env where
  "ex_short_env = ex_fragment_env\<lparr>env_malloc := (\<lambda>_. False)\<rparr>"

lemma ex_failed_task:
  "case respond ex_short_env MSG_SEND_PACKET (run_request ex_short_env 3 MSG_SEND_PACKET
      (ex_fragment FS_RUN_TESTCASE [])) of
    Some (Return ec g) \<Rightarrow> ec = NONE | _ \<Rightarrow> False"
  by code_simp


end
