(* ===== verification/Graph.thy ===== *)
theory Graph
  imports Packet "HOL-Library.Code_Target_Numeral"
begin

text \<open>
  Test topologies (testing/common/graph.h, testing/common/graph.cpp): nodes with their link
  costs, adjacency lists, and the generators of the line, ring, star and full-mesh topologies. An
  operation is \<open>None\<close> when an \<open>assert\<close> fails.
\<close>

section \<open>State and operations\<close>

record half_edge =
  he_id :: u16
  he_cost :: u16

definition half_edge_of_id :: "u16 \<Rightarrow> half_edge" where
  "half_edge_of_id i = \<lparr>he_id = i, he_cost = 1\<rparr>"

record graph_node =
  gn_mixing_factor :: u16
  gn_do_random_routing :: bool
  gn_link_costs :: "u16 list"
  gn_mixaddr :: mixnet_address

definition new_graph_node :: "mixnet_address \<Rightarrow> graph_node" where
  "new_graph_node a =
     \<lparr>gn_mixing_factor = 1, gn_do_random_routing = False, gn_link_costs = [], gn_mixaddr = a\<rparr>"

definition add_link_cost :: "u16 \<Rightarrow> graph_node \<Rightarrow> graph_node" where
  "add_link_cost v n = n\<lparr>gn_link_costs := gn_link_costs n @ [v]\<rparr>"

record graph =
  num_nodes :: u16
  nodes :: "graph_node list"
  topology :: "u16 list list"

definition new_graph :: "u16 \<Rightarrow> graph" where
  "new_graph n =
     \<lparr>num_nodes = n, nodes = map (\<lambda>i. new_graph_node (of_nat i)) [0..<unat n],
      topology = replicate (unat n) []\<rparr>"

definition update_at :: "u16 \<Rightarrow> ('a \<Rightarrow> 'a) \<Rightarrow> 'a list \<Rightarrow> 'a list" where
  "update_at i f xs = xs[unat i := f (xs ! unat i)]"

definition add_edge :: "graph \<Rightarrow> half_edge \<Rightarrow> half_edge \<Rightarrow> graph option" where
  "add_edge g src dst =
     (if \<not> (he_id src < num_nodes g \<and> he_id dst < num_nodes g) then None
      else if \<not> he_cost src \<le> 1 then None
      else if \<not> he_cost dst \<le> 1 then None
      else if he_id src = he_id dst then None
      else if he_id dst \<in> set (topology g ! unat (he_id src)) then None
      else Some (g\<lparr>
        nodes := update_at (he_id dst) (add_link_cost (he_cost dst))
                   (update_at (he_id src) (add_link_cost (he_cost src)) (nodes g)),
        topology := update_at (he_id dst) (\<lambda>l. l @ [he_id src])
                      (update_at (he_id src) (\<lambda>l. l @ [he_id dst]) (topology g))\<rparr>))"

definition set_mixaddrs :: "graph \<Rightarrow> mixnet_address list \<Rightarrow> graph option" where
  "set_mixaddrs g m =
     (if length m = unat (num_nodes g)
      then Some (g\<lparr>nodes := map (\<lambda>i. (nodes g ! i)\<lparr>gn_mixaddr := m ! i\<rparr>) [0..<unat (num_nodes g)]
                            @ drop (unat (num_nodes g)) (nodes g)\<rparr>)
      else None)"

fun add_edges :: "graph \<Rightarrow> (u16 \<times> u16) list \<Rightarrow> graph option" where
  "add_edges g [] = Some g"
| "add_edges g ((a, b) # es) =
     Option.bind (add_edge g (half_edge_of_id a) (half_edge_of_id b)) (\<lambda>g1. add_edges g1 es)"

datatype topology_type = LINE | RING | STAR | FULL_MESH

text \<open>The calls of \<open>add_edge\<close> of the four loops, in order.\<close>

fun topology_edges :: "topology_type \<Rightarrow> 'v list \<Rightarrow> ('v \<times> 'v) list" where
  "topology_edges LINE idxs = map (\<lambda>i. (idxs ! i, idxs ! (i + 1))) [0..<length idxs - 1]"
| "topology_edges RING idxs =
     map (\<lambda>i. (idxs ! i, idxs ! ((i + 1) mod length idxs))) [0..<length idxs]"
| "topology_edges FULL_MESH idxs =
     concat (map (\<lambda>i. map (\<lambda>j. (idxs ! i, idxs ! j)) [i + 1..<length idxs]) [0..<length idxs])"
| "topology_edges STAR idxs = map (\<lambda>i. (idxs ! 0, idxs ! i)) [1..<length idxs]"

text \<open>
  The 16-bit loop counters reach the bound up to this length. Beyond it a counter wraps around to
  0 and the loop goes on to an edge it has added before, or to an edge from a vertex to itself:
  \<open>add_edge\<close> stops the program.
\<close>

fun counter_limit :: "topology_type \<Rightarrow> nat" where
  "counter_limit LINE = 65536"
| "counter_limit t = 65535"

definition generate_topology :: "graph \<Rightarrow> topology_type \<Rightarrow> u16 list \<Rightarrow> graph option" where
  "generate_topology g t idxs0 =
     (if num_nodes g < 2 then Some g
      else let idxs = (if idxs0 = [] then map of_nat [0..<unat (num_nodes g)] else idxs0)
        in if t = RING \<and> \<not> length idxs > 2 then None
           else if length idxs > counter_limit t then None
           else add_edges g (topology_edges t idxs))"

section \<open>Well-formed graphs\<close>

definition vertex_ok :: "graph \<Rightarrow> u16 \<Rightarrow> bool" where
  "vertex_ok g i \<longleftrightarrow>
     distinct (topology g ! unat i) \<and> i \<notin> set (topology g ! unat i)
     \<and> length (gn_link_costs (nodes g ! unat i)) = length (topology g ! unat i)
     \<and> (\<forall>j \<in> set (topology g ! unat i). j < num_nodes g \<and> i \<in> set (topology g ! unat j))"

definition graph_wf :: "graph \<Rightarrow> bool" where
  "graph_wf g \<longleftrightarrow>
     length (nodes g) = unat (num_nodes g) \<and> length (topology g) = unat (num_nodes g)
     \<and> (\<forall>i < num_nodes g. vertex_ok g i)"

lemma graph_wf_len:
  assumes "graph_wf g"
  shows "length (nodes g) = unat (num_nodes g)" and "length (topology g) = unat (num_nodes g)"
    and "i < num_nodes g \<Longrightarrow> unat i < length (topology g)"
    and "i < num_nodes g \<Longrightarrow> unat i < length (nodes g)"
  using assms by (simp_all add: graph_wf_def word_less_nat_alt)

lemma graph_wfD:
  assumes "graph_wf g" and "i < num_nodes g"
  shows "distinct (topology g ! unat i)" and "i \<notin> set (topology g ! unat i)"
    and "length (gn_link_costs (nodes g ! unat i)) = length (topology g ! unat i)"
    and "\<And>j. j \<in> set (topology g ! unat i) \<Longrightarrow> j < num_nodes g"
    and "\<And>j. j \<in> set (topology g ! unat i) \<Longrightarrow> i \<in> set (topology g ! unat j)"
proof -
  have "vertex_ok g i" using assms by (simp add: graph_wf_def)
  then show "distinct (topology g ! unat i)" "i \<notin> set (topology g ! unat i)"
    "length (gn_link_costs (nodes g ! unat i)) = length (topology g ! unat i)"
    "\<And>j. j \<in> set (topology g ! unat i) \<Longrightarrow> j < num_nodes g"
    "\<And>j. j \<in> set (topology g ! unat i) \<Longrightarrow> i \<in> set (topology g ! unat j)"
    unfolding vertex_ok_def by blast+
qed

lemma length_update_at [simp]: "length (update_at i f xs) = length xs"
  by (simp add: update_at_def)

lemma nth_update_at:
  "unat j < length xs \<Longrightarrow> update_at i f xs ! unat j = (if i = j then f (xs ! unat j) else xs ! unat j)"
  by (auto simp: update_at_def nth_list_update word_unat_eq_iff)

lemma graph_wf_new: "graph_wf (new_graph n)"
  by (auto simp: graph_wf_def vertex_ok_def new_graph_def new_graph_node_def word_less_nat_alt)

definition edge_ok :: "graph \<Rightarrow> u16 \<Rightarrow> u16 \<Rightarrow> bool" where
  "edge_ok g a b \<longleftrightarrow>
     a < num_nodes g \<and> b < num_nodes g \<and> a \<noteq> b \<and> b \<notin> set (topology g ! unat a)"

lemma add_edge_Some:
  assumes "add_edge g src dst = Some g'"
  shows "edge_ok g (he_id src) (he_id dst)" and "num_nodes g' = num_nodes g"
    and "length (nodes g') = length (nodes g)" and "length (topology g') = length (topology g)"
  using assms by (auto simp: add_edge_def edge_ok_def split: if_splits)

lemma add_edge_topology:
  assumes "add_edge g src dst = Some g'" and "unat i < length (topology g)"
  shows "topology g' ! unat i = topology g ! unat i
    @ (if i = he_id src then [he_id dst] else if i = he_id dst then [he_id src] else [])"
  using assms by (auto simp: add_edge_def nth_update_at split: if_splits)

lemma add_edge_costs:
  assumes "add_edge g src dst = Some g'" and "unat i < length (nodes g)"
  shows "gn_link_costs (nodes g' ! unat i) = gn_link_costs (nodes g ! unat i)
    @ (if i = he_id src then [he_cost src] else if i = he_id dst then [he_cost dst] else [])"
  using assms by (auto simp: add_edge_def nth_update_at add_link_cost_def split: if_splits)

lemma graph_wf_add_edge:
  assumes add: "add_edge g src dst = Some g'" and wf: "graph_wf g"
  shows "graph_wf g'"
proof -
  note Some = add_edge_Some [OF add]
  note len = graph_wf_len(3,4) [OF wf]
  have "vertex_ok g' i" if i: "i < num_nodes g'" for i
  proof -
    have *: "i < num_nodes g" using i Some(2) by simp
    have nb: "topology g' ! unat j = topology g ! unat j
      @ (if j = he_id src then [he_id dst] else if j = he_id dst then [he_id src] else [])"
      if "j < num_nodes g" for j
      using add_edge_topology [OF add len(1) [OF that]] .
    have costs: "length (gn_link_costs (nodes g' ! unat i)) = length (topology g' ! unat i)"
      using graph_wfD(3) [OF wf *] by (simp add: nb [OF *] add_edge_costs [OF add len(2) [OF *]])
    have old: "distinct (topology g ! unat i)" "i \<notin> set (topology g ! unat i)"
      "\<And>j. j \<in> set (topology g ! unat i) \<Longrightarrow> j < num_nodes g \<and> i \<in> set (topology g ! unat j)"
      using graph_wfD [OF wf *] by simp_all
    have ok: "he_id src < num_nodes g" "he_id dst < num_nodes g" "he_id src \<noteq> he_id dst"
      "he_id dst \<notin> set (topology g ! unat (he_id src))"
      using Some(1) by (simp_all add: edge_ok_def)
    then have "he_id src \<notin> set (topology g ! unat (he_id dst))"
      using graph_wfD(5) [OF wf ok(2)] by blast
    then have d: "distinct (topology g' ! unat i)" "i \<notin> set (topology g' ! unat i)"
      using old(1,2) ok by (auto simp: nb [OF *])
    have "j < num_nodes g' \<and> i \<in> set (topology g' ! unat j)"
      if "j \<in> set (topology g' ! unat i)" for j
      using that old(3) [of j] ok by (auto simp: nb * Some(2) split: if_splits)
    with d costs show ?thesis unfolding vertex_ok_def by blast
  qed
  then show ?thesis
    using graph_wf_len(1,2) [OF wf] Some(2,3,4) unfolding graph_wf_def by simp
qed

lemma graph_wf_add_edges:
  "add_edges g es = Some g' \<Longrightarrow> graph_wf g \<Longrightarrow> graph_wf g' \<and> num_nodes g' = num_nodes g"
proof (induction g es rule: add_edges.induct)
  case (1 g)
  then show ?case by simp
next
  case (2 g a b es)
  then obtain g1 where "add_edge g (half_edge_of_id a) (half_edge_of_id b) = Some g1"
    "add_edges g1 es = Some g'"
    by (auto simp: bind_eq_Some_conv)
  with 2 graph_wf_add_edge [of g] add_edge_Some(2) [of g] show ?case by metis
qed

lemma graph_wf_generate_topology:
  "generate_topology g t idxs = Some g' \<Longrightarrow> graph_wf g \<Longrightarrow> graph_wf g' \<and> num_nodes g' = num_nodes g"
  by (auto simp: generate_topology_def Let_def graph_wf_add_edges split: if_splits)

lemma graph_wf_set_mixaddrs:
  assumes "set_mixaddrs g m = Some g'" and wf: "graph_wf g"
  shows "graph_wf g' \<and> map gn_mixaddr (nodes g') = m"
proof -
  have len: "length m = unat (num_nodes g)" "length (nodes g) = unat (num_nodes g)"
    and g': "g' = g\<lparr>nodes := map (\<lambda>i. (nodes g ! i)\<lparr>gn_mixaddr := m ! i\<rparr>) [0..<unat (num_nodes g)]\<rparr>"
    using assms by (auto simp: set_mixaddrs_def graph_wf_def split: if_splits)
  have "map gn_mixaddr (nodes g') = m"
    using len by (intro nth_equalityI) (simp_all add: g')
  moreover have "vertex_ok g' i" if i: "i < num_nodes g" for i
  proof -
    have "gn_link_costs (nodes g' ! unat i) = gn_link_costs (nodes g ! unat i)"
      using i by (simp add: g' word_less_nat_alt)
    moreover have "topology g' = topology g" "num_nodes g' = num_nodes g" by (simp_all add: g')
    moreover have "vertex_ok g i" using wf i by (simp add: graph_wf_def)
    ultimately show ?thesis unfolding vertex_ok_def by presburger
  qed
  then have "graph_wf g'"
    using wf by (simp add: graph_wf_def g')
  ultimately show ?thesis by simp
qed

section \<open>The generated topologies\<close>

text \<open>An edge list that \<open>add_edges\<close> accepts, and the adjacency it produces.\<close>

definition ends :: "'v \<times> 'v \<Rightarrow> 'v set" where
  "ends e = {fst e, snd e}"

lemma add_edges_adjacency:
  assumes "graph_wf g"
    and "\<forall>(a, b) \<in> set es. a < num_nodes g \<and> b < num_nodes g \<and> a \<noteq> b \<and> b \<notin> set (topology g ! unat a)"
    and "distinct (map ends es)"
  shows "\<exists>g'. add_edges g es = Some g' \<and> num_nodes g' = num_nodes g
    \<and> (\<forall>i < num_nodes g. set (topology g' ! unat i) =
          set (topology g ! unat i) \<union> {j. {i, j} \<in> ends ` set es})"
  using assms
proof (induction es arbitrary: g)
  case Nil
  then show ?case by simp
next
  case (Cons e es)
  obtain a b where e: "e = (a, b)" by fastforce
  have ok: "a < num_nodes g" "b < num_nodes g" "a \<noteq> b" "b \<notin> set (topology g ! unat a)"
    using Cons.prems(2) e by auto
  then obtain g1 where g1: "add_edge g (half_edge_of_id a) (half_edge_of_id b) = Some g1"
    by (simp add: add_edge_def half_edge_of_id_def)
  note len = graph_wf_len(3) [OF Cons.prems(1)]
  have n: "num_nodes g1 = num_nodes g" and wf: "graph_wf g1"
    using add_edge_Some(2) [OF g1] graph_wf_add_edge [OF g1 Cons.prems(1)] by simp_all
  have nb: "set (topology g1 ! unat i) = set (topology g ! unat i)
      \<union> (if i = a then {b} else if i = b then {a} else {})" if "i < num_nodes g" for i
    using add_edge_topology [OF g1 len [OF that]] by (auto simp: half_edge_of_id_def)
  have fresh: "ends (a, b) \<notin> ends ` set es" using Cons.prems(3) e by auto
  have "c < num_nodes g1 \<and> d < num_nodes g1 \<and> c \<noteq> d \<and> d \<notin> set (topology g1 ! unat c)"
    if cd: "(c, d) \<in> set es" for c d
  proof -
    have "c < num_nodes g" "d < num_nodes g" "c \<noteq> d" "d \<notin> set (topology g ! unat c)"
      using Cons.prems(2) cd by auto
    moreover have "ends (c, d) \<noteq> ends (a, b)" using fresh cd by (metis imageI)
    ultimately show ?thesis by (auto simp: n nb ends_def)
  qed
  then have "\<forall>(c, d) \<in> set es. c < num_nodes g1 \<and> d < num_nodes g1 \<and> c \<noteq> d
      \<and> d \<notin> set (topology g1 ! unat c)"
    by blast
  from Cons.IH [OF wf this] Cons.prems(3) obtain g' where
    g': "add_edges g1 es = Some g'" "num_nodes g' = num_nodes g"
    and adj: "\<forall>i < num_nodes g. set (topology g' ! unat i) =
          set (topology g1 ! unat i) \<union> {j. {i, j} \<in> ends ` set es}"
    unfolding n by auto
  have "set (topology g' ! unat i) = set (topology g ! unat i) \<union> {j. {i, j} \<in> ends ` set (e # es)}"
    if "i < num_nodes g" for i
    using adj nb [OF that] that by (auto simp: e ends_def doubleton_eq_iff)
  then show ?case using g1 g' by (simp add: e)
qed

text \<open>The default index list: edges between vertex numbers.\<close>

fun linked :: "topology_type \<Rightarrow> nat \<Rightarrow> nat \<Rightarrow> nat \<Rightarrow> bool" where
  "linked LINE n i j \<longleftrightarrow> j = i + 1 \<or> i = j + 1"
| "linked RING n i j \<longleftrightarrow> j = (i + 1) mod n \<or> i = (j + 1) mod n"
| "linked STAR n i j \<longleftrightarrow> i \<noteq> j \<and> (i = 0 \<or> j = 0)"
| "linked FULL_MESH n i j \<longleftrightarrow> i \<noteq> j"

lemma topology_edges_map:
  "topology_edges t (map f xs) = map (map_prod f f) (topology_edges t xs)"
proof (cases t)
  case RING
  have "Suc i mod length xs < length xs" if "i < length xs" for i
    using that by (intro mod_less_divisor) linarith
  then show ?thesis using RING by auto
next
  case STAR
  have "map f xs ! 0 = f (xs ! 0)" if "i < length xs" for i
    using that by (cases xs) simp_all
  then show ?thesis using STAR by auto
qed (auto simp: map_concat comp_def intro!: map_cong arg_cong [where f = concat])

lemma topology_edges_range:
  assumes "(i, j) \<in> set (topology_edges t [0..<n])" and "t = RING \<Longrightarrow> 2 < n"
  shows "i < n \<and> j < n \<and> i \<noteq> j"
  using assms by (cases t) (auto simp: mod_Suc split: if_splits)

lemma set_topology_edges:
  assumes "i < n" and "j < n" and "t = RING \<Longrightarrow> 2 < n"
  shows "{i, j} \<in> ends ` set (topology_edges t [0..<n]) \<longleftrightarrow> linked t n i j"
proof (cases t)
  case LINE
  then show ?thesis using assms by (auto simp: ends_def doubleton_eq_iff image_iff)
next
  case RING
  then show ?thesis using assms by (auto simp: ends_def doubleton_eq_iff image_iff)
next
  case STAR
  then show ?thesis using assms by (auto simp: ends_def doubleton_eq_iff image_iff)
next
  case FULL_MESH
  have "set (topology_edges FULL_MESH [0..<n]) = {(a, b). a < b \<and> b < n}"
    by (auto simp: image_iff)
  then have "{i, j} \<in> ends ` set (topology_edges FULL_MESH [0..<n])
      \<longleftrightarrow> {i, j} \<in> ends ` {(a, b). a < b \<and> b < n}"
    by (simp only:)
  also have "\<dots> \<longleftrightarrow> (\<exists>a b. a < b \<and> b < n \<and> {i, j} = ends (a, b))"
    by blast
  also have "\<dots> \<longleftrightarrow> (\<exists>a b. a < b \<and> b < n \<and> (i = a \<and> j = b \<or> i = b \<and> j = a))"
    by (simp only: ends_def fst_conv snd_conv doubleton_eq_iff)
  also have "\<dots> \<longleftrightarrow> i \<noteq> j" using assms(1,2) by (metis nat_neq_iff)
  finally show ?thesis using FULL_MESH by simp
qed

lemma distinct_pairs: "distinct (concat (map (\<lambda>i. map (Pair i) (xs i)) ys))"
  if "distinct ys" "\<And>i. distinct (xs i)"
  using that by (induction ys) (auto simp: distinct_map inj_on_def)

lemma distinct_ends:
  assumes "t = RING \<Longrightarrow> 2 < n"
  shows "distinct (map ends (topology_edges t [0..<n]))"
proof (cases t)
  case LINE
  then show ?thesis
    by (auto simp: distinct_map inj_on_def ends_def doubleton_eq_iff comp_def)
next
  case RING
  have "i = j" if "i < n" "j < n" "{i, Suc i mod n} = {j, Suc j mod n}" for i j
    using that assms RING by (auto simp: doubleton_eq_iff mod_Suc split: if_splits)
  then show ?thesis
    using RING by (auto simp: distinct_map inj_on_def ends_def comp_def)
next
  case STAR
  then show ?thesis
    by (auto simp: distinct_map inj_on_def ends_def doubleton_eq_iff comp_def)
next
  case FULL_MESH
  have eq: "topology_edges FULL_MESH [0..<n] = concat (map (\<lambda>i. map (Pair i) [i + 1..<n]) [0..<n])"
    by (auto intro!: map_cong arg_cong [where f = concat])
  have "distinct (topology_edges FULL_MESH [0..<n])"
    unfolding eq by (intro distinct_pairs) simp_all
  moreover have "inj_on ends (set (topology_edges FULL_MESH [0..<n]))"
    by (rule inj_onI) (auto simp: ends_def doubleton_eq_iff)
  ultimately show ?thesis using FULL_MESH by (simp add: distinct_map)
qed

lemma of_nat_u16_inj: "inj_on (of_nat :: nat \<Rightarrow> u16) {..<65536}"
  by (rule inj_onI) (simp add: word_of_nat_eq_iff take_bit_nat_eq_self)

lemma generate_topology_new:
  assumes n: "2 \<le> n" "t = RING \<Longrightarrow> 2 < n"
  shows "\<exists>g. generate_topology (new_graph n) t [] = Some g \<and> graph_wf g \<and> num_nodes g = n
    \<and> (\<forall>i < unat n. unat ` set (topology g ! i) = {j. j < unat n \<and> linked t (unat n) i j})"
proof -
  let ?w = "of_nat :: nat \<Rightarrow> u16"
  let ?es = "topology_edges t [0..<unat n]"
  have ring: "t = RING \<Longrightarrow> 2 < unat n" using n(2) by (simp add: word_less_nat_alt)
  have n2: "2 \<le> unat n" using n(1) by (simp add: word_le_nat_alt)
  have unw: "unat (?w i) = i" if "i < unat n" for i
    using that less_trans [OF that unat_u16_less] by (simp add: unat_of_nat)
  have inj: "inj_on ?w {..<unat n}"
    by (rule inj_on_subset [OF of_nat_u16_inj]) (use less_imp_le [OF unat_u16_less [of n]] in simp)
  have range: "i < unat n \<and> j < unat n \<and> i \<noteq> j" if "(i, j) \<in> set ?es" for i j
    using topology_edges_range [OF that] ring by blast
  have img: "{?w i, ?w j} \<in> ends ` set (map (map_prod ?w ?w) ?es) \<longleftrightarrow> {i, j} \<in> ends ` set ?es"
    if ij: "i < unat n" "j < unat n" for i j
  proof -
    have "ends (map_prod ?w ?w e) = ?w ` ends e" for e by (cases e) (simp add: ends_def)
    then have "ends ` set (map (map_prod ?w ?w) ?es) = (\<lambda>e. ?w ` ends e) ` set ?es"
      by (simp only: set_map image_image)
    then have "{?w i, ?w j} \<in> ends ` set (map (map_prod ?w ?w) ?es)
        \<longleftrightarrow> (\<exists>e \<in> set ?es. ?w ` {i, j} = ?w ` ends e)"
      by (simp only: image_iff image_insert image_empty)
    also have "\<dots> \<longleftrightarrow> (\<exists>e \<in> set ?es. {i, j} = ends e)"
    proof (intro bex_cong refl)
      fix e assume "e \<in> set ?es"
      then have "ends e \<subseteq> {..<unat n}" using range [of "fst e" "snd e"] by (auto simp: ends_def)
      then show "(?w ` {i, j} = ?w ` ends e) = ({i, j} = ends e)"
        using ij by (intro inj_on_image_eq_iff [OF inj]) auto
    qed
    finally show ?thesis by (simp only: image_iff)
  qed
  have ok: "\<forall>(a, b) \<in> set (map (map_prod ?w ?w) ?es). a < n \<and> b < n \<and> a \<noteq> b"
  proof -
    have "?w i < n \<and> ?w j < n \<and> ?w i \<noteq> ?w j" if "(i, j) \<in> set ?es" for i j
      using range [OF that] inj by (auto simp: word_less_nat_alt unw inj_on_eq_iff)
    then show ?thesis by fastforce
  qed
  have dist: "distinct (map ends (map (map_prod ?w ?w) ?es))"
  proof -
    have m: "map ends (map (map_prod ?w ?w) ?es) = map (image ?w) (map ends ?es)"
      by (auto simp: ends_def)
    have "inj_on (image ?w) (set (map ends ?es))"
      by (rule inj_on_subset [OF inj_on_image_Pow [OF inj]])
        (use range in \<open>auto simp: ends_def\<close>)
    then show ?thesis
      unfolding m using distinct_ends [of t "unat n"] ring by (subst distinct_map) blast
  qed
  have g0: "num_nodes (new_graph n) = n" "\<And>i. i < n \<Longrightarrow> topology (new_graph n) ! unat i = []"
    by (simp_all add: new_graph_def word_less_nat_alt)
  have pre: "\<forall>(a, b) \<in> set (map (map_prod ?w ?w) ?es). a < num_nodes (new_graph n)
      \<and> b < num_nodes (new_graph n) \<and> a \<noteq> b \<and> b \<notin> set (topology (new_graph n) ! unat a)"
    using ok by (force simp: g0)
  obtain g where g: "add_edges (new_graph n) (map (map_prod ?w ?w) ?es) = Some g" "num_nodes g = n"
    and adj: "\<forall>i < n. set (topology g ! unat i) = {j. {i, j} \<in> ends ` set (map (map_prod ?w ?w) ?es)}"
    using add_edges_adjacency [OF graph_wf_new pre dist] by (auto simp: g0)
  have wf: "graph_wf g" using graph_wf_add_edges [OF g(1) graph_wf_new] by simp
  have "unat ` set (topology g ! i) = {j. j < unat n \<and> linked t (unat n) i j}" if i: "i < unat n" for i
  proof -
    have iw: "?w i < n" using i by (simp add: word_less_nat_alt unw)
    have mem: "?w j \<in> set (topology g ! i) \<longleftrightarrow> linked t (unat n) i j" if "j < unat n" for j
      using adj iw img [OF i that] set_topology_edges [OF i that ring]
      by (metis mem_Collect_eq unw [OF i])
    show ?thesis
    proof (intro equalityI subsetI)
      fix j
      assume "j \<in> unat ` set (topology g ! i)"
      then obtain x where x: "j = unat x" "x \<in> set (topology g ! i)" by auto
      then have "x < n" using graph_wfD(4) [OF wf, of "?w i" x] iw g(2) by (simp add: unw i)
      then show "j \<in> {j. j < unat n \<and> linked t (unat n) i j}"
        using x mem [of j] by (simp add: word_less_nat_alt)
    next
      fix j
      assume j: "j \<in> {j. j < unat n \<and> linked t (unat n) i j}"
      then show "j \<in> unat ` set (topology g ! i)"
        using mem [of j] unw [of j] by (metis (no_types, lifting) image_eqI mem_Collect_eq)
    qed
  qed
  moreover have "generate_topology (new_graph n) t [] = Some g"
  proof -
    have "\<not> n < 2" using n(1) by simp
    moreover have "map ?w [0..<unat n] \<noteq> []" using n2 by auto
    moreover have "unat n \<le> counter_limit t" using unat_u16_less [of n] by (cases t) (simp_all add: less_imp_le)
    ultimately show ?thesis
      using g(1) ring by (auto simp: generate_topology_def g0 topology_edges_map Let_def)
  qed
  ultimately show ?thesis using wf g(2) by blast
qed

section \<open>Properties\<close>

text \<open>
  C40: On a new graph of at least two vertices (three for a ring) every topology can be generated,
  and the neighbours of a vertex are exactly those of the line, ring, star or full mesh on the
  vertex numbers, each once.
\<close>

theorem generate_topology_adjacency:
  assumes "2 \<le> n" and "t = RING \<Longrightarrow> 2 < n"
  shows "\<exists>g. generate_topology (new_graph n) t [] = Some g \<and> num_nodes g = n
    \<and> (\<forall>i < unat n. distinct (topology g ! i)
         \<and> unat ` set (topology g ! i) = {j. j < unat n \<and> linked t (unat n) i j})"
proof -
  obtain g where g: "generate_topology (new_graph n) t [] = Some g" "graph_wf g" "num_nodes g = n"
    "\<forall>i < unat n. unat ` set (topology g ! i) = {j. j < unat n \<and> linked t (unat n) i j}"
    using generate_topology_new [OF assms] by blast
  have "distinct (topology g ! i)" if "i < unat n" for i
  proof -
    have "unat (of_nat i :: u16) = i"
      using less_trans [OF that unat_u16_less] by (simp add: unat_of_nat)
    then show ?thesis
      using graph_wfD(1) [OF g(2), of "of_nat i"] that g(3) by (simp add: word_less_nat_alt)
  qed
  with g show ?thesis by blast
qed

theorem generate_topology_adjacency_witness:
  "\<exists>g. generate_topology (new_graph 4) RING [] = Some g \<and> num_nodes g = 4
    \<and> (\<forall>i < unat (4 :: u16). distinct (topology g ! i)
         \<and> unat ` set (topology g ! i) = {j. j < unat (4 :: u16) \<and> linked RING (unat (4 :: u16)) i j})"
  by (rule generate_topology_adjacency) simp_all

text \<open>
  Every graph operation keeps the graph well formed: adjacency is symmetric and free of
  self-loops and duplicates, every vertex has one link cost per neighbour, and the number of nodes
  is fixed.
\<close>

theorem graph_operations_keep_wf:
  assumes "graph_wf g"
    and "add_edge g src dst = Some g' \<or> generate_topology g t idxs = Some g' \<or> set_mixaddrs g addrs = Some g'"
  shows "graph_wf g'"
  using assms graph_wf_add_edge graph_wf_generate_topology graph_wf_set_mixaddrs by blast

theorem graph_operations_keep_wf_witness:
  "\<exists>g. generate_topology (new_graph 3) STAR [2, 0, 1] = Some g \<and> graph_wf g"
proof -
  have "generate_topology (new_graph 3) STAR [2, 0, 1] \<noteq> None" by code_simp
  then obtain g where "generate_topology (new_graph 3) STAR [2, 0, 1] = Some g" by auto
  with graph_operations_keep_wf [OF graph_wf_new, of 3 undefined undefined g STAR "[2, 0, 1]" "[]"]
  show ?thesis by blast
qed

end
