(* ===== verification/OrchestratorIO.thy ===== *)
theory OrchestratorIO
  imports Payloads Connections Graph
begin

text \<open>
  The orchestrator (class \<open>orchestrator\<close> of framework/orchestrator.h): its state, its environment,
  and how it exchanges messages with one fragment and with all of them
  (\<open>fragment_request_response\<close>, \<open>foreach_fragment_send_generic\<close> and
  \<open>foreach_fragment_recv_generic\<close> of framework/orchestrator.cpp).
\<close>

section \<open>State\<close>

datatype orchestrator_state =
    OS_INIT
  | OS_SETUP_CTRL_PLANE
  | OS_SETUP_PCAP_PLANE
  | OS_CREATE_MIXNET_TOPOLOGY
  | OS_START_ALL_MIXNET_SERVERS
  | OS_START_ALL_MIXNET_CLIENTS
  | OS_RESOLVE_MIXNET_CONNECTIONS
  | OS_START_TESTCASE
  | OS_RUN_TESTCASE
  | OS_END_TESTCASE
  | OS_GRACEFUL_SHUTDOWN
  | OS_FORCEFUL_SHUTDOWN
  | OS_RESET

record fragment_metadata =
  pid :: int
  fd_ctrl :: int
  fd_pcap :: int
  pcap_subscribed :: bool
  server_netaddr :: sockaddr_in
  client_netaddrs :: "sockaddr_in list"

definition new_metadata :: fragment_metadata where
  "new_metadata = \<lparr>pid = - 1, fd_ctrl = - 1, fd_pcap = - 1, pcap_subscribed = False,
     server_netaddr = no_netaddr, client_netaddrs = []\<rparr>"

text \<open>What the orchestrator reads of a test case.\<close>

record testcase =
  tc_graph :: graph
  tc_root_hello_interval_ms :: u32
  tc_reelection_interval_ms :: u32

text \<open>
  The members of the class. \<open>captured\<close> are the calls of the test case's \<open>pcap\<close>. The last members are
  the effects outside the process: the state of the sockets, the processes that were forked, those
  that were killed and those whose shutdown was acknowledged, the descriptors that were closed; and
  the number of answers taken from the environment.
\<close>

record orchestrator =
  fragments :: "fragment_metadata list"
  pcap_thread_run :: bool
  pcap_thread_error :: error_code
  o_msg_ctrl :: buffer
  o_msg_pcap :: buffer
  listen_fd_ctrl :: int
  listen_fd_pcap :: int
  o_state :: orchestrator_state
  o_testcase :: testcase
  is_configured :: bool
  o_autotest_mode :: bool
  timeout_connect_ms :: u64
  timeout_communication_ms :: u64
  captured :: "(u16 \<times> mixnet_packet) list"
  o_net :: sockets
  forked :: "int list"
  killed :: "int list"
  acknowledged :: "int list"
  o_closed :: "int list"
  o_calls :: nat

text \<open>
  A \<open>poll\<close> over all fragments: its result, which descriptors have exactly the event \<open>POLLIN\<close>, and
  the milliseconds to the deadline when the answer has been processed.
\<close>

record poll_answer =
  pa_rc :: int
  pa_ready :: "nat \<Rightarrow> bool"
  pa_timer :: int

text \<open>What the capture thread may change while the control thread is in a call.\<close>

type_synonym capture = "buffer \<times> error_code \<times> (u16 \<times> mixnet_packet) list \<times> sockets"

record orc_env =
  oe_nonblock :: "nat \<Rightarrow> bool option"
  oe_tx :: "nat \<Rightarrow> tx_event list"
  oe_rx :: "nat \<Rightarrow> rx_event list"
  oe_timer :: "nat \<Rightarrow> int"
  oe_polls :: "nat \<Rightarrow> poll_answer list"
  oe_socket :: "nat \<Rightarrow> int \<times> int \<times> bool \<times> bool"
  oe_bind :: "nat \<Rightarrow> bool"
  oe_listen :: "nat \<Rightarrow> bool"
  oe_accept :: "nat \<Rightarrow> accept_event list"
  oe_fork :: "nat \<Rightarrow> nat \<Rightarrow> int"
  oe_peername :: "int \<Rightarrow> sockaddr_in option"
  oe_capture :: "nat \<Rightarrow> fragment_metadata list \<Rightarrow> capture \<Rightarrow> capture"

definition otick :: "orchestrator \<Rightarrow> nat \<times> orchestrator" where
  "otick s = (o_calls s, s\<lparr>o_calls := Suc (o_calls s)\<rparr>)"

section \<open>One fragment\<close>

definition timeout_config :: "u64 \<Rightarrow> config" where
  "timeout_config t = \<lparr>rx_tx_mode = RX_TX_TIMEOUT, timeout = t\<rparr>"

definition send_with_timeout ::
  "bool option \<Rightarrow> buffer \<Rightarrow> u64 \<Rightarrow> error_code \<Rightarrow> tx_event list \<Rightarrow> u8 list progress option" where
  "send_with_timeout nonblock m t e evs =
     send_generic (timeout_config t) nonblock (slice m 0 MAX_MESSAGE_LENGTH) e
       (of_nat MIN_MESSAGE_LENGTH) (of_nat MAX_MESSAGE_LENGTH) evs"

definition recv_with_timeout ::
  "bool option \<Rightarrow> buffer \<Rightarrow> u64 \<Rightarrow> error_code \<Rightarrow> u8 list \<Rightarrow> rx_event list \<Rightarrow> rx progress option" where
  "recv_with_timeout nonblock m t e q evs =
     recv_generic (timeout_config t) nonblock m MAX_MESSAGE_LENGTH e
       (of_nat MIN_MESSAGE_LENGTH) (of_nat MAX_MESSAGE_LENGTH) q evs"

text \<open>The two calls on the control buffer, with what they do to the sockets.\<close>

definition ctrl_send ::
  "orc_env \<Rightarrow> int \<Rightarrow> u64 \<Rightarrow> error_code \<Rightarrow> orchestrator \<Rightarrow> orchestrator progress option" where
  "ctrl_send env fd t e s = do {
     let (k, s1) = otick s;
     r \<leftarrow> send_with_timeout (oe_nonblock env k) (o_msg_ctrl s) t e (oe_tx env k);
     Some (map_progress (\<lambda>bs. s1\<lparr>o_net := transmit fd bs (o_net s)\<rparr>) r)
   }"

definition ctrl_recv ::
  "orc_env \<Rightarrow> int \<Rightarrow> u64 \<Rightarrow> error_code \<Rightarrow> orchestrator \<Rightarrow> orchestrator progress option" where
  "ctrl_recv env fd t e s = do {
     let (k, s1) = otick s;
     r \<leftarrow> recv_with_timeout (oe_nonblock env k) (o_msg_ctrl s) t e (rxq (o_net s) fd) (oe_rx env k);
     Some (map_progress (\<lambda>x. s1\<lparr>o_msg_ctrl := rx_mem x,
       o_net := (o_net s)\<lparr>rxq := (rxq (o_net s))(fd := rx_queue x)\<rparr>\<rparr>) r)
   }"

definition fragment_request_response ::
  "orc_env \<Rightarrow> u16 \<Rightarrow> message_type \<Rightarrow> (buffer \<Rightarrow> buffer option) \<Rightarrow> orchestrator
    \<Rightarrow> orchestrator progress option" where
  "fragment_request_response env fid t fill s = do {
     m \<leftarrow> fill (orchestrator_prepare_header fid t (o_msg_ctrl s));
     m1 \<leftarrow> finalize m;
     if \<not> unat fid < length (fragments s) then None
     else let fd = fd_ctrl (fragments s ! unat fid); T = timeout_communication_ms s
       in die_on_error (ctrl_send env fd T CTRL_CONNECTION_BROKEN (s\<lparr>o_msg_ctrl := m1\<rparr>))
         (\<lambda>s1. die_on_error (ctrl_recv env fd T CTRL_CONNECTION_BROKEN s1)
           (\<lambda>s2. do {
              ec \<leftarrow> orchestrator_check_header (o_msg_ctrl s2) True fid t;
              Some (Return ec s2)
            }))
   }"

section \<open>Requests to all fragments\<close>

text \<open>
  The loop over the descriptors; \<open>timer\<close> are the milliseconds to the deadline. An error does not end
  it, the first one is returned.
\<close>

definition sends_result :: "error_code \<Rightarrow> u16 \<Rightarrow> error_code" where
  "sends_result ec num_pending =
     (if ec = NONE \<and> num_pending \<noteq> 0 then SEND_REQS_TIMEOUT else ec)"

fun send_each ::
  "orc_env \<Rightarrow> (u16 \<Rightarrow> buffer \<Rightarrow> buffer option) \<Rightarrow> error_code \<Rightarrow> int \<Rightarrow> nat \<Rightarrow> int list \<Rightarrow> u16
    \<Rightarrow> error_code \<Rightarrow> orchestrator \<Rightarrow> orchestrator progress option" where
  "send_each env fill conn timer idx [] num_pending ec s =
     Some (Return (sends_result ec num_pending) s)"
| "send_each env fill conn timer idx (fd # fds) num_pending ec s =
     (if \<not> timer > 0 then Some (Return (sends_result ec num_pending) s)
      else do {
        m \<leftarrow> fill (of_nat idx) (set_fragment_id (of_nat idx) (o_msg_ctrl s));
        m1 \<leftarrow> finalize m;
        r \<leftarrow> ctrl_send env fd (of_int timer) conn (s\<lparr>o_msg_ctrl := m1\<rparr>);
        (case r of
           Waiting s1 \<Rightarrow> Some (Waiting s1)
         | Return ec1 s1 \<Rightarrow>
             send_each env fill conn (oe_timer env (o_calls s1)) (Suc idx) fds (num_pending - 1)
               (if ec = NONE then ec1 else ec) s1)
      })"

definition foreach_fragment_send_generic ::
  "orc_env \<Rightarrow> int list \<Rightarrow> message_type \<Rightarrow> (u16 \<Rightarrow> buffer \<Rightarrow> buffer option) \<Rightarrow> error_code
    \<Rightarrow> orchestrator \<Rightarrow> orchestrator progress option" where
  "foreach_fragment_send_generic env fds t fill conn s =
     send_each env fill conn (sint (timeout_communication_ms s)) 0 fds (of_nat (length fds)) NONE
       (s\<lparr>o_msg_ctrl := orchestrator_prepare_header 0 t (o_msg_ctrl s)\<rparr>)"

definition foreach_fragment_send_ctrl ::
  "orc_env \<Rightarrow> message_type \<Rightarrow> (u16 \<Rightarrow> buffer \<Rightarrow> buffer option) \<Rightarrow> orchestrator
    \<Rightarrow> orchestrator progress option" where
  "foreach_fragment_send_ctrl env t fill s =
     foreach_fragment_send_generic env (map fd_ctrl (fragments s)) t fill CTRL_CONNECTION_BROKEN s"

section \<open>Responses from all fragments\<close>

text \<open>The lambda of a response reads the payload and updates the orchestrator.\<close>

type_synonym response_handler = "u16 \<Rightarrow> buffer \<Rightarrow> orchestrator \<Rightarrow> (error_code \<times> orchestrator) option"

text \<open>The local variables of the loop: the descriptors of the \<open>pollfd\<close> array, the first error, the
  number of pending responses.\<close>

record collecting =
  pfds :: "int list"
  first_error :: error_code
  num_pending :: nat

definition receive_from ::
  "orc_env \<Rightarrow> bool \<Rightarrow> int list \<Rightarrow> message_type \<Rightarrow> response_handler \<Rightarrow> error_code \<Rightarrow> int \<Rightarrow> nat
    \<Rightarrow> orchestrator \<Rightarrow> orchestrator progress option" where
  "receive_from env check_ids fds t handle conn timer idx s =
     die_on_error (ctrl_recv env (fds ! idx) (of_int timer) conn s)
       (\<lambda>s1. do {
          ec \<leftarrow> orchestrator_check_header (o_msg_ctrl s1) check_ids (of_nat idx) t;
          if ec \<noteq> NONE then Some (Return ec s1)
          else map_option (\<lambda>(e, s2). Return e s2) (handle (of_nat idx) (o_msg_ctrl s1) s1)
        })"

definition answered :: "nat \<Rightarrow> error_code \<Rightarrow> collecting \<Rightarrow> collecting" where
  "answered idx ec c =
     c\<lparr>pfds := (pfds c)[idx := - 1], num_pending := num_pending c - 1,
       first_error := (if first_error c = NONE then ec else first_error c)\<rparr>"

fun receive_ready ::
  "(nat \<Rightarrow> orchestrator \<Rightarrow> orchestrator progress option) \<Rightarrow> (nat \<Rightarrow> bool) \<Rightarrow> nat list
    \<Rightarrow> collecting \<times> orchestrator \<Rightarrow> (collecting \<times> orchestrator) progress option" where
  "receive_ready recv ready [] (c, s) = Some (Return NONE (c, s))"
| "receive_ready recv ready (idx # idxs) (c, s) =
     (if ready idx \<and> pfds c ! idx > 0
      then do {
        r \<leftarrow> recv idx s;
        (case r of
           Waiting s1 \<Rightarrow> Some (Waiting (c, s1))
         | Return ec s1 \<Rightarrow> receive_ready recv ready idxs (answered idx ec c, s1))
      }
      else receive_ready recv ready idxs (c, s))"

definition collected :: "collecting \<times> orchestrator \<Rightarrow> orchestrator progress" where
  "collected x =
     Return (if first_error (fst x) = NONE \<and> num_pending (fst x) \<noteq> 0 then RECV_WAIT_TIMEOUT
             else first_error (fst x)) (snd x)"

fun receive_polls ::
  "(int \<Rightarrow> nat \<Rightarrow> orchestrator \<Rightarrow> orchestrator progress option) \<Rightarrow> poll_answer list \<Rightarrow> int
    \<Rightarrow> collecting \<times> orchestrator \<Rightarrow> orchestrator progress option" where
  "receive_polls recv [] timer (c, s) =
     Some (if num_pending c \<noteq> 0 \<and> timer > 0 then Waiting s else collected (c, s))"
| "receive_polls recv (p # ps) timer (c, s) =
     (if \<not> (num_pending c \<noteq> 0 \<and> timer > 0) then Some (collected (c, s))
      else if pa_rc p = 0 then Some (collected (c, s))
      else if pa_rc p > 0 then
        (if \<not> nat (pa_rc p) \<le> num_pending c then None
         else do {
           r \<leftarrow> receive_ready (recv timer) (pa_ready p) [0..<length (pfds c)] (c, s);
           (case r of
              Waiting x \<Rightarrow> Some (Waiting (snd x))
            | Return _ x \<Rightarrow> receive_polls recv ps (pa_timer p) x)
         })
      else receive_polls recv ps (pa_timer p) (c, s))"

definition foreach_fragment_recv_generic ::
  "orc_env \<Rightarrow> bool \<Rightarrow> int list \<Rightarrow> message_type \<Rightarrow> response_handler \<Rightarrow> error_code
    \<Rightarrow> orchestrator \<Rightarrow> orchestrator progress option" where
  "foreach_fragment_recv_generic env check_ids fds t handle conn s =
     (let (k, s1) = otick s
      in receive_polls (receive_from env check_ids fds t handle conn) (oe_polls env k)
           (sint (timeout_communication_ms s))
           (\<lparr>pfds = fds, first_error = NONE, num_pending = length fds\<rparr>, s1))"

definition foreach_fragment_recv_ctrl ::
  "orc_env \<Rightarrow> message_type \<Rightarrow> response_handler \<Rightarrow> orchestrator \<Rightarrow> orchestrator progress option" where
  "foreach_fragment_recv_ctrl env t handle s =
     foreach_fragment_recv_generic env True (map fd_ctrl (fragments s)) t handle
       CTRL_CONNECTION_BROKEN s"

definition acknowledge :: response_handler where
  "acknowledge idx m s = Some (NONE, s)"

definition empty_request :: "u16 \<Rightarrow> buffer \<Rightarrow> buffer option" where
  "empty_request idx m = Some m"

end
