(* ===== verification/Orchestrator.thy ===== *)
theory Orchestrator
  imports OrchestratorIO
begin

text \<open>
  The states of the orchestrator (the \<open>run_state_\<close> methods with their lambdas, and the cleaning up of
  sockets and processes; framework/orchestrator.cpp).

  A method returns an error code, waits (a call does not return), or is \<open>None\<close> on a failed
  \<open>assert\<close> and on undefined behaviour.
\<close>

section \<open>Cleaning up\<close>

definition metadata_fds :: "fragment_metadata \<Rightarrow> int list" where
  "metadata_fds d = filter (\<lambda>fd. fd \<noteq> - 1) [fd_ctrl d, fd_pcap d]"

definition destroy_sockets :: "orchestrator \<Rightarrow> orchestrator" where
  "destroy_sockets s = s\<lparr>o_closed := o_closed s @ concat (map metadata_fds (fragments s))
     @ filter (\<lambda>fd. fd \<noteq> - 1) [listen_fd_pcap s, listen_fd_ctrl s]\<rparr>"

definition destroy_fragments :: "orchestrator \<Rightarrow> orchestrator" where
  "destroy_fragments s = s\<lparr>killed := killed s @ filter (\<lambda>p. p \<noteq> - 1) (map pid (fragments s))\<rparr>"

section \<open>Setup of the overlays\<close>

definition PORT_LISTEN_CTRL :: u16 where
  "PORT_LISTEN_CTRL = 9107"

definition PORT_LISTEN_PCAP :: u16 where
  "PORT_LISTEN_PCAP = 9108"

text \<open>The port of an address has its bytes in network order.\<close>

definition htons :: "u16 \<Rightarrow> u16" where
  "htons x = push_bit 8 x + drop_bit 8 x"

definition listen_netaddr :: "u16 \<Rightarrow> sockaddr_in" where
  "listen_netaddr port = \<lparr>sin_family = AF_INET, sin_port = htons port, s_addr = 0\<rparr>"

definition graph_of :: "orchestrator \<Rightarrow> graph" where
  "graph_of s = tc_graph (o_testcase s)"

definition run_state_init :: "orchestrator \<Rightarrow> orchestrator progress option" where
  "run_state_init s =
     (if o_state s = OS_INIT \<and> fragments s = [] then Some (Return NONE s) else None)"

text \<open>The server of a plane: the result and its descriptor.\<close>

definition listen_on ::
  "orc_env \<Rightarrow> nat \<Rightarrow> u16 \<Rightarrow> int \<Rightarrow> u16 \<Rightarrow> error_code \<times> int" where
  "listen_on env k port fd0 n =
     server_setup fd0 (sin_port (listen_netaddr port)) (int (unat n)) (open_fd True False (oe_socket env k))
       (oe_bind env k) True (oe_listen env k)"

text \<open>
  The accept thread of a plane. It is joined without being told to stop, or told to stop after an
  error; then the environment says when it sees that.
\<close>

definition undisturbed :: "accept_event list \<Rightarrow> accept_event list" where
  "undisturbed evs = map (\<lambda>e. e\<lparr>keep_running := True\<rparr>) evs"

definition joined ::
  "orchestrator \<Rightarrow> u16 \<Rightarrow> accept_event list \<Rightarrow> (accept_args \<Rightarrow> orchestrator progress option)
    \<Rightarrow> orchestrator progress option" where
  "joined s n evs k = do {
     a \<leftarrow> server_accept evs (init_accept_args True (timeout_connect_ms s) n);
     if acc_done a then k a else Some (Waiting s)
   }"

definition accepted_all :: "u16 \<Rightarrow> accept_args \<Rightarrow> error_code" where
  "accepted_all n a =
     (if acc_rc a \<noteq> 0 then SOCKET_ACCEPT_FAILED
      else if num_accepted a \<noteq> n then SOCKET_ACCEPT_TIMEOUT
      else NONE)"

text \<open>
  The fragment processes, forked in order until a \<open>fork\<close> fails. The process in which it returns 0
  leaves this program (\<open>execv\<close>, or \<open>exit\<close> when that fails).
\<close>

fun fork_fragments :: "(nat \<Rightarrow> int) \<Rightarrow> nat list \<Rightarrow> orchestrator \<Rightarrow> (bool \<times> orchestrator) option" where
  "fork_fragments fork [] s = Some (True, s)"
| "fork_fragments fork (idx # idxs) s =
     (if fork idx < 0 then Some (False, s)
      else if fork idx = 0 then None
      else fork_fragments fork idxs
        (s\<lparr>fragments := fragments s @ [new_metadata\<lparr>pid := fork idx\<rparr>],
           forked := forked s @ [fork idx]\<rparr>))"

definition set_metadata ::
  "nat \<Rightarrow> (fragment_metadata \<Rightarrow> fragment_metadata) \<Rightarrow> orchestrator \<Rightarrow> orchestrator" where
  "set_metadata i g s = s\<lparr>fragments := (fragments s)[i := g (fragments s ! i)]\<rparr>"

text \<open>
  The first message of a connection: the connection belongs to the fragment with the process
  identifier in the message, in manual mode to the next one in the order of acceptance.
\<close>

definition claim_fragment :: "int \<Rightarrow> nat \<Rightarrow> orchestrator \<Rightarrow> (error_code \<times> orchestrator) option" where
  "claim_fragment fd i s =
     (if \<not> i < length (fragments s) then None
      else if fd_ctrl (fragments s ! i) \<noteq> - 1 then Some (FRAGMENT_EXCEPTION, s)
      else Some (NONE, set_metadata i (\<lambda>d. d\<lparr>fd_ctrl := fd\<rparr>) s))"

definition claim_ctrl :: "int list \<Rightarrow> response_handler" where
  "claim_ctrl fds idx m s =
     (let fd = fds ! unat idx
      in if o_autotest_mode s
         then let i = index_of (sint (get_setup_ctrl_response m)) (map pid (fragments s))
           in if i < length (fragments s) then claim_fragment fd i s
              else Some (FRAGMENT_EXCEPTION, s)
         else claim_fragment fd (unat idx) s)"

definition start_fragments :: "orc_env \<Rightarrow> nat \<Rightarrow> u16 \<Rightarrow> orchestrator \<Rightarrow> (bool \<times> orchestrator) option" where
  "start_fragments env k n s =
     (if o_autotest_mode s then fork_fragments (oe_fork env k) [0..<unat n] s
      else Some (True, s\<lparr>fragments := replicate (unat n) new_metadata\<rparr>))"

text \<open>After the accept thread has ended: the results of the setup, then the handshake.\<close>

definition ctrl_handshake ::
  "orc_env \<Rightarrow> u16 \<Rightarrow> bool \<Rightarrow> orchestrator \<Rightarrow> accept_args \<Rightarrow> orchestrator progress option" where
  "ctrl_handshake env n success s a =
     (if \<not> success then Some (Return FORK_FAILED s)
      else if accepted_all n a \<noteq> NONE then Some (Return (accepted_all n a) s)
      else let fds = map connection_fd (take (length (fragments s)) (states a))
        in die_on_error
          (foreach_fragment_recv_generic env False fds MSG_SETUP_CTRL (claim_ctrl fds)
             CTRL_CONNECTION_BROKEN s)
          (\<lambda>s1. foreach_fragment_send_ctrl env MSG_SETUP_CTRL
             (\<lambda>_ m. Some (put_setup_ctrl_request (o_autotest_mode s1) m)) s1))"

definition orc_setup_ctrl :: "orc_env \<Rightarrow> orchestrator \<Rightarrow> orchestrator progress option" where
  "orc_setup_ctrl env s =
     (if \<not> (o_state s = OS_SETUP_CTRL_PLANE \<and> fragments s = []) then None
      else let n = num_nodes (graph_of s);
               (k, s0) = otick s;
               (ec, fd) = listen_on env k PORT_LISTEN_CTRL (listen_fd_ctrl s) n;
               s1 = s0\<lparr>listen_fd_ctrl := fd\<rparr>
        in if ec \<noteq> NONE then Some (Return ec s1)
           else do {
             (success, s2) \<leftarrow> start_fragments env k n s1;
             joined s2 n (undisturbed (oe_accept env k)) (ctrl_handshake env n success s2)
           })"

text \<open>The macro \<open>DIE_DURING_ACCEPT\<close>.\<close>

definition die_joining ::
  "orc_env \<Rightarrow> nat \<Rightarrow> u16 \<Rightarrow> orchestrator progress option
    \<Rightarrow> (orchestrator \<Rightarrow> orchestrator progress option) \<Rightarrow> orchestrator progress option" where
  "die_joining env k n m cont =
     (case m of
        None \<Rightarrow> None
      | Some (Waiting s) \<Rightarrow> Some (Waiting s)
      | Some (Return ec s) \<Rightarrow>
          if ec \<noteq> NONE then joined s n (oe_accept env k) (\<lambda>_. Some (Return ec s)) else cont s)"

definition claim_pcap :: "int list \<Rightarrow> response_handler" where
  "claim_pcap fds idx m s =
     (let i = unat (get_fragment_id m)
      in if i \<ge> length (fragments s) then Some (BAD_FRAGMENT_ID, s)
         else if fd_pcap (fragments s ! i) \<noteq> - 1 then Some (BAD_FRAGMENT_ID, s)
         else Some (NONE, set_metadata i (\<lambda>d. d\<lparr>fd_pcap := fds ! unat idx\<rparr>) s))"

definition pcap_handshake ::
  "orc_env \<Rightarrow> u16 \<Rightarrow> orchestrator \<Rightarrow> accept_args \<Rightarrow> orchestrator progress option" where
  "pcap_handshake env n s a =
     (if accepted_all n a \<noteq> NONE then Some (Return (accepted_all n a) s)
      else if \<not> length (fragments s) \<le> length (states a) then None
      else let fds = map connection_fd (take (length (fragments s)) (states a))
        in die_on_error
          (foreach_fragment_recv_generic env False fds MSG_SETUP_PCAP (claim_pcap fds)
             PCAP_CONNECTION_BROKEN s)
          (\<lambda>s1. foreach_fragment_send_generic env (map fd_pcap (fragments s1))
             MSG_SETUP_PCAP empty_request PCAP_CONNECTION_BROKEN s1))"

definition orc_setup_pcap :: "orc_env \<Rightarrow> orchestrator \<Rightarrow> orchestrator progress option" where
  "orc_setup_pcap env s =
     (if o_state s \<noteq> OS_SETUP_PCAP_PLANE then None
      else let n = num_nodes (graph_of s);
               (k, s0) = otick s;
               (ec, fd) = listen_on env k PORT_LISTEN_PCAP (listen_fd_pcap s) n;
               s1 = s0\<lparr>listen_fd_pcap := fd\<rparr>
        in if ec \<noteq> NONE then Some (Return ec s1)
           else die_joining env k n
             (foreach_fragment_send_ctrl env MSG_SETUP_PCAP
                (\<lambda>_ m. Some (put_netaddr (listen_netaddr PORT_LISTEN_PCAP) m)) s1)
             (\<lambda>s2. die_joining env k n
               (foreach_fragment_recv_ctrl env MSG_SETUP_PCAP acknowledge s2)
               (\<lambda>s3. joined s3 n (undisturbed (oe_accept env k)) (pcap_handshake env n s3))))"

section \<open>Topology and Mixnet connections\<close>

definition topology_fill :: "testcase \<Rightarrow> u16 \<Rightarrow> buffer \<Rightarrow> buffer option" where
  "topology_fill tc idx m =
     (let g = tc_graph tc
      in if \<not> (unat idx < length (nodes g) \<and> unat idx < length (topology g)) then None
         else let nd = nodes g ! unat idx; deg = length (topology g ! unat idx)
           in if \<not> deg \<le> length (gn_link_costs nd) then None
              else put_topology \<lparr>tr_mixaddr = gn_mixaddr nd, tr_num_neighbors = of_nat deg,
                  tr_do_random_routing = gn_do_random_routing nd,
                  tr_mixing_factor = gn_mixing_factor nd,
                  tr_root_hello_interval_ms = tc_root_hello_interval_ms tc,
                  tr_reelection_interval_ms = tc_reelection_interval_ms tc,
                  tr_link_costs = take deg (gn_link_costs nd)\<rparr> m)"

definition orc_create_topology :: "orc_env \<Rightarrow> orchestrator \<Rightarrow> orchestrator progress option" where
  "orc_create_topology env s =
     (if o_state s \<noteq> OS_CREATE_MIXNET_TOPOLOGY then None
      else die_on_error
        (foreach_fragment_send_ctrl env MSG_TOPOLOGY (topology_fill (o_testcase s)) s)
        (foreach_fragment_recv_ctrl env MSG_TOPOLOGY acknowledge))"

definition valid_netaddr :: "sockaddr_in \<Rightarrow> bool" where
  "valid_netaddr a \<longleftrightarrow> \<not> (sin_family a \<noteq> AF_INET \<or> s_addr a = 0 \<or> sin_port a = 0)"

text \<open>A server's port comes from the fragment, its address from the connection to the fragment.\<close>

definition store_server :: "orc_env \<Rightarrow> u16 list list \<Rightarrow> response_handler" where
  "store_server env topo idx m s =
     (let i = unat idx
      in if \<not> (i < length topo \<and> i < length (fragments s)) then None
         else if topo ! i = [] then Some (NONE, s)
         else do {
           a \<leftarrow> get_netaddr m;
           if \<not> valid_netaddr a then Some (FRAGMENT_INVALID_SADDR, s)
           else (case oe_peername env (fd_ctrl (fragments s ! i)) of
               None \<Rightarrow> Some (SOCKET_OPTIONS_FAILED, s)
             | Some base \<Rightarrow>
                 Some (NONE, set_metadata i (\<lambda>d. d\<lparr>server_netaddr := a\<lparr>s_addr := s_addr base\<rparr>\<rparr>) s))
         })"

definition orc_start_server :: "orc_env \<Rightarrow> orchestrator \<Rightarrow> orchestrator progress option" where
  "orc_start_server env s =
     (if o_state s \<noteq> OS_START_ALL_MIXNET_SERVERS then None
      else die_on_error (foreach_fragment_send_ctrl env MSG_START_MIXNET_SERVER empty_request s)
        (foreach_fragment_recv_ctrl env MSG_START_MIXNET_SERVER
           (store_server env (topology (graph_of s)))))"

text \<open>Elements at positions that are all in range.\<close>

definition nths_at :: "'a list \<Rightarrow> nat list \<Rightarrow> 'a list option" where
  "nths_at xs is = (if \<forall>i\<in>set is. i < length xs then Some (map ((!) xs) is) else None)"

definition servers_fill ::
  "u16 list list \<Rightarrow> fragment_metadata list \<Rightarrow> u16 \<Rightarrow> buffer \<Rightarrow> buffer option" where
  "servers_fill topo ds idx m = do {
     ns \<leftarrow> (if unat idx < length topo then Some (topo ! unat idx) else None);
     nds \<leftarrow> nths_at ds (map unat ns);
     put_netaddrs (of_nat (length ns)) (map server_netaddr nds) m
   }"

fun store_clients ::
  "nat \<Rightarrow> buffer \<Rightarrow> nat \<Rightarrow> nat \<Rightarrow> orchestrator \<Rightarrow> (error_code \<times> orchestrator) option" where
  "store_clients i m nid 0 s = Some (NONE, s)"
| "store_clients i m nid (Suc n) s = do {
     a \<leftarrow> get_elem dec_sockaddr_in sizeof_sockaddr_in (sizeof_header + 8 + sizeof_sockaddr_in * nid) m;
     if \<not> valid_netaddr a then Some (FRAGMENT_INVALID_CADDR, s)
     else store_clients i m (Suc nid) n
       (set_metadata i (\<lambda>d. d\<lparr>client_netaddrs := client_netaddrs d @ [a]\<rparr>) s)
   }"

definition clients_of_response :: "u16 list list \<Rightarrow> response_handler" where
  "clients_of_response topo idx m s =
     (let i = unat idx
      in if \<not> (i < length topo \<and> i < length (fragments s)) then None
         else if unat (get_num_neighbors m) \<noteq> length (topo ! i)
         then Some (FRAGMENT_BAD_NEIGHBOR_COUNT, s)
         else store_clients i m 0 (length (topo ! i)) s)"

definition orc_start_clients :: "orc_env \<Rightarrow> orchestrator \<Rightarrow> orchestrator progress option" where
  "orc_start_clients env s =
     (if o_state s \<noteq> OS_START_ALL_MIXNET_CLIENTS then None
      else let topo = topology (graph_of s)
        in die_on_error
          (foreach_fragment_send_ctrl env MSG_START_MIXNET_CLIENTS
             (servers_fill topo (fragments s)) s)
          (foreach_fragment_recv_ctrl env MSG_START_MIXNET_CLIENTS (clients_of_response topo)))"

text \<open>
  The address from which a neighbour communicates with the node \<open>idx\<close>: the client address of the
  neighbour at the position of the node in the neighbour's list.
\<close>

definition client_towards ::
  "u16 list list \<Rightarrow> fragment_metadata list \<Rightarrow> u16 \<Rightarrow> u16 \<Rightarrow> sockaddr_in option" where
  "client_towards topo ds idx nb =
     (if unat nb < length topo \<and> unat nb < length ds
      then let j = index_of idx (topo ! unat nb); as = client_netaddrs (ds ! unat nb)
        in if j < length (topo ! unat nb) \<and> j < length as then Some (as ! j) else None
      else None)"

fun clients_towards ::
  "u16 list list \<Rightarrow> fragment_metadata list \<Rightarrow> u16 \<Rightarrow> u16 list \<Rightarrow> sockaddr_in list option" where
  "clients_towards topo ds idx [] = Some []"
| "clients_towards topo ds idx (nb # nbs) = do {
     a \<leftarrow> client_towards topo ds idx nb;
     as \<leftarrow> clients_towards topo ds idx nbs;
     Some (a # as)
   }"

definition resolve_fill ::
  "u16 list list \<Rightarrow> fragment_metadata list \<Rightarrow> u16 \<Rightarrow> buffer \<Rightarrow> buffer option" where
  "resolve_fill topo ds idx m = do {
     ns \<leftarrow> (if unat idx < length topo then Some (topo ! unat idx) else None);
     as \<leftarrow> clients_towards topo ds idx ns;
     put_netaddrs (of_nat (length ns)) as m
   }"

definition orc_resolve :: "orc_env \<Rightarrow> orchestrator \<Rightarrow> orchestrator progress option" where
  "orc_resolve env s =
     (if o_state s \<noteq> OS_RESOLVE_MIXNET_CONNECTIONS then None
      else die_on_error
        (foreach_fragment_send_ctrl env MSG_RESOLVE_MIXNET_CONNS
           (resolve_fill (topology (graph_of s)) (fragments s)) s)
        (foreach_fragment_recv_ctrl env MSG_RESOLVE_MIXNET_CONNS acknowledge))"

definition orc_start_testcase :: "orc_env \<Rightarrow> orchestrator \<Rightarrow> orchestrator progress option" where
  "orc_start_testcase env s =
     (if o_state s \<noteq> OS_START_TESTCASE then None
      else die_on_error (foreach_fragment_send_ctrl env MSG_START_TESTCASE empty_request s)
        (foreach_fragment_recv_ctrl env MSG_START_TESTCASE acknowledge))"

definition orc_end_testcase :: "orc_env \<Rightarrow> orchestrator \<Rightarrow> orchestrator progress option" where
  "orc_end_testcase env s =
     (if o_state s \<noteq> OS_END_TESTCASE then None
      else die_on_error (foreach_fragment_send_ctrl env MSG_END_TESTCASE empty_request s)
        (foreach_fragment_recv_ctrl env MSG_END_TESTCASE acknowledge))"

section \<open>Shutdown\<close>

text \<open>The process identifier of a fragment that acknowledges its shutdown is forgotten.\<close>

definition release_fragment :: response_handler where
  "release_fragment idx m s =
     (if \<not> unat idx < length (fragments s) then None
      else Some (NONE, set_metadata (unat idx) (\<lambda>d. d\<lparr>pid := - 1\<rparr>)
             (s\<lparr>acknowledged := acknowledged s @ [pid (fragments s ! unat idx)]\<rparr>)))"

definition orc_graceful_shutdown :: "orc_env \<Rightarrow> orchestrator \<Rightarrow> orchestrator progress option" where
  "orc_graceful_shutdown env s =
     (if o_state s \<noteq> OS_GRACEFUL_SHUTDOWN then None
      else case foreach_fragment_send_ctrl env MSG_SHUTDOWN empty_request s of
          None \<Rightarrow> None
        | Some (Waiting s1) \<Rightarrow> Some (Waiting s1)
        | Some (Return ec s1) \<Rightarrow> foreach_fragment_recv_ctrl env MSG_SHUTDOWN release_fragment s1)"

definition orc_forceful_shutdown :: "orchestrator \<Rightarrow> orchestrator option" where
  "orc_forceful_shutdown s =
     (if o_state s = OS_FORCEFUL_SHUTDOWN then Some (destroy_fragments s) else None)"

definition orc_reset :: "orchestrator \<Rightarrow> orchestrator option" where
  "orc_reset s =
     (if o_state s = OS_RESET
      then Some ((destroy_sockets s)\<lparr>pcap_thread_error := NONE, pcap_thread_run := True,
             listen_fd_ctrl := - 1, listen_fd_pcap := - 1, fragments := []\<rparr>)
      else None)"

end
