(* ===== verification/OrchestratorRun.thy ===== *)
theory OrchestratorRun
  imports Orchestrator
begin

text \<open>
  The run of a test case: the operations the test case calls, the capture thread, and the main loop
  of the orchestrator (framework/orchestrator.cpp, testing/common/testcase.h).
\<close>

section \<open>Operations of the test case\<close>

definition pcap_change_subscription ::
  "orc_env \<Rightarrow> u16 \<Rightarrow> bool \<Rightarrow> orchestrator \<Rightarrow> orchestrator progress option" where
  "pcap_change_subscription env idx subscribe s =
     (if o_state s \<noteq> OS_RUN_TESTCASE then None
      else if \<not> unat idx < length (fragments s) then None
      else if pcap_subscribed (fragments s ! unat idx) = subscribe then Some (Return NONE s)
      else fragment_request_response env idx MSG_PCAP_SUBSCRIPTION
        (\<lambda>m. Some (put_subscription subscribe m))
        (set_metadata (unat idx) (\<lambda>d. d\<lparr>pcap_subscribed := subscribe\<rparr>) s))"

text \<open>The port of a neighbour, if it is one.\<close>

definition port_to :: "u16 list list \<Rightarrow> u16 \<Rightarrow> u16 \<Rightarrow> nat option" where
  "port_to topo a b =
     (let nid = index_of b (topo ! unat a) in if nid < length (topo ! unat a) then Some nid else None)"

definition link_fill :: "nat \<Rightarrow> bool \<Rightarrow> buffer \<Rightarrow> buffer option" where
  "link_fill nid enabled m =
     Some (put_link_state \<lparr>neighbor_id = of_nat nid, link_enabled = enabled\<rparr> m)"

definition change_link_state ::
  "orc_env \<Rightarrow> u16 \<Rightarrow> u16 \<Rightarrow> bool \<Rightarrow> orchestrator \<Rightarrow> orchestrator progress option" where
  "change_link_state env a b enabled s =
     (let topo = topology (graph_of s)
      in if o_state s \<noteq> OS_RUN_TESTCASE then None
         else if \<not> (unat a < length topo \<and> unat b < length topo) then None
         else case (port_to topo a b, port_to topo b a) of
             (Some b_in_a, Some a_in_b) \<Rightarrow>
               die_on_error (fragment_request_response env a MSG_CHANGE_LINK_STATE
                   (link_fill b_in_a enabled) s)
                 (fragment_request_response env b MSG_CHANGE_LINK_STATE (link_fill a_in_b enabled))
           | _ \<Rightarrow> Some (Return BAD_TESTCASE s))"

text \<open>\<open>None\<close> also when \<open>get_node\<close> throws for a node that does not exist.\<close>

definition packet_fill ::
  "graph \<Rightarrow> u16 \<Rightarrow> u16 \<Rightarrow> u16 \<Rightarrow> u8 list \<Rightarrow> buffer \<Rightarrow> buffer option" where
  "packet_fill g src dst ty data m =
     (if \<not> (unat src < length (nodes g) \<and> unat dst < length (nodes g)) then None
      else put_send_packet \<lparr>sp_type = ty, src_mixaddr = gn_mixaddr (nodes g ! unat src),
             dst_mixaddr = gn_mixaddr (nodes g ! unat dst), sp_data = data\<rparr> m)"

definition send_packet ::
  "orc_env \<Rightarrow> u16 \<Rightarrow> u16 \<Rightarrow> u16 \<Rightarrow> u8 list \<Rightarrow> orchestrator \<Rightarrow> orchestrator progress option" where
  "send_packet env src dst ty data s =
     (if o_state s \<noteq> OS_RUN_TESTCASE then None
      else if length data > unat MAX_MIXNET_DATA_SIZE then Some (Return BAD_TESTCASE s)
      else fragment_request_response env src MSG_SEND_PACKET
        (packet_fill (graph_of s) src dst ty data) s)"

section \<open>The capture thread\<close>

text \<open>
  An iteration: whether the thread is still to run, the subscriptions it reads, the result of \<open>poll\<close>
  and which descriptors have the event \<open>POLLIN\<close>, and for the receive from a fragment what \<open>fcntl\<close>
  and \<open>recv\<close> answer.
\<close>

record capture_event =
  ce_running :: bool
  ce_subscribed :: "nat \<Rightarrow> bool"
  ce_poll_rc :: int
  ce_ready :: "nat \<Rightarrow> bool"
  ce_nonblock :: "nat \<Rightarrow> bool option"
  ce_rx :: "nat \<Rightarrow> rx_event list"

definition PCAP_POLL_TIMEOUT_MS :: u64 where
  "PCAP_POLL_TIMEOUT_MS = 50"

text \<open>The packet in the payload of a capture message: the memory of the buffer at its place.\<close>

definition captured_packet :: "buffer \<Rightarrow> mixnet_packet option" where
  "captured_packet m =
     (let size = get_u16 sizeof_header m
      in if sizeof_header + unat size \<le> MAX_MESSAGE_LENGTH
         then packet_of_bytes (slice m sizeof_header (max sizeof_mixnet_packet (unat size)))
         else None)"

definition capture_recv ::
  "capture_event \<Rightarrow> nat \<Rightarrow> orchestrator \<Rightarrow> orchestrator progress option" where
  "capture_recv e i s = do {
     let fd = fd_pcap (fragments s ! i);
     r \<leftarrow> recv_with_timeout (ce_nonblock e i) (o_msg_pcap s) PCAP_POLL_TIMEOUT_MS
            PCAP_CONNECTION_BROKEN (rxq (o_net s) fd) (ce_rx e i);
     Some (map_progress (\<lambda>x. s\<lparr>o_msg_pcap := rx_mem x,
       o_net := (o_net s)\<lparr>rxq := (rxq (o_net s))(fd := rx_queue x)\<rparr>\<rparr>) r)
   }"

text \<open>A packet is handed to the test case after its checks.\<close>

definition deliver_capture :: "nat \<Rightarrow> orchestrator \<Rightarrow> (error_code \<times> orchestrator) option" where
  "deliver_capture i s = do {
     ec \<leftarrow> orchestrator_check_header (o_msg_pcap s) True (of_nat i) MSG_PCAP_DATA;
     if ec \<noteq> NONE then Some (ec, s)
     else if get_u16 sizeof_header (o_msg_pcap s) > MAX_MIXNET_PACKET_SIZE
     then Some (MIXNET_BAD_PACKET_SIZE, s)
     else do {
       p \<leftarrow> captured_packet (o_msg_pcap s);
       Some (NONE, s\<lparr>captured := captured s @ [(get_fragment_id (o_msg_pcap s), p)]\<rparr>)
     }
   }"

text \<open>The fragments in order, until an error that is not an empty socket.\<close>

fun capture_ready ::
  "capture_event \<Rightarrow> nat list \<Rightarrow> error_code \<Rightarrow> orchestrator \<Rightarrow> orchestrator progress option" where
  "capture_ready e [] ec s = Some (Return ec s)"
| "capture_ready e (i # is) ec s =
     (if \<not> (ce_ready e i \<and> ce_subscribed e i) then capture_ready e is ec s
      else do {
        r \<leftarrow> capture_recv e i s;
        (case r of
           Waiting s1 \<Rightarrow> Some (Waiting s1)
         | Return ec1 s1 \<Rightarrow>
             if ec1 = NONE
             then do {
               (ec2, s2) \<leftarrow> deliver_capture i s1;
               if ec2 \<noteq> NONE then Some (Return ec2 s2) else capture_ready e is NONE s2
             }
             else if ec1 = RECV_ZERO_PENDING then capture_ready e is NONE s1
             else Some (Return ec1 s1))
      })"

fun pcap_thread_loop ::
  "capture_event list \<Rightarrow> error_code \<Rightarrow> orchestrator \<Rightarrow> orchestrator progress option" where
  "pcap_thread_loop [] ec s = Some (Waiting s)"
| "pcap_thread_loop (e # es) ec s =
     (if \<not> (ce_running e \<and> ec = NONE) then Some (Return ec s)
      else do {
        r \<leftarrow> capture_ready e [0..<length (fragments s)]
               (if ce_poll_rc e < 0 then POLL_ERROR else ec) s;
        (case r of
           Waiting s1 \<Rightarrow> Some (Waiting s1)
         | Return ec1 s1 \<Rightarrow> pcap_thread_loop es ec1 (s1\<lparr>pcap_thread_error := ec1\<rparr>))
      })"

section \<open>Running a test case\<close>

text \<open>
  What a test case does in its \<open>run\<close>: a call, and how it goes on with the result, until it returns.
  Waiting is between two calls.
\<close>

datatype api_call =
    Change_subscription u16 bool
  | Change_link_state u16 u16 bool
  | Send_packet u16 u16 u16 "u8 list"

datatype script = Finish error_code | Call api_call "error_code \<Rightarrow> script"

fun api :: "orc_env \<Rightarrow> api_call \<Rightarrow> orchestrator \<Rightarrow> orchestrator progress option" where
  "api env (Change_subscription i v) s = pcap_change_subscription env i v s"
| "api env (Change_link_state a b v) s = change_link_state env a b v s"
| "api env (Send_packet a b ty data) s = send_packet env a b ty data s"

text \<open>The capture thread runs while the test case waits.\<close>

definition let_capture_run :: "orc_env \<Rightarrow> orchestrator \<Rightarrow> orchestrator" where
  "let_capture_run env s =
     (let (k, s1) = otick s;
          (m, ec, cs, n) = oe_capture env k (fragments s1)
            (o_msg_pcap s1, pcap_thread_error s1, captured s1, o_net s1)
      in s1\<lparr>o_msg_pcap := m, pcap_thread_error := ec, captured := cs, o_net := n\<rparr>)"

primrec run_script :: "orc_env \<Rightarrow> script \<Rightarrow> orchestrator \<Rightarrow> orchestrator progress option" where
  "run_script env (Finish ec) s = Some (Return ec (let_capture_run env s))"
| "run_script env (Call c next) s =
     (case api env c (let_capture_run env s) of
        None \<Rightarrow> None
      | Some (Waiting s1) \<Rightarrow> Some (Waiting s1)
      | Some (Return ec s1) \<Rightarrow> run_script env (next ec) s1)"

definition orc_run_testcase :: "orc_env \<Rightarrow> script \<Rightarrow> orchestrator \<Rightarrow> orchestrator progress option" where
  "orc_run_testcase env script s =
     map_option (map_progress (\<lambda>s1. let_capture_run env (s1\<lparr>pcap_thread_run := False\<rparr>)))
       (run_script env script s)"

section \<open>The main loop\<close>

text \<open>The state after a state, when it succeeds and when it fails.\<close>

fun next_states :: "orchestrator_state \<Rightarrow> orchestrator_state \<times> orchestrator_state" where
  "next_states OS_INIT = (OS_SETUP_CTRL_PLANE, OS_FORCEFUL_SHUTDOWN)"
| "next_states OS_SETUP_CTRL_PLANE = (OS_SETUP_PCAP_PLANE, OS_FORCEFUL_SHUTDOWN)"
| "next_states OS_SETUP_PCAP_PLANE = (OS_CREATE_MIXNET_TOPOLOGY, OS_GRACEFUL_SHUTDOWN)"
| "next_states OS_CREATE_MIXNET_TOPOLOGY = (OS_START_ALL_MIXNET_SERVERS, OS_GRACEFUL_SHUTDOWN)"
| "next_states OS_START_ALL_MIXNET_SERVERS = (OS_START_ALL_MIXNET_CLIENTS, OS_GRACEFUL_SHUTDOWN)"
| "next_states OS_START_ALL_MIXNET_CLIENTS = (OS_RESOLVE_MIXNET_CONNECTIONS, OS_GRACEFUL_SHUTDOWN)"
| "next_states OS_RESOLVE_MIXNET_CONNECTIONS = (OS_START_TESTCASE, OS_GRACEFUL_SHUTDOWN)"
| "next_states OS_START_TESTCASE = (OS_RUN_TESTCASE, OS_END_TESTCASE)"
| "next_states OS_RUN_TESTCASE = (OS_END_TESTCASE, OS_END_TESTCASE)"
| "next_states OS_END_TESTCASE = (OS_GRACEFUL_SHUTDOWN, OS_GRACEFUL_SHUTDOWN)"
| "next_states OS_GRACEFUL_SHUTDOWN = (OS_RESET, OS_FORCEFUL_SHUTDOWN)"
| "next_states OS_FORCEFUL_SHUTDOWN = (OS_RESET, OS_RESET)"
| "next_states OS_RESET = (OS_RESET, OS_RESET)"

fun run_orc_state :: "orc_env \<Rightarrow> script \<Rightarrow> orchestrator \<Rightarrow> orchestrator progress option" where
  "run_orc_state env script s =
     (case o_state s of
        OS_INIT \<Rightarrow> run_state_init s
      | OS_SETUP_CTRL_PLANE \<Rightarrow> orc_setup_ctrl env s
      | OS_SETUP_PCAP_PLANE \<Rightarrow> orc_setup_pcap env s
      | OS_CREATE_MIXNET_TOPOLOGY \<Rightarrow> orc_create_topology env s
      | OS_START_ALL_MIXNET_SERVERS \<Rightarrow> orc_start_server env s
      | OS_START_ALL_MIXNET_CLIENTS \<Rightarrow> orc_start_clients env s
      | OS_RESOLVE_MIXNET_CONNECTIONS \<Rightarrow> orc_resolve env s
      | OS_START_TESTCASE \<Rightarrow> orc_start_testcase env s
      | OS_RUN_TESTCASE \<Rightarrow> orc_run_testcase env script s
      | OS_END_TESTCASE \<Rightarrow> orc_end_testcase env s
      | OS_GRACEFUL_SHUTDOWN \<Rightarrow> orc_graceful_shutdown env s
      | OS_FORCEFUL_SHUTDOWN \<Rightarrow> map_option (Return NONE) (orc_forceful_shutdown s)
      | OS_RESET \<Rightarrow> map_option (Return NONE) (orc_reset s))"

fun orc_states_left :: "orchestrator_state \<Rightarrow> nat" where
  "orc_states_left OS_INIT = 12"
| "orc_states_left OS_SETUP_CTRL_PLANE = 11"
| "orc_states_left OS_SETUP_PCAP_PLANE = 10"
| "orc_states_left OS_CREATE_MIXNET_TOPOLOGY = 9"
| "orc_states_left OS_START_ALL_MIXNET_SERVERS = 8"
| "orc_states_left OS_START_ALL_MIXNET_CLIENTS = 7"
| "orc_states_left OS_RESOLVE_MIXNET_CONNECTIONS = 6"
| "orc_states_left OS_START_TESTCASE = 5"
| "orc_states_left OS_RUN_TESTCASE = 4"
| "orc_states_left OS_END_TESTCASE = 3"
| "orc_states_left OS_GRACEFUL_SHUTDOWN = 2"
| "orc_states_left OS_FORCEFUL_SHUTDOWN = 1"
| "orc_states_left OS_RESET = 0"

definition next_orc_state :: "orchestrator_state \<Rightarrow> error_code \<Rightarrow> orchestrator_state" where
  "next_orc_state st ec = (if ec = NONE then fst (next_states st) else snd (next_states st))"

lemma next_orc_state_left: "st \<noteq> OS_RESET \<Longrightarrow> orc_states_left (next_orc_state st ec) < orc_states_left st"
  by (cases st) (simp_all add: next_orc_state_def)

text \<open>The loop ends after the state \<open>RESET\<close>; the exit code is the first error.\<close>

function orchestrator_loop ::
  "orc_env \<Rightarrow> script \<Rightarrow> error_code \<Rightarrow> orchestrator \<Rightarrow> orchestrator progress option" where
  "orchestrator_loop env script code s =
     (case run_orc_state env script s of
        None \<Rightarrow> None
      | Some (Waiting s1) \<Rightarrow> Some (Waiting s1)
      | Some (Return ec s1) \<Rightarrow>
          let code1 = (if code = NONE then ec else code);
              s2 = s1\<lparr>o_state := next_orc_state (o_state s) ec\<rparr>
          in if o_state s = OS_RESET then Some (Return code1 s2)
             else orchestrator_loop env script code1 s2)"
  by pat_completeness auto

termination
  by (relation "measure (\<lambda>(env, script, code, s). orc_states_left (o_state s))")
    (auto simp: next_orc_state_left)

declare orchestrator_loop.simps [simp del]

definition orchestrator_run ::
  "orc_env \<Rightarrow> testcase \<Rightarrow> script \<Rightarrow> orchestrator \<Rightarrow> orchestrator progress option" where
  "orchestrator_run env tc script s =
     (if \<not> is_configured s then None
      else orchestrator_loop env script NONE (s\<lparr>o_testcase := tc, o_state := OS_INIT\<rparr>))"

section \<open>Construction and configuration\<close>

definition DEFAULT_WAIT_TIME_MS :: u64 where
  "DEFAULT_WAIT_TIME_MS = 5000"

text \<open>\<open>mem\<close> is what the memory of the two message buffers holds.\<close>

definition new_orchestrator :: "buffer \<times> buffer \<Rightarrow> testcase \<Rightarrow> sockets \<Rightarrow> orchestrator" where
  "new_orchestrator mem tc n =
     \<lparr>fragments = [], pcap_thread_run = True, pcap_thread_error = NONE, o_msg_ctrl = fst mem,
      o_msg_pcap = snd mem, listen_fd_ctrl = - 1, listen_fd_pcap = - 1, o_state = OS_INIT,
      o_testcase = tc, is_configured = False, o_autotest_mode = False,
      timeout_connect_ms = DEFAULT_WAIT_TIME_MS, timeout_communication_ms = DEFAULT_WAIT_TIME_MS,
      captured = [], o_net = n, forked = [], killed = [], acknowledged = [], o_closed = [],
      o_calls = 0\<rparr>"

definition configure :: "bool \<Rightarrow> orchestrator \<Rightarrow> orchestrator" where
  "configure autotest s =
     (let s1 = s\<lparr>o_autotest_mode := autotest\<rparr>;
          s2 = (if \<not> autotest
                then s1\<lparr>timeout_communication_ms := 5000, timeout_connect_ms := 10 * 60 * 1000\<rparr>
                else s1)
      in s2\<lparr>is_configured := True\<rparr>)"

end
