(* ===== verification/OrchestratorCollect.thy ===== *)
theory OrchestratorCollect
  imports OrchestratorRun
begin

text \<open>
  Reasoning about the exchanges of the orchestrator: what an exchange leaves untouched, and the
  contract of a response handler under which collecting the responses handles every fragment
  exactly once.
\<close>

section \<open>Operations that return\<close>

definition returns :: "'s progress option \<Rightarrow> (error_code \<Rightarrow> 's \<Rightarrow> bool) \<Rightarrow> bool" where
  "returns m Q \<longleftrightarrow> (\<forall>ec s. m = Some (Return ec s) \<longrightarrow> Q ec s)"

lemma returns_simps [simp]:
  "returns None Q" "returns (Some (Waiting s)) Q"
  "returns (Some (Return ec s)) Q \<longleftrightarrow> Q ec s"
  by (auto simp: returns_def)

lemma returnsD: "returns m Q \<Longrightarrow> m = Some (Return ec s) \<Longrightarrow> Q ec s"
  by (simp add: returns_def)

lemma returns_weaken: "returns m P \<Longrightarrow> (\<And>ec s. P ec s \<Longrightarrow> Q ec s) \<Longrightarrow> returns m Q"
  by (auto simp: returns_def)

lemma die_on_error_Return:
  "die_on_error m k = Some (Return ec s) \<longleftrightarrow>
    (\<exists>s1. m = Some (Return NONE s1) \<and> k s1 = Some (Return ec s)) \<or> m = Some (Return ec s) \<and> ec \<noteq> NONE"
  by (cases "(m, k)" rule: die_on_error.cases) auto

lemma returns_die:
  assumes "returns m P" and "\<And>s. P NONE s \<Longrightarrow> returns (k s) Q"
    and "\<And>ec s. ec \<noteq> NONE \<Longrightarrow> P ec s \<Longrightarrow> Q ec s"
  shows "returns (die_on_error m k) Q"
  using assms by (auto simp: returns_def die_on_error_Return)

section \<open>What an exchange changes\<close>

text \<open>Sending and receiving change the message buffer, the sockets and the call counter.\<close>

definition control :: "orchestrator \<Rightarrow> orchestrator" where
  "control s = s\<lparr>o_msg_ctrl := (\<lambda>_. 0), o_net := \<lparr>rxq = \<lambda>_. [], txd = \<lambda>_. []\<rparr>, o_calls := 0\<rparr>"

definition io_only :: "orchestrator \<Rightarrow> orchestrator \<Rightarrow> bool" where
  "io_only s s1 \<longleftrightarrow> control s1 = control s"

lemma io_only_refl [simp]: "io_only s s"
  by (simp add: io_only_def)

lemma io_only_trans: "io_only s s1 \<Longrightarrow> io_only s1 s2 \<Longrightarrow> io_only s s2"
  by (simp add: io_only_def)

lemma io_only_updates [simp]:
  "io_only s (s1\<lparr>o_msg_ctrl := m\<rparr>) = io_only s s1" "io_only s (s1\<lparr>o_net := n\<rparr>) = io_only s s1"
  "io_only s (s1\<lparr>o_calls := k\<rparr>) = io_only s s1" "io_only (s\<lparr>o_msg_ctrl := m\<rparr>) s1 = io_only s s1"
  by (simp_all add: io_only_def control_def)

lemma control_sel:
  "fragments (control s) = fragments s" "o_state (control s) = o_state s"
  "o_testcase (control s) = o_testcase s" "listen_fd_ctrl (control s) = listen_fd_ctrl s"
  "listen_fd_pcap (control s) = listen_fd_pcap s" "forked (control s) = forked s"
  "killed (control s) = killed s" "acknowledged (control s) = acknowledged s"
  "o_closed (control s) = o_closed s" "o_autotest_mode (control s) = o_autotest_mode s"
  "timeout_communication_ms (control s) = timeout_communication_ms s"
  "captured (control s) = captured s" "pcap_thread_run (control s) = pcap_thread_run s"
  "is_configured (control s) = is_configured s"
  by (simp_all add: control_def)

lemma io_only_sel:
  assumes "io_only s s1"
  shows "fragments s1 = fragments s" "o_state s1 = o_state s" "o_testcase s1 = o_testcase s"
    "listen_fd_ctrl s1 = listen_fd_ctrl s" "listen_fd_pcap s1 = listen_fd_pcap s"
    "forked s1 = forked s" "killed s1 = killed s" "acknowledged s1 = acknowledged s"
    "o_closed s1 = o_closed s" "o_autotest_mode s1 = o_autotest_mode s"
    "timeout_communication_ms s1 = timeout_communication_ms s" "captured s1 = captured s"
    "pcap_thread_run s1 = pcap_thread_run s" "is_configured s1 = is_configured s"
  using assms control_sel [of s] control_sel [of s1] by (simp_all add: io_only_def)

lemma otick_io [simp]: "otick s = (k, s1) \<Longrightarrow> io_only s s1"
  by (auto simp: otick_def)

lemma ctrl_send_io: "ctrl_send env fd t e s = Some (Return ec s1) \<Longrightarrow> io_only s s1"
  by (auto simp: ctrl_send_def otick_def bind_eq_Some_conv)

lemma ctrl_recv_io: "ctrl_recv env fd t e s = Some (Return ec s1) \<Longrightarrow> io_only s s1"
  by (auto simp: ctrl_recv_def otick_def bind_eq_Some_conv)

lemma send_each_io:
  "send_each env fill conn timer idx fds pend ec s = Some (Return ec' s1) \<Longrightarrow> io_only s s1"
proof (induction env fill conn timer idx fds pend ec s arbitrary: ec' s1 rule: send_each.induct)
  case (2 env fill conn timer idx fd fds pend ec s)
  show ?case
  proof (cases "timer > 0")
    case True
    then obtain m m1 r where m: "fill (of_nat idx) (set_fragment_id (of_nat idx) (o_msg_ctrl s)) = Some m"
      and m1: "finalize m = Some m1"
      and r: "ctrl_send env fd (of_int timer) conn (s\<lparr>o_msg_ctrl := m1\<rparr>) = Some r"
      using 2(2) by (auto simp: bind_eq_Some_conv)
    then show ?thesis
    proof (cases r)
      case (Return ec1 s2)
      then have "io_only s s2" using ctrl_send_io [OF r [unfolded Return]] by simp
      moreover have "io_only s2 s1"
        using 2(1) [OF _ m m1 r Return] 2(2) True m m1 r Return by simp
      ultimately show ?thesis by (rule io_only_trans)
    qed (use 2(2) True m m1 in auto)
  qed (use 2 in auto)
qed auto

lemma foreach_send_io:
  "foreach_fragment_send_generic env fds t fill conn s = Some (Return ec s1) \<Longrightarrow> io_only s s1"
  unfolding foreach_fragment_send_generic_def by (drule send_each_io) simp

lemma foreach_send_ctrl_io:
  "foreach_fragment_send_ctrl env t fill s = Some (Return ec s1) \<Longrightarrow> io_only s s1"
  unfolding foreach_fragment_send_ctrl_def by (rule foreach_send_io)

lemma returns_sends:
  "returns (foreach_fragment_send_ctrl env t fill s) (\<lambda>_. io_only s)"
  "returns (foreach_fragment_send_generic env fds t fill conn s) (\<lambda>_. io_only s)"
  by (simp_all add: returns_def foreach_send_ctrl_io foreach_send_io)

lemma receive_from_cases:
  assumes "receive_from env chk fds t handle conn timer idx s = Some (Return ec s2)"
  obtains (io) "io_only s s2" "ec \<noteq> NONE"
  | (handled) s1 where "io_only s s1"
      "orchestrator_check_header (o_msg_ctrl s1) chk (of_nat idx) t = Some NONE"
      "handle (of_nat idx) (o_msg_ctrl s1) s1 = Some (ec, s2)"
  using assms unfolding receive_from_def die_on_error_Return
  by (auto simp: bind_eq_Some_conv split: if_splits dest: ctrl_recv_io)

section \<open>The contract of a response handler\<close>

text \<open>
  \<open>I\<close> holds throughout, \<open>U i\<close> before the response of fragment \<open>i\<close> is handled and \<open>Q i\<close> from then on.
\<close>

locale response_contract =
  fixes n :: nat and handle :: response_handler
    and I :: "orchestrator \<Rightarrow> bool" and U Q :: "nat \<Rightarrow> orchestrator \<Rightarrow> bool"
  assumes keep_io: "io_only s s1 \<Longrightarrow> I s \<Longrightarrow> I s1 \<and> (\<forall>i. (U i s \<longrightarrow> U i s1) \<and> (Q i s \<longrightarrow> Q i s1))"
    and keep: "i < n \<Longrightarrow> I s \<Longrightarrow> handle (of_nat i) m s = Some (ec, s1) \<Longrightarrow> I s1"
    and fills: "i < n \<Longrightarrow> I s \<Longrightarrow> U i s \<Longrightarrow> handle (of_nat i) m s = Some (NONE, s1) \<Longrightarrow> Q i s1"
    and others: "i < n \<Longrightarrow> j < n \<Longrightarrow> i \<noteq> j \<Longrightarrow> I s \<Longrightarrow> handle (of_nat i) m s = Some (NONE, s1) \<Longrightarrow>
      (U j s \<longrightarrow> U j s1) \<and> (Q j s \<longrightarrow> Q j s1)"
begin

definition progress_inv :: "int list \<Rightarrow> collecting \<Rightarrow> orchestrator \<Rightarrow> bool" where
  "progress_inv fds c s \<longleftrightarrow> I s \<and> length fds = n \<and> length (pfds c) = n
     \<and> (\<forall>i < n. pfds c ! i = fds ! i \<or> pfds c ! i = - 1)
     \<and> num_pending c = card {i. i < n \<and> pfds c ! i = fds ! i}
     \<and> (first_error c = NONE \<longrightarrow>
          (\<forall>i < n. if pfds c ! i = fds ! i then U i s else Q i s))"

lemma receive_step:
  assumes inv: "progress_inv fds c s" and i: "i < n" "pfds c ! i > 0"
    and r: "receive_from env chk fds t handle conn timer i s = Some (Return ec s1)"
  shows "progress_inv fds (answered i ec c) s1"
proof -
  have eq: "pfds c ! i = fds ! i" and pos: "fds ! i \<noteq> - 1"
    using inv i unfolding progress_inv_def by force+
  have I: "I s" using inv by (simp add: progress_inv_def)
  have done_set: "{j. j < n \<and> (pfds c)[i := - 1] ! j = fds ! j} = {j. j < n \<and> pfds c ! j = fds ! j} - {i}"
    using inv i pos by (auto simp: progress_inv_def nth_list_update)
  have i_in: "i \<in> {j. j < n \<and> pfds c ! j = fds ! j}" using i eq by simp
  have card: "card {j. j < n \<and> (pfds c)[i := - 1] ! j = fds ! j} = num_pending c - 1"
    unfolding done_set card_Diff_singleton [OF i_in] using inv by (simp add: progress_inv_def)
  have now: "I s1 \<and> (ec = NONE \<longrightarrow> U i s \<longrightarrow> Q i s1)
    \<and> (ec = NONE \<longrightarrow> (\<forall>j < n. j \<noteq> i \<longrightarrow> (U j s \<longrightarrow> U j s1) \<and> (Q j s \<longrightarrow> Q j s1)))"
    using r
  proof (cases rule: receive_from_cases)
    case io
    then show ?thesis using keep_io I by blast
  next
    case (handled s2)
    then show ?thesis using keep_io [OF handled(1) I] keep fills others i(1) by metis
  qed
  show ?thesis
    using inv i(1) eq pos card now
    by (auto simp: progress_inv_def answered_def nth_list_update split: if_splits)
qed

lemma receive_ready_inv:
  assumes "progress_inv fds c s" and "set idxs \<subseteq> {..<n}"
    and "receive_ready (receive_from env chk fds t handle conn timer) ready idxs (c, s)
      = Some (Return ec (c1, s1))"
  shows "progress_inv fds c1 s1"
  using assms
proof (induction idxs arbitrary: c s)
  case (Cons i idxs)
  show ?case
  proof (cases "ready i \<and> pfds c ! i > 0")
    case True
    then obtain r where r: "receive_from env chk fds t handle conn timer i s = Some r"
      using Cons.prems(3) by (auto simp: bind_eq_Some_conv)
    then show ?thesis
    proof (cases r)
      case (Return ec1 s2)
      have "progress_inv fds (answered i ec1 c) s2"
        using receive_step [OF Cons.prems(1) _ _ r [unfolded Return]] True Cons.prems(2) by simp
      then show ?thesis using Cons.IH Cons.prems(2,3) True r Return by simp
    qed (use Cons.prems(3) True r in simp)
  qed (use Cons in auto)
qed simp

lemma receive_polls_inv:
  assumes "progress_inv fds c s"
    and "receive_polls (receive_from env chk fds t handle conn) ps timer (c, s) = Some (Return ec s1)"
  shows "\<exists>c1. progress_inv fds c1 s1 \<and> collected (c1, s1) = Return ec s1"
  using assms
proof (induction ps arbitrary: timer c s)
  case Nil
  then show ?case by (auto simp: collected_def split: if_splits)
next
  case (Cons p ps)
  consider (stop) "\<not> (num_pending c \<noteq> 0 \<and> timer > 0) \<or> pa_rc p = 0"
    | (ready) "num_pending c \<noteq> 0" "timer > 0" "pa_rc p > 0"
    | (error) "num_pending c \<noteq> 0" "timer > 0" "pa_rc p < 0" by force
  then show ?case
  proof cases
    case stop
    then show ?thesis using Cons.prems by (auto simp: collected_def split: if_splits)
  next
    case ready
    then obtain r where r: "receive_ready (receive_from env chk fds t handle conn timer) (pa_ready p)
        [0..<length (pfds c)] (c, s) = Some r"
      using Cons.prems(2) by (auto simp: bind_eq_Some_conv split: if_splits)
    show ?thesis
    proof (cases r)
      case (Return ec1 x)
      obtain c2 s2 where x: "x = (c2, s2)" by fastforce
      have "progress_inv fds c2 s2"
        using receive_ready_inv [OF Cons.prems(1) _ r [unfolded Return x]] Cons.prems(1)
        by (simp add: progress_inv_def atLeast0LessThan)
      then show ?thesis
        using Cons.IH [of c2 s2] Cons.prems(2) ready r Return x by (auto split: if_splits)
    qed (use Cons.prems(2) ready r in \<open>auto split: if_splits\<close>)
  next
    case error
    then show ?thesis using Cons by auto
  qed
qed

text \<open>
  Collecting keeps \<open>I\<close>; when it succeeds, the response of every fragment has been handled.
\<close>

lemma collects_all:
  assumes r: "foreach_fragment_recv_generic env chk fds t handle conn s = Some (Return ec s1)"
    and len: "length fds = n" and I: "I s" and U: "\<forall>i < n. U i s"
  shows "I s1 \<and> (ec = NONE \<longrightarrow> (\<forall>i < n. Q i s1))"
proof -
  let ?c = "\<lparr>pfds = fds, first_error = NONE, num_pending = length fds\<rparr>"
  obtain k s0 where t: "otick s = (k, s0)" by fastforce
  have "progress_inv fds ?c s0"
    using keep_io [OF otick_io [OF t] I] U len by (auto simp: progress_inv_def)
  moreover have "receive_polls (receive_from env chk fds t handle conn) (oe_polls env k)
      (sint (timeout_communication_ms s)) (?c, s0) = Some (Return ec s1)"
    using r t by (simp add: foreach_fragment_recv_generic_def)
  ultimately obtain c1 where c1: "progress_inv fds c1 s1" "collected (c1, s1) = Return ec s1"
    using receive_polls_inv by blast
  show ?thesis
  proof (intro conjI impI)
    show "I s1" using c1(1) by (simp add: progress_inv_def)
    assume "ec = NONE"
    then have "num_pending c1 = 0" "first_error c1 = NONE"
      using c1(2) by (auto simp: collected_def split: if_splits)
    then show "\<forall>i < n. Q i s1" using c1(1) by (auto simp: progress_inv_def split: if_splits)
  qed
qed

end

end
