(* ===== verification/OrchestratorInv.thy ===== *)
theory OrchestratorInv
  imports OrchestratorCollect "HOL-Library.Multiset"
begin

text \<open>
  The states a run of the orchestrator goes through: what the response handlers do to the records of
  the fragments, and the invariants of the run.
\<close>

section \<open>Response handlers\<close>

lemma set_metadata_sel [simp]:
  "fragments (set_metadata i g s) = (fragments s)[i := g (fragments s ! i)]"
  "o_state (set_metadata i g s) = o_state s" "o_testcase (set_metadata i g s) = o_testcase s"
  "forked (set_metadata i g s) = forked s" "killed (set_metadata i g s) = killed s"
  "acknowledged (set_metadata i g s) = acknowledged s"
  "listen_fd_ctrl (set_metadata i g s) = listen_fd_ctrl s"
  "listen_fd_pcap (set_metadata i g s) = listen_fd_pcap s"
  "o_autotest_mode (set_metadata i g s) = o_autotest_mode s"
  by (simp_all add: set_metadata_def)

lemma map_same_update: "f x = f (xs ! i) \<Longrightarrow> map f (xs[i := x]) = map f xs"
  by (metis list_update_id map_update)

text \<open>What all handlers leave alone.\<close>

definition fixed :: "orchestrator \<Rightarrow> orchestrator \<Rightarrow> bool" where
  "fixed s s1 \<longleftrightarrow> length (fragments s1) = length (fragments s)
     \<and> o_testcase s1 = o_testcase s \<and> forked s1 = forked s \<and> killed s1 = killed s"

lemma fixed_refl [simp]: "fixed s s"
  by (simp add: fixed_def)

lemma fixed_trans: "fixed s s1 \<Longrightarrow> fixed s1 s2 \<Longrightarrow> fixed s s2"
  by (simp add: fixed_def)

lemma io_only_fixed: "io_only s s1 \<Longrightarrow> fixed s s1"
  by (simp add: fixed_def io_only_sel)

lemma set_metadata_fixed [simp]: "fixed s (set_metadata i g s)"
  by (simp add: fixed_def)

text \<open>\<open>rest\<close> is what a handler keeps of each record.\<close>

definition keeps :: "(fragment_metadata \<Rightarrow> fragment_metadata) \<Rightarrow> orchestrator \<Rightarrow> orchestrator \<Rightarrow> bool"
where
  "keeps rest s s1 \<longleftrightarrow> fixed s s1 \<and> map rest (fragments s1) = map rest (fragments s)
     \<and> acknowledged s1 = acknowledged s"

lemma keeps_refl [simp]: "keeps rest s s"
  by (simp add: keeps_def)

lemma keeps_io: "keeps rest s s1 \<Longrightarrow> io_only s1 s2 \<Longrightarrow> keeps rest s s2"
  using fixed_trans io_only_fixed by (auto simp: io_only_sel keeps_def)

lemma keeps_update: "keeps rest s s1 \<Longrightarrow> (\<And>d. rest (g d) = rest d) \<Longrightarrow> keeps rest s (set_metadata i g s1)"
  using fixed_trans by (auto simp: keeps_def map_same_update)

lemma keeps_map:
  assumes "keeps rest s s1" and "\<And>d. f (rest d) = f d"
  shows "map f (fragments s1) = map f (fragments s)"
proof -
  have "map f (map rest (fragments s1)) = map f (map rest (fragments s))"
    using assms(1) by (simp add: keeps_def)
  then show ?thesis using assms(2) by (simp add: comp_def)
qed

subsection \<open>Claiming a connection\<close>

text \<open>
  On both planes a response sets a descriptor \<open>fd\<close> of a record that has none; \<open>rest\<close> is what the
  record is without it.
\<close>

lemma claimed_stays:
  assumes "x \<in> set (map f ds)" and "f (ds ! i) = - 1" and "x \<noteq> - 1"
  shows "x \<in> set (map f (ds[i := d]))"
proof -
  obtain k where "k < length ds" "f (ds ! k) = x" using assms(1) by (auto simp: in_set_conv_nth)
  moreover from this have "k \<noteq> i" using assms(2,3) by auto
  ultimately show ?thesis by (metis length_list_update nth_list_update_neq nth_map nth_mem length_map)
qed

locale claiming =
  fixes fds :: "int list" and handle :: response_handler and fd :: "fragment_metadata \<Rightarrow> int"
    and set_fd :: "int \<Rightarrow> fragment_metadata \<Rightarrow> fragment_metadata"
    and rest :: "fragment_metadata \<Rightarrow> fragment_metadata"
  assumes claims: "handle idx m s = Some (ec, s1) \<Longrightarrow> s1 = s \<and> ec \<noteq> NONE
      \<or> (\<exists>i < length (fragments s). fd (fragments s ! i) = - 1 \<and> ec = NONE
           \<and> s1 = set_metadata i (set_fd (fds ! unat idx)) s)"
    and fd_set [simp]: "fd (set_fd x d) = x" and rest_set [simp]: "rest (set_fd x d) = rest d"
begin

definition claimed :: "nat \<Rightarrow> orchestrator \<Rightarrow> bool" where
  "claimed i s \<longleftrightarrow> length fds \<le> 65535 \<and> - 1 \<notin> set fds \<and> i < length fds \<longrightarrow>
     fds ! i \<in> set (map fd (fragments s))"

lemma claims_keep:
  assumes "keeps rest s0 s" and "handle idx m s = Some (ec, s1)"
  shows "keeps rest s0 s1"
  using claims [OF assms(2)] assms(1) keeps_update by auto

lemma claims_fill:
  assumes "handle (of_nat i) m s = Some (NONE, s1)"
  shows "claimed i s1"
  unfolding claimed_def
proof
  assume "length fds \<le> 65535 \<and> - 1 \<notin> set fds \<and> i < length fds"
  then have w: "unat (of_nat i :: u16) = i" by (simp add: unat_of_nat)
  from claims [OF assms] obtain k where k: "k < length (fragments s)"
    "s1 = set_metadata k (set_fd (fds ! i)) s" unfolding w by auto
  then have "set_fd (fds ! i) (fragments s ! k) \<in> set (fragments s1)"
    by (simp add: set_update_memI)
  then show "fds ! i \<in> set (map fd (fragments s1))" by (metis fd_set image_eqI set_map)
qed

lemma claims_other:
  assumes "handle idx m s = Some (NONE, s1)" and "claimed j s"
  shows "claimed j s1"
  unfolding claimed_def
proof
  assume j: "length fds \<le> 65535 \<and> - 1 \<notin> set fds \<and> j < length fds"
  then have "fds ! j \<noteq> - 1" by (metis nth_mem)
  then show "fds ! j \<in> set (map fd (fragments s1))"
    using claims [OF assms(1)] claimed_stays [of "fds ! j" fd "fragments s"] assms(2) j
    by (auto simp: claimed_def)
qed

lemma contract: "response_contract (length fds) handle (keeps rest s0) (\<lambda>i s. True) claimed"
proof (unfold_locales, goal_cases)
  case (1 s s1)
  then show ?case using keeps_io by (auto simp: io_only_sel claimed_def)
qed (use claims_keep claims_fill claims_other in auto)

lemma claims_others:
  assumes "foreach_fragment_recv_generic env chk fds t handle conn s = Some (Return ec s1)"
  shows "keeps rest s s1 \<and> (ec = NONE \<longrightarrow> (\<forall>i < length fds. claimed i s1))"
  using response_contract.collects_all [OF contract assms refl, of s] by simp

text \<open>After a successful collection the records hold the accepted connections, each one once.\<close>

lemma claims_all:
  assumes "foreach_fragment_recv_generic env chk fds t handle conn s = Some (Return NONE s1)"
    and "distinct fds" "- 1 \<notin> set fds" "length fds \<le> 65535" "length (fragments s) = length fds"
  shows "mset (map fd (fragments s1)) = mset fds"
proof -
  have len: "length (map fd (fragments s1)) = length fds"
    and all: "\<forall>i < length fds. fds ! i \<in> set (map fd (fragments s1))"
    using claims_others [OF assms(1)] assms by (auto simp: keeps_def claimed_def fixed_def)
  have sub: "set fds \<subseteq> set (map fd (fragments s1))" using all by (auto simp: in_set_conv_nth)
  have "card (set (map fd (fragments s1))) \<le> card (set fds)"
    using card_length [of "map fd (fragments s1)"] len assms(2) by (simp add: distinct_card)
  then have eq: "set (map fd (fragments s1)) = set fds"
    using card_seteq [OF _ sub] by simp
  then have "distinct (map fd (fragments s1))"
    using len assms(2) by (intro card_distinct) (simp add: distinct_card)
  then show ?thesis using eq assms(2) set_eq_iff_mset_eq_distinct by blast
qed

end

interpretation ctrl: claiming fds "claim_ctrl fds" fd_ctrl "\<lambda>x d. d\<lparr>fd_ctrl := x\<rparr>" "\<lambda>d. d\<lparr>fd_ctrl := 0\<rparr>"
  for fds
  by unfold_locales
    (auto simp: claim_ctrl_def claim_fragment_def Let_def split: if_split_asm)

interpretation pcap: claiming fds "claim_pcap fds" fd_pcap "\<lambda>x d. d\<lparr>fd_pcap := x\<rparr>" "\<lambda>d. d\<lparr>fd_pcap := 0\<rparr>"
  for fds
  by unfold_locales (auto simp: claim_pcap_def Let_def not_le split: if_split_asm)

subsection \<open>Addresses\<close>

definition server_known :: "u16 list list \<Rightarrow> nat \<Rightarrow> orchestrator \<Rightarrow> bool" where
  "server_known topo i s \<longleftrightarrow> (topo ! i \<noteq> [] \<longrightarrow> i < length (fragments s)
     \<and> sin_family (server_netaddr (fragments s ! i)) = AF_INET
     \<and> sin_port (server_netaddr (fragments s ! i)) \<noteq> 0)"

definition clients_known :: "u16 list list \<Rightarrow> nat \<Rightarrow> orchestrator \<Rightarrow> bool" where
  "clients_known topo i s \<longleftrightarrow> i < length (fragments s)
     \<and> length (client_netaddrs (fragments s ! i)) = length (topo ! i)
     \<and> (\<forall>a \<in> set (client_netaddrs (fragments s ! i)). valid_netaddr a)"

lemma unat_of_nat_u16: "i < n \<Longrightarrow> n \<le> 65536 \<Longrightarrow> unat (of_nat i :: u16) = i"
  by (simp add: unat_of_nat)

lemma store_server_cases:
  assumes "store_server env topo idx m s = Some (ec, s1)"
  shows "s1 = s \<and> (ec = NONE \<longrightarrow> topo ! unat idx = [])
    \<or> (\<exists>a. unat idx < length (fragments s) \<and> sin_family a = AF_INET \<and> sin_port a \<noteq> 0
         \<and> s1 = set_metadata (unat idx) (\<lambda>d. d\<lparr>server_netaddr := a\<rparr>) s)"
  using assms
  by (auto simp: store_server_def Let_def valid_netaddr_def bind_eq_Some_conv
      split: if_split_asm option.split_asm intro!: exI [of _ "_\<lparr>s_addr := _\<rparr>"])

interpretation servers: response_contract n "store_server env topo"
    "\<lambda>s. n \<le> 65535 \<and> keeps (\<lambda>d. d\<lparr>server_netaddr := no_netaddr\<rparr>) s0 s"
    "\<lambda>i s. True" "server_known topo"
  for n env topo s0
proof (unfold_locales, goal_cases)
  case (1 s s1)
  then show ?case using keeps_io by (auto simp: io_only_sel server_known_def)
next
  case (2 i s m ec s1)
  then show ?case using store_server_cases [OF 2(3)] by (auto intro!: keeps_update)
next
  case (3 i s m s1)
  then have "unat (of_nat i :: u16) = i" by (simp add: unat_of_nat)
  then show ?case using store_server_cases [OF 3(4)] by (auto simp: server_known_def)
next
  case (4 i j s m s1)
  then have "unat (of_nat i :: u16) = i" by (simp add: unat_of_nat)
  then show ?case using store_server_cases [OF 4(5)] 4(3) by (auto simp: server_known_def)
qed

lemma set_metadata_twice:
  "i < length (fragments s) \<Longrightarrow>
    set_metadata i g (set_metadata i f s) = set_metadata i (\<lambda>d. g (f d)) s"
  by (simp add: set_metadata_def)

lemma store_clients_cases:
  assumes "store_clients i m nid k s = Some (ec, s1)" and "i < length (fragments s)"
  shows "\<exists>as. (\<forall>a \<in> set as. valid_netaddr a) \<and> (ec = NONE \<longrightarrow> length as = k)
    \<and> s1 = set_metadata i (\<lambda>d. d\<lparr>client_netaddrs := client_netaddrs d @ as\<rparr>) s"
  using assms
proof (induction i m nid k s rule: store_clients.induct)
  case (1 i m nid s)
  then show ?case by (intro exI [of _ "[]"]) (simp add: set_metadata_def)
next
  case (2 i m nid k s)
  then obtain a where a: "get_elem dec_sockaddr_in sizeof_sockaddr_in
      (sizeof_header + 8 + sizeof_sockaddr_in * nid) m = Some a"
    by (auto simp: bind_eq_Some_conv)
  show ?case
  proof (cases "valid_netaddr a")
    case False
    then have "ec \<noteq> NONE" "s1 = s" using 2(2) a by auto
    then show ?thesis by (intro exI [of _ "[]"]) (simp add: set_metadata_def)
  next
    case True
    let ?s = "set_metadata i (\<lambda>d. d\<lparr>client_netaddrs := client_netaddrs d @ [a]\<rparr>) s"
    have "store_clients i m (Suc nid) k ?s = Some (ec, s1)" using 2(2) a True by simp
    from 2(1) [OF a _ this] True 2(3) obtain as where as: "\<forall>a \<in> set as. valid_netaddr a"
      "ec = NONE \<longrightarrow> length as = k"
      "s1 = set_metadata i (\<lambda>d. d\<lparr>client_netaddrs := client_netaddrs d @ as\<rparr>) ?s" by auto
    then show ?thesis
      using True 2(3) by (intro exI [of _ "a # as"]) (simp add: set_metadata_twice)
  qed
qed

lemma clients_response_cases:
  assumes "clients_of_response topo idx m s = Some (ec, s1)"
  shows "\<exists>as. unat idx < length (fragments s) \<and> (\<forall>a \<in> set as. valid_netaddr a)
    \<and> (ec = NONE \<longrightarrow> length as = length (topo ! unat idx))
    \<and> s1 = set_metadata (unat idx) (\<lambda>d. d\<lparr>client_netaddrs := client_netaddrs d @ as\<rparr>) s"
proof (cases "unat (get_num_neighbors m) = length (topo ! unat idx)")
  case True
  then show ?thesis
    using assms store_clients_cases
    by (auto simp: clients_of_response_def Let_def split: if_split_asm)
next
  case False
  then show ?thesis
    using assms
    by (intro exI [of _ "[]"]) (auto simp: clients_of_response_def set_metadata_def Let_def split: if_split_asm)
qed

interpretation clients: response_contract n "clients_of_response topo"
    "\<lambda>s. n \<le> 65535 \<and> keeps (\<lambda>d. d\<lparr>client_netaddrs := []\<rparr>) s0 s"
    "\<lambda>i s. client_netaddrs (fragments s ! i) = []" "clients_known topo"
  for n topo s0
proof (unfold_locales, goal_cases)
  case (1 s s1)
  then show ?case using keeps_io by (auto simp: io_only_sel clients_known_def)
next
  case (2 i s m ec s1)
  then show ?case using clients_response_cases [OF 2(3)] by (auto intro!: keeps_update)
next
  case (3 i s m s1)
  then have "unat (of_nat i :: u16) = i" by (simp add: unat_of_nat)
  then show ?case using clients_response_cases [OF 3(4)] 3(3) by (auto simp: clients_known_def)
next
  case (4 i j s m s1)
  then have "unat (of_nat i :: u16) = i" by (simp add: unat_of_nat)
  then show ?case using clients_response_cases [OF 4(5)] 4(3) by (auto simp: clients_known_def)
qed

subsection \<open>Shutdown\<close>

text \<open>Every process identifier is still in the records or was acknowledged.\<close>

definition released_inv :: "orchestrator \<Rightarrow> orchestrator \<Rightarrow> bool" where
  "released_inv s0 s \<longleftrightarrow> fixed s0 s
     \<and> map (pid_update (\<lambda>_. 0)) (fragments s) = map (pid_update (\<lambda>_. 0)) (fragments s0)
     \<and> set (acknowledged s0) \<union> pid ` set (fragments s0) \<subseteq> set (acknowledged s) \<union> pid ` set (fragments s)"

lemma pids_update:
  assumes "i < length ds"
  shows "pid ` set ds \<subseteq> insert (pid (ds ! i)) (pid ` set (ds[i := d]))"
proof
  fix p assume "p \<in> pid ` set ds"
  then obtain k where "k < length ds" "pid (ds ! k) = p" by (auto simp: in_set_conv_nth)
  then show "p \<in> insert (pid (ds ! i)) (pid ` set (ds[i := d]))"
    by (cases "k = i") (auto, metis image_eqI length_list_update nth_list_update_neq nth_mem)
qed

interpretation shutdowns: response_contract n release_fragment
    "\<lambda>s. n \<le> 65535 \<and> length (fragments s) = n \<and> released_inv s0 s"
    "\<lambda>i s. True" "\<lambda>i s. i < n \<longrightarrow> pid (fragments s ! i) = - 1"
  for n s0
proof (unfold_locales, goal_cases)
  case (1 s s1)
  then show ?case using fixed_trans io_only_fixed by (auto simp: io_only_sel released_inv_def)
next
  case (2 i s m ec s1)
  then have w: "unat (of_nat i :: u16) = i" by (simp add: unat_of_nat)
  then have s1: "s1 = set_metadata i (\<lambda>d. d\<lparr>pid := - 1\<rparr>)
      (s\<lparr>acknowledged := acknowledged s @ [pid (fragments s ! i)]\<rparr>)"
    using 2(3) by (auto simp: release_fragment_def split: if_split_asm)
  have fixed: "fixed s s1" unfolding s1 by (simp add: fixed_def)
  have "set (acknowledged s) \<union> pid ` set (fragments s) \<subseteq> set (acknowledged s1) \<union> pid ` set (fragments s1)"
    using pids_update [of i "fragments s" "(fragments s ! i)\<lparr>pid := - 1\<rparr>"] 2(1,2) by (auto simp: s1)
  moreover have "map (pid_update (\<lambda>_. 0)) (fragments s1) = map (pid_update (\<lambda>_. 0)) (fragments s)"
    unfolding s1 by (simp add: map_same_update)
  ultimately have "released_inv s0 s1"
    using 2(2) fixed_trans [OF _ fixed] unfolding released_inv_def
    by (intro conjI) (blast, simp, elim conjE, rule subset_trans)
  then show ?case using 2(2) by (simp add: s1)
next
  case (3 i s m s1)
  then show ?case by (auto simp: release_fragment_def unat_of_nat split: if_split_asm)
next
  case (4 i j s m s1)
  then show ?case by (auto simp: release_fragment_def unat_of_nat split: if_split_asm)
qed

interpretation acknowledgements: response_contract n acknowledge "io_only s0" "\<lambda>i s. True" "\<lambda>i s. True"
  for n s0
  by unfold_locales (auto simp: acknowledge_def intro: io_only_trans)

lemma foreach_ack_io:
  "foreach_fragment_recv_ctrl env t acknowledge s = Some (Return ec s1) \<Longrightarrow> io_only s s1"
  using acknowledgements.collects_all [of env True "map fd_ctrl (fragments s)" t
      CTRL_CONNECTION_BROKEN s ec s1 "length (fragments s)" s]
  by (simp add: foreach_fragment_recv_ctrl_def)

end
