(* ===== verification/OrchestratorReach.thy ===== *)
theory OrchestratorReach
  imports OrchestratorInv
begin

text \<open>
  What each state of the orchestrator's run does to the records of the fragments and to the processes.
\<close>

section \<open>Effects of the states\<close>

lemma keeps_trans: "keeps rest s s1 \<Longrightarrow> keeps rest s1 s2 \<Longrightarrow> keeps rest s s2"
  by (auto simp: keeps_def intro: fixed_trans)

lemma io_keeps: "io_only s s1 \<Longrightarrow> keeps rest s s1"
  by (rule keeps_io [OF keeps_refl])

lemma keeps_same_fields [simp]:
  "keeps rest s (s1\<lparr>listen_fd_pcap := fd\<rparr>) = keeps rest s s1"
  "keeps rest s (s1\<lparr>listen_fd_ctrl := fd\<rparr>) = keeps rest s s1"
  "keeps rest (s\<lparr>listen_fd_pcap := fd\<rparr>) s1 = keeps rest s s1"
  "keeps rest s (s1\<lparr>pcap_thread_run := b\<rparr>) = keeps rest s s1"
  by (simp_all add: keeps_def fixed_def)

lemma fork_fragments_effect:
  assumes "fork_fragments fork idxs s = Some (ok, s1)"
  shows "\<exists>ps. s1 = s\<lparr>fragments := fragments s @ map (\<lambda>p. new_metadata\<lparr>pid := p\<rparr>) ps,
      forked := forked s @ ps\<rparr> \<and> (\<forall>p \<in> set ps. 0 < p) \<and> (ok \<longrightarrow> length ps = length idxs)"
  using assms
proof (induction fork idxs s rule: fork_fragments.induct)
  case (1 fork s)
  then show ?case by (intro exI [of _ "[]"]) simp
next
  case (2 fork i idxs s)
  show ?case
  proof (cases "fork i < 0 \<or> fork i = 0")
    case True
    then show ?thesis using 2(2) by (intro exI [of _ "[]"]) (auto split: if_split_asm)
  next
    case False
    then obtain ps where "s1 = (let s = s\<lparr>fragments := fragments s @ [new_metadata\<lparr>pid := fork i\<rparr>],
           forked := forked s @ [fork i]\<rparr> in s\<lparr>fragments := fragments s @ map (\<lambda>p. new_metadata\<lparr>pid := p\<rparr>) ps,
      forked := forked s @ ps\<rparr>)" "\<forall>p \<in> set ps. 0 < p" "ok \<longrightarrow> length ps = length idxs"
      using 2 by (auto simp: Let_def)
    then show ?thesis using False by (intro exI [of _ "fork i # ps"]) (simp add: Let_def)
  qed
qed

text \<open>The records that the setup of the control plane creates.\<close>

definition born :: "orchestrator \<Rightarrow> orchestrator \<Rightarrow> bool" where
  "born s s1 \<longleftrightarrow> o_testcase s1 = o_testcase s \<and> killed s1 = killed s \<and> acknowledged s1 = acknowledged s
     \<and> (\<forall>d \<in> set (fragments s1). client_netaddrs d = [])
     \<and> (\<exists>ps. forked s1 = forked s @ ps \<and> (\<forall>p \<in> set ps. 0 < p \<and> p \<in> pid ` set (fragments s1)))"

lemma born_keeps:
  assumes "born s s1" and k: "keeps (\<lambda>d. d\<lparr>fd_ctrl := 0\<rparr>) s1 s2"
  shows "born s s2"
proof -
  have "pid ` set (fragments s2) = pid ` set (fragments s1)"
    "client_netaddrs ` set (fragments s2) = client_netaddrs ` set (fragments s1)"
    using keeps_map [OF k, of pid] keeps_map [OF k, of client_netaddrs]
    by (metis fragment_metadata.select_convs(1,6) fragment_metadata.update_convs(2)
        fragment_metadata.surjective set_map)+
  then show ?thesis using assms by (auto simp: born_def keeps_def fixed_def)
qed

lemma joined_Return:
  assumes "joined s n evs k = Some (Return ec s1)"
  obtains a where "k a = Some (Return ec s1)" "acc_done a"
  using assms by (auto simp: joined_def bind_eq_Some_conv split: if_split_asm)

lemma client_netaddrs_new: "client_netaddrs new_metadata = []"
  by (simp add: new_metadata_def)

lemma start_fragments_effect:
  assumes "start_fragments env k n s = Some (ok, s1)" and "fragments s = []"
  shows "born s s1 \<and> (ok \<longrightarrow> length (fragments s1) = unat n)"
proof (cases "o_autotest_mode s")
  case True
  then obtain ps where ps: "s1 = s\<lparr>fragments := map (\<lambda>p. new_metadata\<lparr>pid := p\<rparr>) ps,
      forked := forked s @ ps\<rparr>" "\<forall>p \<in> set ps. 0 < p" "ok \<longrightarrow> length ps = unat n"
    using fork_fragments_effect [of "oe_fork env k" "[0..<unat n]" s ok s1] assms
    by (auto simp: start_fragments_def)
  have "pid ` set (fragments s1) = set ps" by (simp add: ps(1) image_image)
  then show ?thesis using ps by (auto simp: born_def client_netaddrs_new)
next
  case False
  then show ?thesis using assms by (auto simp: start_fragments_def born_def new_metadata_def)
qed

lemma ctrl_handshake_effect:
  assumes "ctrl_handshake env n ok s a = Some (Return ec s1)"
  shows "s1 = s \<and> ec \<noteq> NONE \<or> keeps (\<lambda>d. d\<lparr>fd_ctrl := 0\<rparr>) s s1 \<and> ok"
  using assms
  by (auto simp: ctrl_handshake_def Let_def die_on_error_Return split: if_split_asm
      dest!: ctrl.claims_others foreach_send_ctrl_io intro: keeps_io)

lemma setup_ctrl_effect:
  assumes "orc_setup_ctrl env s = Some (Return ec s1)"
  shows "fragments s = [] \<and> born s s1
    \<and> (ec = NONE \<longrightarrow> length (fragments s1) = unat (num_nodes (graph_of s)))"
proof -
  let ?n = "num_nodes (graph_of s)"
  obtain k s0 where t: "otick s = (k, s0)" by fastforce
  obtain e fd where l: "listen_on env k PORT_LISTEN_CTRL (listen_fd_ctrl s) ?n = (e, fd)" by fastforce
  let ?s1 = "s0\<lparr>listen_fd_ctrl := fd\<rparr>"
  note s0 = io_only_sel [OF otick_io [OF t]]
  have emp: "fragments s = []" and st: "o_state s = OS_SETUP_CTRL_PLANE"
    using assms by (auto simp: orc_setup_ctrl_def split: if_split_asm)
  show ?thesis
  proof (cases "e = NONE")
    case False
    then have "s1 = ?s1" "ec = e" using assms emp st t l by (auto simp: orc_setup_ctrl_def)
    then show ?thesis using emp s0 False by (auto simp: born_def)
  next
    case True
    then obtain ok s2 where f: "start_fragments env k ?n ?s1 = Some (ok, s2)"
      and j: "joined s2 ?n (undisturbed (oe_accept env k)) (ctrl_handshake env ?n ok s2)
        = Some (Return ec s1)"
      using assms emp st t l by (auto simp: orc_setup_ctrl_def Let_def bind_eq_Some_conv)
    have b2: "born ?s1 s2" "ok \<longrightarrow> length (fragments s2) = unat ?n"
      using start_fragments_effect [OF f] s0 emp by auto
    obtain a where "ctrl_handshake env ?n ok s2 a = Some (Return ec s1)" using j by (rule joined_Return)
    from ctrl_handshake_effect [OF this] b2 born_keeps [OF b2(1)]
    have "born ?s1 s1" "ec = NONE \<longrightarrow> length (fragments s1) = unat ?n"
      by (auto simp: keeps_def fixed_def)
    then show ?thesis using s0 emp by (simp add: born_def)
  qed
qed

lemma die_joining_Return:
  assumes "die_joining env k n m c = Some (Return ec s1)"
  obtains (error) "m = Some (Return ec s1)" "ec \<noteq> NONE"
  | (go) s0 where "m = Some (Return NONE s0)" "c s0 = Some (Return ec s1)"
proof -
  have "m = Some (Return ec s1) \<and> ec \<noteq> NONE
    \<or> (\<exists>s0. m = Some (Return NONE s0) \<and> c s0 = Some (Return ec s1))"
    using assms by (auto simp: die_joining_def elim!: joined_Return
        split: option.split_asm progress.split_asm if_split_asm)
  then show thesis using error go by blast
qed

lemma setup_pcap_effect:
  assumes "orc_setup_pcap env s = Some (Return ec s1)"
  shows "keeps (\<lambda>d. d\<lparr>fd_pcap := 0\<rparr>) s s1"
proof -
  let ?n = "num_nodes (graph_of s)"
  obtain k s0 where t: "otick s = (k, s0)" by fastforce
  obtain e fd where l: "listen_on env k PORT_LISTEN_PCAP (listen_fd_pcap s) ?n = (e, fd)" by fastforce
  let ?s1 = "s0\<lparr>listen_fd_pcap := fd\<rparr>"
  have st: "o_state s = OS_SETUP_PCAP_PLANE"
    using assms by (auto simp: orc_setup_pcap_def split: if_split_asm)
  have k0: "keeps (\<lambda>d. d\<lparr>fd_pcap := 0\<rparr>) s ?s1" using io_keeps [OF otick_io [OF t]] by simp
  show ?thesis
  proof (cases "e = NONE")
    case False
    then show ?thesis using k0 assms st t l by (auto simp: orc_setup_pcap_def)
  next
    case True
    then have "die_joining env k ?n
        (foreach_fragment_send_ctrl env MSG_SETUP_PCAP
           (\<lambda>_ m. Some (put_netaddr (listen_netaddr PORT_LISTEN_PCAP) m)) ?s1)
        (\<lambda>s2. die_joining env k ?n
          (foreach_fragment_recv_ctrl env MSG_SETUP_PCAP acknowledge s2)
          (\<lambda>s3. joined s3 ?n (undisturbed (oe_accept env k)) (pcap_handshake env ?n s3)))
      = Some (Return ec s1)"
      using assms st t l by (auto simp: orc_setup_pcap_def Let_def)
    then show ?thesis
    proof (cases rule: die_joining_Return)
      case error
      then show ?thesis using k0 keeps_io foreach_send_ctrl_io by blast
    next
      case (go s2)
      then have k2: "keeps (\<lambda>d. d\<lparr>fd_pcap := 0\<rparr>) s s2" using k0 keeps_io foreach_send_ctrl_io by blast
      show ?thesis using go(2)
      proof (cases rule: die_joining_Return)
        case error
        then show ?thesis using k2 keeps_io foreach_ack_io by blast
      next
        case (go s3)
        then have k3: "keeps (\<lambda>d. d\<lparr>fd_pcap := 0\<rparr>) s s3" using k2 keeps_io foreach_ack_io by blast
        obtain a where "pcap_handshake env ?n s3 a = Some (Return ec s1)"
          using go(2) by (rule joined_Return)
        then have "keeps (\<lambda>d. d\<lparr>fd_pcap := 0\<rparr>) s3 s1"
          by (auto simp: pcap_handshake_def Let_def die_on_error_Return split: if_split_asm
              dest!: pcap.claims_others foreach_send_io intro: keeps_io)
        then show ?thesis by (rule keeps_trans [OF k3])
      qed
    qed
  qed
qed

lemma acknowledged_state_effect:
  assumes "die_on_error (foreach_fragment_send_ctrl env t fill s)
    (foreach_fragment_recv_ctrl env t' acknowledge) = Some (Return ec s1)"
  shows "io_only s s1"
  using assms by (auto simp: die_on_error_Return dest!: foreach_send_ctrl_io foreach_ack_io
      intro: io_only_trans)

lemma start_server_effect:
  assumes "orc_start_server env s = Some (Return ec s1)" and "length (fragments s) \<le> 65535"
  shows "keeps (\<lambda>d. d\<lparr>server_netaddr := no_netaddr\<rparr>) s s1
    \<and> (ec = NONE \<longrightarrow> (\<forall>i < length (fragments s). server_known (topology (graph_of s)) i s1))"
proof -
  consider (sent) s0 where "io_only s s0" "foreach_fragment_recv_ctrl env MSG_START_MIXNET_SERVER
      (store_server env (topology (graph_of s))) s0 = Some (Return ec s1)"
    | (no) "io_only s s1" "ec \<noteq> NONE"
    using assms(1) by (auto simp: orc_start_server_def die_on_error_Return split: if_split_asm
        dest!: foreach_send_ctrl_io)
  then show ?thesis
  proof cases
    case sent
    then show ?thesis
      using servers.collects_all [OF sent(2) [unfolded foreach_fragment_recv_ctrl_def] refl, where ?s0.0 = s]
        assms(2) io_keeps [OF sent(1)] by (simp add: io_only_sel)
  qed (use io_keeps in simp)
qed

lemma start_clients_effect:
  assumes "orc_start_clients env s = Some (Return ec s1)" and "length (fragments s) \<le> 65535"
    and "\<forall>d \<in> set (fragments s). client_netaddrs d = []"
  shows "keeps (\<lambda>d. d\<lparr>client_netaddrs := []\<rparr>) s s1
    \<and> (ec = NONE \<longrightarrow> (\<forall>i < length (fragments s). clients_known (topology (graph_of s)) i s1))"
proof -
  consider (sent) s0 where "io_only s s0" "foreach_fragment_recv_ctrl env MSG_START_MIXNET_CLIENTS
      (clients_of_response (topology (graph_of s))) s0 = Some (Return ec s1)"
    | (no) "io_only s s1" "ec \<noteq> NONE"
    using assms(1) by (auto simp: orc_start_clients_def Let_def die_on_error_Return split: if_split_asm
        dest!: foreach_send_ctrl_io)
  then show ?thesis
  proof cases
    case sent
    then show ?thesis
      using clients.collects_all [OF sent(2) [unfolded foreach_fragment_recv_ctrl_def] refl, where ?s0.0 = s]
        assms(2,3) io_keeps [OF sent(1)] by (simp add: io_only_sel)
  qed (use io_keeps in simp)
qed

lemma graceful_shutdown_effect:
  assumes "orc_graceful_shutdown env s = Some (Return ec s1)" and "length (fragments s) \<le> 65535"
  shows "released_inv s s1 \<and> (ec = NONE \<longrightarrow> (\<forall>d \<in> set (fragments s1). pid d = - 1))"
proof -
  obtain e s0 where "foreach_fragment_send_ctrl env MSG_SHUTDOWN empty_request s = Some (Return e s0)"
    and r: "foreach_fragment_recv_ctrl env MSG_SHUTDOWN release_fragment s0 = Some (Return ec s1)"
    using assms(1) by (auto simp: orc_graceful_shutdown_def split: if_split_asm option.split_asm
        progress.split_asm)
  then have io: "io_only s s0" by (simp add: foreach_send_ctrl_io)
  have "released_inv s s0" using io by (simp add: released_inv_def io_only_sel io_only_fixed)
  with shutdowns.collects_all [OF r [unfolded foreach_fragment_recv_ctrl_def] refl, of s] assms(2) io
  have "released_inv s s1" "length (fragments s1) = length (fragments s)"
    "ec = NONE \<longrightarrow> (\<forall>i < length (fragments s). pid (fragments s1 ! i) = - 1)"
    by (simp_all add: io_only_sel)
  then show ?thesis by (auto simp: in_set_conv_nth)
qed

section \<open>Effects of a test case\<close>

lemma request_response_io:
  assumes "fragment_request_response env i t fill s = Some (Return ec s1)"
  shows "io_only s s1"
proof -
  obtain m fd where "die_on_error (ctrl_send env fd (timeout_communication_ms s) CTRL_CONNECTION_BROKEN
        (s\<lparr>o_msg_ctrl := m\<rparr>))
      (\<lambda>s1. die_on_error (ctrl_recv env fd (timeout_communication_ms s) CTRL_CONNECTION_BROKEN s1)
         (\<lambda>s2. do {
            ec \<leftarrow> orchestrator_check_header (o_msg_ctrl s2) True i t;
            Some (Return ec s2)
          })) = Some (Return ec s1)"
    using assms by (auto simp: fragment_request_response_def Let_def bind_eq_Some_conv split: if_split_asm)
  then have "io_only (s\<lparr>o_msg_ctrl := m\<rparr>) s1"
    by (auto simp: die_on_error_Return bind_eq_Some_conv dest!: ctrl_send_io ctrl_recv_io
        intro: io_only_trans)
  then show ?thesis by simp
qed

lemma api_keeps:
  assumes "api env c s = Some (Return ec s1)"
  shows "keeps (\<lambda>d. d\<lparr>pcap_subscribed := False\<rparr>) s s1"
proof (cases c)
  case (Change_subscription i v)
  let ?s = "set_metadata (unat i) (\<lambda>d. d\<lparr>pcap_subscribed := v\<rparr>) s"
  have "s1 = s \<or> io_only ?s s1"
    using assms Change_subscription
    by (auto simp: pcap_change_subscription_def dest!: request_response_io split: if_split_asm)
  moreover have "keeps (\<lambda>d. d\<lparr>pcap_subscribed := False\<rparr>) s ?s" by (rule keeps_update) simp_all
  ultimately show ?thesis using keeps_io by auto
next
  case (Change_link_state a b v)
  then have "io_only s s1"
    using assms by (auto simp: change_link_state_def die_on_error_Return Let_def
        dest!: request_response_io intro: io_only_trans split: if_split_asm option.split_asm)
  then show ?thesis by (rule io_keeps)
next
  case (Send_packet a b ty data)
  then have "io_only s s1"
    using assms by (auto simp: send_packet_def dest!: request_response_io split: if_split_asm)
  then show ?thesis by (rule io_keeps)
qed

lemma let_capture_run_keeps [simp]: "keeps rest s (let_capture_run env s1) = keeps rest s s1"
  by (auto simp: let_capture_run_def otick_def keeps_def fixed_def Let_def split: prod.splits)

lemma run_script_keeps:
  "run_script env script s = Some (Return ec s1) \<Longrightarrow> keeps (\<lambda>d. d\<lparr>pcap_subscribed := False\<rparr>) s s1"
proof (induction script arbitrary: s)
  case (Finish e)
  then show ?case by auto
next
  case (Call c cont)
  from Call.prems obtain e s2 where c: "api env c (let_capture_run env s) = Some (Return e s2)"
    and n: "run_script env (cont e) s2 = Some (Return ec s1)"
    by (auto split: option.split_asm progress.split_asm)
  have "keeps (\<lambda>d. d\<lparr>pcap_subscribed := False\<rparr>) s (let_capture_run env s)" by simp
  then show ?case using api_keeps [OF c] Call.IH [OF _ n] keeps_trans by blast
qed

lemma run_testcase_keeps:
  assumes "orc_run_testcase env script s = Some (Return ec s1)"
  shows "keeps (\<lambda>d. d\<lparr>pcap_subscribed := False\<rparr>) s s1"
  using assms by (auto simp: orc_run_testcase_def dest!: run_script_keeps)

end
