(* ===== verification/OrchestratorSend.thy ===== *)
theory OrchestratorSend
  imports OrchestratorReach
begin

text \<open>
  What the orchestrator sends: a successful broadcast puts exactly one message on every connection,
  addressed to the fragment and acceptable to it.
\<close>

section \<open>Broadcasts\<close>

text \<open>A lambda of a request of type \<open>t\<close> that keeps the header and leaves a message that fits.\<close>

definition fills_well :: "message_type \<Rightarrow> (u16 \<Rightarrow> buffer \<Rightarrow> buffer option) \<Rightarrow> bool" where
  "fills_well t fill \<longleftrightarrow> (\<forall>i m m1. get_type m = Some t \<longrightarrow> is_request_msg m \<longrightarrow> fill i m = Some m1 \<longrightarrow>
     same_header m m1 \<and> well_sized m1)"

text \<open>The message for fragment \<open>i\<close>: its wire image \<open>w\<close> and the buffer \<open>m1\<close> it was made from.\<close>

definition request_sent ::
  "message_type \<Rightarrow> (u16 \<Rightarrow> buffer \<Rightarrow> buffer option) \<Rightarrow> u16 \<Rightarrow> u8 list \<Rightarrow> bool" where
  "request_sent t fill i w \<longleftrightarrow> (\<exists>m m1. fill i m = Some m1 \<and> get_type m = Some t \<and> is_request_msg m
     \<and> (\<forall>b. slice b 0 (length w) = w \<longrightarrow>
          delivered m1 b \<and> fragment_check_header i True True b t = Some NONE))"

definition request_header :: "message_type \<Rightarrow> buffer \<Rightarrow> bool" where
  "request_header t m \<longleftrightarrow> get_type m = Some t \<and> is_request_msg m \<and> get_error_code m = Some NONE"

lemma request_header_prepared [simp]: "request_header t (orchestrator_prepare_header fid t m)"
  by (simp add: request_header_def orchestrator_prepare_header_def)

lemma request_header_set_id [simp]:
  "request_header t (set_fragment_id i m) = request_header t m"
  by (simp add: request_header_def)

lemma finalized_request:
  assumes hdr: "request_header t m" and fill: "fills_well t fill"
    and m1: "fill i (set_fragment_id i m) = Some m1" and m2: "finalize m1 = Some m2"
  shows "request_header t m2 \<and> request_sent t fill i (slice m2 0 (unat (get_total_length m2)))"
proof -
  let ?m = "set_fragment_id i m" and ?w = "slice m2 0 (unat (get_total_length m2))"
  have h: "get_type ?m = Some t" "is_request_msg ?m" "get_error_code ?m = Some NONE"
    using hdr by (simp_all add: request_header_def)
  then have same: "same_header ?m m1" and ws: "well_sized m1"
    using fill m1 unfolding fills_well_def by blast+
  have del: "delivered m1 b" if "slice b 0 (length ?w) = ?w" for b
    using that ws m2 by (simp add: delivered_def)
  have m1h: "get_type m1 = Some t" "is_request_msg m1" "get_fragment_id m1 = i" "get_error_code m1 = Some NONE"
    using same_header_accessors [OF same] h by simp_all
  have "request_header t m2"
    using delivered_header [OF del [of m2]] m1h by (simp add: request_header_def)
  moreover have "fragment_check_header i True True b t = Some NONE" if "delivered m1 b" for b
    using fragment_check_delivered [OF that m1h(4)] m1h by simp
  ultimately show ?thesis using del m1 h unfolding request_sent_def by blast
qed

lemma ctrl_send_NONE:
  assumes "ctrl_send env fd t e s = Some (Return NONE s1)" and "e \<noteq> NONE"
  shows "o_net s1 = transmit fd (slice (o_msg_ctrl s) 0 (unat (get_total_length (o_msg_ctrl s)))) (o_net s)
    \<and> o_msg_ctrl s1 = o_msg_ctrl s"
proof -
  obtain k s0 bs where "otick s = (k, s0)" and r: "send_with_timeout (oe_nonblock env k) (o_msg_ctrl s) t e
      (oe_tx env k) = Some (Return NONE bs)" and "s1 = s0\<lparr>o_net := transmit fd bs (o_net s)\<rparr>"
    using assms(1) by (auto simp: ctrl_send_def bind_eq_Some_conv otick_def)
  then show ?thesis
    using send_message_NONE [OF r [unfolded send_with_timeout_def] assms(2)]
    by (auto simp: otick_def)
qed

lemma send_each_error:
  assumes "send_each env fill conn timer idx fds pend ec s = Some (Return ec1 s1)" and "ec \<noteq> NONE"
  shows "ec1 = ec"
  using assms
proof (induction env fill conn timer idx fds pend ec s rule: send_each.induct)
  case (2 env fill conn timer idx fd fds pend ec s)
  show ?case
  proof (cases "timer > 0")
    case True
    then obtain m m1 r where m: "fill (of_nat idx) (set_fragment_id (of_nat idx) (o_msg_ctrl s)) = Some m"
      and m1: "finalize m = Some m1"
      and r: "ctrl_send env fd (of_int timer) conn (s\<lparr>o_msg_ctrl := m1\<rparr>) = Some r"
      using 2(2) by (auto simp: bind_eq_Some_conv)
    show ?thesis
    proof (cases r)
      case (Return ec2 s2)
      then show ?thesis using 2 True m m1 r by simp
    qed (use 2(2) True m m1 r in auto)
  qed (use 2 in \<open>auto simp: sends_result_def\<close>)
qed (auto simp: sends_result_def)

lemma send_each_NONE:
  assumes "send_each env fill conn timer idx fds pend NONE s = Some (Return NONE s1)"
    and "conn \<noteq> NONE" and "fills_well t fill" and "request_header t (o_msg_ctrl s)"
    and "pend = of_nat (length fds)" and "idx + length fds \<le> 65535" and "distinct fds"
  shows "\<forall>fd. if fd \<in> set fds
      then (\<exists>w. txd (o_net s1) fd = txd (o_net s) fd @ w
        \<and> request_sent t fill (of_nat (idx + index_of fd fds)) w)
      else txd (o_net s1) fd = txd (o_net s) fd"
  using assms
proof (induction fds arbitrary: timer idx pend s)
  case Nil
  then show ?case by simp
next
  case (Cons fd fds)
  have pend: "pend \<noteq> 0"
  proof
    assume "pend = 0"
    moreover have "unat (of_nat (length (fd # fds)) :: u16) = length (fd # fds)"
      using Cons.prems(6) by (subst unat_of_nat) simp
    ultimately show False using Cons.prems(5) by (metis list.size(3) length_0_conv list.distinct(1) unat_0)
  qed
  then have t: "timer > 0"
    using Cons.prems(1) by (auto simp: sends_result_def split: if_split_asm)
  then obtain m m1 r where m: "fill (of_nat idx) (set_fragment_id (of_nat idx) (o_msg_ctrl s)) = Some m"
    and m1: "finalize m = Some m1"
    and r: "ctrl_send env fd (of_int timer) conn (s\<lparr>o_msg_ctrl := m1\<rparr>) = Some r"
    using Cons.prems(1) by (auto simp: bind_eq_Some_conv)
  obtain ec s2 where r2: "r = Return ec s2"
    using Cons.prems(1) t m m1 r by (cases r) auto
  then have rec: "send_each env fill conn (oe_timer env (o_calls s2)) (Suc idx) fds (pend - 1) ec s2
      = Some (Return NONE s1)"
    using Cons.prems(1) t m m1 r by simp
  have ec: "ec = NONE" using send_each_error [OF rec] by blast
  let ?w = "slice m1 0 (unat (get_total_length m1))"
  from finalized_request [OF Cons.prems(4,3) m m1]
  have h: "request_header t m1" and w: "request_sent t fill (of_nat idx) ?w" by auto
  from ctrl_send_NONE [OF r [unfolded r2 ec] Cons.prems(2)]
  have s2: "o_net s2 = transmit fd ?w (o_net s)" "o_msg_ctrl s2 = m1" by simp_all
  have IH: "\<forall>fd'. if fd' \<in> set fds
      then (\<exists>w. txd (o_net s1) fd' = txd (o_net s2) fd' @ w
        \<and> request_sent t fill (of_nat (Suc idx + index_of fd' fds)) w)
      else txd (o_net s1) fd' = txd (o_net s2) fd'"
  proof (rule Cons.IH [OF rec [unfolded ec] Cons.prems(2,3)])
    show "request_header t (o_msg_ctrl s2)" using h s2 by simp
    show "pend - 1 = of_nat (length fds)" using Cons.prems(5) by simp
    show "Suc idx + length fds \<le> 65535" "distinct fds" using Cons.prems(6,7) by simp_all
  qed
  have fd: "fd \<notin> set fds" using Cons.prems(7) by simp
  show ?case
  proof (intro allI)
    fix fd'
    show "if fd' \<in> set (fd # fds)
      then (\<exists>w. txd (o_net s1) fd' = txd (o_net s) fd' @ w
        \<and> request_sent t fill (of_nat (idx + index_of fd' (fd # fds))) w)
      else txd (o_net s1) fd' = txd (o_net s) fd'"
      using IH [rule_format, of fd'] fd w s2(1)
      by (cases "fd' = fd") (auto simp: transmit_def)
  qed
qed

text \<open>What reached the connections of the fragments.\<close>

lemma broadcast_NONE:
  assumes "foreach_fragment_send_ctrl env t fill s = Some (Return NONE s1)" and "fills_well t fill"
    and "distinct (map fd_ctrl (fragments s))" and "length (fragments s) \<le> 65535"
    and "i < length (fragments s)"
  shows "\<exists>w. txd (o_net s1) (fd_ctrl (fragments s ! i)) = txd (o_net s) (fd_ctrl (fragments s ! i)) @ w
    \<and> request_sent t fill (of_nat i) w"
proof -
  let ?fds = "map fd_ctrl (fragments s)"
  from send_each_NONE [OF assms(1) [unfolded foreach_fragment_send_ctrl_def
        foreach_fragment_send_generic_def] _ assms(2)] assms(3,4)
  have "\<forall>fd \<in> set ?fds. \<exists>w. txd (o_net s1) fd = txd (o_net s) fd @ w
      \<and> request_sent t fill (of_nat (index_of fd ?fds)) w"
    by (simp del: set_map split: if_split_asm) 
  moreover have "index_of (?fds ! i) ?fds = i" using index_of_nth [OF assms(3)] assms(5) by simp
  moreover have "?fds ! i \<in> set ?fds" using assms(5) by (intro nth_mem) simp
  ultimately show ?thesis using assms(5) by (metis nth_map)
qed

section \<open>The lambdas of the requests\<close>

lemma same_header_put:
  "sizeof_header \<le> p \<Longrightarrow> same_header m (buf_put p bs m1) = same_header m m1"
  by (simp add: same_header_def)

lemma same_header_refl [simp]: "same_header m m"
  by (simp add: same_header_def)

lemma fills_well_empty:
  "t \<in> {MSG_START_MIXNET_SERVER, MSG_START_TESTCASE, MSG_END_TESTCASE, MSG_SHUTDOWN} \<Longrightarrow>
    fills_well t empty_request"
  by (auto simp: fills_well_def empty_request_def well_sized_def msg_size_def const_defs)

lemma put_topology_well:
  assumes "put_topology r m = Some m1" and "get_type m = Some MSG_TOPOLOGY" "is_request_msg m"
    and n: "length (tr_link_costs r) = unat (tr_num_neighbors r)" "length (tr_link_costs r) \<le> 30000"
  shows "same_header m m1 \<and> well_sized m1"
proof -
  note put = u16_layout.put_elems_Some [OF assms(1) [unfolded put_topology_def Let_def]]
  have "same_header m m1" unfolding put by (simp add: same_header_put const_defs)
  from same_header_accessors [OF this] have "get_type m1 = Some MSG_TOPOLOGY" "is_request_msg m1"
    using assms(2,3) by simp_all
  moreover have "get_u16 10 m1 = tr_num_neighbors r"
    unfolding put using u16_layout.length_concat_enc [of "tr_link_costs r"] by (simp add: const_defs)
  ultimately have "msg_size m1 = Some (16 + 2 * length (tr_link_costs r))"
    using n(1) by (simp add: msg_size_def)
  then show ?thesis
    using \<open>same_header m m1\<close> \<open>is_request_msg m1\<close> n(2) by (simp add: well_sized_def const_defs)
qed

text \<open>The configuration a graph and a test case give to a node.\<close>

definition topology_of :: "testcase \<Rightarrow> nat \<Rightarrow> topology_request" where
  "topology_of tc i =
     (let g = tc_graph tc; nd = nodes g ! i; deg = length (topology g ! i)
      in \<lparr>tr_mixaddr = gn_mixaddr nd, tr_num_neighbors = of_nat deg,
          tr_do_random_routing = gn_do_random_routing nd, tr_mixing_factor = gn_mixing_factor nd,
          tr_root_hello_interval_ms = tc_root_hello_interval_ms tc,
          tr_reelection_interval_ms = tc_reelection_interval_ms tc,
          tr_link_costs = take deg (gn_link_costs nd)\<rparr>)"

lemma topology_fill_Some:
  assumes "topology_fill tc i m = Some m1"
  shows "put_topology (topology_of tc (unat i)) m = Some m1
    \<and> unat i < length (topology (tc_graph tc))
    \<and> length (tr_link_costs (topology_of tc (unat i))) = length (topology (tc_graph tc) ! unat i)"
  using assms by (auto simp: topology_fill_def topology_of_def Let_def split: if_split_asm)

definition degrees_ok :: "testcase \<Rightarrow> bool" where
  "degrees_ok tc \<longleftrightarrow> list_all (\<lambda>ns. length ns \<le> 30000) (topology (tc_graph tc))"

lemma topology_of_sizes:
  assumes "topology_fill tc i m = Some m1" and "degrees_ok tc"
  shows "length (tr_link_costs (topology_of tc (unat i))) = unat (tr_num_neighbors (topology_of tc (unat i)))
    \<and> length (tr_link_costs (topology_of tc (unat i))) \<le> 30000"
proof -
  have "length (topology (tc_graph tc) ! unat i) \<le> 30000"
    using assms(2) topology_fill_Some [OF assms(1)] by (simp add: degrees_ok_def list_all_length)
  then show ?thesis
    using topology_fill_Some [OF assms(1)]
    by (simp add: topology_of_def Let_def unat_of_nat)
qed

lemma topology_fills_well: "degrees_ok tc \<Longrightarrow> fills_well MSG_TOPOLOGY (topology_fill tc)"
  unfolding fills_well_def using topology_fill_Some topology_of_sizes put_topology_well by blast

lemma topology_request_received:
  assumes "request_sent MSG_TOPOLOGY (topology_fill tc) i w" and "degrees_ok tc"
    and "slice b 0 (length w) = w"
  shows "fragment_check_header i True True b MSG_TOPOLOGY = Some NONE
    \<and> get_topology b = Some (topology_of tc (unat i))"
proof -
  obtain m m1 where m1: "topology_fill tc i m = Some m1" and m: "get_type m = Some MSG_TOPOLOGY" "is_request_msg m"
    and d: "delivered m1 b" and c: "fragment_check_header i True True b MSG_TOPOLOGY = Some NONE"
    using assms(1,3) unfolding request_sent_def by blast
  note put = topology_fill_Some [OF m1, THEN conjunct1]
  have "same_header m m1"
    using put_topology_well [OF put m] topology_of_sizes [OF m1 assms(2)] by blast
  from same_header_accessors [OF this] m have "get_type m1 = Some MSG_TOPOLOGY" "is_request_msg m1" by simp_all
  then show ?thesis
    using topology_delivered [OF put _ _ _ d] topology_of_sizes [OF m1 assms(2)] c by simp
qed

section \<open>A request and its response\<close>

lemma link_fill_well: "fills_well MSG_CHANGE_LINK_STATE (\<lambda>_. link_fill nid v)"
  unfolding fills_well_def
proof (intro allI impI)
  fix i :: u16 and m m1
  assume m: "get_type m = Some MSG_CHANGE_LINK_STATE" "is_request_msg m" and m1: "link_fill nid v m = Some m1"
  then have "same_header m m1" by (auto simp: link_fill_def put_link_state_def same_header_put const_defs)
  with same_header_accessors [OF this] m show "same_header m m1 \<and> well_sized m1"
    by (simp add: well_sized_def msg_size_def const_defs)
qed

lemma link_request_received:
  assumes "request_sent MSG_CHANGE_LINK_STATE (\<lambda>_. link_fill nid v) i w" and "slice b 0 (length w) = w"
  shows "fragment_check_header i True True b MSG_CHANGE_LINK_STATE = Some NONE
    \<and> get_link_state b = \<lparr>neighbor_id = of_nat nid, link_enabled = v\<rparr>"
proof -
  obtain m m1 where m1: "link_fill nid v m = Some m1" and m: "get_type m = Some MSG_CHANGE_LINK_STATE" "is_request_msg m"
    and d: "delivered m1 b" and c: "fragment_check_header i True True b MSG_CHANGE_LINK_STATE = Some NONE"
    using assms unfolding request_sent_def by blast
  have "same_header m m1" using m1 by (auto simp: link_fill_def put_link_state_def same_header_put const_defs)
  from same_header_accessors [OF this] m have size: "msg_size m1 = Some 4" by (simp add: msg_size_def)
  have "m1 = buf_put 10 [of_bool v] (buf_put 8 (enc_u16 (of_nat nid)) m)"
    using m1 by (simp add: link_fill_def put_link_state_def const_defs)
  then have "get_u16 8 m1 = of_nat nid" "get_bool 10 m1 = v" by simp_all
  then show ?thesis
    using delivered_u16 [OF d size, of 8] delivered_bool [OF d size, of 10] c
    by (simp add: get_link_state_def const_defs)
qed

lemma ctrl_recv_txd:
  "ctrl_recv env fd t e s = Some (Return ec s1) \<Longrightarrow> txd (o_net s1) = txd (o_net s)"
  by (auto simp: ctrl_recv_def otick_def bind_eq_Some_conv)

text \<open>A successful request: the fragment got one message, and its response is a proper one.\<close>

lemma request_response_NONE:
  assumes "fragment_request_response env i t fill s = Some (Return NONE s1)"
    and "fills_well t (\<lambda>_. fill)"
  shows "unat i < length (fragments s)
    \<and> (\<exists>w. txd (o_net s1) = (txd (o_net s))(fd_ctrl (fragments s ! unat i) :=
              txd (o_net s) (fd_ctrl (fragments s ! unat i)) @ w)
         \<and> request_sent t (\<lambda>_. fill) i w)
    \<and> orchestrator_check_header (o_msg_ctrl s1) True i t = Some NONE"
proof -
  let ?h = "orchestrator_prepare_header i t (o_msg_ctrl s)"
  let ?fd = "fd_ctrl (fragments s ! unat i)"
  obtain m m1 where m: "fill ?h = Some m" and m1: "finalize m = Some m1" and i: "unat i < length (fragments s)"
    and r: "die_on_error (ctrl_send env ?fd (timeout_communication_ms s) CTRL_CONNECTION_BROKEN
        (s\<lparr>o_msg_ctrl := m1\<rparr>))
      (\<lambda>s1. die_on_error (ctrl_recv env ?fd (timeout_communication_ms s) CTRL_CONNECTION_BROKEN s1)
         (\<lambda>s2. do {
            ec \<leftarrow> orchestrator_check_header (o_msg_ctrl s2) True i t;
            Some (Return ec s2)
          })) = Some (Return NONE s1)"
    using assms(1) by (auto simp: fragment_request_response_def Let_def bind_eq_Some_conv split: if_split_asm)
  obtain s2 where send: "ctrl_send env ?fd (timeout_communication_ms s) CTRL_CONNECTION_BROKEN
        (s\<lparr>o_msg_ctrl := m1\<rparr>) = Some (Return NONE s2)"
    and recv: "ctrl_recv env ?fd (timeout_communication_ms s) CTRL_CONNECTION_BROKEN s2 = Some (Return NONE s1)"
    and check: "orchestrator_check_header (o_msg_ctrl s1) True i t = Some NONE"
    using r by (auto simp: die_on_error_Return bind_eq_Some_conv)
  have "fill (set_fragment_id i ?h) = Some m"
  proof -
    have "set_fragment_id i ?h = ?h"
      by (rule ext) (auto simp: orchestrator_prepare_header_def set_fragment_id_def set_code_def
          set_error_code_def buf_put_def const_defs)
    then show ?thesis using m by simp
  qed
  from finalized_request [OF _ assms(2) this m1]
  have w: "request_sent t (\<lambda>_. fill) i (slice m1 0 (unat (get_total_length m1)))" by simp
  show ?thesis
    using i check w ctrl_send_NONE [OF send] ctrl_recv_txd [OF recv]
    by (auto simp: transmit_def)
qed

end
