(* ===== verification/OrchestratorProps.thy ===== *)
theory OrchestratorProps
  imports OrchestratorSend
begin

text \<open>
  The run of the orchestrator: its states, what they have established, and what a finished run
  leaves.
\<close>

section \<open>The states of a run\<close>

text \<open>The exit code so far and the orchestrator, at the head of the main loop.\<close>

inductive orc_reach ::
  "orc_env \<Rightarrow> script \<Rightarrow> orchestrator \<Rightarrow> error_code \<Rightarrow> orchestrator \<Rightarrow> bool"
  for env script s0 where
  start: "orc_reach env script s0 NONE s0"
| step: "orc_reach env script s0 code s \<Longrightarrow> o_state s \<noteq> OS_RESET \<Longrightarrow>
    run_orc_state env script s = Some (Return ec s1) \<Longrightarrow>
    orc_reach env script s0 (if code = NONE then ec else code)
      (s1\<lparr>o_state := next_orc_state (o_state s) ec\<rparr>)"

lemma orchestrator_loop_reach:
  assumes "orchestrator_loop env script code s = Some (Return c s1)" and "orc_reach env script s0 code s"
  shows "\<exists>sr. orc_reach env script s0 c sr \<and> o_state sr = OS_RESET
    \<and> (\<exists>s2. orc_reset sr = Some s2 \<and> s1 = s2\<lparr>o_state := OS_RESET\<rparr>)"
  using assms
proof (induction env script code s rule: orchestrator_loop.induct)
  case (1 env script code s)
  obtain ec s2 where r: "run_orc_state env script s = Some (Return ec s2)"
    using 1(2) by (auto simp: orchestrator_loop.simps [of env script code s]
        split: option.split_asm progress.split_asm)
  show ?case
  proof (cases "o_state s = OS_RESET")
    case True
    then have "ec = NONE" "orc_reset s = Some s2" using r by auto
    then have "c = code" "s1 = s2\<lparr>o_state := OS_RESET\<rparr>"
      using 1(2) r True by (auto simp: orchestrator_loop.simps [of env script code s] next_orc_state_def)
    then show ?thesis using 1(3) True \<open>orc_reset s = Some s2\<close> by blast
  next
    case False
    then have "orchestrator_loop env script (if code = NONE then ec else code)
        (s2\<lparr>o_state := next_orc_state (o_state s) ec\<rparr>) = Some (Return c s1)"
      using 1(2) r by (simp add: orchestrator_loop.simps [of env script code s])
    then show ?thesis
      using 1(1) [OF r refl refl refl False] orc_reach.step [OF 1(3) False r] by simp
  qed
qed

section \<open>Invariants\<close>

text \<open>Every forked process is in the records of the fragments, was killed or has acknowledged.\<close>

definition pids_known :: "orchestrator \<Rightarrow> bool" where
  "pids_known s \<longleftrightarrow> (\<forall>p \<in> set (forked s). 0 < p
     \<and> p \<in> set (killed s) \<union> set (acknowledged s) \<union> pid ` set (fragments s))"

definition no_process_left :: "orchestrator \<Rightarrow> bool" where
  "no_process_left s \<longleftrightarrow>
     (\<forall>p \<in> set (forked s). 0 < p \<and> p \<in> set (killed s) \<union> set (acknowledged s))"

text \<open>What the states before have established.\<close>

definition all_created :: "orchestrator \<Rightarrow> bool" where
  "all_created s \<longleftrightarrow> length (fragments s) = unat (num_nodes (graph_of s))"

definition no_clients :: "orchestrator \<Rightarrow> bool" where
  "no_clients s \<longleftrightarrow> (\<forall>d \<in> set (fragments s). client_netaddrs d = [])"

definition servers_ready :: "orchestrator \<Rightarrow> bool" where
  "servers_ready s \<longleftrightarrow> (\<forall>i < length (fragments s). server_known (topology (graph_of s)) i s)"

definition clients_ready :: "orchestrator \<Rightarrow> bool" where
  "clients_ready s \<longleftrightarrow> (\<forall>i < length (fragments s). clients_known (topology (graph_of s)) i s)"

fun established :: "orchestrator_state \<Rightarrow> orchestrator \<Rightarrow> bool" where
  "established OS_INIT s \<longleftrightarrow> fragments s = []"
| "established OS_SETUP_CTRL_PLANE s \<longleftrightarrow> fragments s = []"
| "established OS_SETUP_PCAP_PLANE s \<longleftrightarrow> all_created s \<and> no_clients s"
| "established OS_CREATE_MIXNET_TOPOLOGY s \<longleftrightarrow> all_created s \<and> no_clients s"
| "established OS_START_ALL_MIXNET_SERVERS s \<longleftrightarrow> all_created s \<and> no_clients s"
| "established OS_START_ALL_MIXNET_CLIENTS s \<longleftrightarrow> all_created s \<and> no_clients s \<and> servers_ready s"
| "established OS_GRACEFUL_SHUTDOWN s \<longleftrightarrow> all_created s"
| "established OS_FORCEFUL_SHUTDOWN s \<longleftrightarrow> True"
| "established OS_RESET s \<longleftrightarrow> True"
| "established _ s \<longleftrightarrow> all_created s \<and> servers_ready s \<and> clients_ready s"

definition orc_inv :: "orchestrator \<Rightarrow> error_code \<Rightarrow> orchestrator \<Rightarrow> bool" where
  "orc_inv s0 code s \<longleftrightarrow> o_testcase s = o_testcase s0 \<and> established (o_state s) s \<and> pids_known s
     \<and> (o_state s = OS_RESET \<longrightarrow> no_process_left s)
     \<and> (code = NONE \<longrightarrow> killed s = killed s0 \<and> o_state s \<noteq> OS_FORCEFUL_SHUTDOWN)"

lemma keeps_pids_known:
  assumes k: "keeps rest s s1" and "\<And>d. pid (rest d) = pid d" and "pids_known s"
  shows "pids_known s1"
proof -
  have "map pid (fragments s1) = map pid (fragments s)" using keeps_map [OF k] assms(2) by blast
  then have "pid ` set (fragments s1) = pid ` set (fragments s)" by (metis set_map)
  then show ?thesis using k assms(3) by (simp add: pids_known_def keeps_def fixed_def)
qed

lemma keeps_established:
  assumes k: "keeps rest s s1"
  shows "all_created s \<Longrightarrow> all_created s1"
    and "(\<And>d. client_netaddrs (rest d) = client_netaddrs d) \<Longrightarrow> no_clients s \<Longrightarrow> no_clients s1"
    and "(\<And>d. server_netaddr (rest d) = server_netaddr d) \<Longrightarrow> servers_ready s \<Longrightarrow> servers_ready s1"
    and "(\<And>d. client_netaddrs (rest d) = client_netaddrs d) \<Longrightarrow> clients_ready s \<Longrightarrow> clients_ready s1"
proof -
  have g: "graph_of s1 = graph_of s" "length (fragments s1) = length (fragments s)"
    using k by (simp_all add: keeps_def fixed_def graph_of_def)
  then show "all_created s \<Longrightarrow> all_created s1" by (simp add: all_created_def)
  have nth: "(\<And>d. f (rest d) = f d) \<Longrightarrow> i < length (fragments s) \<Longrightarrow> f (fragments s1 ! i) = f (fragments s ! i)"
    for f :: "fragment_metadata \<Rightarrow> 'x" and i
    using keeps_map [OF k, of f] g(2) by (metis nth_map)
  show "no_clients s1" if "\<And>d. client_netaddrs (rest d) = client_netaddrs d" "no_clients s"
    using nth [of client_netaddrs, OF that(1)] that(2) g(2)
    unfolding no_clients_def all_set_conv_all_nth by simp
  show "servers_ready s1" if "\<And>d. server_netaddr (rest d) = server_netaddr d" "servers_ready s"
    using nth [of server_netaddr, OF that(1)] that(2) g by (simp add: servers_ready_def server_known_def)
  show "clients_ready s1" if "\<And>d. client_netaddrs (rest d) = client_netaddrs d" "clients_ready s"
    using nth [of client_netaddrs, OF that(1)] that(2) g by (simp add: clients_ready_def clients_known_def)
qed

lemma established_state [simp]:
  "all_created (s\<lparr>o_state := st\<rparr>) = all_created s" "no_clients (s\<lparr>o_state := st\<rparr>) = no_clients s"
  "servers_ready (s\<lparr>o_state := st\<rparr>) = servers_ready s"
  "clients_ready (s\<lparr>o_state := st\<rparr>) = clients_ready s" "pids_known (s\<lparr>o_state := st\<rparr>) = pids_known s"
  "no_process_left (s\<lparr>o_state := st\<rparr>) = no_process_left s"
  by (simp_all add: all_created_def no_clients_def servers_ready_def server_known_def
      clients_ready_def clients_known_def pids_known_def no_process_left_def graph_of_def)

lemma orc_inv_next:
  assumes "orc_inv s0 code s" and "keeps rest s s1" and "\<And>d. pid (rest d) = pid d"
    and "established (next_orc_state (o_state s) ec) s1"
    and "next_orc_state (o_state s) ec \<notin> {OS_RESET, OS_FORCEFUL_SHUTDOWN}"
  shows "orc_inv s0 (if code = NONE then ec else code) (s1\<lparr>o_state := next_orc_state (o_state s) ec\<rparr>)"
proof -
  have "established st (s1\<lparr>o_state := st'\<rparr>) = established st s1" for st st'
    by (cases st) simp_all
  then show ?thesis
    using assms keeps_pids_known [OF assms(2,3)]
    by (auto simp: orc_inv_def keeps_def fixed_def split: if_splits)
qed

lemma orc_inv_io:
  assumes "orc_inv s0 code s" and "io_only s s1"
    and "established (o_state s) s \<longrightarrow> established (next_orc_state (o_state s) ec) s"
    and "next_orc_state (o_state s) ec \<notin> {OS_RESET, OS_FORCEFUL_SHUTDOWN}"
  shows "orc_inv s0 (if code = NONE then ec else code) (s1\<lparr>o_state := next_orc_state (o_state s) ec\<rparr>)"
proof (rule orc_inv_next [OF assms(1) io_keeps [OF assms(2), where rest = "\<lambda>d. d"] refl _ assms(4)])
  have "established (next_orc_state (o_state s) ec) s" using assms(1,3) by (simp add: orc_inv_def)
  then show "established (next_orc_state (o_state s) ec) s1"
    using keeps_established [OF io_keeps [OF assms(2), where rest = "\<lambda>d. d"]] io_only_sel(1) [OF assms(2)]
    by (cases "next_orc_state (o_state s) ec") simp_all
qed

lemma all_created_fits: "all_created s \<Longrightarrow> length (fragments s) \<le> 65535"
  using unat_u16_less [of "num_nodes (graph_of s)"] by (simp add: all_created_def)

lemma born_inv:
  assumes "orc_inv s0 code s" and b: "born s s1" and emp: "fragments s = []"
    and "ec = NONE \<longrightarrow> all_created s1" and st: "o_state s = OS_SETUP_CTRL_PLANE"
  shows "orc_inv s0 (if code = NONE then ec else code) (s1\<lparr>o_state := next_orc_state (o_state s) ec\<rparr>)"
proof -
  have "pids_known s1" using assms(1) b emp by (auto simp: orc_inv_def pids_known_def born_def)
  moreover have "no_clients s1" using b by (simp add: no_clients_def born_def)
  ultimately show ?thesis
    using assms by (auto simp: orc_inv_def born_def next_orc_state_def split: if_splits)
qed

lemma released_pids:
  assumes "released_inv s s1" and "pids_known s"
  shows "pids_known s1"
proof -
  let ?known = "\<lambda>s. set (killed s) \<union> set (acknowledged s) \<union> pid ` set (fragments s)"
  have same: "killed s1 = killed s" "forked s1 = forked s"
    and "set (acknowledged s) \<union> pid ` set (fragments s) \<subseteq> set (acknowledged s1) \<union> pid ` set (fragments s1)"
    using assms(1) by (simp_all add: released_inv_def fixed_def)
  then have "?known s \<subseteq> ?known s1" unfolding same by blast
  then show ?thesis using assms(2) same(2) unfolding pids_known_def by (metis subsetD)
qed

lemma pids_gone:
  assumes "pids_known s" and "\<forall>d \<in> set (fragments s). pid d = - 1"
  shows "no_process_left s"
  using assms by (fastforce simp: pids_known_def no_process_left_def)

lemma killed_all:
  assumes "pids_known s"
  shows "no_process_left (destroy_fragments s) \<and> pids_known (destroy_fragments s)"
proof -
  have "p \<noteq> - 1" if "0 < p" for p :: int using that by simp
  then show ?thesis
    using assms by (auto simp: pids_known_def no_process_left_def destroy_fragments_def)
qed

lemma orc_inv_step:
  assumes inv: "orc_inv s0 code s" and r: "run_orc_state env script s = Some (Return ec s1)"
    and "o_state s \<noteq> OS_RESET"
  shows "orc_inv s0 (if code = NONE then ec else code) (s1\<lparr>o_state := next_orc_state (o_state s) ec\<rparr>)"
proof (cases "o_state s")
  case OS_INIT
  then have "s1 = s" "ec = NONE" using r by (auto simp: run_state_init_def split: if_splits)
  then show ?thesis using orc_inv_io [OF inv, of s NONE] OS_INIT by (auto simp: next_orc_state_def)
next
  case OS_SETUP_CTRL_PLANE
  then have "orc_setup_ctrl env s = Some (Return ec s1)" using r by simp
  from setup_ctrl_effect [OF this] show ?thesis
    using born_inv [OF inv] OS_SETUP_CTRL_PLANE by (auto simp: all_created_def graph_of_def born_def)
next
  case OS_SETUP_PCAP_PLANE
  then have "keeps (\<lambda>d. d\<lparr>fd_pcap := 0\<rparr>) s s1" using r setup_pcap_effect by simp
  from orc_inv_next [OF inv this] keeps_established(1,2) [OF this] show ?thesis
    using inv OS_SETUP_PCAP_PLANE by (auto simp: next_orc_state_def orc_inv_def)
next
  case OS_CREATE_MIXNET_TOPOLOGY
  then have "io_only s s1" using r
    by (auto simp: orc_create_topology_def split: if_splits dest: acknowledged_state_effect)
  then show ?thesis using orc_inv_io [OF inv] OS_CREATE_MIXNET_TOPOLOGY by (simp add: next_orc_state_def)
next
  case OS_START_ALL_MIXNET_SERVERS
  have c: "all_created s" "no_clients s" using inv OS_START_ALL_MIXNET_SERVERS by (simp_all add: orc_inv_def)
  have "orc_start_server env s = Some (Return ec s1)" using r OS_START_ALL_MIXNET_SERVERS by simp
  from start_server_effect [OF this all_created_fits [OF c(1)]]
  have k: "keeps (\<lambda>d. d\<lparr>server_netaddr := no_netaddr\<rparr>) s s1"
    and "ec = NONE \<longrightarrow> servers_ready s1"
    by (auto simp: servers_ready_def keeps_def fixed_def graph_of_def)
  then show ?thesis
    using orc_inv_next [OF inv k] keeps_established(1,2) [OF k] c OS_START_ALL_MIXNET_SERVERS
    by (auto simp: next_orc_state_def)
next
  case OS_START_ALL_MIXNET_CLIENTS
  have c: "all_created s" "no_clients s" "servers_ready s"
    using inv OS_START_ALL_MIXNET_CLIENTS by (simp_all add: orc_inv_def)
  have "orc_start_clients env s = Some (Return ec s1)" using r OS_START_ALL_MIXNET_CLIENTS by simp
  from start_clients_effect [OF this all_created_fits [OF c(1)]] c(2)
  have k: "keeps (\<lambda>d. d\<lparr>client_netaddrs := []\<rparr>) s s1" and "ec = NONE \<longrightarrow> clients_ready s1"
    by (auto simp: clients_ready_def no_clients_def keeps_def fixed_def graph_of_def)
  then show ?thesis
    using orc_inv_next [OF inv k] keeps_established(1,3) [OF k] c OS_START_ALL_MIXNET_CLIENTS
    by (auto simp: next_orc_state_def)
next
  case OS_RESOLVE_MIXNET_CONNECTIONS
  then have "io_only s s1" using r
    by (auto simp: orc_resolve_def split: if_splits dest: acknowledged_state_effect)
  then show ?thesis using orc_inv_io [OF inv] OS_RESOLVE_MIXNET_CONNECTIONS by (simp add: next_orc_state_def)
next
  case OS_START_TESTCASE
  then have "io_only s s1" using r
    by (auto simp: orc_start_testcase_def split: if_splits dest: acknowledged_state_effect)
  then show ?thesis using orc_inv_io [OF inv] OS_START_TESTCASE by (simp add: next_orc_state_def)
next
  case OS_RUN_TESTCASE
  then have "keeps (\<lambda>d. d\<lparr>pcap_subscribed := False\<rparr>) s s1" using r run_testcase_keeps by simp
  from orc_inv_next [OF inv this] keeps_established(1,3,4) [OF this] show ?thesis
    using inv OS_RUN_TESTCASE by (auto simp: next_orc_state_def orc_inv_def)
next
  case OS_END_TESTCASE
  then have "io_only s s1" using r
    by (auto simp: orc_end_testcase_def split: if_splits dest: acknowledged_state_effect)
  then show ?thesis using orc_inv_io [OF inv] OS_END_TESTCASE by (simp add: next_orc_state_def)
next
  case OS_GRACEFUL_SHUTDOWN
  then have "orc_graceful_shutdown env s = Some (Return ec s1)" "all_created s"
    using r inv by (simp_all add: orc_inv_def)
  from graceful_shutdown_effect [OF this(1) all_created_fits [OF this(2)]]
  have rel: "released_inv s s1" and "ec = NONE \<longrightarrow> (\<forall>d \<in> set (fragments s1). pid d = - 1)" by auto
  moreover have "pids_known s1" using released_pids [OF rel] inv by (simp add: orc_inv_def)
  ultimately show ?thesis
    using inv pids_gone [of s1] OS_GRACEFUL_SHUTDOWN
    by (auto simp: orc_inv_def next_orc_state_def released_inv_def fixed_def split: if_splits)
next
  case OS_FORCEFUL_SHUTDOWN
  then have "s1 = destroy_fragments s" "ec = NONE" using r by (auto simp: orc_forceful_shutdown_def)
  then show ?thesis
    using inv killed_all [of s] OS_FORCEFUL_SHUTDOWN
    by (auto simp: orc_inv_def next_orc_state_def destroy_fragments_def)
qed (use assms(3) in simp)

definition idle :: "orchestrator \<Rightarrow> bool" where
  "idle s \<longleftrightarrow> fragments s = [] \<and> no_process_left s"

lemma orc_reach_inv:
  assumes "orc_reach env script s0 code s" and "idle s0" and "o_state s0 = OS_INIT"
  shows "orc_inv s0 code s"
  using assms
proof (induction rule: orc_reach.induct)
  case start
  then show ?case by (auto simp: orc_inv_def idle_def no_process_left_def pids_known_def)
next
  case (step code s ec s1)
  then show ?case using orc_inv_step by blast
qed

section \<open>Success\<close>

text \<open>The test case has returned without an error in a state that was reached without one.\<close>

definition script_succeeded :: "orc_env \<Rightarrow> script \<Rightarrow> orchestrator \<Rightarrow> bool" where
  "script_succeeded env script s0 \<longleftrightarrow> (\<exists>r r1. orc_reach env script s0 NONE r
     \<and> o_state r = OS_RUN_TESTCASE \<and> orc_run_testcase env script r = Some (Return NONE r1))"

lemma orc_reach_succeeded:
  assumes "orc_reach env script s0 code s" and "idle s0" and "o_state s0 = OS_INIT"
    and "code = NONE" and "o_state s \<in> {OS_END_TESTCASE, OS_GRACEFUL_SHUTDOWN, OS_RESET}"
  shows "script_succeeded env script s0"
  using assms
proof (induction rule: orc_reach.induct)
  case (step code s ec s1)
  from step.prems(3) have none: "code = NONE" "ec = NONE" by (auto split: if_split_asm)
  have "o_state s \<noteq> OS_FORCEFUL_SHUTDOWN"
    using orc_reach_inv [OF step.hyps(1) step.prems(1,2)] none(1) by (simp add: orc_inv_def)
  then have "o_state s = OS_RUN_TESTCASE \<or> o_state s \<in> {OS_END_TESTCASE, OS_GRACEFUL_SHUTDOWN, OS_RESET}"
    using step.prems(4) none(2) by (cases "o_state s") (simp_all add: next_orc_state_def)
  then show ?case
  proof
    assume "o_state s = OS_RUN_TESTCASE"
    then show ?thesis using step.hyps none unfolding script_succeeded_def by auto
  next
    assume "o_state s \<in> {OS_END_TESTCASE, OS_GRACEFUL_SHUTDOWN, OS_RESET}"
    then show ?thesis using step.IH step.prems(1,2) none(1) by blast
  qed
qed simp

lemma run_end:
  assumes run: "orchestrator_run env tc script s0 = Some (Return ec s1)" and "idle s0"
  defines "s0' \<equiv> s0\<lparr>o_testcase := tc, o_state := OS_INIT\<rparr>"
  obtains sr where "orc_reach env script s0' ec sr" "o_state sr = OS_RESET" "orc_inv s0' ec sr"
    "s1 = (destroy_sockets sr)\<lparr>pcap_thread_error := NONE, pcap_thread_run := True,
      listen_fd_ctrl := - 1, listen_fd_pcap := - 1, fragments := [], o_state := OS_RESET\<rparr>"
proof -
  have "orchestrator_loop env script NONE s0' = Some (Return ec s1)"
    using run by (auto simp: orchestrator_run_def s0'_def split: if_split_asm)
  from orchestrator_loop_reach [OF this orc_reach.start] obtain sr s2
    where sr: "orc_reach env script s0' ec sr" "o_state sr = OS_RESET"
      and s2: "orc_reset sr = Some s2" "s1 = s2\<lparr>o_state := OS_RESET\<rparr>" by blast
  have "idle s0'" "o_state s0' = OS_INIT"
    using assms(2) by (simp_all add: idle_def no_process_left_def s0'_def)
  from orc_reach_inv [OF sr(1) this] have "orc_inv s0' ec sr" .
  moreover have "s2 = (destroy_sockets sr)\<lparr>pcap_thread_error := NONE, pcap_thread_run := True,
      listen_fd_ctrl := - 1, listen_fd_pcap := - 1, fragments := []\<rparr>"
    using s2(1) by (simp add: orc_reset_def split: if_split_asm)
  ultimately show thesis using sr s2(2) by (intro that) simp_all
qed

section \<open>The connections of the control plane\<close>

lemma accept_results_undisturbed [simp]: "accept_results (undisturbed evs) = accept_results evs"
  by (induction evs) (simp_all add: undisturbed_def)

lemma accept_results_take: "\<exists>rest. accept_results evs = accept_results (take k evs) @ rest"
proof -
  have "accept_results (xs @ ys) = accept_results xs @ accept_results ys" for xs ys
    by (induction xs) simp_all
  then show ?thesis by (metis append_take_drop_id)
qed

lemma setup_ctrl_NONE:
  assumes "orc_setup_ctrl env s = Some (Return NONE s1)"
  obtains s2 a s3 where "length (fragments s2) = unat (num_nodes (graph_of s))"
    "server_accept (undisturbed (oe_accept env (o_calls s)))
      (init_accept_args True (timeout_connect_ms s2) (num_nodes (graph_of s))) = Some a"
    "num_accepted a = num_nodes (graph_of s)"
    "foreach_fragment_recv_generic env False (map connection_fd (take (length (fragments s2)) (states a)))
      MSG_SETUP_CTRL (claim_ctrl (map connection_fd (take (length (fragments s2)) (states a))))
      CTRL_CONNECTION_BROKEN s2 = Some (Return NONE s3)"
    "io_only s3 s1"
proof -
  let ?n = "num_nodes (graph_of s)"
  let ?s0 = "s\<lparr>o_calls := Suc (o_calls s)\<rparr>"
  obtain fd ok s2 where f: "start_fragments env (o_calls s) ?n (?s0\<lparr>listen_fd_ctrl := fd\<rparr>) = Some (ok, s2)"
    and emp: "fragments s = []"
    and j: "joined s2 ?n (undisturbed (oe_accept env (o_calls s))) (ctrl_handshake env ?n ok s2)
      = Some (Return NONE s1)"
    using assms by (auto simp: orc_setup_ctrl_def otick_def Let_def bind_eq_Some_conv
        split: if_split_asm prod.split_asm)
  obtain a where a: "server_accept (undisturbed (oe_accept env (o_calls s)))
      (init_accept_args True (timeout_connect_ms s2) ?n) = Some a"
    and h: "ctrl_handshake env ?n ok s2 a = Some (Return NONE s1)"
    using j by (auto simp: joined_def bind_eq_Some_conv split: if_split_asm)
  have "ok" "accepted_all ?n a = NONE"
    using h by (auto simp: ctrl_handshake_def split: if_split_asm)
  moreover from this have "num_accepted a = ?n"
    by (auto simp: accepted_all_def split: if_split_asm)
  ultimately show thesis
    using start_fragments_effect [OF f] emp a h that [of s2 a]
    by (auto simp: ctrl_handshake_def Let_def die_on_error_Return dest: foreach_send_ctrl_io)
qed

lemma setup_ctrl_connections:
  assumes "orc_setup_ctrl env s = Some (Return NONE s1)"
    and d: "distinct (map fst (accept_results (oe_accept env (o_calls s))))"
    and m: "- 1 \<notin> fst ` set (accept_results (oe_accept env (o_calls s)))"
  shows "length (fragments s1) = unat (num_nodes (graph_of s)) \<and> distinct (map fd_ctrl (fragments s1))
    \<and> fd_ctrl ` set (fragments s1) \<subseteq> fst ` set (accept_results (oe_accept env (o_calls s)))"
proof -
  let ?n = "num_nodes (graph_of s)" and ?evs = "oe_accept env (o_calls s)"
  obtain s2 a s3 where len: "length (fragments s2) = unat ?n"
    and a: "server_accept (undisturbed ?evs) (init_accept_args True (timeout_connect_ms s2) ?n) = Some a"
      "num_accepted a = ?n"
    and r: "foreach_fragment_recv_generic env False
        (map connection_fd (take (length (fragments s2)) (states a))) MSG_SETUP_CTRL
        (claim_ctrl (map connection_fd (take (length (fragments s2)) (states a))))
        CTRL_CONNECTION_BROKEN s2 = Some (Return NONE s3)"
    and io: "io_only s3 s1"
    using assms(1) by (rule setup_ctrl_NONE)
  let ?fds = "map connection_fd (take (length (fragments s2)) (states a))"
  obtain k where k: "accepted a = accept_results (take k (undisturbed ?evs))" "length (accepted a) = unat ?n"
    using server_accept_inv [OF a(1)] a(2) by auto
  obtain rest where rest: "accept_results ?evs = accepted a @ rest"
    using accept_results_take [of "undisturbed ?evs" k] k(1) by auto
  have fds: "?fds = map fst (accepted a)" using len a(2) by (simp add: accepted_def)
  have "distinct ?fds" "- 1 \<notin> set ?fds" "length ?fds \<le> 65535" "length (fragments s2) = length ?fds"
    using d m rest k(2) len unat_u16_less [of ?n] unfolding fds by auto
  from ctrl.claims_all [OF r this] have ms: "mset (map fd_ctrl (fragments s3)) = mset ?fds" .
  then have "distinct (map fd_ctrl (fragments s3))" using \<open>distinct ?fds\<close> mset_eq_imp_distinct_iff by blast
  moreover have "fd_ctrl ` set (fragments s3) = set ?fds" using ms by (metis mset_eq_setD set_map)
  moreover have "length (fragments s3) = unat ?n"
    using ms k(2) fds by (metis length_map size_mset)
  ultimately show ?thesis
    using io_only_sel(1) [OF io] rest unfolding fds by auto
qed

section \<open>Resolution requests\<close>

lemma client_towards_neighbor:
  assumes wf: "graph_wf g" and len: "length ds = unat (num_nodes g)" and i: "i < num_nodes g"
    and nb: "nb \<in> set (topology g ! unat i)"
    and cl: "\<forall>k < unat (num_nodes g). length (client_netaddrs (ds ! k)) = length (topology g ! k)"
  shows "\<exists>j < length (topology g ! unat nb). topology g ! unat nb ! j = i
    \<and> client_towards (topology g) ds i nb = Some (client_netaddrs (ds ! unat nb) ! j)
    \<and> j < length (client_netaddrs (ds ! unat nb))"
proof -
  have n: "nb < num_nodes g" "i \<in> set (topology g ! unat nb)"
    using graph_wfD(4,5) [OF wf i nb] by blast+
  then have "unat nb < length (topology g)" "unat nb < length ds" "unat nb < unat (num_nodes g)"
    using graph_wf_len(2) [OF wf] len by (simp_all add: word_less_nat_alt)
  moreover from this have "length (client_netaddrs (ds ! unat nb)) = length (topology g ! unat nb)"
    using cl by blast
  moreover note index_of_less [OF n(2)] nth_index_of [OF n(2)]
  ultimately show ?thesis
    by (intro exI [of _ "index_of i (topology g ! unat nb)"]) (simp add: client_towards_def)
qed

lemma clients_towards_all:
  assumes "\<forall>nb \<in> set nbs. client_towards topo ds i nb = Some (f nb)"
  shows "clients_towards topo ds i nbs = Some (map f nbs)"
  using assms by (induction nbs) simp_all

lemma put_netaddrs_fits:
  assumes "length as \<le> 4094"
  shows "put_netaddrs n as m \<noteq> None"
  using netaddr_layout.put_elems_eq [of 16 as] assms by (simp add: put_netaddrs_def const_defs)

end
