(* ===== verification/OrchestratorCapture.thy ===== *)
theory OrchestratorCapture
  imports OrchestratorCollect
begin

text \<open>
  The capture thread of the orchestrator: what it hands to the test case.
\<close>

section \<open>Captures\<close>

lemma captured_packet_size:
  assumes "captured_packet m = Some p"
  shows "total_size p = get_u16 sizeof_header m"
proof -
  let ?bs = "slice m sizeof_header (max sizeof_mixnet_packet (unat (get_u16 sizeof_header m)))"
  have "rd_le 2 0 ?bs = Some (total_size p)"
    using assms by (auto simp: captured_packet_def Let_def packet_of_bytes_def bind_eq_Some_conv
        split: if_split_asm)
  moreover have "take 2 ?bs = slice m sizeof_header 2"
    by (simp add: slice_take [symmetric] const_defs)
  ultimately show ?thesis
    by (auto simp: rd_le_def get_u16_def split: if_split_asm)
qed

definition captures_ok :: "capture_event \<Rightarrow> orchestrator \<Rightarrow> (u16 \<times> mixnet_packet) list \<Rightarrow> bool" where
  "captures_ok e s cs \<longleftrightarrow> (\<forall>(i, p) \<in> set cs. unat i < length (fragments s)
     \<and> ce_subscribed e (unat i) \<and> ce_ready e (unat i) \<and> total_size p \<le> MAX_MIXNET_PACKET_SIZE)"

lemma checked_id: "orchestrator_check_header m True i t = Some NONE \<Longrightarrow> get_fragment_id m = i"
  by (auto simp: orchestrator_check_header_def bind_eq_Some_conv split: if_split_asm)

lemma captures_ok_error [simp]:
  "captures_ok e (s\<lparr>pcap_thread_error := ec\<rparr>) cs = captures_ok e s cs"
  by (simp add: captures_ok_def)

lemma deliver_capture_result:
  assumes d: "deliver_capture i s = Some (ec, s1)"
  shows "\<exists>cs. s1 = s\<lparr>captured := captured s @ cs\<rparr>
    \<and> (\<forall>(f, p) \<in> set cs. f = of_nat i \<and> total_size p \<le> MAX_MIXNET_PACKET_SIZE)"
proof -
  let ?m = "o_msg_pcap s"
  obtain e where e: "orchestrator_check_header ?m True (of_nat i) MSG_PCAP_DATA = Some e"
    using d by (cases "orchestrator_check_header ?m True (of_nat i) MSG_PCAP_DATA") (simp_all add: deliver_capture_def)
  consider (unchanged) "s1 = s" | (packet) p where "e = NONE" "captured_packet ?m = Some p"
      "get_u16 sizeof_header ?m \<le> MAX_MIXNET_PACKET_SIZE"
      "s1 = s\<lparr>captured := captured s @ [(get_fragment_id ?m, p)]\<rparr>"
  proof (cases "e \<noteq> NONE \<or> get_u16 sizeof_header ?m > MAX_MIXNET_PACKET_SIZE")
    case True
    then show thesis using d e unchanged by (simp add: deliver_capture_def split: if_split_asm)
  next
    case False
    then obtain p where "captured_packet ?m = Some p"
      using d e by (cases "captured_packet ?m") (simp_all add: deliver_capture_def)
    moreover have "get_u16 sizeof_header ?m \<le> MAX_MIXNET_PACKET_SIZE" "e = NONE" using False by auto
    ultimately show thesis using d e False packet by (simp add: deliver_capture_def)
  qed
  then show ?thesis
  proof cases
    case unchanged
    then show ?thesis by (intro exI [of _ "[]"]) simp
  next
    case packet
    then have "get_fragment_id ?m = of_nat i" using checked_id e by blast
    then show ?thesis using packet captured_packet_size [OF packet(2)]
      by (intro exI [of _ "[(get_fragment_id ?m, p)]"]) simp
  qed
qed

lemma capture_recv_result:
  "capture_recv e i s = Some (Return ec s1) \<Longrightarrow>
    captured s1 = captured s \<and> fragments s1 = fragments s"
  by (auto simp: capture_recv_def bind_eq_Some_conv Let_def)

lemma capture_ready_result:
  assumes "capture_ready e is ec s = Some (Return ec1 s1)"
    and "\<forall>i \<in> set is. i < length (fragments s) \<and> i \<le> 65535"
  shows "fragments s1 = fragments s \<and> (\<exists>cs. captured s1 = captured s @ cs \<and> captures_ok e s cs)"
  using assms
proof (induction "is" arbitrary: ec s)
  case Nil
  then show ?case by (auto simp: captures_ok_def)
next
  case (Cons i js)
  show ?case
  proof (cases "ce_ready e i \<and> ce_subscribed e i")
    case False
    then show ?thesis using Cons by auto
  next
    case True
    then obtain x where x: "capture_recv e i s = Some x"
      using Cons.prems(1) by (auto simp: bind_eq_Some_conv)
    then obtain ec2 s2 where r: "capture_recv e i s = Some (Return ec2 s2)"
      using Cons.prems(1) True by (cases x) auto
    note s2 = capture_recv_result [OF r]
    have w: "unat (of_nat i :: u16) = i" using Cons.prems(2) by (simp add: unat_of_nat)
    show ?thesis
    proof (cases "ec2 = NONE")
      case none: True
      then obtain ec3 s3 where d: "deliver_capture i s2 = Some (ec3, s3)"
        using Cons.prems(1) True r by (auto simp: bind_eq_Some_conv)
      from deliver_capture_result [OF d] obtain cs where cs: "s3 = s2\<lparr>captured := captured s2 @ cs\<rparr>"
        "\<forall>(f, p) \<in> set cs. f = of_nat i \<and> total_size p \<le> MAX_MIXNET_PACKET_SIZE" by blast
      then have ok: "captures_ok e s cs" using True Cons.prems(2) w by (auto simp: captures_ok_def)
      show ?thesis
      proof (cases "ec3 = NONE")
        case True
        then have "capture_ready e js NONE s3 = Some (Return ec1 s1)"
          using Cons.prems(1) \<open>ce_ready e i \<and> ce_subscribed e i\<close> r none d by simp
        from Cons.IH [OF this] Cons.prems(2) s2 cs(1)
        obtain cs' where "fragments s1 = fragments s" "captured s1 = captured s @ cs @ cs'" "captures_ok e s3 cs'"
          by auto
        then show ?thesis using ok s2 cs(1)
          by (intro conjI exI [of _ "cs @ cs'"]) (auto simp: captures_ok_def)
      next
        case False
        then have "s1 = s3" using Cons.prems(1) True r none d by simp
        then show ?thesis using ok s2 cs(1) by auto
      qed
    next
      case False
      show ?thesis
      proof (cases "ec2 = RECV_ZERO_PENDING")
        case zero: True
        then have "capture_ready e js NONE s2 = Some (Return ec1 s1)"
          using Cons.prems(1) True r False by simp
        from Cons.IH [OF this] Cons.prems(2) s2 show ?thesis by (auto simp: captures_ok_def)
      next
        case bad: False
        then have "s1 = s2" using Cons.prems(1) True r False by simp
        then show ?thesis using s2 by (auto simp: captures_ok_def)
      qed
    qed
  qed
qed

lemma pcap_thread_result:
  assumes "pcap_thread_loop es ec s = Some (Return ec1 s1)" and "length (fragments s) \<le> 65535"
  shows "\<exists>cs. captured s1 = captured s @ cs \<and> (\<forall>(i, p) \<in> set cs. \<exists>e \<in> set es. captures_ok e s [(i, p)])"
  using assms
proof (induction es arbitrary: ec s)
  case (Cons e es)
  show ?case
  proof (cases "ce_running e \<and> ec = NONE")
    case False
    then show ?thesis using Cons.prems(1) by auto
  next
    case True
    then obtain x where x: "capture_ready e [0..<length (fragments s)]
        (if ce_poll_rc e < 0 then POLL_ERROR else ec) s = Some x"
      using Cons.prems(1) by (auto simp: bind_eq_Some_conv)
    then obtain ec2 s2 where r: "capture_ready e [0..<length (fragments s)]
        (if ce_poll_rc e < 0 then POLL_ERROR else ec) s = Some (Return ec2 s2)"
      and l: "pcap_thread_loop es ec2 (s2\<lparr>pcap_thread_error := ec2\<rparr>) = Some (Return ec1 s1)"
      using Cons.prems(1) True by (cases x) auto
    from capture_ready_result [OF r] Cons.prems(2) obtain cs where
      cs: "fragments s2 = fragments s" "captured s2 = captured s @ cs" "captures_ok e s cs" by auto
    from Cons.IH [OF l] cs(1) Cons.prems(2) obtain cs' where
      cs': "captured s1 = captured s2 @ cs'" "\<forall>(i, p) \<in> set cs'. \<exists>e \<in> set es. captures_ok e s2 [(i, p)]"
      by auto
    show ?thesis
      using cs cs' by (intro exI [of _ "cs @ cs'"]) (fastforce simp: captures_ok_def)
  qed
qed simp

end
