(* ===== verification/OrchestratorResults.thy ===== *)
theory OrchestratorResults
  imports OrchestratorProps OrchestratorCapture "HOL-Library.Code_Target_Numeral"
begin

text \<open>
  The properties of the orchestrator: the states of a run and its end, the connections it assigns to
  the fragments, the requests it sends, and the packets it captures.
\<close>

section \<open>Examples\<close>

lemma send_with_timeout_code [code]:
  "send_with_timeout nb m t e evs =
     (let ec = validate_config nb (timeout_config t) True
      in if ec \<noteq> NONE then Some (Return ec [])
         else let len = get_total_length m
           in if len < of_nat MIN_MESSAGE_LENGTH then Some (Return MALFORMED_MESSAGE [])
              else Some (send_loop (timeout_config t) e evs 0 (slice m 0 (unat len)) []))"
  unfolding send_with_timeout_def by (rule send_message_eq)

text \<open>A response of fragment 0 on the wire.\<close>

definition response_bytes :: "u8 \<Rightarrow> u8 list \<Rightarrow> u8 list" where
  "response_bytes t p =
     [of_nat (12 + length p), 0, t, 128, 0, 0, 0, 0] @ p @ [0xef, 0xbe, 0xad, 0xde]"

text \<open>The first \<open>fork\<close> gives process 77, the second one fails; the connections are 9, 10, and so on.\<close>

definition ex_orc_env :: orc_env where
  "ex_orc_env =
     \<lparr>oe_nonblock = (\<lambda>_. Some True), oe_tx = (\<lambda>_. [(Tx 5000, 0)]),
      oe_rx = (\<lambda>_. replicate 3 \<lparr>arrived = [], fault = None, peer_closed = False, chunk = 5000,
        elapsed = 0\<rparr>),
      oe_timer = (\<lambda>_. 100),
      oe_polls = (\<lambda>_. [\<lparr>pa_rc = 1, pa_ready = (\<lambda>_. True), pa_timer = 100\<rparr>]),
      oe_socket = (\<lambda>k. (int k + 20, 0, True, True)), oe_bind = (\<lambda>_. True), oe_listen = (\<lambda>_. True),
      oe_accept = (\<lambda>k. [\<lparr>keep_running = True, acc_elapsed = 0, acc_result = Acc 9 no_netaddr True\<rparr>,
         \<lparr>keep_running = True, acc_elapsed = 6000, acc_result = Acc_again\<rparr>]),
      oe_fork = (\<lambda>k i. if i = 0 then 77 else - 1), oe_peername = (\<lambda>_. Some no_netaddr),
      oe_capture = (\<lambda>k ds c. c)\<rparr>"

definition ex_testcase :: "u16 \<Rightarrow> testcase" where
  "ex_testcase n = \<lparr>tc_graph = new_graph n, tc_root_hello_interval_ms = 2000,
     tc_reelection_interval_ms = 20000\<rparr>"

definition ex_orc :: "u16 \<Rightarrow> orchestrator" where
  "ex_orc n = configure True (new_orchestrator (\<lambda>_. 0, \<lambda>_. 0) (ex_testcase n)
     \<lparr>rxq = (\<lambda>fd. if fd = 9 then response_bytes 1 [77, 0, 0, 0] else []), txd = (\<lambda>_. [])\<rparr>)"

lemma ex_orc_idle: "idle (ex_orc n) \<and> o_state (ex_orc n) = OS_INIT"
  by (simp add: idle_def no_process_left_def ex_orc_def configure_def new_orchestrator_def)

section \<open>Properties\<close>


lemma ex_setup_done:
  "case run_orc_state ex_orc_env (Finish NONE) ((ex_orc 1)\<lparr>o_state := OS_SETUP_CTRL_PLANE\<rparr>) of
      Some (Return ec s) \<Rightarrow> ec = NONE \<and> forked s = [77] \<and> map fd_ctrl (fragments s) = [9]
    | _ \<Rightarrow> False"
  by code_simp



lemma ex_fork_fails:
  "case orchestrator_run ex_orc_env (ex_testcase 2) (Finish NONE) (ex_orc 2) of
      Some (Return ec s) \<Rightarrow> ec = FORK_FAILED \<and> forked s = [77] \<and> killed s = [77] \<and> o_closed s = [20]
    | _ \<Rightarrow> False"
  by code_simp


lemma run_success:
  assumes "orchestrator_run env tc script s0 = Some (Return NONE s1)" and "idle s0"
  shows "\<exists>r r1. orc_reach env script (s0\<lparr>o_testcase := tc, o_state := OS_INIT\<rparr>) NONE r
     \<and> o_state r = OS_RUN_TESTCASE \<and> established OS_RUN_TESTCASE r
     \<and> orc_run_testcase env script r = Some (Return NONE r1)"
proof -
  let ?s0 = "s0\<lparr>o_testcase := tc, o_state := OS_INIT\<rparr>"
  have idle: "idle ?s0" "o_state ?s0 = OS_INIT"
    using assms(2) by (simp_all add: idle_def no_process_left_def)
  obtain sr where sr: "orc_reach env script ?s0 NONE sr" "o_state sr = OS_RESET"
    by (rule run_end [OF assms])
  obtain r r1 where r: "orc_reach env script ?s0 NONE r" "o_state r = OS_RUN_TESTCASE"
      "orc_run_testcase env script r = Some (Return NONE r1)"
    using orc_reach_succeeded [OF sr(1) idle] sr(2) unfolding script_succeeded_def by auto
  moreover have "established OS_RUN_TESTCASE r"
    using orc_reach_inv [OF r(1) idle] r(2) by (simp add: orc_inv_def)
  ultimately show ?thesis by blast
qed


lemma ex_empty_run:
  "case orchestrator_run ex_orc_env (ex_testcase 0) (Finish NONE) (ex_orc 0) of
      Some (Return ec s) \<Rightarrow> ec = NONE | _ \<Rightarrow> False"
  by code_simp


text \<open>
  C29: When the setup of the control plane succeeds, the accepted connections are assigned to the
  fragments one to one, whatever the order in which the handshakes arrive and whatever the process
  identifiers in them: no two fragments share a connection and none is without.
\<close>

theorem ctrl_connections_assigned:
  assumes "orc_setup_ctrl env s = Some (Return NONE s1)"
    and "distinct (map fst (accept_results (oe_accept env (o_calls s))))"
    and "- 1 \<notin> fst ` set (accept_results (oe_accept env (o_calls s)))"
  shows "length (fragments s1) = unat (num_nodes (graph_of s)) \<and> distinct (map fd_ctrl (fragments s1))
    \<and> fd_ctrl ` set (fragments s1) \<subseteq> fst ` set (accept_results (oe_accept env (o_calls s)))"
  by (rule setup_ctrl_connections [OF assms])

theorem ctrl_connections_assigned_witness:
  "\<exists>s1. orc_setup_ctrl ex_orc_env ((ex_orc 1)\<lparr>o_state := OS_SETUP_CTRL_PLANE\<rparr>) = Some (Return NONE s1)
    \<and> fd_ctrl ` set (fragments s1) \<subseteq> {9}"
proof -
  obtain s1 where s1: "orc_setup_ctrl ex_orc_env ((ex_orc 1)\<lparr>o_state := OS_SETUP_CTRL_PLANE\<rparr>)
      = Some (Return NONE s1)"
    using ex_setup_done by (auto split: option.splits progress.splits)
  have "accept_results (oe_accept ex_orc_env k) = [(9, no_netaddr)]" for k
    by (simp add: ex_orc_env_def)
  then show ?thesis using ctrl_connections_assigned [OF s1] s1 by simp
qed

text \<open>
  A request to all fragments that succeeds has put exactly one message on the connection of every
  fragment. Whoever has its bytes in a buffer has the message that the lambda filled in for this
  fragment, and the fragment accepts it as a request of this type to itself.
\<close>

theorem requests_reach_fragments:
  assumes "foreach_fragment_send_ctrl env t fill s = Some (Return NONE s1)" and "fills_well t fill"
    and "distinct (map fd_ctrl (fragments s))" and "length (fragments s) \<le> 65535"
    and "i < length (fragments s)"
  shows "\<exists>w m m1. txd (o_net s1) (fd_ctrl (fragments s ! i)) = txd (o_net s) (fd_ctrl (fragments s ! i)) @ w
    \<and> fill (of_nat i) m = Some m1
    \<and> (\<forall>b. slice b 0 (length w) = w \<longrightarrow>
         delivered m1 b \<and> fragment_check_header (of_nat i) True True b t = Some NONE)"
  using broadcast_NONE [OF assms] unfolding request_sent_def by blast

text \<open>Two fragments on the connections 9 and 10.\<close>

definition ex_two :: orchestrator where
  "ex_two = (ex_orc 2)\<lparr>fragments := [new_metadata\<lparr>fd_ctrl := 9\<rparr>, new_metadata\<lparr>fd_ctrl := 10\<rparr>]\<rparr>"

lemma ex_broadcast:
  "case foreach_fragment_send_ctrl ex_orc_env MSG_SHUTDOWN empty_request ex_two of
      Some (Return ec s) \<Rightarrow> ec = NONE | _ \<Rightarrow> False"
  by code_simp

theorem requests_reach_fragments_witness:
  "\<exists>s1 w. foreach_fragment_send_ctrl ex_orc_env MSG_SHUTDOWN empty_request ex_two = Some (Return NONE s1)
    \<and> txd (o_net s1) 10 = txd (o_net ex_two) 10 @ w
    \<and> (\<forall>b. slice b 0 (length w) = w \<longrightarrow> fragment_check_header 1 True True b MSG_SHUTDOWN = Some NONE)"
proof -
  obtain s1 where s1: "foreach_fragment_send_ctrl ex_orc_env MSG_SHUTDOWN empty_request ex_two
      = Some (Return NONE s1)"
    using ex_broadcast by (auto split: option.splits progress.splits)
  have fr: "fragments ex_two = [new_metadata\<lparr>fd_ctrl := 9\<rparr>, new_metadata\<lparr>fd_ctrl := 10\<rparr>]"
    by (simp add: ex_two_def)
  from requests_reach_fragments [OF s1 fills_well_empty, of 1] s1 fr show ?thesis by auto
qed


text \<open>Two nodes on a line, with their addresses.\<close>

definition ex_resolving :: orchestrator where
  "ex_resolving = (ex_orc 2)\<lparr>o_testcase := (ex_testcase 2)\<lparr>tc_graph := the (generate_topology (new_graph 2) LINE [])\<rparr>,
     fragments := map (\<lambda>p. new_metadata\<lparr>fd_ctrl := 9, server_netaddr := \<lparr>sin_family = 2, sin_port = p, s_addr = 1\<rparr>,
       client_netaddrs := [\<lparr>sin_family = 2, sin_port = p + 2, s_addr = 1\<rparr>]\<rparr>) [5, 6]\<rparr>"

lemma ex_resolving_ready:
  "topology (graph_of ex_resolving) = [[1], [0]] \<and> num_nodes (graph_of ex_resolving) = 2
    \<and> map client_netaddrs (fragments ex_resolving) =
        [[\<lparr>sin_family = 2, sin_port = 7, s_addr = 1\<rparr>], [\<lparr>sin_family = 2, sin_port = 8, s_addr = 1\<rparr>]]
    \<and> map server_netaddr (fragments ex_resolving) =
        [\<lparr>sin_family = 2, sin_port = 5, s_addr = 1\<rparr>, \<lparr>sin_family = 2, sin_port = 6, s_addr = 1\<rparr>]"
  by code_simp

lemma ex_resolving_wf: "graph_wf (graph_of ex_resolving)"
proof -
  have "generate_topology (new_graph 2) LINE [] \<noteq> None" by code_simp
  then have "generate_topology (new_graph 2) LINE [] = Some (graph_of ex_resolving)"
    by (auto simp: ex_resolving_def graph_of_def)
  then show ?thesis using graph_wf_generate_topology graph_wf_new by blast
qed


text \<open>
  The capture thread hands the test case only packets of fragments that exist, that it read as
  subscribed and that \<open>poll\<close> reported, none of them larger than the largest Mixnet packet; what it
  has handed over before stays.
\<close>

theorem captures_are_subscribed:
  assumes "pcap_thread_loop es NONE s = Some (Return ec s1)" and "length (fragments s) \<le> 65535"
  shows "\<exists>cs. captured s1 = captured s @ cs
    \<and> (\<forall>(i, p) \<in> set cs. unat i < length (fragments s) \<and> total_size p \<le> MAX_MIXNET_PACKET_SIZE
         \<and> (\<exists>e \<in> set es. ce_subscribed e (unat i) \<and> ce_ready e (unat i)))"
  using pcap_thread_result [OF assms] by (fastforce simp: captures_ok_def)

definition ex_capturing :: orchestrator where
  "ex_capturing = (ex_orc 1)\<lparr>fragments := [new_metadata\<lparr>fd_pcap := 9\<rparr>],
     o_net := \<lparr>rxq = (\<lambda>fd. if fd = 9 then response_bytes 8 ([12, 0, 1, 0] @ replicate 8 0) else []),
       txd = (\<lambda>_. [])\<rparr>\<rparr>"

definition ex_capture_events :: "capture_event list" where
  "ex_capture_events = map (\<lambda>r. \<lparr>ce_running = r, ce_subscribed = (\<lambda>_. True), ce_poll_rc = 1,
     ce_ready = (\<lambda>_. True), ce_nonblock = (\<lambda>_. Some True), ce_rx = (\<lambda>_. oe_rx ex_orc_env 0)\<rparr>) [True, False]"

lemma ex_captures:
  "case pcap_thread_loop ex_capture_events NONE ex_capturing of
      Some (Return ec s) \<Rightarrow> ec = NONE \<and> map (\<lambda>(i, p). (i, ptype p)) (captured s) = [(0, 1)] | _ \<Rightarrow> False"
  by code_simp

theorem captures_are_subscribed_witness:
  "\<exists>s1 cs. pcap_thread_loop ex_capture_events NONE ex_capturing = Some (Return NONE s1)
    \<and> captured s1 = cs \<and> length cs = 1 \<and> (\<forall>(i, p) \<in> set cs. unat i < 1)"
proof -
  obtain s1 where s1: "pcap_thread_loop ex_capture_events NONE ex_capturing = Some (Return NONE s1)"
    and c: "map (\<lambda>(i, p). (i, ptype p)) (captured s1) = [(0, 1)]"
    using ex_captures by (auto split: option.splits progress.splits)
  have "fragments ex_capturing = [new_metadata\<lparr>fd_pcap := 9\<rparr>]" "captured ex_capturing = []"
    by (simp_all add: ex_capturing_def ex_orc_def configure_def new_orchestrator_def)
  with captures_are_subscribed [OF s1] have "\<forall>(i, p) \<in> set (captured s1). unat i < 1" by auto
  moreover have "length (captured s1) = 1" using c by (metis length_map length_Cons list.size(3) One_nat_def)
  ultimately show ?thesis using s1 by blast
qed

end
