(* ===== verification/Testcases.thy ===== *)
theory Testcases
  imports OrchestratorRun
begin

text \<open>
  The test programs: the base class of testing/common/testcase.h with its entry point, and the
  programs of testing/cp1. A program builds a topology in \<open>setup\<close>, calls the orchestrator in
  \<open>run\<close>, counts the captured FLOOD packets in \<open>pcap\<close>, and compares the count in \<open>teardown\<close>.
  Waiting (sleep) is between two calls, where the capture thread runs.
\<close>

section \<open>The base class\<close>

record test_state =
  pass_pcap :: bool
  pass_teardown :: bool
  pcap_count :: u64

definition new_test_state :: test_state where
  "new_test_state = \<lparr>pass_pcap = True, pass_teardown = False, pcap_count = 0\<rparr>"

definition is_pass :: "test_state \<Rightarrow> bool" where
  "is_pass st \<longleftrightarrow> pass_pcap st \<and> pass_teardown st"

text \<open>
  A program. \<open>setup_graph\<close> is \<open>None\<close> when an assertion of the graph fails; the calls of \<open>run\<close> depend
  on the number of nodes of the graph.
\<close>

record test_program =
  setup_graph :: "graph option"
  root_hello_interval :: u32
  reelection_interval :: u32
  run_calls :: "u16 \<Rightarrow> api_call list"
  expected_count :: u64

definition default_root_hello_interval :: u32 where
  "default_root_hello_interval = 2000"

definition default_reelection_interval :: u32 where
  "default_reelection_interval = 20000"

text \<open>The callback, which is the same in all programs, and the end.\<close>

definition test_pcap :: "u16 \<Rightarrow> mixnet_packet \<Rightarrow> test_state \<Rightarrow> test_state" where
  "test_pcap fid p st =
     (if ptype p = packet_type_code PACKET_TYPE_FLOOD then st\<lparr>pcap_count := pcap_count st + 1\<rparr> else st)"

definition test_teardown :: "test_program \<Rightarrow> test_state \<Rightarrow> test_state" where
  "test_teardown t st = st\<lparr>pass_teardown := pcap_count st = expected_count t\<rparr>"

text \<open>The macro \<open>DIE_ON_ERROR\<close>, and a body of calls each under it.\<close>

definition die_on_call_error :: "api_call \<Rightarrow> script \<Rightarrow> script" where
  "die_on_call_error c next = Call c (\<lambda>ec. if ec \<noteq> NONE then Finish ec else next)"

definition script_of_calls :: "api_call list \<Rightarrow> script" where
  "script_of_calls cs = foldr die_on_call_error cs (Finish NONE)"

definition test_script :: "test_program \<Rightarrow> graph \<Rightarrow> script" where
  "test_script t g = script_of_calls (run_calls t (num_nodes g))"

definition test_config :: "test_program \<Rightarrow> graph \<Rightarrow> testcase" where
  "test_config t g =
     \<lparr>tc_graph = g, tc_root_hello_interval_ms = root_hello_interval t,
      tc_reelection_interval_ms = reelection_interval t\<rparr>"

text \<open>
  The entry point, after the arguments: configure, run (\<open>setup\<close>, the main loop, \<open>teardown\<close>), and
  the verdict. The callbacks came in the order of \<open>captured\<close>.
\<close>

definition final_test_state :: "test_program \<Rightarrow> orchestrator \<Rightarrow> test_state" where
  "final_test_state t s =
     test_teardown t (fold (\<lambda>(fid, p). test_pcap fid p) (captured s) new_test_state)"

definition run_testcase ::
  "orc_env \<Rightarrow> buffer \<times> buffer \<Rightarrow> sockets \<Rightarrow> bool \<Rightarrow> test_program
    \<Rightarrow> (bool \<times> orchestrator) progress option" where
  "run_testcase env mem n autotest t =
     (case setup_graph t of
        None \<Rightarrow> None
      | Some g \<Rightarrow>
          (case orchestrator_run env (test_config t g) (test_script t g)
              (configure autotest (new_orchestrator mem (test_config t g) n)) of
             None \<Rightarrow> None
           | Some (Waiting s) \<Rightarrow> Some (Waiting (False, s))
           | Some (Return ec s) \<Rightarrow>
               Some (Return NONE (is_pass (final_test_state t s) \<and> ec = NONE, s))))"

section \<open>Calls that the programs share\<close>

definition subscribe :: "nat \<Rightarrow> api_call" where
  "subscribe i = Change_subscription (of_nat i) True"

definition subscribe_all :: "u16 \<Rightarrow> api_call list" where
  "subscribe_all n = map subscribe [0..<unat n]"

definition send_flood :: "nat \<Rightarrow> api_call" where
  "send_flood i = Send_packet (of_nat i) 0 (packet_type_code PACKET_TYPE_FLOOD) []"

definition disable_link :: "nat \<Rightarrow> nat \<Rightarrow> api_call" where
  "disable_link a b = Change_link_state (of_nat a) (of_nat b) False"

section \<open>Lines\<close>

definition testcase_line_easy :: test_program where
  "testcase_line_easy =
     \<lparr>setup_graph = generate_topology (new_graph 2) LINE [],
      root_hello_interval = default_root_hello_interval,
      reelection_interval = default_reelection_interval,
      run_calls = (\<lambda>n. subscribe_all n @ [send_flood 1]),
      expected_count = 1\<rparr>"

text \<open>The inner loop sends from node 1 whatever the outer index is.\<close>

definition testcase_line_hard :: test_program where
  "testcase_line_hard =
     \<lparr>setup_graph = do {
        g \<leftarrow> generate_topology (new_graph 8) LINE [];
        set_mixaddrs g [1, 3, 5, 4, 7, 6, 8, 0]
      },
      root_hello_interval = default_root_hello_interval,
      reelection_interval = default_reelection_interval,
      run_calls = (\<lambda>n. subscribe_all n
        @ concat (map (\<lambda>i. if i mod 2 = 0 then [] else replicate i (send_flood 1)) [0..<unat n])),
      expected_count = 16 * 7\<rparr>"

section \<open>Rings\<close>

definition testcase_ring_easy :: test_program where
  "testcase_ring_easy =
     \<lparr>setup_graph = generate_topology (new_graph 3) RING [],
      root_hello_interval = default_root_hello_interval,
      reelection_interval = default_reelection_interval,
      run_calls = (\<lambda>n. subscribe_all n @ map send_flood [0..<unat n]),
      expected_count = 3 * 2\<rparr>"

definition testcase_ring_hard :: test_program where
  "testcase_ring_hard =
     \<lparr>setup_graph = do {
        g \<leftarrow> generate_topology (new_graph 8) RING [];
        set_mixaddrs g [12, 37, 52, 71, 34, 16, 28, 46]
      },
      root_hello_interval = default_root_hello_interval,
      reelection_interval = default_reelection_interval,
      run_calls = (\<lambda>n. subscribe_all n
        @ concat (map (\<lambda>i. if i mod 2 = 1 then [] else [send_flood i]) [0..<unat n])),
      expected_count = 4 * 7\<rparr>"

section \<open>Full meshes\<close>

definition testcase_full_mesh_easy :: test_program where
  "testcase_full_mesh_easy =
     \<lparr>setup_graph = do {
        g \<leftarrow> set_mixaddrs (new_graph 4) [15, 13, 11, 9];
        generate_topology g FULL_MESH []
      },
      root_hello_interval = default_root_hello_interval,
      reelection_interval = default_reelection_interval,
      run_calls = (\<lambda>n. subscribe_all n @ replicate 4 (send_flood 3)),
      expected_count = 4 * 3\<rparr>"

definition testcase_full_mesh_hard :: test_program where
  "testcase_full_mesh_hard =
     \<lparr>setup_graph = do {
        g \<leftarrow> generate_topology (new_graph 8) FULL_MESH [];
        set_mixaddrs g [15, 13, 11, 9, 12, 14, 16, 6]
      },
      root_hello_interval = default_root_hello_interval,
      reelection_interval = default_reelection_interval,
      run_calls = (\<lambda>n. subscribe_all n
        @ concat (map (\<lambda>i. if i mod 2 = 0 then [] else replicate i (send_flood i)) [0..<unat n])),
      expected_count = 16 * 7\<rparr>"

section \<open>Trees\<close>

definition small_tree :: "(u16 \<times> u16) list" where
  "small_tree = [(0, 1), (0, 2), (1, 3), (1, 4), (2, 5), (2, 6)]"

definition testcase_tree_easy :: test_program where
  "testcase_tree_easy =
     \<lparr>setup_graph = do {
        g \<leftarrow> add_edges (new_graph 7) small_tree;
        set_mixaddrs g [5, 3, 1, 7, 2, 4, 6]
      },
      root_hello_interval = default_root_hello_interval,
      reelection_interval = default_reelection_interval,
      run_calls = (\<lambda>n. subscribe_all n @ replicate 4 (send_flood 2)),
      expected_count = 4 * 6\<rparr>"

definition testcase_tree_hard :: test_program where
  "testcase_tree_hard =
     \<lparr>setup_graph = do {
        g \<leftarrow> add_edges (new_graph 7) small_tree;
        set_mixaddrs g [52, 31, 108, 77, 23, 41, 62]
      },
      root_hello_interval = default_root_hello_interval,
      reelection_interval = default_reelection_interval,
      run_calls = (\<lambda>n. subscribe_all n @ concat (replicate 5 (map send_flood [0..<7]))),
      expected_count = 5 * 7 * 6\<rparr>"

section \<open>A node without links\<close>

definition testcase_unreachable :: test_program where
  "testcase_unreachable =
     \<lparr>setup_graph = do {
        g \<leftarrow> set_mixaddrs (new_graph 8) [1, 3, 5, 4, 7, 6, 8, 0];
        generate_topology g LINE [0, 1, 2, 3, 4, 5, 6]
      },
      root_hello_interval = default_root_hello_interval,
      reelection_interval = default_reelection_interval,
      run_calls = (\<lambda>n. [subscribe 7] @ map send_flood [0..<7]
        @ map subscribe [0..<7] @ replicate 7 (send_flood 7)),
      expected_count = 0\<rparr>"

section \<open>Tie-breaks\<close>

text \<open>The re-election interval is long, and links that should be blocked are disabled.\<close>

definition testcase_tiebreak_multi :: test_program where
  "testcase_tiebreak_multi =
     \<lparr>setup_graph = do {
        g \<leftarrow> set_mixaddrs (new_graph 5) [5, 14, 13, 6, 31];
        g1 \<leftarrow> generate_topology g RING [0, 1, 4, 2];
        generate_topology g1 STAR [3, 1, 2, 4]
      },
      root_hello_interval = default_root_hello_interval,
      reelection_interval = 1000000,
      run_calls = (\<lambda>n. [disable_link 1 3, disable_link 1 4, disable_link 3 4]
        @ subscribe_all n @ map send_flood [0..<unat n]),
      expected_count = 5 * 4\<rparr>"

definition testcase_tiebreak_parent_mesh :: test_program where
  "testcase_tiebreak_parent_mesh =
     \<lparr>setup_graph = do {
        g \<leftarrow> add_edges (new_graph 8) (concat (map (\<lambda>i. [(0, i), (i, 7)]) [1, 2, 3, 4, 5, 6]));
        set_mixaddrs g [18, 27, 23, 35, 62, 20, 51, 19]
      },
      root_hello_interval = default_root_hello_interval,
      reelection_interval = 1000000,
      run_calls = (\<lambda>n.
        concat (map (\<lambda>i. if i = 5 then [] else [disable_link i (unat n - 1)]) [1..<unat n - 1])
        @ subscribe_all n @ concat (replicate 3 (map send_flood [0, 3, 6, 7]))),
      expected_count = 3 * 4 * 7\<rparr>"

definition testcase_tiebreak_parent_ring :: test_program where
  "testcase_tiebreak_parent_ring =
     \<lparr>setup_graph = do {
        g \<leftarrow> generate_topology (new_graph 8) RING [];
        set_mixaddrs g [52, 27, 26, 13, 14, 592, 51, 43]
      },
      root_hello_interval = default_root_hello_interval,
      reelection_interval = 1000000,
      run_calls = (\<lambda>n. [disable_link 0 7]
        @ subscribe_all n @ concat (replicate 3 (map send_flood [0, 3, 6, 7]))),
      expected_count = 3 * 4 * 7\<rparr>"

definition testcase_tiebreak_pathlen :: test_program where
  "testcase_tiebreak_pathlen =
     \<lparr>setup_graph = do {
        g \<leftarrow> set_mixaddrs (new_graph 5) [18, 22, 12, 23, 15];
        generate_topology g RING []
      },
      root_hello_interval = default_root_hello_interval,
      reelection_interval = 1000000,
      run_calls = (\<lambda>n. [disable_link 0 4]
        @ subscribe_all n @ concat (replicate 7 (map send_flood [0, 4]))),
      expected_count = 7 * 2 * 4\<rparr>"

section \<open>Link failures\<close>

definition testcase_link_failure_ring :: test_program where
  "testcase_link_failure_ring =
     \<lparr>setup_graph = do {
        g \<leftarrow> set_mixaddrs (new_graph 5) [13, 14, 15, 4, 21];
        generate_topology g RING []
      },
      root_hello_interval = 100,
      reelection_interval = 1000,
      run_calls = (\<lambda>n. subscribe_all n @ replicate 7 (send_flood 3)
        @ [disable_link 2 3] @ replicate 7 (send_flood 3)),
      expected_count = 2 * 7 * 4\<rparr>"

definition testcase_link_failure_mesh :: test_program where
  "testcase_link_failure_mesh =
     \<lparr>setup_graph = do {
        g \<leftarrow> set_mixaddrs (new_graph 7) [13, 14, 15, 4, 21, 23, 98];
        g1 \<leftarrow> generate_topology g RING [0, 1, 2, 3];
        g2 \<leftarrow> generate_topology g1 STAR [2, 4, 5, 6];
        add_edges g2 [(4, 5), (5, 6)]
      },
      root_hello_interval = 100,
      reelection_interval = 1000,
      run_calls = (\<lambda>n. subscribe_all n @ replicate 4 (send_flood 3)
        @ [disable_link 2 3, disable_link 2 4, disable_link 2 5] @ replicate 2 (send_flood 4)),
      expected_count = 4 * 6 + 2 * 6\<rparr>"

definition testcase_link_failure_root :: test_program where
  "testcase_link_failure_root =
     \<lparr>setup_graph = do {
        g \<leftarrow> generate_topology (new_graph 8) STAR [];
        g1 \<leftarrow> generate_topology g RING [1, 2, 3, 4, 5, 6, 7];
        set_mixaddrs g1 [2, 13, 14, 15, 4, 21, 22, 23]
      },
      root_hello_interval = 100,
      reelection_interval = 1000,
      run_calls = (\<lambda>n. subscribe_all n @ [send_flood 0]
        @ map (disable_link 0) [1..<unat n] @ [send_flood 1, send_flood 4]),
      expected_count = 7 + 2 * 6\<rparr>"

text \<open>The programs whose topology is connected, and all of them.\<close>

definition connected_tests :: "test_program list" where
  "connected_tests =
     [testcase_line_easy, testcase_line_hard, testcase_ring_easy, testcase_ring_hard,
      testcase_full_mesh_easy, testcase_full_mesh_hard, testcase_tree_easy, testcase_tree_hard,
      testcase_tiebreak_multi, testcase_tiebreak_parent_mesh, testcase_tiebreak_parent_ring,
      testcase_tiebreak_pathlen, testcase_link_failure_ring, testcase_link_failure_mesh,
      testcase_link_failure_root]"

definition cp1_tests :: "test_program list" where
  "cp1_tests = testcase_unreachable # connected_tests"

end
