(* ===== verification/Network.thy ===== *)
theory Network
  imports NodeRun OrchestratorIO
begin

text \<open>
  A network of nodes: every host of a test topology runs the loop of mixnet/node.c on the
  configuration it gets from the test case, and the links between them are reliable queues, as
  mixnet_send and mixnet_recv of framework/fragment.cpp provide them while no link is down.

  An iteration of one host's loop is a step. It takes at most one packet, from one of its links or
  from its user, and what it sends is appended to the links at the end of the iteration. Steps of
  the hosts interleave in any order, and every host has a clock of its own.
\<close>

section \<open>The topology\<close>

definition num_hosts :: "testcase \<Rightarrow> nat" where
  "num_hosts tc = unat (num_nodes (tc_graph tc))"

definition adj :: "testcase \<Rightarrow> nat \<Rightarrow> nat list" where
  "adj tc i = map unat (topology (tc_graph tc) ! i)"

definition host_addr :: "testcase \<Rightarrow> nat \<Rightarrow> mixnet_address" where
  "host_addr tc i = gn_mixaddr (nodes (tc_graph tc) ! i)"

text \<open>The configuration a host is started with, and the port it has for a neighbour.\<close>

definition config_of :: "testcase \<Rightarrow> nat \<Rightarrow> mixnet_node_config" where
  "config_of tc i =
     (let g = tc_graph tc; n = nodes g ! i
      in \<lparr>node_addr = gn_mixaddr n, cfg_num_neighbors = of_nat (length (topology g ! i)),
          root_hello_interval_ms = tc_root_hello_interval_ms tc,
          reelection_interval_ms = tc_reelection_interval_ms tc,
          do_random_routing = gn_do_random_routing n, mixing_factor = gn_mixing_factor n,
          link_costs = gn_link_costs n\<rparr>)"

abbreviation degree :: "testcase \<Rightarrow> nat \<Rightarrow> nat" where
  "degree tc i \<equiv> length (adj tc i)"

abbreviation port_for :: "testcase \<Rightarrow> nat \<Rightarrow> nat \<Rightarrow> nat" where
  "port_for tc i j \<equiv> index_of j (adj tc i)"

text \<open>
  What a topology must satisfy: it is well formed, addresses are distinct, none is the marker of an
  unknown neighbour, and the number of neighbours fits into 8 bits.
\<close>

definition net_ok :: "testcase \<Rightarrow> bool" where
  "net_ok tc \<longleftrightarrow> graph_wf (tc_graph tc)
     \<and> distinct (map gn_mixaddr (nodes (tc_graph tc)))
     \<and> - 1 \<notin> gn_mixaddr ` set (nodes (tc_graph tc))
     \<and> list_all (\<lambda>ns. length ns \<le> 255) (topology (tc_graph tc))"

definition is_link :: "testcase \<Rightarrow> nat \<Rightarrow> nat \<Rightarrow> bool" where
  "is_link tc j q \<longleftrightarrow> j < num_hosts tc \<and> q < degree tc j"

section \<open>State\<close>

text \<open>
  \<open>wire s j q\<close> is the queue of packets on their way to port \<open>q\<close> of host \<open>j\<close>; \<open>user s i\<close> are the
  packets host \<open>i\<close> has delivered to its user, in order. The state of a host is the state of its loop,
  and later the node alone.
\<close>

record 'h network =
  host :: "nat \<Rightarrow> 'h"
  wire :: "nat \<Rightarrow> nat \<Rightarrow> mixnet_packet list"
  user :: "nat \<Rightarrow> mixnet_packet list"

text \<open>A packet as the receiver reads it: only \<open>total_size\<close> bytes travel.\<close>

definition carried :: "mixnet_packet \<Rightarrow> mixnet_packet" where
  "carried p =
     (bleached p)\<lparr>payload := take (unat (total_size p) - sizeof_mixnet_packet) (payload p)\<rparr>"

definition sent_to :: "nat \<Rightarrow> sends \<Rightarrow> mixnet_packet list" where
  "sent_to p out = map snd (filter (\<lambda>x. unat (fst x) = p) out)"

text \<open>What the sends of host \<open>i\<close> add to the wire of port \<open>q\<close> of host \<open>j\<close>.\<close>

definition arrivals :: "testcase \<Rightarrow> nat \<Rightarrow> sends \<Rightarrow> nat \<Rightarrow> nat \<Rightarrow> mixnet_packet list" where
  "arrivals tc i out j q =
     (if is_link tc j q \<and> adj tc j ! q = i then map carried (sent_to (port_for tc i j) out) else [])"

definition net_init :: "testcase \<Rightarrow> (nat \<Rightarrow> clock) \<Rightarrow> node_loop network" where
  "net_init tc clk =
     \<lparr>host = (\<lambda>i. fst (loop_init (config_of tc i) (clk i))),
      wire = (\<lambda>j q. let i = adj tc j ! q in arrivals tc i (snd (loop_init (config_of tc i) (clk i))) j q),
      user = (\<lambda>i. [])\<rparr>"

section \<open>Steps\<close>

datatype input = Idle | From_port nat | From_user mixnet_packet

text \<open>The user does not inject STP packets.\<close>

fun take_input ::
  "testcase \<Rightarrow> nat \<Rightarrow> input \<Rightarrow> 'h network
    \<Rightarrow> ((u8 \<times> mixnet_packet) option \<times> 'h network) option" where
  "take_input tc i Idle s = Some (None, s)"
| "take_input tc i (From_port p) s =
     (if p < degree tc i
      then (case wire s i p of
          [] \<Rightarrow> None
        | pkt # rest \<Rightarrow>
            Some (Some (of_nat p, pkt), s\<lparr>wire := (wire s)(i := (wire s i)(p := rest))\<rparr>))
      else None)"
| "take_input tc i (From_user pkt) s =
     (if ptype pkt = packet_type_code PACKET_TYPE_STP then None
      else Some (Some (of_nat (degree tc i), pkt), s))"

definition deposit :: "testcase \<Rightarrow> nat \<Rightarrow> sends \<Rightarrow> 'h network \<Rightarrow> 'h network" where
  "deposit tc i out s =
     s\<lparr>wire := (\<lambda>j q. wire s j q @ arrivals tc i out j q),
       user := (user s)(i := user s i @ sent_to (degree tc i) out)\<rparr>"

definition host_step ::
  "testcase \<Rightarrow> (nat \<Rightarrow> clock) \<Rightarrow> nat \<Rightarrow> input \<Rightarrow> node_loop network \<Rightarrow> node_loop network option" where
  "host_step tc clk i inp s = do {
     (r, s1) \<leftarrow> take_input tc i inp s;
     (h, out) \<leftarrow> loop_body (config_of tc i) (clk i) r (host s1 i);
     Some (deposit tc i out (s1\<lparr>host := (host s1)(i := h)\<rparr>))
   }"

text \<open>The two timers of the loop, as they stand at the head of an iteration.\<close>

definition greets :: "mixnet_node_config \<Rightarrow> clock \<Rightarrow> node_loop \<Rightarrow> bool" where
  "greets c clk h \<longleftrightarrow> root_addr (nd h) = my_addr (nd h)
     \<and> root_hello_interval_ms c \<le> get_time_in_ms (clk (readings h)) - heartbeat_time h"

definition stands :: "mixnet_node_config \<Rightarrow> clock \<Rightarrow> node_loop \<Rightarrow> bool" where
  "stands c clk h \<longleftrightarrow> root_addr (nd h) \<noteq> my_addr (nd h)
     \<and> reelection_interval_ms c \<le> get_time_in_ms (clk (readings h)) - re_election_time h"

text \<open>Runs in which a host takes a step only as \<open>allow\<close> permits.\<close>

inductive net_run ::
  "testcase \<Rightarrow> (nat \<Rightarrow> clock) \<Rightarrow> (nat \<Rightarrow> input \<Rightarrow> node_loop network \<Rightarrow> bool)
    \<Rightarrow> node_loop network \<Rightarrow> node_loop network \<Rightarrow> bool"
  for tc clk allow s0 where
  stay: "net_run tc clk allow s0 s0"
| step: "net_run tc clk allow s0 s \<Longrightarrow> i < num_hosts tc \<Longrightarrow> allow i inp s \<Longrightarrow>
    host_step tc clk i inp s = Some s' \<Longrightarrow> net_run tc clk allow s0 s'"

definition any_step :: "nat \<Rightarrow> input \<Rightarrow> node_loop network \<Rightarrow> bool" where
  "any_step i inp s \<longleftrightarrow> True"

text \<open>No host gives up its root.\<close>

definition calm :: "testcase \<Rightarrow> (nat \<Rightarrow> clock) \<Rightarrow> nat \<Rightarrow> input \<Rightarrow> node_loop network \<Rightarrow> bool" where
  "calm tc clk i inp s \<longleftrightarrow> \<not> stands (config_of tc i) (clk i) (host s i)"

text \<open>Nothing is on its way.\<close>

definition settled :: "testcase \<Rightarrow> 'h network \<Rightarrow> bool" where
  "settled tc s \<longleftrightarrow> (\<forall>j < num_hosts tc. \<forall>q < degree tc j. wire s j q = [])"

section \<open>The topology as a graph on numbers\<close>

lemma net_ok_adj:
  assumes "net_ok tc" and "i < num_hosts tc"
  shows "distinct (adj tc i)" and "i \<notin> set (adj tc i)" and "degree tc i \<le> 255"
    and "j \<in> set (adj tc i) \<Longrightarrow> j < num_hosts tc" and "j \<in> set (adj tc i) \<Longrightarrow> i \<in> set (adj tc j)"
    and "degree tc i = length (topology (tc_graph tc) ! i)"
proof -
  let ?g = "tc_graph tc"
  have wf: "graph_wf ?g" using assms(1) by (simp add: net_ok_def)
  have i: "unat (of_nat i :: u16) = i" "(of_nat i :: u16) < num_nodes ?g"
  proof -
    have "i < 65536"
      using assms(2) less_trans [OF _ unat_u16_less [of "num_nodes ?g"], of i] by (simp add: num_hosts_def)
    then show "unat (of_nat i :: u16) = i" by (simp add: unat_of_nat)
    with assms(2) show "(of_nat i :: u16) < num_nodes ?g" by (simp add: num_hosts_def word_less_nat_alt)
  qed
  note D = graph_wfD [OF wf i(2), unfolded i(1)]
  show "distinct (adj tc i)"
    using D(1) by (simp add: adj_def distinct_map inj_on_def word_unat_eq_iff)
  show "i \<notin> set (adj tc i)" using D(2) i(1) by (auto simp: adj_def)
  have "i < length (topology ?g)" using assms(2) graph_wf_len(2) [OF wf] by (simp add: num_hosts_def)
  then show "degree tc i \<le> 255"
    using assms(1) by (auto simp: net_ok_def adj_def list_all_length)
  show "j \<in> set (adj tc i) \<Longrightarrow> j < num_hosts tc"
    using D(4) by (auto simp: adj_def num_hosts_def word_less_nat_alt)
  show "j \<in> set (adj tc i) \<Longrightarrow> i \<in> set (adj tc j)"
    using D(5) i(1) by (force simp: adj_def)
  show "degree tc i = length (topology ?g ! i)" by (simp add: adj_def)
qed

lemma host_addr_inj:
  assumes "net_ok tc" and "i < num_hosts tc" and "j < num_hosts tc" and "host_addr tc i = host_addr tc j"
  shows "i = j"
proof -
  let ?ns = "nodes (tc_graph tc)"
  have "length ?ns = num_hosts tc" "distinct (map gn_mixaddr ?ns)"
    using assms(1) by (simp_all add: net_ok_def num_hosts_def graph_wf_def)
  then show ?thesis using assms(2-4) by (simp add: host_addr_def distinct_conv_nth) metis
qed

lemma host_addr_known:
  assumes "net_ok tc" and "i < num_hosts tc"
  shows "host_addr tc i \<noteq> - 1"
proof -
  have "length (nodes (tc_graph tc)) = num_hosts tc"
    using assms(1) by (simp add: net_ok_def num_hosts_def graph_wf_def)
  then have "nodes (tc_graph tc) ! i \<in> set (nodes (tc_graph tc))" using assms(2) by simp
  then show ?thesis using assms(1) unfolding net_ok_def host_addr_def by (metis image_eqI)
qed

lemma link_ends:
  assumes "net_ok tc" and "is_link tc j q"
  defines "i \<equiv> adj tc j ! q"
  shows "i \<in> set (adj tc j)" and "j \<in> set (adj tc i)" and "i < num_hosts tc" and "i \<noteq> j"
    and "is_link tc i (port_for tc i j)" and "adj tc i ! port_for tc i j = j"
    and "port_for tc j i = q"
proof -
  have j: "j < num_hosts tc" "q < degree tc j" using assms(2) by (simp_all add: is_link_def)
  show i: "i \<in> set (adj tc j)" using j by (simp add: i_def)
  note A = net_ok_adj [OF assms(1) j(1)]
  show "j \<in> set (adj tc i)" "i < num_hosts tc" using A(4,5) i by simp_all
  show "i \<noteq> j" using A(2) i by auto
  show "is_link tc i (port_for tc i j)"
    using \<open>j \<in> set (adj tc i)\<close> \<open>i < num_hosts tc\<close> by (simp add: is_link_def index_of_less)
  show "adj tc i ! port_for tc i j = j" using \<open>j \<in> set (adj tc i)\<close> by (rule nth_index_of)
  show "port_for tc j i = q" using index_of_nth [OF A(1) j(2)] by (simp add: i_def)
qed

lemma link_of_neighbors:
  assumes "net_ok tc" and "j < num_hosts tc" and "i \<in> set (adj tc j)"
  shows "is_link tc j (port_for tc j i)" and "adj tc j ! port_for tc j i = i"
  using assms by (simp_all add: is_link_def index_of_less nth_index_of)

lemma config_of_simps [simp]:
  "node_addr (config_of tc i) = host_addr tc i"
  "cfg_num_neighbors (config_of tc i) = of_nat (degree tc i)"
  by (simp_all add: config_of_def host_addr_def adj_def Let_def)

lemma num_ports_of:
  assumes "net_ok tc" and "i < num_hosts tc"
  shows "unat (cfg_num_neighbors (config_of tc i)) = degree tc i"
    and "unat (ucast (cfg_num_neighbors (config_of tc i)) :: u8) = degree tc i"
    and "unat (of_nat (degree tc i) :: u8) = degree tc i"
    and "p \<le> degree tc i \<Longrightarrow> unat (of_nat p :: u8) = p"
proof -
  have d: "degree tc i \<le> 255" by (rule net_ok_adj [OF assms])
  show "unat (cfg_num_neighbors (config_of tc i)) = degree tc i"
    using d by (simp add: unat_of_nat)
  then show "unat (ucast (cfg_num_neighbors (config_of tc i)) :: u8) = degree tc i"
    using d by (simp add: unat_ucast_u16_u8)
  show "unat (of_nat (degree tc i) :: u8) = degree tc i"
    "p \<le> degree tc i \<Longrightarrow> unat (of_nat p :: u8) = p"
    using d by (simp_all add: unat_of_nat)
qed

end
