(* ===== verification/NetworkEvents.thy ===== *)
theory NetworkEvents
  imports Network
begin

text \<open>
  The network without its clocks: what a step of a host does, as at most two events. A host greets
  (the root's hello), stands for root (a re-election), takes a packet from a link or from its user.
  Every step of the network is a sequence of these events (\<open>host_step_events\<close>), so an invariant of
  the events is one of the network.
\<close>

section \<open>Events\<close>

text \<open>The body of \<open>if (recv)\<close>, as it concerns the node.\<close>

definition node_packet :: "u8 \<Rightarrow> mixnet_packet \<Rightarrow> node \<Rightarrow> (node \<times> sends) option" where
  "node_packet port pkt n =
     (if ptype pkt = packet_type_code PACKET_TYPE_STP
      then do {
        u \<leftarrow> dec_stp (payload pkt);
        if offer u = node_route n then Some (n, send_STP n) else receive_STP n port pkt
      }
      else if ptype pkt = packet_type_code PACKET_TYPE_FLOOD
      then if port = num_neighbors n then map_option (Pair n) (send_FLOOD n (ucast port))
        else if \<not> unat port < length (neighbors_blocked n) then None
        else if \<not> neighbors_blocked n ! unat port
        then map_option (Pair n) (send_FLOOD n (ucast port))
        else Some (n, [])
      else Some (n, []))"

lemma packet_step_node:
  "packet_step clk port pkt s = Some (s', out) \<Longrightarrow> node_packet port pkt (nd s) = Some (nd s', out)"
proof (cases "ptype pkt = packet_type_code PACKET_TYPE_STP")
  case True
  assume step: "packet_step clk port pkt s = Some (s', out)"
  then obtain u where u: "dec_stp (payload pkt) = Some u"
    using True by (auto simp: packet_step_def bind_eq_Some_conv)
  have eq: "offer u = node_route (nd s) \<longleftrightarrow> root_address u = root_addr (nd s)
      \<and> uint (path_length u) + 1 = path_len (nd s) \<and> node_address u = next_hop (nd s)"
    by (auto simp: offer_def node_route_def)
  show ?thesis
  proof (cases "offer u = node_route (nd s)")
    case heartbeat: True
    then show ?thesis
      using step True u eq by (simp add: packet_step_def node_packet_def read_clock_def) auto
  next
    case False
    then obtain n o1 where "receive_STP (nd s) port pkt = Some (n, o1)" "s' = s\<lparr>nd := n\<rparr>" "out = o1"
      using step True u unfolding eq by (auto simp: packet_step_def bind_eq_Some_conv)
    then show ?thesis using True u False by (simp add: node_packet_def)
  qed
next
  case False
  assume "packet_step clk port pkt s = Some (s', out)"
  then show ?thesis
    using False by (auto simp: packet_step_def node_packet_def bind_eq_Some_conv split: if_split_asm)
qed

datatype action = Greet nat | Stand nat | Take nat nat | Inject nat mixnet_packet

definition become :: "testcase \<Rightarrow> nat \<Rightarrow> node \<times> sends \<Rightarrow> node network \<Rightarrow> node network" where
  "become tc i r v = deposit tc i (snd r) (v\<lparr>host := (host v)(i := fst r)\<rparr>)"

fun net_event :: "testcase \<Rightarrow> action \<Rightarrow> node network \<Rightarrow> node network option" where
  "net_event tc (Greet i) v =
     (let n = host v i
      in if i < num_hosts tc \<and> root_addr n = my_addr n then Some (become tc i (n, send_STP n) v)
         else None)"
| "net_event tc (Stand i) v =
     (let n = host v i; n' = stand_for_root n
      in if i < num_hosts tc \<and> root_addr n \<noteq> my_addr n then Some (become tc i (n', send_STP n') v)
         else None)"
| "net_event tc (Take i p) v =
     (if is_link tc i p
      then (case wire v i p of
          [] \<Rightarrow> None
        | pkt # rest \<Rightarrow>
            map_option (\<lambda>r. become tc i r (v\<lparr>wire := (wire v)(i := (wire v i)(p := rest))\<rparr>))
              (node_packet (of_nat p) pkt (host v i)))
      else None)"
| "net_event tc (Inject i pkt) v =
     (if i < num_hosts tc \<and> ptype pkt \<noteq> packet_type_code PACKET_TYPE_STP
      then map_option (\<lambda>r. become tc i r v) (node_packet (of_nat (degree tc i)) pkt (host v i))
      else None)"

fun net_events :: "testcase \<Rightarrow> action list \<Rightarrow> node network \<Rightarrow> node network option" where
  "net_events tc [] v = Some v"
| "net_events tc (e # es) v = Option.bind (net_event tc e v) (net_events tc es)"

definition nodes_of :: "node_loop network \<Rightarrow> node network" where
  "nodes_of s = \<lparr>host = (\<lambda>i. nd (host s i)), wire = wire s, user = user s\<rparr>"

lemma nodes_of_simps [simp]:
  "host (nodes_of s) i = nd (host s i)" "wire (nodes_of s) = wire s" "user (nodes_of s) = user s"
  by (simp_all add: nodes_of_def)

lemma net_events_append:
  "net_events tc (es @ fs) v = Option.bind (net_events tc es v) (net_events tc fs)"
  by (induction es arbitrary: v) (auto simp: bind_assoc split: Option.bind_split)

section \<open>Deposits\<close>

lemma deposit_simps [simp]:
  "host (deposit tc i out v) = host v"
  "wire (deposit tc i out v) j q = wire v j q @ arrivals tc i out j q"
  "user (deposit tc i out v) j = user v j @ (if j = i then sent_to (degree tc i) out else [])"
  by (simp_all add: deposit_def)

lemma become_simps [simp]:
  "host (become tc i r v) = (host v)(i := fst r)"
  "wire (become tc i r v) j q = wire v j q @ arrivals tc i (snd r) j q"
  "user (become tc i r v) j = user v j @ (if j = i then sent_to (degree tc i) (snd r) else [])"
  by (simp_all add: become_def)

lemma sent_to_append [simp]: "sent_to p (a @ b) = sent_to p a @ sent_to p b"
  by (simp add: sent_to_def)

lemma sent_to_Nil [simp]: "sent_to p [] = []"
  by (simp add: sent_to_def)

lemma arrivals_append [simp]: "arrivals tc i (a @ b) j q = arrivals tc i a j q @ arrivals tc i b j q"
  by (simp add: arrivals_def)

lemma arrivals_Nil [simp]: "arrivals tc i [] j q = []"
  by (simp add: arrivals_def)

lemma arrivals_self: "net_ok tc \<Longrightarrow> arrivals tc i out i p = []"
  using link_ends(4) [of tc i p] by (auto simp: arrivals_def)

lemma network_eqI:
  "host a = host b \<Longrightarrow> (\<And>j q. wire a j q = wire b j q) \<Longrightarrow> (\<And>i. user a i = user b i)
    \<Longrightarrow> a = (b :: 'h network)"
  by (cases a; cases b) (auto simp: fun_eq_iff)

section \<open>Steps are events\<close>

definition timer_events :: "testcase \<Rightarrow> (nat \<Rightarrow> clock) \<Rightarrow> nat \<Rightarrow> node_loop network \<Rightarrow> action list" where
  "timer_events tc clk i s =
     (if greets (config_of tc i) (clk i) (host s i) then [Greet i]
      else if stands (config_of tc i) (clk i) (host s i) then [Stand i] else [])"

fun input_events :: "nat \<Rightarrow> input \<Rightarrow> action list" where
  "input_events i Idle = []"
| "input_events i (From_port p) = [Take i p]"
| "input_events i (From_user pkt) = [Inject i pkt]"

lemma timers_node:
  assumes "hello_step c clk h = (h1, o1)" and "reelection_step c clk h1 = (h2, o2)"
  shows "(nd h2, o1 @ o2) =
    (if greets c clk h then (nd h, send_STP (nd h))
     else if stands c clk h then (stand_for_root (nd h), send_STP (stand_for_root (nd h)))
     else (nd h, []))"
  using assms by (auto simp: hello_step_eq reelection_step_eq greets_def stands_def not_less split: if_splits)

lemma timer_events_run:
  assumes "i < num_hosts tc" and "hello_step (config_of tc i) (clk i) (host s i) = (h1, o1)"
    and "reelection_step (config_of tc i) (clk i) h1 = (h2, o2)"
  shows "net_events tc (timer_events tc clk i s) (nodes_of s) = Some (become tc i (nd h2, o1 @ o2) (nodes_of s))"
  using timers_node [OF assms(2,3)] assms(1)
  by (auto simp: timer_events_def greets_def stands_def Let_def intro!: network_eqI split: if_splits)

text \<open>
  A host takes its packet before it looks at its timers, but what the timers send does not go onto
  its own links.
\<close>

theorem host_step_events:
  assumes "net_ok tc" and "i < num_hosts tc" and step: "host_step tc clk i inp s = Some s'"
  shows "net_events tc (timer_events tc clk i s @ input_events i inp) (nodes_of s) = Some (nodes_of s')"
proof -
  obtain r s1 h out where t: "take_input tc i inp s = Some (r, s1)"
    and b: "loop_body (config_of tc i) (clk i) r (host s1 i) = Some (h, out)"
    and s': "s' = deposit tc i out (s1\<lparr>host := (host s1)(i := h)\<rparr>)"
    using step by (auto simp: host_step_def bind_eq_Some_conv)
  have host1: "host s1 = host s" and user1: "user s1 = user s"
    using t by (cases inp; auto split: if_splits list.splits)+
  from b show ?thesis
  proof (cases rule: loop_body_cases)
    case (idle h1 o1 h2 o2)
    have "inp = Idle" "s1 = s" using t idle(1) by (cases inp; auto split: if_splits list.splits)+
    moreover have "become tc i (nd h2, o1 @ o2) (nodes_of s) = nodes_of s'"
      using idle s' \<open>s1 = s\<close> by (intro network_eqI) (auto simp: fun_eq_iff)
    ultimately show ?thesis
      using timer_events_run [OF assms(2)] idle(2,3) host1 by simp
  next
    case (packet port pkt h1 o1 h2 o2 o3)
    let ?v = "become tc i (nd h2, o1 @ o2) (nodes_of s)"
    have T: "net_events tc (timer_events tc clk i s) (nodes_of s) = Some ?v"
      using timer_events_run [OF assms(2)] packet(2,3) host1 by simp
    note P = packet_step_node [OF packet(4)]
    show ?thesis
    proof (cases inp)
      case Idle
      with t packet(1) show ?thesis by simp
    next
      case (From_user pkt')
      then have "pkt' = pkt" "port = of_nat (degree tc i)" "s1 = s"
        "ptype pkt \<noteq> packet_type_code PACKET_TYPE_STP"
        using t packet(1) by (auto split: if_splits)
      moreover have "become tc i (nd h, o3) ?v = nodes_of s'"
        using packet s' \<open>s1 = s\<close> by (intro network_eqI) (auto simp: fun_eq_iff)
      ultimately show ?thesis
        using T P From_user assms(2) by (simp add: net_events_append)
    next
      case (From_port p)
      then obtain rest where p: "p < degree tc i" "wire s i p = pkt # rest" "port = of_nat p"
        "s1 = s\<lparr>wire := (wire s)(i := (wire s i)(p := rest))\<rparr>"
        using t packet(1) by (auto split: if_splits list.splits)
      have v: "wire ?v i p = pkt # rest" "host ?v i = nd h2"
        using p arrivals_self [OF assms(1)] by simp_all
      have "become tc i (nd h, o3) (?v\<lparr>wire := (wire ?v)(i := (wire ?v i)(p := rest))\<rparr>) = nodes_of s'"
        using packet s' p(4) arrivals_self [OF assms(1), of i] by (intro network_eqI) (auto simp: fun_eq_iff)
      with T P From_port assms(2) p v show ?thesis
        by (simp add: net_events_append is_link_def)
    qed
  qed
qed

lemma net_run_trans: "net_run tc clk ok s1 s2 \<Longrightarrow> net_run tc clk ok s0 s1 \<Longrightarrow> net_run tc clk ok s0 s2"
  by (induction rule: net_run.induct) (auto intro: net_run.intros)

text \<open>An invariant of the events that steps may consist of is one of the runs.\<close>

lemma net_events_inv:
  assumes "\<And>v e v'. I v \<Longrightarrow> ok e \<Longrightarrow> net_event tc e v = Some v' \<Longrightarrow> I v'"
  shows "net_events tc es v = Some v' \<Longrightarrow> \<forall>e \<in> set es. ok e \<Longrightarrow> I v \<Longrightarrow> I v'"
proof (induction es arbitrary: v)
  case (Cons e es)
  then obtain v1 where "net_event tc e v = Some v1" "net_events tc es v1 = Some v'"
    by (auto simp: bind_eq_Some_conv)
  with Cons assms show ?case by auto
qed simp

definition standing :: "action \<Rightarrow> bool" where
  "standing e \<longleftrightarrow> (\<exists>i. e = Stand i)"

lemma host_step_split:
  assumes "net_ok tc" and "i < num_hosts tc" and "host_step tc clk i inp s = Some s'"
  obtains v where "net_events tc (timer_events tc clk i s) (nodes_of s) = Some v"
    and "net_events tc (input_events i inp) v = Some (nodes_of s')"
  using host_step_events [OF assms] by (auto simp: net_events_append bind_eq_Some_conv)

lemma net_run_inv:
  assumes "net_run tc clk allow s0 s" and "net_ok tc" and "I (nodes_of s0)"
    and "\<And>v e v'. I v \<Longrightarrow> ok e \<Longrightarrow> net_event tc e v = Some v' \<Longrightarrow> I v'"
    and "\<And>i inp s e. allow i inp s \<Longrightarrow> e \<in> set (timer_events tc clk i s @ input_events i inp) \<Longrightarrow> ok e"
  shows "I (nodes_of s)"
  using assms(1)
proof induction
  case stay
  show ?case by (rule assms(3))
next
  case (step s i inp s')
  have "\<forall>e \<in> set (timer_events tc clk i s @ input_events i inp). ok e"
    using assms(5) step.hyps(3) by blast
  from net_events_inv [where I = I and ok = ok, OF assms(4) host_step_events [OF assms(2) step.hyps(2,4)] this step.IH]
  show ?case .
qed

lemma calm_events:
  assumes "calm tc clk i inp s" and "e \<in> set (timer_events tc clk i s @ input_events i inp)"
  shows "\<not> standing e"
  using assms by (cases inp) (auto simp: calm_def timer_events_def standing_def split: if_splits)

end
