(* ===== verification/NetworkStp.thy ===== *)
theory NetworkStp
  imports NetworkEvents
begin

text \<open>
  The announcements in the network: what is on the links, seen as the STP payloads in it, and what an
  event does to the routes of the hosts and to these announcements. FLOOD packets change neither.
\<close>

section \<open>Announcements\<close>

definition announcement :: "node \<Rightarrow> mixnet_packet_stp" where
  "announcement n = \<lparr>root_address = root_addr n, path_length = word_of_int (path_len n), node_address = my_addr n\<rparr>"

fun said :: "mixnet_packet list \<Rightarrow> mixnet_packet_stp list" where
  "said [] = []"
| "said (p # ps) =
     (case (if ptype p = packet_type_code PACKET_TYPE_STP then dec_stp (payload p) else None) of
        None \<Rightarrow> said ps
      | Some u \<Rightarrow> u # said ps)"

lemma said_append [simp]: "said (ps @ qs) = said ps @ said qs"
  by (induction ps) (auto split: option.splits)

lemma ptype_codes: "packet_type_code PACKET_TYPE_STP \<noteq> packet_type_code PACKET_TYPE_FLOOD"
  by (simp add: const_defs)

lemma carried_stp [simp]:
  "ptype (carried p) = ptype p"
  "payload (carried (node_stp_packet n)) = enc_stp (announcement n)"
  by (simp_all add: carried_def bleached_def node_stp_packet_def announcement_def const_defs)

lemma said_carried_stp [simp]: "said [carried (node_stp_packet n)] = [announcement n]"
proof -
  have "dec_stp (enc_stp (announcement n)) = Some (announcement n)"
    by (rule stp_layout.dec_enc_only)
  moreover have "ptype (carried (node_stp_packet n)) = packet_type_code PACKET_TYPE_STP"
    by (simp add: node_stp_packet_def)
  ultimately show ?thesis by simp
qed

lemma said_floods: "\<forall>p \<in> set ps. ptype p \<noteq> packet_type_code PACKET_TYPE_STP \<Longrightarrow> said ps = []"
  by (induction ps) auto

text \<open>A neighbour that has been heard of.\<close>

definition known :: "node \<Rightarrow> nat \<Rightarrow> bool" where
  "known n q \<longleftrightarrow> neighbors_addy n ! q \<noteq> - 1"

text \<open>
  The announcements on a link come from the host at its other end, and this host is the one known
  at the port; every STP packet on a link has a whole payload.
\<close>

definition net_wf :: "testcase \<Rightarrow> node network \<Rightarrow> bool" where
  "net_wf tc v \<longleftrightarrow> (\<forall>i < num_hosts tc. node_wf (config_of tc i) (host v i))
     \<and> (\<forall>j q. is_link tc j q \<longrightarrow>
          (\<forall>u \<in> set (said (wire v j q)). node_address u = host_addr tc (adj tc j ! q))
          \<and> (\<forall>p \<in> set (wire v j q). ptype p = packet_type_code PACKET_TYPE_STP \<longrightarrow> copy_in_bounds p)
          \<and> neighbors_addy (host v j) ! q \<in> {- 1, host_addr tc (adj tc j ! q)})"

lemma node_wfD:
  assumes "net_ok tc" and "i < num_hosts tc" and "node_wf (config_of tc i) n"
  shows "my_addr n = host_addr tc i" and "num_neighbors n = of_nat (degree tc i)"
    and "unat (num_neighbors n) = degree tc i"
    and "length (neighbors_addy n) = degree tc i" and "length (neighbors_blocked n) = degree tc i"
    and "0 \<le> path_len n" and "path_len n \<le> 65536" and "root_addr n \<le> my_addr n"
    and "root_addr n = my_addr n \<Longrightarrow> path_len n = 0 \<and> next_hop n = my_addr n"
    and "root_addr n \<noteq> my_addr n \<Longrightarrow> 1 \<le> path_len n"
  using assms(3) num_ports_of [OF assms(1,2)] net_ok_adj(3) [OF assms(1,2)]
  by (auto simp: node_wf_def word_unat_eq_iff)

lemma net_wfD:
  assumes "net_wf tc v"
  shows "i < num_hosts tc \<Longrightarrow> node_wf (config_of tc i) (host v i)"
    and "is_link tc j q \<Longrightarrow> u \<in> set (said (wire v j q)) \<Longrightarrow> node_address u = host_addr tc (adj tc j ! q)"
    and "is_link tc j q \<Longrightarrow> p \<in> set (wire v j q) \<Longrightarrow> ptype p = packet_type_code PACKET_TYPE_STP \<Longrightarrow>
      copy_in_bounds p"
    and "is_link tc j q \<Longrightarrow> known (host v j) q \<Longrightarrow>
      neighbors_addy (host v j) ! q = host_addr tc (adj tc j ! q)"
  using assms unfolding net_wf_def known_def by blast+

section \<open>What a host sends\<close>

lemma sent_to_ports:
  assumes "k \<le> 255"
  shows "sent_to p (map (\<lambda>i. (of_nat i, y)) (filter P [0..<k])) = (if p < k \<and> P p then [y] else [])"
  unfolding sent_to_def using assms by (induction k) (auto simp: unat_of_nat less_Suc_eq)

lemma sent_to_STP:
  assumes "unat (num_neighbors n) \<le> 255"
  shows "sent_to p (send_STP n) = (if p < unat (num_neighbors n) then [node_stp_packet n] else [])"
  using sent_to_ports [OF assms, of p "node_stp_packet n" "\<lambda>_. True"] by (simp add: send_STP_def)

lemma sent_to_FLOOD:
  assumes "send_FLOOD n sp = Some out" and "unat (num_neighbors n) \<le> 255"
  shows "sent_to p out =
    (if p < unat (num_neighbors n) \<and> \<not> neighbors_blocked n ! p \<and> p \<noteq> unat sp
        \<or> p = unat (num_neighbors n) \<and> p \<noteq> unat sp
     then [node_flood_packet n] else [])"
proof -
  have "out = map (\<lambda>i. (of_nat i, node_flood_packet n))
        (filter (\<lambda>i. \<not> neighbors_blocked n ! i \<and> i \<noteq> unat sp) [0..<unat (num_neighbors n)])
      @ (if unat sp \<noteq> unat (num_neighbors n) then [(num_neighbors n, node_flood_packet n)] else [])"
    using assms(1) by (auto simp: send_FLOOD_def split: if_splits)
  moreover have "sent_to p (if b then [(num_neighbors n, y)] else []) =
      (if b \<and> p = unat (num_neighbors n) then [y] else [])" for b y
    by (simp add: sent_to_def)
  ultimately show ?thesis by (auto simp: sent_to_ports [OF assms(2)])
qed

lemma arrivals_STP:
  assumes "net_ok tc" and "i < num_hosts tc" and "node_wf (config_of tc i) n"
  shows "arrivals tc i (send_STP n) j q =
    (if is_link tc j q \<and> adj tc j ! q = i then [carried (node_stp_packet n)] else [])"
proof -
  have n: "unat (num_neighbors n) = degree tc i" "degree tc i \<le> 255"
    using node_wfD(3) [OF assms] net_ok_adj(3) [OF assms(1,2)] by simp_all
  show ?thesis
    using link_ends(5) [OF assms(1), of j q] n
    by (auto simp: arrivals_def sent_to_STP is_link_def)
qed

lemma arrivals_floods:
  assumes "snd ` set out \<subseteq> {node_flood_packet n}" and "p \<in> set (arrivals tc i out j q)"
  shows "ptype p = packet_type_code PACKET_TYPE_FLOOD"
  using assms by (auto simp: arrivals_def sent_to_def node_flood_packet_def split: if_splits)

section \<open>What a host hears\<close>

lemma hear_STP:
  assumes step: "node_packet port pkt n = Some (n', out)"
    and stp: "ptype pkt = packet_type_code PACKET_TYPE_STP" and u: "dec_stp (payload pkt) = Some u"
    and len: "length (neighbors_blocked n) = unat (num_neighbors n)"
    and q: "q = unat port"
  shows "node_route n' = (if known n q \<and> offer u < node_route n then offer u else node_route n)
    \<and> out = (if offer u = node_route n \<or> known n q \<and> offer u < node_route n then send_STP n' else [])
    \<and> neighbors_addy n' = (if known n q \<or> offer u = node_route n then neighbors_addy n
           else (neighbors_addy n)[q := node_address u])
    \<and> my_addr n' = my_addr n
    \<and> (\<forall>k < length (neighbors_blocked n). neighbors_blocked n' ! k =
      (if offer u = node_route n then neighbors_blocked n ! k
       else if \<not> known n q then k \<noteq> q \<and> neighbors_blocked n ! k
       else if k = q then \<not> (node_address u = next_hop n'
              \<or> root_address u = root_addr n' \<and> uint (path_length u) = path_len n' + 1)
       else offer u < node_route n \<or> neighbors_blocked n ! k))"
proof (cases "offer u = node_route n")
  case True
  then have "n' = n" "out = send_STP n" using step stp u by (auto simp: node_packet_def)
  then show ?thesis using True by simp
next
  case False
  then have recv: "receive_STP n port pkt = Some (n', out)"
    using step stp u by (simp add: node_packet_def)
  then have my: "my_addr n' = my_addr n" by (cases rule: receive_STP_cases) auto
  show ?thesis
  proof (cases "known n q")
    case old: True
    then have k: "neighbors_addy n ! unat port \<noteq> - 1" by (simp add: known_def q)
    have addy: "neighbors_addy n' = neighbors_addy n"
      using recv k by (cases rule: receive_STP_cases) auto
    show ?thesis
      using receive_STP_known_route [OF recv u k] receive_STP_blocked [OF recv u k] addy my False old len q
      by (auto simp: min_def)
  next
    case new: False
    then have k: "neighbors_addy n ! unat port = - 1" by (simp add: known_def q)
    have "unat port < length (neighbors_blocked n)"
      using recv by (cases rule: receive_STP_cases) auto
    with receive_STP_first [OF recv u k] my False new q show ?thesis
      by (auto simp: nth_list_update)
  qed
qed

lemma node_packet_wf:
  assumes "node_packet port pkt n = Some (n', out)" and "node_wf c n"
  shows "node_wf c n'"
  using assms node_wf_receive_STP [of n port pkt n' out c]
  by (auto simp: node_packet_def bind_eq_Some_conv split: if_split_asm)

lemma node_packet_other:
  assumes "node_packet port pkt n = Some (n', out)" and "ptype pkt \<noteq> packet_type_code PACKET_TYPE_STP"
  shows "n' = n \<and> snd ` set out \<subseteq> {node_flood_packet n}"
  using assms send_FLOOD_packets [of n "ucast port"]
  by (auto simp: node_packet_def split: if_split_asm)

section \<open>Events as the protocol sees them\<close>

text \<open>
  A host announces its route, after a greeting or after it stood for root; or it hears the first
  announcement on one of its links and may relay it; or nothing changes.
\<close>

definition hears ::
  "testcase \<Rightarrow> nat \<Rightarrow> nat \<Rightarrow> mixnet_packet_stp \<Rightarrow> node \<Rightarrow> node \<Rightarrow> bool \<Rightarrow> bool" where
  "hears tc i q u n n' relay \<longleftrightarrow>
     node_route n' = (if known n q \<and> offer u < node_route n then offer u else node_route n)
     \<and> (relay \<longleftrightarrow> offer u = node_route n \<or> known n q \<and> offer u < node_route n)
     \<and> neighbors_addy n' = (if known n q \<or> offer u = node_route n then neighbors_addy n
           else (neighbors_addy n)[q := node_address u])
     \<and> my_addr n' = my_addr n
     \<and> (\<forall>k < degree tc i. neighbors_blocked n' ! k =
      (if offer u = node_route n then neighbors_blocked n ! k
       else if \<not> known n q then k \<noteq> q \<and> neighbors_blocked n ! k
       else if k = q then \<not> (node_address u = next_hop n'
              \<or> root_address u = root_addr n' \<and> uint (path_length u) = path_len n' + 1)
       else offer u < node_route n \<or> neighbors_blocked n ! k))"

text \<open>What a host that announces adds to a link.\<close>

abbreviation added :: "testcase \<Rightarrow> nat \<Rightarrow> bool \<Rightarrow> node \<Rightarrow> nat \<Rightarrow> nat \<Rightarrow> mixnet_packet_stp list" where
  "added tc i b n j q \<equiv> (if b \<and> adj tc j ! q = i then [announcement n] else [])"

lemma stp_event [consumes 3, case_names announce hear silent]:
  assumes ok: "net_ok tc" and wf: "net_wf tc v" and ev: "net_event tc e v = Some v'"
  obtains (announce) i n where "i < num_hosts tc" "host v' = (host v)(i := n)"
      "node_wf (config_of tc i) n"
      "e = Greet i \<and> root_addr n = my_addr n \<and> n = host v i
        \<or> e = Stand i \<and> root_addr (host v i) \<noteq> my_addr n \<and> n = stand_for_root (host v i)"
      "\<And>j q. is_link tc j q \<Longrightarrow> said (wire v' j q) = said (wire v j q) @ added tc i True n j q"
  | (hear) i p u us n relay where "e = Take i p" "is_link tc i p" "said (wire v i p) = u # us"
      "host v' = (host v)(i := n)" "node_wf (config_of tc i) n" "hears tc i p u (host v i) n relay"
      "\<And>j q. is_link tc j q \<Longrightarrow> said (wire v' j q) =
         (if j = i \<and> q = p then us else said (wire v j q)) @ added tc i relay n j q"
  | (silent) "\<not> standing e" "\<And>k. e \<noteq> Greet k" "host v' = host v"
      "\<And>i p. e = Take i p \<Longrightarrow> ptype (hd (wire v i p)) \<noteq> packet_type_code PACKET_TYPE_STP"
      "\<And>j q. is_link tc j q \<Longrightarrow> said (wire v' j q) = said (wire v j q)"
proof -
  note W = net_wfD(1) [OF wf]
  have mine: "\<And>i n j q. i < num_hosts tc \<Longrightarrow> node_wf (config_of tc i) n \<Longrightarrow> is_link tc j q \<Longrightarrow>
      said (arrivals tc i (send_STP n) j q) = added tc i True n j q"
    by (simp add: arrivals_STP [OF ok] said_carried_stp del: said.simps(2))
  have floods: "\<And>i n out j q. snd ` set out \<subseteq> {node_flood_packet n} \<Longrightarrow>
      said (arrivals tc i out j q) = []"
    using arrivals_floods ptype_codes by (intro said_floods ballI) force
  show thesis
  proof (cases e)
    case (Greet i)
    let ?n = "host v i"
    have i: "i < num_hosts tc" "root_addr ?n = my_addr ?n" "v' = become tc i (?n, send_STP ?n) v"
      using ev Greet by (auto simp: Let_def split: if_splits)
    then show thesis using mine [OF i(1) W] W [OF i(1)] Greet by (intro announce [of i ?n]) auto
  next
    case (Stand i)
    let ?n = "stand_for_root (host v i)"
    have i: "i < num_hosts tc" "root_addr (host v i) \<noteq> my_addr ?n" "v' = become tc i (?n, send_STP ?n) v"
      using ev Stand by (auto simp: Let_def stand_for_root_def split: if_splits)
    then show thesis
      using mine [OF i(1) node_wf_stand_for_root] node_wf_stand_for_root W [OF i(1)] Stand
      by (intro announce [of i ?n]) auto
  next
    case (Inject i pkt)
    then obtain n out where i: "ptype pkt \<noteq> packet_type_code PACKET_TYPE_STP"
      "node_packet (of_nat (degree tc i)) pkt (host v i) = Some (n, out)" "v' = become tc i (n, out) v"
      using ev by (auto split: if_splits)
    with node_packet_other [OF i(2,1)] floods [of out "host v i"] Inject show thesis
      by (intro silent) (auto simp: standing_def)
  next
    case (Take i p)
    then obtain pkt rest n out where link: "is_link tc i p" and w: "wire v i p = pkt # rest"
      and step: "node_packet (of_nat p) pkt (host v i) = Some (n, out)"
      and v': "v' = become tc i (n, out) (v\<lparr>wire := (wire v)(i := (wire v i)(p := rest))\<rparr>)"
      using ev by (auto split: if_splits list.splits)
    have i: "i < num_hosts tc" "p < degree tc i" using link by (simp_all add: is_link_def)
    note wfi = W [OF i(1)] node_wfD [OF ok i(1) W [OF i(1)]]
    show thesis
    proof (cases "ptype pkt = packet_type_code PACKET_TYPE_STP")
      case True
      then have "copy_in_bounds pkt" using net_wfD(3) [OF wf link] w by simp
      then obtain u where u: "dec_stp (payload pkt) = Some u"
        using stp_layout.dec_defined by (auto simp: copy_in_bounds_def)
      have p: "p = unat (of_nat p :: u8)" using num_ports_of(4) [OF ok i(1), of p] i(2) by simp
      have said: "said (wire v i p) = u # said rest" using w True u by simp
      have wf': "node_wf (config_of tc i) n" by (rule node_packet_wf [OF step wfi(1)])
      have len: "length (neighbors_blocked (host v i)) = unat (num_neighbors (host v i))"
        using wfi by simp
      define relay where "relay \<longleftrightarrow>
        offer u = node_route (host v i) \<or> known (host v i) p \<and> offer u < node_route (host v i)"
      note H = hear_STP [OF step True u len p]
      have out: "out = (if relay then send_STP n else [])" using H by (simp add: relay_def)
      have "hears tc i p u (host v i) n relay" using H wfi by (simp add: hears_def relay_def)
      then show thesis
        using link said wf' v' mine [OF i(1) wf'] Take
        by (intro hear [of i p u "said rest" n relay]) (auto simp: out)
    next
      case False
      then have "said (wire v i p) = said rest" using w by simp
      then show thesis
        using node_packet_other [OF step False] floods [of out "host v i"] v' Take w False
        by (intro silent) (auto simp: standing_def fun_eq_iff)
    qed
  qed
qed

end
