(* ===== verification/NetworkInv.thy ===== *)
theory NetworkInv
  imports NetworkStp
begin

text \<open>
  Invariants of a network of nodes, whatever its hosts do: every host is well formed, knows its next
  hop, and has heard or will hear of all its neighbours; and what hosts and announcements say about
  a root is true of some walk to a host with this address.
\<close>

section \<open>Well-formed networks\<close>

lemma node_packet_sends:
  assumes "node_packet port pkt n = Some (n', out)" and "x \<in> set out"
    and "ptype (carried (snd x)) = packet_type_code PACKET_TYPE_STP"
  shows "copy_in_bounds (carried (snd x))"
proof (cases "ptype pkt = packet_type_code PACKET_TYPE_STP")
  case True
  have stp: "copy_in_bounds (carried (snd x))" if "x \<in> set (send_STP m)" for m
    using that by (auto simp: send_STP_def copy_in_bounds_def const_defs)
  from True assms(1) obtain u where "dec_stp (payload pkt) = Some u"
    and "n' = n \<and> out = send_STP n \<or> receive_STP n port pkt = Some (n', out)"
    by (auto simp: node_packet_def bind_eq_Some_conv split: if_splits)
  then have "out = [] \<or> (\<exists>m. out = send_STP m)"
    by (auto elim!: receive_STP_cases split: if_splits)
  then show ?thesis using assms(2) stp by auto
next
  case False
  then have "snd x = node_flood_packet n" using node_packet_other [OF assms(1) False] assms(2) by auto
  then show ?thesis using assms(3) ptype_codes by (simp add: node_flood_packet_def)
qed

lemma arrivals_in_bounds:
  assumes "\<And>x. x \<in> set out \<Longrightarrow> ptype (carried (snd x)) = packet_type_code PACKET_TYPE_STP \<Longrightarrow>
      copy_in_bounds (carried (snd x))"
    and "p \<in> set (arrivals tc i out j q)" and "ptype p = packet_type_code PACKET_TYPE_STP"
  shows "copy_in_bounds p"
  using assms by (auto simp: arrivals_def sent_to_def split: if_splits)

lemma arrivals_STP_in_bounds: "p \<in> set (arrivals tc i (send_STP n) j q) \<Longrightarrow> copy_in_bounds p"
  by (auto simp: arrivals_def sent_to_def send_STP_def copy_in_bounds_def const_defs split: if_splits)

lemma net_event_wires:
  assumes "net_event tc e v = Some v'" and "p \<in> set (wire v' j q)"
    and "ptype p = packet_type_code PACKET_TYPE_STP"
  shows "p \<in> set (wire v j q) \<or> copy_in_bounds p"
proof (cases e)
  case (Take i k)
  then obtain pkt rest n out where w: "wire v i k = pkt # rest"
    "v' = become tc i (n, out) (v\<lparr>wire := (wire v)(i := (wire v i)(k := rest))\<rparr>)"
    and P: "node_packet (of_nat k) pkt (host v i) = Some (n, out)"
    using assms(1) by (auto split: if_splits list.splits)
  have "copy_in_bounds p" if "p \<in> set (arrivals tc i out j q)"
    by (rule arrivals_in_bounds [OF node_packet_sends [OF P] that assms(3)])
  then show ?thesis using assms(2) w by (auto split: if_splits)
next
  case (Inject i pkt)
  then obtain n out where P: "node_packet (of_nat (degree tc i)) pkt (host v i) = Some (n, out)"
    and v': "v' = become tc i (n, out) v"
    using assms(1) by (auto split: if_splits)
  have "copy_in_bounds p" if "p \<in> set (arrivals tc i out j q)"
    by (rule arrivals_in_bounds [OF node_packet_sends [OF P] that assms(3)])
  then show ?thesis using assms(2) v' by auto
qed (use assms arrivals_STP_in_bounds in \<open>auto simp: Let_def split: if_splits\<close>)

lemma announcement_simps [simp]:
  "root_address (announcement n) = root_addr n" "path_length (announcement n) = word_of_int (path_len n)"
  "node_address (announcement n) = my_addr n"
  by (simp_all add: announcement_def)

lemma stand_for_root_simps [simp]:
  "root_addr (stand_for_root n) = my_addr n" "my_addr (stand_for_root n) = my_addr n"
  "path_len (stand_for_root n) = 0" "next_hop (stand_for_root n) = my_addr n"
  "neighbors_addy (stand_for_root n) = neighbors_addy n"
  "neighbors_blocked (stand_for_root n) = neighbors_blocked n"
  by (simp_all add: stand_for_root_def)

lemma net_wf_event:
  assumes ok: "net_ok tc" and wf: "net_wf tc v" and ev: "net_event tc e v = Some v'"
  shows "net_wf tc v'"
proof -
  have bounds: "copy_in_bounds p" if "is_link tc j q" "p \<in> set (wire v' j q)"
    "ptype p = packet_type_code PACKET_TYPE_STP" for j q p
    using net_event_wires [OF ev that(2,3)] net_wfD(3) [OF wf that(1)] that(3) by blast
  have addy: "neighbors_addy (host v j) ! q \<in> {- 1, host_addr tc (adj tc j ! q)}" if "is_link tc j q" for j q
    using wf that by (simp add: net_wf_def)
  show ?thesis
    using ok wf ev
  proof (cases rule: stp_event)
    case (announce i n)
    have my: "my_addr n = host_addr tc i" using node_wfD(1) [OF ok announce(1,3)] .
    have "neighbors_addy n = neighbors_addy (host v i)" using announce(4) by auto
    then show ?thesis
      unfolding net_wf_def
      using announce(2,3,5) bounds addy my net_wfD(1,2) [OF wf] by auto
  next
    case (hear i p u us n relay)
    have i: "i < num_hosts tc" "p < degree tc i" using hear(2) by (simp_all add: is_link_def)
    have my: "my_addr n = host_addr tc i" using node_wfD(1) [OF ok i(1) hear(5)] .
    have src: "node_address u = host_addr tc (adj tc i ! p)" using net_wfD(2) [OF wf hear(2)] hear(3) by simp
    have "length (neighbors_addy (host v i)) = degree tc i"
      using node_wfD(4) [OF ok i(1) net_wfD(1) [OF wf i(1)]] .
    then have "neighbors_addy n ! q \<in> {- 1, host_addr tc (adj tc i ! q)}" if "is_link tc i q" for q
      using hear(6) addy [OF that] src i by (auto simp: hears_def nth_list_update)
    then show ?thesis
      unfolding net_wf_def
      using hear(2,3,4,5,7) bounds addy my net_wfD(1,2) [OF wf] by (auto split: if_splits)
  next
    case silent
    then show ?thesis unfolding net_wf_def using bounds addy net_wfD(1,2) [OF wf] by auto
  qed
qed

lemma nd_loop_init: "nd (fst (loop_init c clk)) = node_init c" "snd (loop_init c clk) = send_STP (node_init c)"
  by (simp_all add: loop_init_def read_clock_def Let_def)

lemma net_init_simps:
  assumes "net_ok tc"
  shows "host (nodes_of (net_init tc clk)) i = node_init (config_of tc i)"
    and "is_link tc j q \<Longrightarrow> said (wire (nodes_of (net_init tc clk)) j q)
      = [announcement (node_init (config_of tc (adj tc j ! q)))]"
    and "user (nodes_of (net_init tc clk)) i = []"
  using arrivals_STP [OF assms link_ends(3) [OF assms] node_wf_init] said_carried_stp
  by (simp_all add: net_init_def nd_loop_init Let_def)

lemma net_wf_init:
  assumes ok: "net_ok tc"
  shows "net_wf tc (nodes_of (net_init tc clk))"
proof -
  note init = net_init_simps [OF ok]
  have "copy_in_bounds p" if "is_link tc j q" "p \<in> set (wire (nodes_of (net_init tc clk)) j q)"
    "ptype p = packet_type_code PACKET_TYPE_STP" for j q p
    using that(2) arrivals_STP_in_bounds by (auto simp: net_init_def nd_loop_init Let_def)
  moreover have "my_addr (node_init (config_of tc i)) = host_addr tc i" for i
    by (simp add: node_init_def)
  moreover have "neighbors_addy (node_init (config_of tc j)) ! q = - 1" if "is_link tc j q" for j q
    using that num_ports_of(1) [OF ok, of j] by (simp add: node_init_def is_link_def)
  ultimately show ?thesis unfolding net_wf_def using init(1,2) node_wf_init by auto
qed

section \<open>Neighbours and next hops\<close>

text \<open>A route that leads somewhere leads over an open port to a known neighbour.\<close>

definition hop_known :: "testcase \<Rightarrow> nat \<Rightarrow> node \<Rightarrow> bool" where
  "hop_known tc i n \<longleftrightarrow> (1 \<le> path_len n \<longrightarrow>
     (\<exists>q < degree tc i. host_addr tc (adj tc i ! q) = next_hop n \<and> known n q \<and> \<not> neighbors_blocked n ! q))"

text \<open>A host that is not known at a port has an announcement on its way there.\<close>

definition net_inv :: "testcase \<Rightarrow> node network \<Rightarrow> bool" where
  "net_inv tc v \<longleftrightarrow> net_wf tc v \<and> (\<forall>i < num_hosts tc. hop_known tc i (host v i))
     \<and> (\<forall>j q. is_link tc j q \<longrightarrow> known (host v j) q \<or> said (wire v j q) \<noteq> [])"

lemma route_fields:
  "node_route n = Route r l h \<longleftrightarrow> root_addr n = r \<and> path_len n = l \<and> next_hop n = h"
  "node_route n = node_route m \<longleftrightarrow> root_addr n = root_addr m \<and> path_len n = path_len m \<and> next_hop n = next_hop m"
  by (simp_all add: node_route_def)

lemma neighbor_inj:
  assumes "net_ok tc" and "is_link tc i p" and "is_link tc i q"
    and "host_addr tc (adj tc i ! p) = host_addr tc (adj tc i ! q)"
  shows "p = q"
proof -
  have "adj tc i ! p = adj tc i ! q"
    using host_addr_inj [OF assms(1) link_ends(3) [OF assms(1,2)] link_ends(3) [OF assms(1,3)] assms(4)] .
  then have "port_for tc i (adj tc i ! p) = port_for tc i (adj tc i ! q)" by (rule arg_cong)
  then show ?thesis unfolding link_ends(7) [OF assms(1,2)] link_ends(7) [OF assms(1,3)] .
qed

lemma hears_addy:
  "hears tc i p u n n' relay \<Longrightarrow> neighbors_addy n' =
    (if known n p \<or> offer u = node_route n then neighbors_addy n else (neighbors_addy n)[p := node_address u])"
  by (simp only: hears_def)

lemma hears_known:
  assumes "hears tc i p u n n' relay" and "known n q"
  shows "known n' q"
proof (cases "known n p \<or> offer u = node_route n")
  case True
  then show ?thesis using assms(2) by (simp add: hears_addy [OF assms(1)] known_def)
next
  case False
  then have "q \<noteq> p" using assms(2) by auto
  then show ?thesis using assms(2) False by (simp add: hears_addy [OF assms(1)] known_def)
qed

lemma hears_introduces:
  assumes "hears tc i p u n n' relay" and "p < length (neighbors_addy n)" and "node_address u \<noteq> - 1"
    and "offer u \<noteq> node_route n"
  shows "known n' p"
  using assms(2-4) by (cases "known n p") (simp_all add: hears_addy [OF assms(1)] known_def)

lemma hears_hop:
  assumes H: "hears tc i p u n n' relay" and p: "p < degree tc i"
    and src: "node_address u = host_addr tc (adj tc i ! p)" and hop: "hop_known tc i n"
  shows "hop_known tc i n'"
proof (cases "known n p \<and> offer u < node_route n")
  case True
  then have "node_route n' = offer u" using H by (simp add: hears_def)
  then have "next_hop n' = host_addr tc (adj tc i ! p)"
    using src by (simp add: offer_def route_fields)
  moreover have "known n' p" using hears_known [OF H] True by simp
  moreover have "\<not> neighbors_blocked n' ! p" using H True p src calculation(1) by (auto simp: hears_def)
  ultimately show ?thesis using p unfolding hop_known_def by auto
next
  case False
  then have same: "node_route n' = node_route n" using H by (auto simp: hears_def)
  have "known n' q \<and> \<not> neighbors_blocked n' ! q"
    if "q < degree tc i" "host_addr tc (adj tc i ! q) = next_hop n" "known n q" "\<not> neighbors_blocked n ! q" for q
    using that H False src hears_known [OF H that(3)] same by (auto simp: hears_def route_fields)
  then show ?thesis using hop same unfolding hop_known_def by (auto simp: route_fields)
qed

text \<open>A port at which something was heard has a known neighbour.\<close>

lemma heard_known:
  assumes ok: "net_ok tc" and inv: "net_inv tc v" and link: "is_link tc i p"
    and u: "u \<in> set (said (wire v i p))" and H: "hears tc i p u (host v i) n relay"
  shows "known n p"
proof (cases "offer u = node_route (host v i)")
  case True
  have i: "i < num_hosts tc" using link by (simp add: is_link_def)
  have src: "node_address u = host_addr tc (adj tc i ! p)"
    using net_wfD(2) [OF _ link u] inv by (simp add: net_inv_def)
  have "path_len (host v i) = uint (path_length u) + 1" "next_hop (host v i) = node_address u"
    using True by (auto simp: offer_def node_route_def)
  then have "1 \<le> path_len (host v i)" "next_hop (host v i) = node_address u" by simp_all
  then obtain q where "is_link tc i q" "host_addr tc (adj tc i ! q) = node_address u" "known (host v i) q"
    using inv i unfolding net_inv_def hop_known_def is_link_def by auto
  then have "known (host v i) p" using neighbor_inj [OF ok link] src by metis
  then show ?thesis by (rule hears_known [OF H])
next
  case False
  have i: "i < num_hosts tc" "p < degree tc i" using link by (simp_all add: is_link_def)
  have wf: "net_wf tc v" using inv by (simp add: net_inv_def)
  have "node_address u \<noteq> - 1"
    using net_wfD(2) [OF wf link u] host_addr_known [OF ok link_ends(3) [OF ok link]] by simp
  then show ?thesis
    using hears_introduces [OF H] False node_wfD(4) [OF ok i(1) net_wfD(1) [OF wf i(1)]] i(2) by simp
qed

lemma net_inv_event:
  assumes ok: "net_ok tc" and inv: "net_inv tc v" and ev: "net_event tc e v = Some v'"
  shows "net_inv tc v'"
proof -
  have wf: "net_wf tc v" and hop: "\<And>i. i < num_hosts tc \<Longrightarrow> hop_known tc i (host v i)"
    and intro: "\<And>j q. is_link tc j q \<Longrightarrow> known (host v j) q \<or> said (wire v j q) \<noteq> []"
    using inv by (simp_all add: net_inv_def)
  have wf': "net_wf tc v'" by (rule net_wf_event [OF ok wf ev])
  show ?thesis
    using ok wf ev
  proof (cases rule: stp_event)
    case (announce i n)
    have "hop_known tc i n" using announce(1,4) hop by (auto simp: hop_known_def)
    moreover have "known n q = known (host v i) q" for q using announce(4) by (auto simp: known_def)
    ultimately show ?thesis
      using wf' hop intro announce(2,5) unfolding net_inv_def by auto
  next
    case (hear i p u us n relay)
    have i: "i < num_hosts tc" "p < degree tc i" using hear(2) by (simp_all add: is_link_def)
    have src: "node_address u = host_addr tc (adj tc i ! p)" using net_wfD(2) [OF wf hear(2)] hear(3) by simp
    have "known n p" by (rule heard_known [OF ok inv hear(2) _ hear(6)]) (simp add: hear(3))
    then have "known (host v' j) q \<or> said (wire v' j q) \<noteq> []" if "is_link tc j q" for j q
      using intro [OF that] hear(4) hear(7) [OF that] hears_known [OF hear(6), of q] by auto
    moreover have "hop_known tc i n" by (rule hears_hop [OF hear(6) i(2) src hop [OF i(1)]])
    ultimately show ?thesis using wf' hop hear(4) unfolding net_inv_def by auto
  next
    case silent
    then show ?thesis using wf' hop intro unfolding net_inv_def by auto
  qed
qed

lemma net_inv_init:
  assumes "net_ok tc"
  shows "net_inv tc (nodes_of (net_init tc clk))"
proof -
  have "hop_known tc i (node_init (config_of tc i))" for i by (simp add: hop_known_def node_init_def)
  then show ?thesis
    unfolding net_inv_def using net_wf_init [OF assms, of clk] net_init_simps(1) [OF assms, of clk] net_init_simps(2) [OF assms, of _ _ clk] by auto
qed

section \<open>Roots\<close>

text \<open>Every root that a host believes in or that is announced is the address of a host.\<close>

definition is_root :: "testcase \<Rightarrow> mixnet_address \<Rightarrow> bool" where
  "is_root tc a \<longleftrightarrow> (\<exists>r < num_hosts tc. a = host_addr tc r)"

definition roots_exist :: "testcase \<Rightarrow> node network \<Rightarrow> bool" where
  "roots_exist tc v \<longleftrightarrow> (\<forall>i < num_hosts tc. is_root tc (root_addr (host v i)))
     \<and> (\<forall>j q. is_link tc j q \<longrightarrow> (\<forall>u \<in> set (said (wire v j q)). is_root tc (root_address u)))"

lemma hears_route:
  assumes "hears tc i p u n n' relay"
  shows "node_route n' = node_route n \<or> node_route n' = offer u \<and> offer u < node_route n"
  using assms by (auto simp: hears_def)

lemma roots_exist_event:
  assumes ok: "net_ok tc" and inv: "net_wf tc v \<and> roots_exist tc v" and ev: "net_event tc e v = Some v'"
  shows "net_wf tc v' \<and> roots_exist tc v'"
proof -
  have wf: "net_wf tc v" using inv by simp
  have "roots_exist tc v'"
    using ok wf ev
  proof (cases rule: stp_event)
    case (announce i n)
    have "is_root tc (root_addr n)"
      using announce(1,4) inv node_wfD(1) [OF ok announce(1,3)] by (auto simp: is_root_def)
    then show ?thesis using inv announce(2,5) unfolding roots_exist_def by auto
  next
    case (hear i p u us n relay)
    have i: "i < num_hosts tc" using hear(2) by (simp add: is_link_def)
    have "is_root tc (root_address u)" "is_root tc (root_addr (host v i))"
      using inv hear(2,3) i unfolding roots_exist_def by auto
    then have "is_root tc (root_addr n)"
      using hears_route [OF hear(6)] by (auto simp: route_fields offer_def)
    then show ?thesis using inv hear(2,3,4,7) unfolding roots_exist_def by (auto split: if_splits)
  next
    case silent
    then show ?thesis using inv unfolding roots_exist_def by auto
  qed
  then show ?thesis using net_wf_event [OF ok wf ev] by simp
qed

lemma roots_exist_init:
  assumes "net_ok tc"
  shows "roots_exist tc (nodes_of (net_init tc clk))"
proof -
  have "root_addr (node_init (config_of tc i)) = host_addr tc i" for i by (simp add: node_init_def)
  moreover have "is_root tc (host_addr tc (adj tc j ! q))" if "is_link tc j q" for j q
    using link_ends(3) [OF assms that] by (auto simp: is_root_def)
  moreover have "is_root tc (host_addr tc i)" if "i < num_hosts tc" for i
    using that by (auto simp: is_root_def)
  ultimately show ?thesis
    unfolding roots_exist_def
    using net_init_simps(1) [OF assms, of clk] net_init_simps(2) [OF assms, of _ _ clk] by auto
qed

end
