(* ===== verification/NetworkPaths.thy ===== *)
theory NetworkPaths
  imports NetworkInv
begin

text \<open>
  Path lengths in a network of nodes. While no announced length wraps around, a host's length is
  that of a walk from the root it believes in; while no host stands for root, the walk visits no
  host twice, and no length can wrap around.
\<close>

section \<open>Walks and distances\<close>

primrec walk :: "testcase \<Rightarrow> nat \<Rightarrow> nat \<Rightarrow> nat \<Rightarrow> bool" where
  "walk tc r 0 i \<longleftrightarrow> i = r"
| "walk tc r (Suc k) i \<longleftrightarrow> (\<exists>j \<in> set (adj tc i). walk tc r k j)"

definition dist :: "testcase \<Rightarrow> nat \<Rightarrow> nat \<Rightarrow> nat" where
  "dist tc r i = (LEAST k. walk tc r k i)"

definition connected :: "testcase \<Rightarrow> bool" where
  "connected tc \<longleftrightarrow> (\<forall>r < num_hosts tc. \<forall>i < num_hosts tc. \<exists>k. walk tc r k i)"

lemma dist_le: "walk tc r k i \<Longrightarrow> dist tc r i \<le> k"
  by (simp add: dist_def Least_le)

lemma dist_self [simp]: "dist tc r r = 0"
  using dist_le [of tc r 0 r] by simp

lemma walk_dist:
  assumes "connected tc" and "r < num_hosts tc" and "i < num_hosts tc"
  shows "walk tc r (dist tc r i) i"
  using assms unfolding connected_def dist_def by (metis LeastI)

lemma dist_0:
  assumes "connected tc" and "r < num_hosts tc" and "i < num_hosts tc" and "dist tc r i = 0"
  shows "i = r"
  using walk_dist [OF assms(1-3)] assms(4) by simp

lemma dist_neighbor:
  assumes "connected tc" and "r < num_hosts tc" and "net_ok tc" and "i < num_hosts tc" and "j \<in> set (adj tc i)"
  shows "dist tc r i \<le> Suc (dist tc r j)"
proof (rule dist_le)
  have "j < num_hosts tc" using net_ok_adj(4) [OF assms(3,4)] assms(5) by simp
  with walk_dist [OF assms(1,2)] assms(5) show "walk tc r (Suc (dist tc r j)) i" by auto
qed

lemma dist_pred:
  assumes "connected tc" and "r < num_hosts tc" and "net_ok tc" and "i < num_hosts tc"
    and "dist tc r i = Suc k"
  obtains j where "j \<in> set (adj tc i)" and "j < num_hosts tc" and "dist tc r j = k"
proof -
  obtain j where j: "j \<in> set (adj tc i)" "walk tc r k j"
    using walk_dist [OF assms(1,2,4)] assms(5) by auto
  have "dist tc r j \<le> k" using j(2) by (rule dist_le)
  moreover have "Suc k \<le> Suc (dist tc r j)"
    using dist_neighbor [OF assms(1-4) j(1)] assms(5) by simp
  ultimately show thesis using that j(1) net_ok_adj(4) [OF assms(3,4) j(1)] by simp
qed

lemma unat_length:
  assumes "0 \<le> l" and "l < 65536"
  shows "unat (word_of_int l :: u16) = nat l" and "uint (word_of_int l :: u16) = l"
proof -
  show "uint (word_of_int l :: u16) = l" using assms by (simp add: unsigned_of_int take_bit_eq_mod)
  then show "unat (word_of_int l :: u16) = nat l" by (metis nat_uint_eq)
qed

section \<open>Lengths of walks\<close>

text \<open>A host's route is one it was offered by its next hop.\<close>

definition route_honest :: "testcase \<Rightarrow> nat \<Rightarrow> node \<Rightarrow> bool" where
  "route_honest tc i n \<longleftrightarrow> (\<exists>r < num_hosts tc. root_addr n = host_addr tc r
     \<and> (if path_len n = 0 then i = r
        else \<exists>q < degree tc i. next_hop n = host_addr tc (adj tc i ! q)
               \<and> walk tc r (nat (path_len n - 1)) (adj tc i ! q)))"

definition honest :: "testcase \<Rightarrow> node network \<Rightarrow> bool" where
  "honest tc v \<longleftrightarrow> (\<forall>i < num_hosts tc. route_honest tc i (host v i))
     \<and> (\<forall>j q. is_link tc j q \<longrightarrow> (\<forall>u \<in> set (said (wire v j q)). \<exists>r < num_hosts tc.
          root_address u = host_addr tc r \<and> walk tc r (unat (path_length u)) (adj tc j ! q)))"

lemma route_honest_walk:
  assumes "route_honest tc i n" and "0 \<le> path_len n"
  shows "\<exists>r < num_hosts tc. root_addr n = host_addr tc r \<and> walk tc r (nat (path_len n)) i"
proof -
  obtain r where r: "r < num_hosts tc" "root_addr n = host_addr tc r"
    and w: "if path_len n = 0 then i = r else \<exists>q < degree tc i. walk tc r (nat (path_len n - 1)) (adj tc i ! q)"
    using assms(1) unfolding route_honest_def by metis
  have "walk tc r (nat (path_len n)) i"
  proof (cases "path_len n = 0")
    case False
    then have "nat (path_len n) = Suc (nat (path_len n - 1))" using assms(2) by simp
    then show ?thesis using w False by auto
  qed (use w in simp)
  with r show ?thesis by blast
qed

lemma honest_event:
  assumes ok: "net_ok tc" and wf: "net_wf tc v" and hon: "honest tc v" and ev: "net_event tc e v = Some v'"
    and short: "\<And>i p. e = Take i p \<Longrightarrow> path_len (host v' i) < 65536"
  shows "honest tc v'"
  using ok wf ev
proof (cases rule: stp_event)
  case (announce i n)
  have my: "my_addr n = host_addr tc i" using node_wfD(1) [OF ok announce(1,3)] .
  have "root_addr n = my_addr n" "path_len n = 0"
    using announce(4) node_wfD(9) [OF ok announce(1,3)] by auto
  then have "route_honest tc i n" "root_addr n = host_addr tc i"
      "walk tc i (unat (word_of_int (path_len n) :: u16)) i"
    using my announce(1) by (auto simp: route_honest_def)
  then show ?thesis
    using hon announce(1,2,5) unfolding honest_def by (auto split: if_splits)
next
  case (hear i p u us n relay)
  have i: "i < num_hosts tc" "p < degree tc i" using hear(2) by (simp_all add: is_link_def)
  have "u \<in> set (said (wire v i p))" using hear(3) by simp
  then obtain r where r: "r < num_hosts tc" "root_address u = host_addr tc r"
    "walk tc r (unat (path_length u)) (adj tc i ! p)"
    using hon hear(2) unfolding honest_def by blast
  have src: "node_address u = host_addr tc (adj tc i ! p)" using net_wfD(2) [OF wf hear(2)] hear(3) by simp
  have n: "route_honest tc i n"
    using hears_route [OF hear(6)]
  proof
    assume "node_route n = node_route (host v i)"
    moreover have "route_honest tc i (host v i)" using hon i by (simp add: honest_def)
    ultimately show ?thesis by (simp only: route_fields route_honest_def)
  next
    assume "node_route n = offer u \<and> offer u < node_route (host v i)"
    then have "root_addr n = root_address u" "path_len n = uint (path_length u) + 1" "next_hop n = node_address u"
      by (simp_all add: offer_def route_fields)
    moreover have "uint (path_length u) + 1 \<noteq> 0" using uint_ge_0 [of "path_length u"] by linarith
    ultimately show ?thesis
      unfolding route_honest_def using r i(2) src by (intro exI [of _ r]) (auto simp: nat_uint_eq)
  qed
  have "0 \<le> path_len n" using node_wfD(6) [OF ok i(1) hear(5)] .
  moreover have "path_len n < 65536" using short hear(1,4) by simp
  ultimately have len: "unat (word_of_int (path_len n) :: u16) = nat (path_len n)" by (rule unat_length)
  note out = route_honest_walk [OF n \<open>0 \<le> path_len n\<close>, folded len]
  then show ?thesis
    using n out hon hear(3,4,7) unfolding honest_def by (auto split: if_splits)
next
  case silent
  then show ?thesis using hon unfolding honest_def by auto
qed

lemma honest_init:
  assumes "net_ok tc"
  shows "honest tc (nodes_of (net_init tc clk))"
proof -
  have n: "root_addr (node_init (config_of tc i)) = host_addr tc i" "path_len (node_init (config_of tc i)) = 0" for i
    by (simp_all add: node_init_def)
  then have "route_honest tc i (node_init (config_of tc i))" if "i < num_hosts tc" for i
    using that by (auto simp: route_honest_def)
  then show ?thesis
    unfolding honest_def
    using net_init_simps(1) [OF assms, of clk] net_init_simps(2) [OF assms, of _ _ clk] link_ends(3) [OF assms]
    by (auto simp: n)
qed

text \<open>With distinct addresses, a length is at least the distance.\<close>

lemma honest_dist:
  assumes ok: "net_ok tc" and hon: "honest tc v" and m: "m < num_hosts tc"
  shows "i < num_hosts tc \<Longrightarrow> 0 \<le> path_len (host v i) \<Longrightarrow> root_addr (host v i) = host_addr tc m \<Longrightarrow>
      dist tc m i \<le> nat (path_len (host v i))"
    and "is_link tc j q \<Longrightarrow> u \<in> set (said (wire v j q)) \<Longrightarrow> root_address u = host_addr tc m \<Longrightarrow>
      dist tc m (adj tc j ! q) \<le> unat (path_length u)"
proof -
  assume i: "i < num_hosts tc" "0 \<le> path_len (host v i)" "root_addr (host v i) = host_addr tc m"
  then obtain r where r: "r < num_hosts tc" "host_addr tc m = host_addr tc r"
    "walk tc r (nat (path_len (host v i))) i"
    using route_honest_walk [OF _ i(2)] hon unfolding honest_def by metis
  then have "r = m" using host_addr_inj [OF ok r(1) m] by simp
  then show "dist tc m i \<le> nat (path_len (host v i))" using r(3) dist_le by blast
next
  assume "is_link tc j q" "u \<in> set (said (wire v j q))" "root_address u = host_addr tc m"
  then obtain r where r: "r < num_hosts tc" "host_addr tc m = host_addr tc r"
    "walk tc r (unat (path_length u)) (adj tc j ! q)"
    using hon unfolding honest_def by metis
  then have "r = m" using host_addr_inj [OF ok r(1) m] by simp
  then show "dist tc m (adj tc j ! q) \<le> unat (path_length u)" using r(3) dist_le by blast
qed

text \<open>The next hop of a host whose length is its distance is one step nearer to the root.\<close>

lemma honest_hop:
  assumes ok: "net_ok tc" and con: "connected tc" and hon: "honest tc v" and m: "m < num_hosts tc"
    and i: "i < num_hosts tc" "root_addr (host v i) = host_addr tc m" "path_len (host v i) = int (dist tc m i)"
    and "i \<noteq> m"
  obtains j where "j \<in> set (adj tc i)" "next_hop (host v i) = host_addr tc j" "dist tc m i = Suc (dist tc m j)"
proof -
  have pos: "path_len (host v i) \<noteq> 0" using dist_0 [OF con m i(1)] i(3) \<open>i \<noteq> m\<close> by auto
  have hrt: "route_honest tc i (host v i)" using hon i by (simp add: honest_def)
  then obtain r q where r: "r < num_hosts tc" "host_addr tc m = host_addr tc r"
    and q: "q < degree tc i" "next_hop (host v i) = host_addr tc (adj tc i ! q)"
      "walk tc r (nat (path_len (host v i) - 1)) (adj tc i ! q)"
    using hrt i(2) pos unfolding route_honest_def by auto
  have "r = m" using host_addr_inj [OF ok r(1) m] r(2) by simp
  then have "dist tc m (adj tc i ! q) \<le> nat (path_len (host v i) - 1)"
    using dist_le [OF q(3)] by simp
  then have "Suc (dist tc m (adj tc i ! q)) \<le> dist tc m i" using i(3) pos by arith
  moreover have "adj tc i ! q \<in> set (adj tc i)" using q(1) by simp
  ultimately show thesis using that q(2) dist_neighbor [OF con m ok i(1)] by (metis le_antisym)
qed

section \<open>Walks without repetition\<close>

definition node_key :: "node \<Rightarrow> route" where
  "node_key n = Route (root_addr n) (path_len n) 0"

text \<open>
  The hosts over which a length came about; none of them has, by now, a longer way to the root, or a
  larger root.
\<close>

definition trail :: "testcase \<Rightarrow> node network \<Rightarrow> nat \<Rightarrow> mixnet_address \<Rightarrow> nat \<Rightarrow> bool" where
  "trail tc v i r l \<longleftrightarrow> (\<exists>vs. length vs = Suc l \<and> distinct vs \<and> set vs \<subseteq> {..<num_hosts tc}
     \<and> host_addr tc (vs ! 0) = r \<and> vs ! l = i \<and> (\<forall>k < l. vs ! k \<in> set (adj tc (vs ! Suc k)))
     \<and> (\<forall>k \<le> l. node_key (host v (vs ! k)) \<le> Route r (int k) 0))"

definition trails :: "testcase \<Rightarrow> node network \<Rightarrow> bool" where
  "trails tc v \<longleftrightarrow>
     (\<forall>i < num_hosts tc. trail tc v i (root_addr (host v i)) (nat (path_len (host v i))))
     \<and> (\<forall>j q. is_link tc j q \<longrightarrow> (\<forall>u \<in> set (said (wire v j q)).
          trail tc v (adj tc j ! q) (root_address u) (unat (path_length u))))"

lemma trail_mono:
  assumes "trail tc v i r l" and "\<And>x. x < num_hosts tc \<Longrightarrow> node_key (host v' x) \<le> node_key (host v x)"
  shows "trail tc v' i r l"
proof -
  obtain vs where vs: "length vs = Suc l" "distinct vs" "set vs \<subseteq> {..<num_hosts tc}"
    "host_addr tc (vs ! 0) = r" "vs ! l = i" "\<forall>k < l. vs ! k \<in> set (adj tc (vs ! Suc k))"
    "\<forall>k \<le> l. node_key (host v (vs ! k)) \<le> Route r (int k) 0"
    using assms(1) unfolding trail_def by blast
  have "node_key (host v' (vs ! k)) \<le> Route r (int k) 0" if "k \<le> l" for k
  proof -
    have "vs ! k < num_hosts tc" using subsetD [OF vs(3) nth_mem [of k vs]] vs(1) that by simp
    with assms(2) vs(7) that show ?thesis by (meson order_trans)
  qed
  with vs(1-6) show ?thesis unfolding trail_def by blast
qed

lemma trail_short:
  assumes "trail tc v i r l"
  shows "l < num_hosts tc"
proof -
  obtain vs where vs: "length vs = Suc l" "distinct vs" "set vs \<subseteq> {..<num_hosts tc}"
    using assms unfolding trail_def by blast
  have "card (set vs) \<le> num_hosts tc" using card_mono [OF _ vs(3)] by simp
  then show ?thesis using vs(1,2) distinct_card [of vs] by simp
qed

lemma num_hosts_less: "num_hosts tc < 65536"
  by (simp add: num_hosts_def)

lemma trails_short: "trails tc v \<Longrightarrow> i < num_hosts tc \<Longrightarrow> path_len (host v i) < 65536"
  using trail_short [of tc v i _ "nat (path_len (host v i))"] num_hosts_less [of tc]
  unfolding trails_def by fastforce

lemma route_le_key: "Route r l h \<le> Route r' l' h' \<Longrightarrow> Route r l 0 \<le> Route r' l' 0"
  by (auto simp: less_eq_route_def)

lemma node_key_mono: "node_route n \<le> node_route n' \<Longrightarrow> node_key n \<le> node_key n'"
  unfolding node_route_def node_key_def by (rule route_le_key)

text \<open>A better offer extends its trail by the host that takes it.\<close>

lemma trail_extend:
  assumes t: "trail tc v j r l" and i: "i < num_hosts tc" and adj: "j \<in> set (adj tc i)"
    and better: "Route r (int l + 1) h < node_route (host v i)"
    and v': "\<And>x. x < num_hosts tc \<Longrightarrow> node_key (host v' x) \<le> node_key (host v x)"
    and new: "node_key (host v' i) = Route r (int l + 1) 0"
  shows "trail tc v' i r (Suc l)"
proof -
  have "trail tc v' j r l" by (rule trail_mono [OF t v'])
  then obtain vs where vs: "length vs = Suc l" "distinct vs" "set vs \<subseteq> {..<num_hosts tc}"
    "host_addr tc (vs ! 0) = r" "vs ! l = j" "\<forall>k < l. vs ! k \<in> set (adj tc (vs ! Suc k))"
    "\<forall>k \<le> l. node_key (host v' (vs ! k)) \<le> Route r (int k) 0"
    unfolding trail_def by blast
  have fresh: "i \<notin> set vs"
  proof
    assume "i \<in> set vs"
    then obtain k where "k \<le> l" "vs ! k = i" using vs(1) by (metis in_set_conv_nth less_Suc_eq_le)
    then have "Route r (int l + 1) 0 \<le> Route r (int k) 0" using vs(7) new by auto
    with \<open>k \<le> l\<close> show False by (auto simp: less_eq_route_def)
  qed
  let ?vs = "vs @ [i]"
  have "\<forall>k < Suc l. ?vs ! k \<in> set (adj tc (?vs ! Suc k))"
    using vs(1,5,6) adj by (auto simp: nth_append less_Suc_eq)
  moreover have "\<forall>k \<le> Suc l. node_key (host v' (?vs ! k)) \<le> Route r (int k) 0"
    using vs(1,7) new by (auto simp: nth_append le_Suc_eq add.commute)
  ultimately show ?thesis
    unfolding trail_def using vs(1-4) fresh i
    by (intro exI [of _ ?vs]) (auto simp: nth_append)
qed

lemma trails_event:
  assumes ok: "net_ok tc" and wf: "net_wf tc v" and tr: "trails tc v"
    and ev: "net_event tc e v = Some v'" and calm: "\<not> standing e"
  shows "trails tc v'"
  using ok wf ev
proof (cases rule: stp_event)
  case (announce i n)
  then have n: "n = host v i" "root_addr n = my_addr n" using calm by (auto simp: standing_def)
  then have "host v' = host v" using announce(2) by auto
  then have same: "trail tc v' = trail tc v" by (intro ext) (simp add: trail_def)
  have "path_len n = 0" using node_wfD(9) [OF ok announce(1,3)] n(2) by simp
  moreover have "trail tc v i (root_addr n) (nat (path_len n))"
    using tr announce(1) n(1) by (simp add: trails_def)
  ultimately show ?thesis
    using tr announce(5) \<open>host v' = host v\<close> unfolding trails_def same by (auto split: if_splits)
next
  case (hear i p u us n relay)
  have i: "i < num_hosts tc" "p < degree tc i" using hear(2) by (simp_all add: is_link_def)
  have le: "node_route n \<le> node_route (host v i)" using hears_route [OF hear(6)] by auto
  have keys: "node_key (host v' x) \<le> node_key (host v x)" for x
    using hear(4) node_key_mono [OF le] by simp
  note keep = trail_mono [OF _ keys]
  have u: "trail tc v (adj tc i ! p) (root_address u) (unat (path_length u))"
    using tr hear(2,3) unfolding trails_def by auto
  have n: "trail tc v' i (root_addr n) (nat (path_len n))"
    using hears_route [OF hear(6)]
  proof
    assume "node_route n = node_route (host v i)"
    then have "root_addr n = root_addr (host v i)" "path_len n = path_len (host v i)"
      by (simp_all add: route_fields)
    then show ?thesis using keep tr i unfolding trails_def by simp
  next
    assume better: "node_route n = offer u \<and> offer u < node_route (host v i)"
    have uint: "uint (path_length u) = int (unat (path_length u))" by simp
    have n: "root_addr n = root_address u" "path_len n = int (unat (path_length u)) + 1"
      using better by (auto simp: offer_def route_fields)
    have "trail tc v' i (root_address u) (Suc (unat (path_length u)))"
    proof (rule trail_extend [OF u i(1) _ _ keys])
      show "adj tc i ! p \<in> set (adj tc i)" using i by simp
      show "Route (root_address u) (int (unat (path_length u)) + 1) (node_address u) < node_route (host v i)"
        using better by (simp add: offer_def)
      show "node_key (host v' i) = Route (root_address u) (int (unat (path_length u)) + 1) 0"
        using n hear(4) by (simp add: node_key_def)
    qed
    then show ?thesis using n by (simp add: nat_add_distrib)
  qed
  have "0 \<le> path_len n" using node_wfD(6) [OF ok i(1) hear(5)] .
  moreover have "path_len n < 65536"
    using trail_short [OF n] num_hosts_less [of tc] by linarith
  ultimately have "unat (word_of_int (path_len n) :: u16) = nat (path_len n)" by (rule unat_length)
  then show ?thesis
    using n tr hear(3,4,7) keep unfolding trails_def by (auto split: if_splits)
next
  case silent
  then have "trail tc v' = trail tc v" by (intro ext) (simp add: trail_def)
  then show ?thesis using tr silent unfolding trails_def by auto
qed

lemma trails_init:
  assumes "net_ok tc"
  shows "trails tc (nodes_of (net_init tc clk))"
proof -
  have n: "root_addr (node_init (config_of tc i)) = host_addr tc i" "path_len (node_init (config_of tc i)) = 0" for i
    by (simp_all add: node_init_def)
  have "trail tc (nodes_of (net_init tc clk)) i (host_addr tc i) 0" if "i < num_hosts tc" for i
    unfolding trail_def using that net_init_simps(1) [OF assms, of clk]
    by (intro exI [of _ "[i]"]) (simp add: n node_key_def)
  then show ?thesis
    unfolding trails_def
    using net_init_simps(1) [OF assms, of clk] net_init_simps(2) [OF assms, of _ _ clk] link_ends(3) [OF assms]
    by (auto simp: n)
qed

end
