(* ===== verification/NetworkElection.thy ===== *)
theory NetworkElection
  imports NetworkPaths
begin

text \<open>
  The election of the root. A greeting of the host with the smallest address starts a wave: every
  host that the wave reaches has its shortest route, and has told all its neighbours since the
  greeting. When nothing is on its way any more, the wave has reached every host.
\<close>

section \<open>The result of an election\<close>

definition smallest :: "testcase \<Rightarrow> nat \<Rightarrow> bool" where
  "smallest tc m \<longleftrightarrow> m < num_hosts tc \<and> (\<forall>i < num_hosts tc. host_addr tc m \<le> host_addr tc i)"

text \<open>The neighbours of a host that are one step nearer to the root.\<close>

definition parents :: "testcase \<Rightarrow> nat \<Rightarrow> nat \<Rightarrow> nat set" where
  "parents tc m i = {j \<in> set (adj tc i). Suc (dist tc m j) = dist tc m i}"

definition elected :: "testcase \<Rightarrow> nat \<Rightarrow> node network \<Rightarrow> bool" where
  "elected tc m v \<longleftrightarrow> (\<forall>i < num_hosts tc.
     root_addr (host v i) = host_addr tc m \<and> path_len (host v i) = int (dist tc m i)
     \<and> (i \<noteq> m \<longrightarrow> next_hop (host v i) \<in> host_addr tc ` parents tc m i
          \<and> (\<forall>j \<in> parents tc m i. next_hop (host v i) \<le> host_addr tc j)))"

section \<open>The wave\<close>

definition exact_route :: "testcase \<Rightarrow> nat \<Rightarrow> nat \<Rightarrow> node \<Rightarrow> bool" where
  "exact_route tc m i n \<longleftrightarrow> root_addr n = host_addr tc m \<and> path_len n = int (dist tc m i) \<and> dist tc m i < 65536"

definition exact_news :: "testcase \<Rightarrow> nat \<Rightarrow> nat \<Rightarrow> mixnet_packet_stp" where
  "exact_news tc m i = \<lparr>root_address = host_addr tc m, path_length = of_nat (dist tc m i),
     node_address = host_addr tc i\<rparr>"

definition exact_offer :: "testcase \<Rightarrow> nat \<Rightarrow> nat \<Rightarrow> route" where
  "exact_offer tc m i = Route (host_addr tc m) (int (dist tc m i) + 1) (host_addr tc i)"

text \<open>The news is on its way to port \<open>q\<close> of \<open>j\<close>, and not as the announcement that introduces the sender.\<close>

definition pending :: "testcase \<Rightarrow> nat \<Rightarrow> node network \<Rightarrow> nat \<Rightarrow> nat \<Rightarrow> bool" where
  "pending tc m v j q \<longleftrightarrow> (\<exists>k < length (said (wire v j q)).
     said (wire v j q) ! k = exact_news tc m (adj tc j ! q) \<and> (known (host v j) q \<or> 0 < k))"

text \<open>The news was taken; when it is the host's best offer, the wave has reached the host.\<close>

definition noticed :: "testcase \<Rightarrow> nat \<Rightarrow> nat set \<Rightarrow> node network \<Rightarrow> nat \<Rightarrow> nat \<Rightarrow> bool" where
  "noticed tc m W v j q \<longleftrightarrow> node_route (host v j) \<le> exact_offer tc m (adj tc j ! q)
     \<and> (node_route (host v j) = exact_offer tc m (adj tc j ! q)
        \<longrightarrow> Suc (dist tc m (adj tc j ! q)) = dist tc m j \<longrightarrow> j \<in> W)"

definition wave :: "testcase \<Rightarrow> nat \<Rightarrow> nat set \<Rightarrow> node network \<Rightarrow> bool" where
  "wave tc m W v \<longleftrightarrow> m \<in> W \<and> W \<subseteq> {..<num_hosts tc}
     \<and> (\<forall>i \<in> W. exact_route tc m i (host v i))
     \<and> (\<forall>j q. is_link tc j q \<longrightarrow> adj tc j ! q \<in> W \<longrightarrow> pending tc m v j q \<or> noticed tc m W v j q)"

text \<open>What is known of every reachable state.\<close>

definition sound :: "testcase \<Rightarrow> node network \<Rightarrow> bool" where
  "sound tc v \<longleftrightarrow> net_inv tc v \<and> roots_exist tc v \<and> honest tc v"

lemma sound_event:
  assumes "net_ok tc" and "sound tc v" and "net_event tc e v = Some v'"
    and "\<And>i p. e = Take i p \<Longrightarrow> path_len (host v' i) < 65536"
  shows "sound tc v'"
proof -
  have wf: "net_wf tc v" using assms(2) by (simp add: sound_def net_inv_def)
  show ?thesis
    using assms(2) net_inv_event [OF assms(1) _ assms(3)] roots_exist_event [OF assms(1) _ assms(3)]
      honest_event [OF assms(1) wf _ assms(3,4)] wf
    by (auto simp: sound_def)
qed

lemma sound_init: "net_ok tc \<Longrightarrow> sound tc (nodes_of (net_init tc clk))"
  by (simp add: sound_def net_inv_init roots_exist_init honest_init)

lemma soundD:
  assumes "sound tc v"
  shows "net_inv tc v" and "net_wf tc v" and "roots_exist tc v" and "honest tc v"
  using assms by (simp_all add: sound_def net_inv_def)

lemma sound_lower_bound:
  assumes ok: "net_ok tc" and v: "sound tc v" and m: "smallest tc m" and i: "i < num_hosts tc"
  shows "host_addr tc m \<le> root_addr (host v i)"
    and "root_addr (host v i) = host_addr tc m \<Longrightarrow> int (dist tc m i) \<le> path_len (host v i)"
proof -
  show "host_addr tc m \<le> root_addr (host v i)"
    using soundD(3) [OF v] m i unfolding roots_exist_def is_root_def smallest_def by metis
  assume "root_addr (host v i) = host_addr tc m"
  moreover have "0 \<le> path_len (host v i)" using node_wfD(6) [OF ok i net_wfD(1) [OF soundD(2) [OF v] i]] .
  ultimately show "int (dist tc m i) \<le> path_len (host v i)"
    using honest_dist(1) [OF ok soundD(4) [OF v] conjunct1 [OF m [unfolded smallest_def]] i] by simp
qed

lemma exact_route_kept:
  assumes ok: "net_ok tc" and v': "sound tc v'" and m: "smallest tc m" and i: "i < num_hosts tc"
    and "exact_route tc m i n" and le: "node_route (host v' i) \<le> node_route n"
  shows "exact_route tc m i (host v' i)"
proof -
  note B = sound_lower_bound [OF ok v' m i]
  have "Route (root_addr (host v' i)) (path_len (host v' i)) 0 \<le> Route (host_addr tc m) (int (dist tc m i)) 0"
    using route_le_key [of "root_addr (host v' i)" "path_len (host v' i)"] le assms(5)
    by (auto simp: node_route_def exact_route_def)
  then show ?thesis using B assms(5) by (auto simp: less_eq_route_def exact_route_def)
qed

lemma exact_route_announcement:
  assumes "exact_route tc m i n" and "my_addr n = host_addr tc i"
  shows "announcement n = exact_news tc m i"
  using assms by (simp add: announcement_def exact_news_def exact_route_def)

lemma offer_exact_news: "dist tc m i < 65536 \<Longrightarrow> offer (exact_news tc m i) = exact_offer tc m i"
  using unat_length(2) [of "int (dist tc m i)"] by (simp add: offer_def exact_news_def exact_offer_def)

text \<open>A greeting starts a wave.\<close>

lemma wave_start:
  assumes ok: "net_ok tc" and v: "sound tc v" and m: "smallest tc m"
    and ev: "net_event tc (Greet m) v = Some v'"
  shows "wave tc m {m} v'"
  using ok soundD(2) [OF v] ev
proof (cases rule: stp_event)
  case (announce i n)
  then have [simp]: "i = m" and n: "n = host v m" "root_addr n = my_addr n" by auto
  have mN: "m < num_hosts tc" using m by (simp add: smallest_def)
  note N = node_wfD [OF ok announce(1,3)]
  have ex: "exact_route tc m m n" using N(1,9) n by (simp add: exact_route_def)
  have "announcement n = exact_news tc m m" using exact_route_announcement [OF ex] N(1) by simp
  then have "pending tc m v' j q" if "is_link tc j q" "adj tc j ! q = m" for j q
    using that announce(2,5) n soundD(1) [OF v] unfolding pending_def net_inv_def
    by (intro exI [of _ "length (said (wire v j q))"]) (auto simp: nth_append)
  then show ?thesis using ex mN announce(2) by (simp add: wave_def)
qed (auto simp: Let_def split: if_splits)

lemma notice:
  assumes "node_route n \<le> exact_offer tc m (adj tc j ! q)"
    and "node_route n = exact_offer tc m (adj tc j ! q) \<Longrightarrow>
      Suc (dist tc m (adj tc j ! q)) = dist tc m j \<Longrightarrow> j \<in> W"
    and "host v j = n"
  shows "noticed tc m W v j q"
  using assms by (simp add: noticed_def)

text \<open>A host keeps what it has noticed, since its route only gets better.\<close>

lemma noticed_kept:
  assumes "noticed tc m W v j q" and "node_route (host v' j) \<le> node_route (host v j)" and "W \<subseteq> W'"
  shows "noticed tc m W' v' j q"
  using assms by (auto simp: noticed_def)

lemma pending_kept:
  assumes "pending tc m v j q" and "known (host v j) q \<Longrightarrow> known (host v' j) q"
    and "said (wire v' j q) = said (wire v j q) @ us"
  shows "pending tc m v' j q"
  using assms unfolding pending_def by (metis length_append nth_append trans_less_add1)

text \<open>
  A host that hears something: what is said about its links stays true of the rest of the queue, and
  if what it heard was the news itself, it has noticed it.
\<close>

lemma wave_hear:
  assumes ok: "net_ok tc" and v: "sound tc v" and v': "sound tc v'" and m: "smallest tc m"
    and w: "wave tc m W v" and link: "is_link tc i p" and said: "said (wire v i p) = u # us"
    and host': "host v' = (host v)(i := n)" and wf: "node_wf (config_of tc i) n"
    and H: "hears tc i p u (host v i) n relay" and short: "path_len n < 65536"
    and wire': "\<And>j q. is_link tc j q \<Longrightarrow> said (wire v' j q) =
         (if j = i \<and> q = p then us else said (wire v j q)) @ added tc i relay n j q"
  shows "\<exists>W'. wave tc m W' v'"
proof -
  have mN: "m < num_hosts tc" using m by (simp add: smallest_def)
  have i: "i < num_hosts tc" "p < degree tc i" using link by (simp_all add: is_link_def)
  have le: "node_route (host v' x) \<le> node_route (host v x)" for x
    using hears_route [OF H] host' by auto
  have known': "known (host v j) q \<Longrightarrow> known (host v' j) q" for j q
    using hears_known [OF H] host' by auto
  have np: "known n p" by (rule heard_known [OF ok soundD(1) [OF v] link _ H]) (simp add: said)
  have my: "my_addr n = host_addr tc i" using node_wfD(1) [OF ok i(1) wf] .
  define W' where "W' = (if relay \<and> exact_route tc m i n then insert i W else W)"
  have sub: "W \<subseteq> W'" by (auto simp: W'_def)
  have exact: "exact_route tc m x (host v' x)" if "x \<in> W'" for x
  proof (cases "x \<in> W")
    case True
    then have "x < num_hosts tc" "exact_route tc m x (host v x)" using w by (auto simp: wave_def)
    then show ?thesis using exact_route_kept [OF ok v' m _ _ le] by blast
  next
    case False
    then show ?thesis using that host' by (auto simp: W'_def split: if_splits)
  qed
  have news: "pending tc m v' j q \<or> noticed tc m W' v' j q" if jq: "is_link tc j q" "adj tc j ! q \<in> W" for j q
  proof -
    from w jq consider "noticed tc m W v j q" | "pending tc m v j q" unfolding wave_def by blast
    then show ?thesis
    proof cases
      case 1
      then show ?thesis using noticed_kept [OF _ le sub] by blast
    next
      case 2
      show ?thesis
      proof (cases "j = i \<and> q = p")
        case False
        then show ?thesis using pending_kept [OF 2 known'] wire' [OF jq(1)] by auto
      next
        case True
        let ?y = "adj tc i ! p"
        have "adj tc i ! p \<noteq> i" using link_ends(4) [OF ok link] .
        then have us: "said (wire v' i p) = us" using wire' [OF link] by simp
        from 2 True obtain k where k: "k < Suc (length us)" "(u # us) ! k = exact_news tc m ?y"
          "known (host v i) p \<or> 0 < k"
          unfolding pending_def by (auto simp: said)
        show ?thesis
        proof (cases k)
          case (Suc l)
          then have "pending tc m v' i p"
            unfolding pending_def us using k np host' by (intro exI [of _ l]) simp
          then show ?thesis using True by simp
        next
          case 0
          have y: "dist tc m ?y < 65536" using w jq(2) True by (auto simp: wave_def exact_route_def)
          have u: "offer u = exact_offer tc m ?y" using k 0 offer_exact_news [OF y] by simp
          have kn: "known (host v i) p" using k 0 by simp
          have "node_route n \<le> exact_offer tc m ?y" using H kn u by (auto simp: hears_def)
          moreover have "i \<in> W'"
            if r: "node_route n = exact_offer tc m ?y" and d: "Suc (dist tc m ?y) = dist tc m i"
          proof -
            have "relay" using H kn u r by (auto simp: hears_def split: if_splits)
            moreover have "exact_route tc m i n"
              using r d short unfolding exact_offer_def route_fields exact_route_def by auto
            ultimately show ?thesis by (simp add: W'_def)
          qed
          ultimately show ?thesis using True notice [of n tc m i p W' v'] host' by auto
        qed
      qed
    qed
  qed
  have told: "pending tc m v' j q" if new: "relay" "exact_route tc m i n" and jq: "is_link tc j q" "adj tc j ! q = i" for j q
  proof -
    have "j \<noteq> i" using link_ends(4) [OF ok jq(1)] jq(2) by auto
    then have "said (wire v' j q) = said (wire v j q) @ [exact_news tc m i]"
      using wire' [OF jq(1)] new jq(2) exact_route_announcement [OF new(2) my] by simp
    moreover have "known (host v j) q \<or> said (wire v j q) \<noteq> []"
      using soundD(1) [OF v] jq(1) by (simp add: net_inv_def)
    ultimately show ?thesis
      unfolding pending_def using jq(2) known' [of j q]
      by (intro exI [of _ "length (said (wire v j q))"]) auto
  qed
  have "wave tc m W' v'"
    unfolding wave_def
  proof (intro conjI ballI allI impI)
    show "m \<in> W'" using w sub by (auto simp: wave_def)
    show "W' \<subseteq> {..<num_hosts tc}" using w i by (auto simp: wave_def W'_def)
    show "exact_route tc m x (host v' x)" if "x \<in> W'" for x using exact that .
    show "pending tc m v' j q \<or> noticed tc m W' v' j q" if "is_link tc j q" "adj tc j ! q \<in> W'" for j q
      using news [OF that(1)] told [OF _ _ that(1)] that(2) by (auto simp: W'_def split: if_splits)
  qed
  then show ?thesis by blast
qed

lemma wave_same_hosts:
  assumes w: "wave tc m W v" and host': "host v' = host v"
    and wire': "\<And>j q. is_link tc j q \<Longrightarrow> \<exists>us. said (wire v' j q) = said (wire v j q) @ us"
  shows "wave tc m W v'"
proof -
  have "pending tc m v' j q \<or> noticed tc m W v' j q" if jq: "is_link tc j q" "adj tc j ! q \<in> W" for j q
  proof -
    obtain us where us: "said (wire v' j q) = said (wire v j q) @ us" using wire' [OF jq(1)] by blast
    from w jq consider "noticed tc m W v j q" | "pending tc m v j q" unfolding wave_def by blast
    then show ?thesis
    proof cases
      case 1
      then have "noticed tc m W v' j q" by (rule noticed_kept) (simp_all add: host')
      then show ?thesis ..
    next
      case 2
      then have "pending tc m v' j q" by (rule pending_kept [OF _ _ us]) (simp add: host')
      then show ?thesis ..
    qed
  qed
  then show ?thesis using w host' by (simp add: wave_def)
qed

lemma wave_event:
  assumes ok: "net_ok tc" and v: "sound tc v" and v': "sound tc v'" and m: "smallest tc m"
    and w: "wave tc m W v" and ev: "net_event tc e v = Some v'" and calm: "\<not> standing e"
    and short: "\<And>i p. e = Take i p \<Longrightarrow> path_len (host v' i) < 65536"
  shows "\<exists>W'. wave tc m W' v'"
  using ok soundD(2) [OF v] ev
proof (cases rule: stp_event)
  case (announce i n)
  then have "host v' = host v" using calm by (auto simp: standing_def)
  from wave_same_hosts [OF w this] announce(5) show ?thesis by blast
next
  case (hear i p u us n relay)
  have "path_len n < 65536" using short [OF hear(1)] hear(4) by simp
  from wave_hear [OF ok v v' m w hear(2-6) this hear(7)] show ?thesis by blast
next
  case silent
  then show ?thesis using wave_same_hosts [OF w silent(3)] by fastforce
qed

section \<open>The end of the wave\<close>

lemma wave_end:
  assumes ok: "net_ok tc" and con: "connected tc" and v: "sound tc v" and m: "smallest tc m"
    and w: "wave tc m W v" and quiet: "\<And>j q. is_link tc j q \<Longrightarrow> said (wire v j q) = []"
  shows "W = {..<num_hosts tc}" and "elected tc m v"
proof -
  have mN: "m < num_hosts tc" using m by (simp add: smallest_def)
  have taken: "noticed tc m W v j (port_for tc j i)" if "j < num_hosts tc" "i \<in> set (adj tc j)" "i \<in> W" for i j
    using w link_of_neighbors [OF ok that(1,2)] that(3) quiet unfolding wave_def pending_def by auto
  note noticed = taken [unfolded noticed_def]
  have in_W: "i \<in> W" if "i < num_hosts tc" for i
    using that
  proof (induction "dist tc m i" arbitrary: i)
    case 0
    then have "i = m" using dist_0 [OF con mN] by simp
    then show ?case using w by (simp add: wave_def)
  next
    case (Suc d)
    obtain j where j: "j \<in> set (adj tc i)" "j < num_hosts tc" "dist tc m j = d"
      using dist_pred [OF con mN ok Suc.prems] Suc.hyps(2) by metis
    have "j \<in> W" using Suc.hyps(1) j by simp
    from noticed [OF Suc.prems j(1) this] have le: "node_route (host v i) \<le> exact_offer tc m j"
      using link_of_neighbors(2) [OF ok Suc.prems j(1)] by simp
    note B = sound_lower_bound [OF ok v m Suc.prems]
    have exact: "root_addr (host v i) = host_addr tc m" "path_len (host v i) = int (dist tc m i)"
      using le B j(3) Suc.hyps(2) by (auto simp: less_eq_route_def node_route_def exact_offer_def)
    have "i \<noteq> m" using Suc.hyps(2) by auto
    from honest_hop [OF ok con soundD(4) [OF v] mN Suc.prems exact this]
    obtain k where k: "k \<in> set (adj tc i)" "next_hop (host v i) = host_addr tc k"
      "dist tc m i = Suc (dist tc m k)" by metis
    have "k \<in> W" using Suc.hyps k net_ok_adj(4) [OF ok Suc.prems k(1)] by simp
    moreover have "node_route (host v i) = exact_offer tc m k"
      using exact k(2,3) by (simp add: node_route_def exact_offer_def)
    ultimately show ?case
      using noticed [OF Suc.prems k(1)] link_of_neighbors(2) [OF ok Suc.prems k(1)] k(3) by simp
  qed
  then show W: "W = {..<num_hosts tc}" using w by (auto simp: wave_def)
  show "elected tc m v"
    unfolding elected_def
  proof (intro allI impI conjI ballI)
    fix i assume i: "i < num_hosts tc"
    then have ex: "exact_route tc m i (host v i)" using W w by (auto simp: wave_def)
    then show exact: "root_addr (host v i) = host_addr tc m" "path_len (host v i) = int (dist tc m i)"
      by (simp_all add: exact_route_def)
    show "next_hop (host v i) \<in> host_addr tc ` parents tc m i" if "i \<noteq> m"
      using honest_hop [OF ok con soundD(4) [OF v] mN i exact that] unfolding parents_def by (metis (mono_tags, lifting) imageI mem_Collect_eq)
    show "next_hop (host v i) \<le> host_addr tc j" if "j \<in> parents tc m i" for j
    proof -
      have j: "j \<in> set (adj tc i)" "Suc (dist tc m j) = dist tc m i" using that by (simp_all add: parents_def)
      then have "node_route (host v i) \<le> exact_offer tc m j"
        using noticed [OF i j(1)] in_W net_ok_adj(4) [OF ok i j(1)] link_of_neighbors(2) [OF ok i j(1)] by simp
      then show ?thesis using exact j(2) by (auto simp: less_eq_route_def node_route_def exact_offer_def)
    qed
  qed
qed

section \<open>Runs\<close>

text \<open>
  The state after an iteration, by its events. A packet is taken by the last of them, so a bound on
  the length the host holds at the end is one on the length it takes.
\<close>

lemma host_step_inv:
  assumes "net_ok tc" and "i < num_hosts tc" and step: "host_step tc clk i inp s = Some s'"
    and short: "path_len (host (nodes_of s') i) < 65536" and "P (nodes_of s)"
    and inv: "\<And>v e v'. P v \<Longrightarrow> e \<in> set (timer_events tc clk i s @ input_events i inp) \<Longrightarrow>
      net_event tc e v = Some v' \<Longrightarrow> (\<And>j p. e = Take j p \<Longrightarrow> path_len (host v' j) < 65536) \<Longrightarrow> P v'"
  shows "P (nodes_of s')"
proof -
  obtain v where t: "net_events tc (timer_events tc clk i s) (nodes_of s) = Some v"
    and inp: "net_events tc (input_events i inp) v = Some (nodes_of s')"
    by (rule host_step_split [OF assms(1-3)])
  have "P v"
  proof (cases "timer_events tc clk i s")
    case Nil
    then show ?thesis using t assms(5) by simp
  next
    case (Cons e es)
    then have "es = []" "\<And>j p. e \<noteq> Take j p" by (auto simp: timer_events_def split: if_splits)
    then have ev: "net_event tc e (nodes_of s) = Some v" using t Cons by (simp add: bind_eq_Some_conv)
    have "e \<in> set (timer_events tc clk i s @ input_events i inp)" using Cons by simp
    from inv [OF assms(5) this ev] show ?thesis using \<open>\<And>j p. e \<noteq> Take j p\<close> by blast
  qed
  show ?thesis
  proof (cases inp)
    case Idle
    then show ?thesis using inp \<open>P v\<close> by simp
  next
    case (From_port p)
    then have ev: "net_event tc (Take i p) v = Some (nodes_of s')" using inp by (simp add: bind_eq_Some_conv)
    from inv [OF \<open>P v\<close> _ ev] show ?thesis using From_port short by simp
  next
    case (From_user pkt)
    then have ev: "net_event tc (Inject i pkt) v = Some (nodes_of s')" using inp by (simp add: bind_eq_Some_conv)
    from inv [OF \<open>P v\<close> _ ev] show ?thesis using From_user by simp
  qed
qed

text \<open>Without re-elections, lengths do not wrap around.\<close>

lemma calm_event:
  assumes "net_ok tc" and "sound tc v \<and> trails tc v" and "net_event tc e v = Some v'" and "\<not> standing e"
  shows "sound tc v' \<and> trails tc v'" and "i < num_hosts tc \<Longrightarrow> path_len (host v' i) < 65536"
proof -
  have tr: "trails tc v'"
    using trails_event [OF assms(1) _ _ assms(3,4)] soundD(2) assms(2) by blast
  then show "i < num_hosts tc \<Longrightarrow> path_len (host v' i) < 65536" by (rule trails_short)
  have "path_len (host v' j) < 65536" if "e = Take j p" for j p
    using trails_short [OF tr] that assms(3) by (auto simp: is_link_def split: if_splits)
  then show "sound tc v' \<and> trails tc v'" using sound_event [OF assms(1) _ assms(3)] assms(2) tr by blast
qed

lemma calm_run:
  assumes "net_ok tc" and "net_run tc clk (calm tc clk) (net_init tc clk) s"
  shows "sound tc (nodes_of s) \<and> trails tc (nodes_of s)"
  by (rule net_run_inv [OF assms(2,1), where ok = "\<lambda>e. \<not> standing e"])
    (use sound_init trails_init assms(1) calm_event(1) calm_events in blast)+

text \<open>A wave goes on.\<close>

lemma calm_wave_event:
  assumes ok: "net_ok tc" and m: "smallest tc m"
    and v: "sound tc v \<and> trails tc v \<and> (\<exists>W. wave tc m W v)"
    and ev: "net_event tc e v = Some v'" and calm: "\<not> standing e"
  shows "sound tc v' \<and> trails tc v' \<and> (\<exists>W. wave tc m W v')"
proof -
  have new: "sound tc v' \<and> trails tc v'" using calm_event(1) [OF ok _ ev calm] v by blast
  obtain W where W: "wave tc m W v" using v by blast
  have "path_len (host v' i) < 65536" if "e = Take i p" for i p
    using calm_event(2) [OF ok _ ev calm, of i] v that ev by (auto simp: is_link_def split: if_splits)
  with wave_event [OF ok _ _ m W ev calm] v new show ?thesis by blast
qed

lemma greeting_starts_wave:
  assumes ok: "net_ok tc" and m: "smallest tc m"
    and s1: "sound tc (nodes_of s1) \<and> trails tc (nodes_of s1)"
    and greet: "greets (config_of tc m) (clk m) (host s1 m)" and step: "host_step tc clk m inp s1 = Some s2"
  shows "sound tc (nodes_of s2) \<and> trails tc (nodes_of s2) \<and> (\<exists>W. wave tc m W (nodes_of s2))"
proof -
  have "m < num_hosts tc" using m by (simp add: smallest_def)
  from host_step_split [OF ok this step] obtain v where
    "net_events tc [Greet m] (nodes_of s1) = Some v" and inp: "net_events tc (input_events m inp) v = Some (nodes_of s2)"
    using greet by (auto simp: timer_events_def)
  then have ev: "net_event tc (Greet m) (nodes_of s1) = Some v" by (simp add: bind_eq_Some_conv)
  have "sound tc v \<and> trails tc v" using calm_event(1) [OF ok s1 ev] by (simp add: standing_def)
  moreover have "wave tc m {m} v" using wave_start [OF ok _ m ev] s1 by blast
  ultimately have v: "sound tc v \<and> trails tc v \<and> (\<exists>W. wave tc m W v)" by blast
  have "\<forall>e \<in> set (input_events m inp). \<not> standing e" by (cases inp) (auto simp: standing_def)
  then show ?thesis
    using net_events_inv [where ok = "\<lambda>e. \<not> standing e"
        and I = "\<lambda>v. sound tc v \<and> trails tc v \<and> (\<exists>W. wave tc m W v)", OF _ inp _ v]
      calm_wave_event [OF ok m] by blast
qed

lemma wave_run:
  assumes "net_ok tc" and "smallest tc m" and "net_run tc clk (calm tc clk) s2 s"
    and "sound tc (nodes_of s2) \<and> trails tc (nodes_of s2) \<and> (\<exists>W. wave tc m W (nodes_of s2))"
  shows "sound tc (nodes_of s) \<and> trails tc (nodes_of s) \<and> (\<exists>W. wave tc m W (nodes_of s))"
  by (rule net_run_inv [OF assms(3,1), where ok = "\<lambda>e. \<not> standing e"])
    (use assms(4) calm_wave_event [OF assms(1,2)] calm_events in blast)+

lemma settled_silent: "settled tc s \<Longrightarrow> is_link tc j q \<Longrightarrow> said (wire (nodes_of s) j q) = []"
  by (simp add: settled_def is_link_def)

section \<open>After re-elections\<close>

text \<open>Runs with re-elections, as long as no host's length is too large for an announcement.\<close>

definition unwrapped :: "testcase \<Rightarrow> (nat \<Rightarrow> clock) \<Rightarrow> nat \<Rightarrow> input \<Rightarrow> node_loop network \<Rightarrow> bool" where
  "unwrapped tc clk i inp s \<longleftrightarrow>
     (case host_step tc clk i inp s of None \<Rightarrow> True | Some s' \<Rightarrow> path_len (nd (host s' i)) < 65536)"

lemma unwrapped_run:
  assumes "net_ok tc" and "net_run tc clk (unwrapped tc clk) (net_init tc clk) s"
  shows "sound tc (nodes_of s)"
  using assms(2)
proof induction
  case stay
  show ?case by (rule sound_init [OF assms(1)])
next
  case (step s i inp s')
  then have "path_len (host (nodes_of s') i) < 65536" by (simp add: unwrapped_def)
  from host_step_inv [where P = "sound tc", OF assms(1) step.hyps(2,4) this step.IH]
  show ?case using sound_event [OF assms(1)] by blast
qed

lemma unwrapped_wave_run:
  assumes ok: "net_ok tc" and m: "smallest tc m"
    and "net_run tc clk (\<lambda>i inp s. calm tc clk i inp s \<and> unwrapped tc clk i inp s) s2 s"
    and "sound tc (nodes_of s2) \<and> (\<exists>W. wave tc m W (nodes_of s2))"
  shows "sound tc (nodes_of s) \<and> (\<exists>W. wave tc m W (nodes_of s))"
  using assms(3)
proof induction
  case stay
  show ?case by (rule assms(4))
next
  case (step s i inp s')
  then have short: "path_len (host (nodes_of s') i) < 65536" by (simp add: unwrapped_def)
  have calm: "\<not> standing e" if "e \<in> set (timer_events tc clk i s @ input_events i inp)" for e
    using calm_events that step.hyps(3) by blast
  show ?case
    by (rule host_step_inv [where P = "\<lambda>v. sound tc v \<and> (\<exists>W. wave tc m W v)",
          OF ok step.hyps(2,4) short step.IH])
      (use wave_event [OF ok _ _ m] sound_event [OF ok] calm in blast)
qed

lemma unwrapped_greeting:
  assumes ok: "net_ok tc" and m: "smallest tc m" and s1: "sound tc (nodes_of s1)"
    and greet: "greets (config_of tc m) (clk m) (host s1 m)" and step: "host_step tc clk m inp s1 = Some s2"
    and short: "unwrapped tc clk m inp s1"
  shows "sound tc (nodes_of s2) \<and> (\<exists>W. wave tc m W (nodes_of s2))"
proof -
  have mN: "m < num_hosts tc" using m by (simp add: smallest_def)
  have events: "timer_events tc clk m s1 = [Greet m]" using greet by (simp add: timer_events_def)
  obtain v where ev: "net_event tc (Greet m) (nodes_of s1) = Some v"
    and inp: "net_events tc (input_events m inp) v = Some (nodes_of s2)"
    using host_step_split [OF ok mN step] events by (auto simp: bind_eq_Some_conv)
  have v: "sound tc v" "wave tc m {m} v"
    using sound_event [OF ok s1 ev] wave_start [OF ok s1 m ev] by simp_all
  show ?thesis
  proof (cases "input_events m inp")
    case Nil
    then show ?thesis using inp v by auto
  next
    case (Cons e es)
    then have "es = []" and calm: "\<not> standing e" and take: "\<And>j p. e = Take j p \<Longrightarrow> j = m"
      by (cases inp; auto simp: standing_def)+
    then have e: "net_event tc e v = Some (nodes_of s2)" using inp Cons by (simp add: bind_eq_Some_conv)
    have "path_len (host (nodes_of s2) j) < 65536" if "e = Take j p" for j p
      using short step take [OF that] by (simp add: unwrapped_def)
    with sound_event [OF ok v(1) e] wave_event [OF ok v(1) _ m v(2) e calm] show ?thesis by blast
  qed
qed

end
