(* ===== verification/NetworkPorts.thy ===== *)
theory NetworkPorts
  imports NetworkElection
begin

text \<open>
  The ports after an election. Once the routes are final and nothing is on its way, the next
  greeting of the root is relayed down the tree, and when it has died out every port is open or
  blocked as the routes at its two ends demand.
\<close>

section \<open>The stable phase\<close>

text \<open>The routes are final, all neighbours are known, and all announcements repeat final routes.\<close>

definition stable :: "testcase \<Rightarrow> nat \<Rightarrow> node network \<Rightarrow> bool" where
  "stable tc m v \<longleftrightarrow> sound tc v \<and> trails tc v \<and> elected tc m v
     \<and> (\<forall>j q. is_link tc j q \<longrightarrow> known (host v j) q
          \<and> (\<forall>u \<in> set (said (wire v j q)). u = exact_news tc m (adj tc j ! q)))"

definition same_routes :: "testcase \<Rightarrow> node network \<Rightarrow> node network \<Rightarrow> bool" where
  "same_routes tc v v' \<longleftrightarrow> (\<forall>i < num_hosts tc. node_route (host v' i) = node_route (host v i))"

text \<open>A port to the next hop is open, and one to a host that is one step farther away.\<close>

definition tree_port :: "testcase \<Rightarrow> nat \<Rightarrow> node network \<Rightarrow> nat \<Rightarrow> nat \<Rightarrow> bool" where
  "tree_port tc m v j q \<longleftrightarrow> next_hop (host v j) = host_addr tc (adj tc j ! q)
     \<or> dist tc m (adj tc j ! q) = Suc (dist tc m j)"

definition port_ok :: "testcase \<Rightarrow> nat \<Rightarrow> node network \<Rightarrow> nat \<Rightarrow> nat \<Rightarrow> bool" where
  "port_ok tc m v j q \<longleftrightarrow> neighbors_blocked (host v j) ! q = (\<not> tree_port tc m v j q)"

definition ports_ok :: "testcase \<Rightarrow> nat \<Rightarrow> node network \<Rightarrow> bool" where
  "ports_ok tc m v \<longleftrightarrow> (\<forall>j q. is_link tc j q \<longrightarrow> port_ok tc m v j q)"

lemma stable_start:
  assumes "sound tc v" and "trails tc v" and "elected tc m v"
    and "\<And>j q. is_link tc j q \<Longrightarrow> said (wire v j q) = []"
  shows "stable tc m v"
  using assms soundD(1) [OF assms(1)] unfolding stable_def net_inv_def by auto

lemma stable_exact:
  assumes "stable tc m v" and "i < num_hosts tc"
  shows "exact_route tc m i (host v i)"
proof -
  have "trails tc v" "elected tc m v" using assms(1) by (simp_all add: stable_def)
  then show ?thesis
    using trails_short [of tc v i] assms(2) by (auto simp: elected_def exact_route_def)
qed

text \<open>No final announcement is an improvement.\<close>

lemma stable_offer:
  assumes ok: "net_ok tc" and con: "connected tc" and m: "smallest tc m"
    and v: "stable tc m v" and link: "is_link tc j q"
  shows "\<not> exact_offer tc m (adj tc j ! q) < node_route (host v j)"
    and "exact_offer tc m (adj tc j ! q) = node_route (host v j) \<longleftrightarrow>
      next_hop (host v j) = host_addr tc (adj tc j ! q) \<and> dist tc m j = Suc (dist tc m (adj tc j ! q))"
proof -
  have j: "j < num_hosts tc" using link by (simp add: is_link_def)
  have mN: "m < num_hosts tc" using m by (simp add: smallest_def)
  let ?i = "adj tc j ! q"
  have adj: "?i \<in> set (adj tc j)" using link_ends(1) [OF ok link] .
  have d: "dist tc m j \<le> Suc (dist tc m ?i)" by (rule dist_neighbor [OF con mN ok j adj])
  have R: "root_addr (host v j) = host_addr tc m" "path_len (host v j) = int (dist tc m j)"
    using v j by (simp_all add: stable_def elected_def)
  have "next_hop (host v j) \<le> host_addr tc ?i" if "dist tc m j = Suc (dist tc m ?i)"
  proof -
    have "j \<noteq> m" "?i \<in> parents tc m j" using that adj by (auto simp: parents_def)
    then show ?thesis using v j by (simp add: stable_def elected_def)
  qed
  with d R show "\<not> exact_offer tc m ?i < node_route (host v j)"
    by (auto simp: exact_offer_def node_route_def)
  show "exact_offer tc m ?i = node_route (host v j) \<longleftrightarrow>
      next_hop (host v j) = host_addr tc ?i \<and> dist tc m j = Suc (dist tc m ?i)"
    using R by (auto simp: exact_offer_def node_route_def)
qed

text \<open>The next hop of a host is one step nearer; the root has none.\<close>

lemma stable_hop:
  assumes ok: "net_ok tc" and m: "smallest tc m" and v: "stable tc m v" and link: "is_link tc j q"
    and hop: "next_hop (host v j) = host_addr tc (adj tc j ! q)"
  shows "j \<noteq> m" and "dist tc m j = Suc (dist tc m (adj tc j ! q))"
proof -
  have j: "j < num_hosts tc" using link by (simp add: is_link_def)
  note i = link_ends [OF ok link]
  show "j \<noteq> m"
  proof
    assume "j = m"
    then have "root_addr (host v j) = my_addr (host v j)"
      using v j node_wfD(1) [OF ok j net_wfD(1) [OF _ j]] soundD(2) by (simp add: stable_def elected_def)
    then have "next_hop (host v j) = host_addr tc j"
      using node_wfD(1,9) [OF ok j net_wfD(1) [OF _ j]] soundD(2) v by (simp add: stable_def)
    then show False using hop host_addr_inj [OF ok j i(3)] i(4) by simp
  qed
  then obtain k where k: "k \<in> parents tc m j" "next_hop (host v j) = host_addr tc k"
    using v j unfolding stable_def elected_def by blast
  then have "k < num_hosts tc" using net_ok_adj(4) [OF ok j] by (simp add: parents_def)
  then have "k = adj tc j ! q" using host_addr_inj [OF ok _ i(3)] k(2) hop by simp
  then show "dist tc m j = Suc (dist tc m (adj tc j ! q))" using k(1) by (simp add: parents_def)
qed

lemma elected_same_routes:
  assumes "elected tc m v" and "same_routes tc v v'"
  shows "elected tc m v'"
  using assms unfolding elected_def same_routes_def by (auto simp: route_fields)

text \<open>The port to the next hop is open already.\<close>

lemma stable_hop_open:
  assumes ok: "net_ok tc" and m: "smallest tc m" and v: "stable tc m v" and link: "is_link tc j q"
    and hop: "next_hop (host v j) = host_addr tc (adj tc j ! q)"
  shows "port_ok tc m v j q"
proof -
  have j: "j < num_hosts tc" using link by (simp add: is_link_def)
  have "dist tc m j = Suc (dist tc m (adj tc j ! q))" by (rule stable_hop(2) [OF ok m v link hop])
  then have "1 \<le> path_len (host v j)" using v j by (simp add: stable_def elected_def)
  moreover have "hop_known tc j (host v j)" using v j by (simp add: stable_def sound_def net_inv_def)
  ultimately obtain k where k: "k < degree tc j" "host_addr tc (adj tc j ! k) = next_hop (host v j)"
    "\<not> neighbors_blocked (host v j) ! k" unfolding hop_known_def by blast
  then have "is_link tc j k" using j by (simp add: is_link_def)
  then have "k = q" using neighbor_inj [OF ok _ link] k(2) hop by simp
  then show ?thesis using k(3) hop by (simp add: port_ok_def tree_port_def)
qed

text \<open>
  What an event does in the stable phase: routes stay; what is heard sets the port it came through,
  and is relayed when it comes from the next hop.
\<close>

lemma stable_cases [consumes 6, case_names greet hear silent]:
  assumes ok: "net_ok tc" and con: "connected tc" and m: "smallest tc m"
    and v: "stable tc m v" and ev: "net_event tc e v = Some v'" and calm: "\<not> standing e"
  obtains (greet) "e = Greet m" "host v' = host v"
      "\<And>j q. is_link tc j q \<Longrightarrow> said (wire v' j q) =
         said (wire v j q) @ (if adj tc j ! q = m then [exact_news tc m m] else [])"
  | (hear) i p us n relay where "e = Take i p" "is_link tc i p"
      "said (wire v i p) = exact_news tc m (adj tc i ! p) # us"
      "host v' = (host v)(i := n)" "node_route n = node_route (host v i)"
      "relay \<longleftrightarrow> next_hop (host v i) = host_addr tc (adj tc i ! p)"
      "\<And>k. k < degree tc i \<Longrightarrow> neighbors_blocked n ! k =
         (if k = p then \<not> tree_port tc m v i p else neighbors_blocked (host v i) ! k)"
      "\<And>k. known (host v i) k \<Longrightarrow> known n k"
      "\<And>j q. is_link tc j q \<Longrightarrow> said (wire v' j q) = (if j = i \<and> q = p then us else said (wire v j q))
         @ (if relay \<and> adj tc j ! q = i then [exact_news tc m i] else [])"
  | (silent) "\<And>k. e \<noteq> Greet k" "host v' = host v"
      "\<And>j q. is_link tc j q \<Longrightarrow> said (wire v' j q) = said (wire v j q)"
proof -
  have wf: "net_wf tc v" and so: "sound tc v" using v soundD(2) by (simp_all add: stable_def)
  have my: "my_addr (host v i) = host_addr tc i" if "i < num_hosts tc" for i
    using node_wfD(1) [OF ok that net_wfD(1) [OF wf that]] .
  have news: "announcement (host v i) = exact_news tc m i" if "i < num_hosts tc" for i
    using exact_route_announcement [OF stable_exact [OF v that] my [OF that]] .
  from ok wf ev show thesis
  proof (cases rule: stp_event)
    case (announce i n)
    then have e: "e = Greet i" "n = host v i" "root_addr n = my_addr n" using calm by (auto simp: standing_def)
    then have "host_addr tc m = host_addr tc i"
      using my [OF announce(1)] v announce(1) by (simp add: stable_def elected_def)
    then have [simp]: "i = m" using host_addr_inj [OF ok announce(1)] m by (simp add: smallest_def)
    show thesis using e announce(2,5) news [OF announce(1)] by (intro greet) auto
  next
    case (hear i p u us n relay)
    have i: "i < num_hosts tc" "p < degree tc i" using hear(2) by (simp_all add: is_link_def)
    let ?y = "adj tc i ! p"
    have yN: "?y < num_hosts tc" by (rule link_ends(3) [OF ok hear(2)])
    have u: "u = exact_news tc m ?y" and kn: "known (host v i) p"
      using v hear(2,3) unfolding stable_def by auto
    have dy: "dist tc m ?y < 65536" using stable_exact [OF v yN] by (simp add: exact_route_def)
    note O = stable_offer [OF ok con m v hear(2)]
    have off: "offer u = exact_offer tc m ?y" using offer_exact_news [OF dy] u by simp
    have not_better: "\<not> offer u < node_route (host v i)" using O(1) off by simp
    have route: "node_route n = node_route (host v i)" using hear(6) not_better by (simp add: hears_def)
    have relay: "relay \<longleftrightarrow> next_hop (host v i) = host_addr tc ?y"
      using hear(6) not_better O(2) off stable_hop(2) [OF ok m v hear(2)] by (auto simp: hears_def)
    have R: "root_addr (host v i) = host_addr tc m" "path_len (host v i) = int (dist tc m i)"
      using v i by (simp_all add: stable_def elected_def)
    have pl: "uint (path_length u) = int (dist tc m ?y)"
      using unat_length(2) [of "int (dist tc m ?y)"] dy u by (simp add: exact_news_def)
    have blocked: "neighbors_blocked n ! k =
        (if k = p then \<not> tree_port tc m v i p else neighbors_blocked (host v i) ! k)" if "k < degree tc i" for k
    proof (cases "relay")
      case True
      then have "neighbors_blocked n ! k = neighbors_blocked (host v i) ! k"
        using hear(6) that not_better by (simp add: hears_def)
      moreover have "port_ok tc m v i p" using stable_hop_open [OF ok m v hear(2)] relay True by simp
      ultimately show ?thesis by (auto simp: port_ok_def)
    next
      case False
      then have "neighbors_blocked n ! k = (if k = p then \<not> (node_address u = next_hop n
              \<or> root_address u = root_addr n \<and> uint (path_length u) = path_len n + 1)
           else neighbors_blocked (host v i) ! k)"
        using hear(6) that not_better kn by (simp add: hears_def)
      moreover have "next_hop n = next_hop (host v i)" "root_addr n = host_addr tc m"
        "path_len n = int (dist tc m i)" using route R by (simp_all add: route_fields)
      ultimately show ?thesis using pl u by (auto simp: tree_port_def exact_news_def)
    qed
    have "announcement n = announcement (host v i)"
      using route hear(6) by (simp add: announcement_def route_fields hears_def)
    then show thesis
      using hear route relay blocked hears_known [OF hear(6)] news [OF i(1)] u
      by (intro that(2) [of i p us n relay]) auto
  next
    case silent
    then show thesis by (intro that(3)) auto
  qed
qed

lemma tree_port_same:
  "same_routes tc v v' \<Longrightarrow> is_link tc j q \<Longrightarrow> tree_port tc m v' j q = tree_port tc m v j q"
  by (auto simp: tree_port_def same_routes_def is_link_def route_fields)

lemma stable_event:
  assumes ok: "net_ok tc" and con: "connected tc" and m: "smallest tc m"
    and v: "stable tc m v" and ev: "net_event tc e v = Some v'" and calm: "\<not> standing e"
  shows "stable tc m v'" and "same_routes tc v v'"
proof -
  have "sound tc v \<and> trails tc v" using v by (simp add: stable_def)
  from calm_event(1) [OF ok this ev calm] have new: "sound tc v' \<and> trails tc v'" .
  from ok con m v ev calm have "same_routes tc v v' \<and> (\<forall>j q. is_link tc j q \<longrightarrow> known (host v' j) q
          \<and> (\<forall>u \<in> set (said (wire v' j q)). u = exact_news tc m (adj tc j ! q)))"
  proof (cases rule: stable_cases)
    case greet
    then show ?thesis using v by (auto simp: same_routes_def stable_def)
  next
    case (hear i p us n relay)
    have routes: "same_routes tc v v'" using hear(4,5) by (simp add: same_routes_def)
    have "known (host v' j) q" if "is_link tc j q" for j q
      using v that hear(4,8) by (cases "j = i") (simp_all add: stable_def)
    moreover have "u = exact_news tc m (adj tc j ! q)" if "is_link tc j q" "u \<in> set (said (wire v' j q))" for j q u
    proof -
      have "u \<in> set (said (wire v j q)) \<or> adj tc j ! q = i \<and> u = exact_news tc m i"
        using that hear(3) hear(9) [OF that(1)] by (auto split: if_splits)
      then show ?thesis using v that(1) unfolding stable_def by blast
    qed
    ultimately show ?thesis using routes by blast
  next
    case silent
    then show ?thesis using v by (auto simp: same_routes_def stable_def)
  qed
  then show "same_routes tc v v'" "stable tc m v'"
    using new v elected_same_routes [of tc m v v'] by (auto simp: stable_def)
qed

lemma stable_blocked:
  assumes ok: "net_ok tc" and con: "connected tc" and m: "smallest tc m"
    and v: "stable tc m v" and ev: "net_event tc e v = Some v'" and calm: "\<not> standing e"
    and link: "is_link tc j q"
  shows "neighbors_blocked (host v' j) ! q = neighbors_blocked (host v j) ! q \<or> port_ok tc m v' j q"
  using ok con m v ev calm
proof (cases rule: stable_cases)
  case (hear i p us n relay)
  have "same_routes tc v v'" by (rule stable_event(2) [OF ok con m v ev calm])
  then show ?thesis
    using hear(4) hear(7) [of q] link tree_port_same [of tc v v' j q m]
    by (cases "j = i") (auto simp: port_ok_def is_link_def)
qed simp_all

lemma stable_port_ok:
  assumes ok: "net_ok tc" and con: "connected tc" and m: "smallest tc m"
    and v: "stable tc m v" and ev: "net_event tc e v = Some v'" and calm: "\<not> standing e"
    and link: "is_link tc j q" and "port_ok tc m v j q"
  shows "port_ok tc m v' j q"
  using stable_blocked [OF ok con m v ev calm link] assms(8)
    tree_port_same [OF stable_event(2) [OF ok con m v ev calm] link, of m]
  by (auto simp: port_ok_def)

section \<open>The second wave\<close>

definition port_wave :: "testcase \<Rightarrow> nat \<Rightarrow> nat set \<Rightarrow> node network \<Rightarrow> bool" where
  "port_wave tc m W v \<longleftrightarrow> m \<in> W \<and> W \<subseteq> {..<num_hosts tc}
     \<and> (\<forall>j q. is_link tc j q \<longrightarrow> adj tc j ! q \<in> W \<longrightarrow> said (wire v j q) \<noteq> []
          \<or> port_ok tc m v j q \<and> (next_hop (host v j) = host_addr tc (adj tc j ! q) \<longrightarrow> j \<in> W))"

lemma port_wave_start:
  assumes ok: "net_ok tc" and con: "connected tc" and m: "smallest tc m"
    and v: "stable tc m v" and ev: "net_event tc (Greet m) v = Some v'"
  shows "port_wave tc m {m} v'"
proof -
  have "\<not> standing (Greet m)" by (simp add: standing_def)
  from ok con m v ev this show ?thesis
    by (cases rule: stable_cases) (use m in \<open>auto simp: port_wave_def smallest_def\<close>)
qed

lemma port_wave_event:
  assumes ok: "net_ok tc" and con: "connected tc" and m: "smallest tc m"
    and v: "stable tc m v" and ev: "net_event tc e v = Some v'" and calm: "\<not> standing e"
    and w: "port_wave tc m W v"
  shows "\<exists>W'. port_wave tc m W' v'"
proof -
  have hop: "next_hop (host v' j) = next_hop (host v j)" if "is_link tc j q" for j q
    using stable_event(2) [OF ok con m v ev calm] that by (simp add: same_routes_def is_link_def route_fields)
  note keep = stable_port_ok [OF ok con m v ev calm]
  from ok con m v ev calm show ?thesis
  proof (cases rule: stable_cases)
    case (hear i p us n relay)
    have i: "i < num_hosts tc" "p < degree tc i" using hear(2) by (simp_all add: is_link_def)
    define W' where "W' = (if relay then insert i W else W)"
    have self: "port_ok tc m v' i p"
      using hear(4) hear(7) [of p] i
        tree_port_same [OF stable_event(2) [OF ok con m v ev calm] hear(2), of m] by (simp add: port_ok_def)
    have "said (wire v' j q) \<noteq> []
        \<or> port_ok tc m v' j q \<and> (next_hop (host v' j) = host_addr tc (adj tc j ! q) \<longrightarrow> j \<in> W')"
      if jq: "is_link tc j q" "adj tc j ! q \<in> W'" for j q
    proof (cases "j = i \<and> q = p")
      case True
      then show ?thesis using self hear(6) hop [OF jq(1)] by (auto simp: W'_def)
    next
      case False
      show ?thesis
      proof (cases "relay \<and> adj tc j ! q = i")
        case True
        then show ?thesis using hear(9) [OF jq(1)] by simp
      next
        case no: False
        then have "adj tc j ! q \<in> W" using jq(2) by (auto simp: W'_def split: if_splits)
        moreover have "W \<subseteq> W'" by (auto simp: W'_def)
        ultimately show ?thesis
          using w jq(1) hear(9) [OF jq(1)] False no keep [OF jq(1)] hop [OF jq(1)] unfolding port_wave_def by auto
      qed
    qed
    then have "port_wave tc m W' v'" using w i by (auto simp: port_wave_def W'_def)
    then show ?thesis by blast
  next
    case greet
    then have "port_wave tc m W v'" using w keep by (auto simp: port_wave_def)
    then show ?thesis by blast
  next
    case silent
    then have "port_wave tc m W v'" using w keep by (auto simp: port_wave_def)
    then show ?thesis by blast
  qed
qed

lemma port_wave_end:
  assumes ok: "net_ok tc" and con: "connected tc" and m: "smallest tc m"
    and v: "stable tc m v" and w: "port_wave tc m W v"
    and quiet: "\<And>j q. is_link tc j q \<Longrightarrow> said (wire v j q) = []"
  shows "ports_ok tc m v"
proof -
  have mN: "m < num_hosts tc" using m by (simp add: smallest_def)
  have taken: "port_ok tc m v j q \<and> (next_hop (host v j) = host_addr tc (adj tc j ! q) \<longrightarrow> j \<in> W)"
    if "is_link tc j q" "adj tc j ! q \<in> W" for j q
    using w that quiet [OF that(1)] unfolding port_wave_def by blast
  have in_W: "i \<in> W" if "i < num_hosts tc" for i
    using that
  proof (induction "dist tc m i" arbitrary: i)
    case 0
    then have "i = m" using dist_0 [OF con mN] by simp
    then show ?case using w by (simp add: port_wave_def)
  next
    case (Suc d)
    then have "i \<noteq> m" by auto
    then obtain j where j: "j \<in> set (adj tc i)" "dist tc m i = Suc (dist tc m j)"
      "next_hop (host v i) = host_addr tc j"
      using v Suc.prems by (auto simp: stable_def elected_def parents_def)
    have "j \<in> W" using Suc.hyps j net_ok_adj(4) [OF ok Suc.prems j(1)] by simp
    then show ?case
      using taken [OF link_of_neighbors(1) [OF ok Suc.prems j(1)]] link_of_neighbors(2) [OF ok Suc.prems j(1)] j(3)
      by simp
  qed
  show ?thesis
    unfolding ports_ok_def using taken in_W link_ends(3) [OF ok] by blast
qed

end
