(* ===== verification/NetworkFlood.thy ===== *)
theory NetworkFlood
  imports NetworkPorts
begin

text \<open>
  Flooding over the tree. With final routes and ports, a FLOOD packet that a user injects spreads
  along the next hops, away from its origin, and is delivered to the user of every other host once.
\<close>

section \<open>FLOOD packets in the network\<close>

definition floods :: "mixnet_packet list \<Rightarrow> nat" where
  "floods ps = length (filter (\<lambda>p. ptype p = packet_type_code PACKET_TYPE_FLOOD) ps)"

lemma floods_simps [simp]:
  "floods [] = 0" "floods (ps @ qs) = floods ps + floods qs"
  "floods (p # ps) = (if ptype p = packet_type_code PACKET_TYPE_FLOOD then 1 else 0) + floods ps"
  by (simp_all add: floods_def)

lemma floods_none: "\<forall>p \<in> set ps. ptype p = packet_type_code PACKET_TYPE_STP \<Longrightarrow> floods ps = 0"
  using ptype_codes by (induction ps) auto

lemma ptype_flood [simp]:
  "ptype (node_flood_packet n) = packet_type_code PACKET_TYPE_FLOOD"
  "ptype (node_stp_packet n) = packet_type_code PACKET_TYPE_STP"
  by (simp_all add: node_flood_packet_def node_stp_packet_def)

lemma floods_arrivals_STP [simp]: "floods (arrivals tc i (send_STP n) j q) = 0"
  by (rule floods_none) (auto simp: arrivals_def sent_to_def send_STP_def)

lemma floods_sent_STP [simp]: "floods (sent_to p (send_STP n)) = 0"
  by (rule floods_none) (auto simp: sent_to_def send_STP_def)

lemma no_FLOOD_out:
  assumes "node_packet port pkt n = Some (n', out)" and "ptype pkt \<noteq> packet_type_code PACKET_TYPE_FLOOD"
  shows "out = [] \<or> (\<exists>m. out = send_STP m)"
  using assms by (auto simp: node_packet_def bind_eq_Some_conv elim!: receive_STP_cases split: if_splits)

text \<open>What a host does with a FLOOD packet from port \<open>p\<close>, which may be its user.\<close>

lemma node_packet_FLOOD:
  assumes ok: "net_ok tc" and i: "i < num_hosts tc" and wf: "node_wf (config_of tc i) n"
    and flood: "ptype pkt = packet_type_code PACKET_TYPE_FLOOD" and p: "p \<le> degree tc i"
    and step: "node_packet (of_nat p) pkt n = Some (n', out)"
  shows "n' = n" and "sent_to r out =
    (if (p = degree tc i \<or> \<not> neighbors_blocked n ! p)
        \<and> (r < degree tc i \<and> \<not> neighbors_blocked n ! r \<and> r \<noteq> p \<or> r = degree tc i \<and> r \<noteq> p)
     then [node_flood_packet n] else [])"
proof -
  note N = node_wfD [OF ok i wf]
  have deg: "degree tc i \<le> 255" by (rule net_ok_adj(3) [OF ok i])
  have up: "unat (of_nat p :: u8) = p" by (rule num_ports_of(4) [OF ok i p])
  then have sp: "unat (ucast (of_nat p :: u8) :: u16) = p" by (simp add: unat_ucast_u8_u16)
  have num: "(of_nat p :: u8) = num_neighbors n \<longleftrightarrow> p = degree tc i"
    using up N(3) by (metis word_unat_eq_iff)
  have "ptype pkt \<noteq> packet_type_code PACKET_TYPE_STP" using flood ptype_codes by simp
  then have "n' = n \<and> (if p = degree tc i \<or> \<not> neighbors_blocked n ! p
      then send_FLOOD n (ucast (of_nat p :: u8)) = Some out else out = [])"
    using step flood num N(5) up unfolding node_packet_def by (auto split: if_splits)
  then show "n' = n" and "sent_to r out =
    (if (p = degree tc i \<or> \<not> neighbors_blocked n ! p)
        \<and> (r < degree tc i \<and> \<not> neighbors_blocked n ! r \<and> r \<noteq> p \<or> r = degree tc i \<and> r \<noteq> p)
     then [node_flood_packet n] else [])"
    using sent_to_FLOOD [of n "ucast (of_nat p :: u8)" out r] N(3) deg sp by (auto split: if_splits)
qed

lemma floods_arrivals:
  "floods (arrivals tc i out j q) =
    (if is_link tc j q \<and> adj tc j ! q = i then floods (sent_to (port_for tc i j) out) else 0)"
proof -
  have "floods (map carried ps) = floods ps" for ps by (induction ps) auto
  then show ?thesis by (simp add: arrivals_def)
qed

text \<open>The port of a link at its other end.\<close>

abbreviation back_port :: "testcase \<Rightarrow> nat \<Rightarrow> nat \<Rightarrow> nat" where
  "back_port tc j q \<equiv> port_for tc (adj tc j ! q) j"

definition floods_in :: "action \<Rightarrow> bool" where
  "floods_in e \<longleftrightarrow> (\<exists>i pkt. e = Inject i pkt \<and> ptype pkt = packet_type_code PACKET_TYPE_FLOOD)"

lemma flood_cases [consumes 4, case_names other flood]:
  assumes ok: "net_ok tc" and wf: "net_wf tc v" and ev: "net_event tc e v = Some v'" and "\<not> floods_in e"
  obtains (other) "\<And>j q. is_link tc j q \<Longrightarrow> floods (wire v' j q) = floods (wire v j q)"
      "\<And>i. floods (user v' i) = floods (user v i)"
  | (flood) i p where "e = Take i p" "is_link tc i p" "0 < floods (wire v i p)" "host v' = host v"
      "\<And>j q. is_link tc j q \<Longrightarrow> floods (wire v' j q) =
         (if j = i \<and> q = p then floods (wire v j q) - 1
          else floods (wire v j q) + (if adj tc j ! q = i \<and> \<not> neighbors_blocked (host v i) ! p
            \<and> \<not> neighbors_blocked (host v i) ! back_port tc j q \<and> back_port tc j q \<noteq> p then 1 else 0))"
      "\<And>k. floods (user v' k) = floods (user v k) + (if k = i \<and> \<not> neighbors_blocked (host v i) ! p then 1 else 0)"
proof (cases e)
  case (Greet i)
  then show thesis using ev by (intro other) (auto simp: Let_def split: if_splits)
next
  case (Stand i)
  then show thesis using ev by (intro other) (auto simp: Let_def split: if_splits)
next
  case (Inject i pkt)
  then obtain n out where "node_packet (of_nat (degree tc i)) pkt (host v i) = Some (n, out)"
    "v' = become tc i (n, out) v" "ptype pkt \<noteq> packet_type_code PACKET_TYPE_FLOOD"
    using ev assms(4) by (auto simp: floods_in_def split: if_splits)
  moreover from this(1,3) have "out = [] \<or> (\<exists>m. out = send_STP m)" by (rule no_FLOOD_out)
  ultimately show thesis by (intro other) auto
next
  case (Take i p)
  then obtain pkt rest n out where link: "is_link tc i p" and w: "wire v i p = pkt # rest"
    and step: "node_packet (of_nat p) pkt (host v i) = Some (n, out)"
    and v': "v' = become tc i (n, out) (v\<lparr>wire := (wire v)(i := (wire v i)(p := rest))\<rparr>)"
    using ev by (auto split: if_splits list.splits)
  have i: "i < num_hosts tc" "p < degree tc i" using link by (simp_all add: is_link_def)
  show thesis
  proof (cases "ptype pkt = packet_type_code PACKET_TYPE_FLOOD")
    case False
    then have "out = [] \<or> (\<exists>m. out = send_STP m)" using no_FLOOD_out [OF step] by simp
    then show thesis using v' w False by (intro other) auto
  next
    case True
    note F = node_packet_FLOOD [OF ok i(1) net_wfD(1) [OF wf i(1)] True less_imp_le [OF i(2)] step]
    have same: "host v' = host v" using v' F(1) by auto
    have wires: "floods (wire v' j q) =
         (if j = i \<and> q = p then floods (wire v j q) - 1
          else floods (wire v j q) + (if adj tc j ! q = i \<and> \<not> neighbors_blocked (host v i) ! p
            \<and> \<not> neighbors_blocked (host v i) ! back_port tc j q \<and> back_port tc j q \<noteq> p then 1 else 0))"
      if jq: "is_link tc j q" for j q
    proof (cases "adj tc j ! q = i")
      case True
      have "port_for tc i j < degree tc i" "j \<noteq> i"
        using link_ends(4,5) [OF ok jq] True by (auto simp: is_link_def)
      then show ?thesis
        using v' jq True i(2) by (simp add: floods_arrivals F(2))
    next
      case False
      then show ?thesis using v' w \<open>ptype pkt = packet_type_code PACKET_TYPE_FLOOD\<close>
        by (auto simp: floods_arrivals)
    qed
    have "0 < floods (wire v i p)" using w True by simp
    moreover have "floods (user v' k) = floods (user v k) + (if k = i \<and> \<not> neighbors_blocked (host v i) ! p then 1 else 0)" for k
      using v' i(2) by (simp add: F(2))
    ultimately show thesis using flood [OF Take link _ same] wires by blast
  qed
qed

text \<open>A user's FLOOD packet goes out over all open ports.\<close>

lemma flood_injected:
  assumes ok: "net_ok tc" and wf: "net_wf tc v" and ev: "net_event tc (Inject i pkt) v = Some v'"
    and flood: "ptype pkt = packet_type_code PACKET_TYPE_FLOOD"
  shows "host v' = host v"
    and "is_link tc j q \<Longrightarrow> floods (wire v' j q) = floods (wire v j q)
      + (if adj tc j ! q = i \<and> \<not> neighbors_blocked (host v i) ! back_port tc j q then 1 else 0)"
    and "floods (user v' k) = floods (user v k)"
proof -
  obtain n out where i: "i < num_hosts tc"
    and step: "node_packet (of_nat (degree tc i)) pkt (host v i) = Some (n, out)" and v': "v' = become tc i (n, out) v"
    using ev by (auto split: if_splits)
  note F = node_packet_FLOOD [OF ok i net_wfD(1) [OF wf i] flood order_refl step]
  show "host v' = host v" "floods (user v' k) = floods (user v k)" using v' F by auto
  assume link: "is_link tc j q"
  then have "port_for tc i j < degree tc i" if "adj tc j ! q = i"
    using link_ends(5) [OF ok link] that by (simp add: is_link_def)
  then show "floods (wire v' j q) = floods (wire v j q)
      + (if adj tc j ! q = i \<and> \<not> neighbors_blocked (host v i) ! back_port tc j q then 1 else 0)"
    using v' link by (auto simp: floods_arrivals F(2))
qed

section \<open>The tree\<close>

text \<open>One of the two hosts is the next hop of the other.\<close>

definition tree_edge :: "testcase \<Rightarrow> node network \<Rightarrow> nat \<Rightarrow> nat \<Rightarrow> bool" where
  "tree_edge tc v i j \<longleftrightarrow> next_hop (host v i) = host_addr tc j \<or> next_hop (host v j) = host_addr tc i"

text \<open>A connected part of the tree, with the host in it that is nearest to the root.\<close>

definition subtree :: "testcase \<Rightarrow> nat \<Rightarrow> nat set \<Rightarrow> node network \<Rightarrow> bool" where
  "subtree tc m R v \<longleftrightarrow> R \<subseteq> {..<num_hosts tc} \<and> (\<exists>t \<in> R. \<forall>i \<in> R. dist tc m t \<le> dist tc m i
     \<and> (i \<noteq> t \<longrightarrow> (\<exists>k \<in> R. next_hop (host v i) = host_addr tc k)))"

lemma stable_up:
  assumes "net_ok tc" and "smallest tc m" and "stable tc m v" and "j < num_hosts tc"
    and "i \<in> set (adj tc j)" and "next_hop (host v j) = host_addr tc i"
  shows "dist tc m j = Suc (dist tc m i)"
  using stable_hop(2) [OF assms(1-3) link_of_neighbors(1) [OF assms(1,4,5)]] link_of_neighbors(2) [OF assms(1,4,5)]
    assms(6) by simp

text \<open>How a host outside a subtree is tied to one in it.\<close>

lemma subtree_ties:
  assumes ok: "net_ok tc" and m: "smallest tc m" and v: "stable tc m v"
    and t: "t \<in> R" "R \<subseteq> {..<num_hosts tc}"
      "\<forall>i \<in> R. dist tc m t \<le> dist tc m i \<and> (i \<noteq> t \<longrightarrow> (\<exists>k \<in> R. next_hop (host v i) = host_addr tc k))"
    and j: "j < num_hosts tc" "j \<notin> R" and i: "i \<in> R" "i \<in> set (adj tc j)" and edge: "tree_edge tc v j i"
  shows "next_hop (host v j) = host_addr tc i \<and> dist tc m j = Suc (dist tc m i)
    \<or> i = t \<and> next_hop (host v i) = host_addr tc j \<and> dist tc m i = Suc (dist tc m j)"
proof (cases "next_hop (host v j) = host_addr tc i")
  case True
  then show ?thesis using stable_up [OF ok m v j(1) i(2)] by simp
next
  case False
  then have hop: "next_hop (host v i) = host_addr tc j" using edge by (simp add: tree_edge_def)
  have iN: "i < num_hosts tc" and adj: "j \<in> set (adj tc i)" using net_ok_adj(4,5) [OF ok j(1) i(2)] by simp_all
  have "i = t"
  proof (rule ccontr)
    assume "i \<noteq> t"
    then obtain k where "k \<in> R" "next_hop (host v i) = host_addr tc k" using t(3) i(1) by blast
    then have "k = j" using host_addr_inj [OF ok _ j(1), of k] hop t(2) by auto
    then show False using \<open>k \<in> R\<close> j(2) by simp
  qed
  then show ?thesis using hop stable_up [OF ok m v iN adj hop] by simp
qed

lemma subtree_unique:
  assumes ok: "net_ok tc" and m: "smallest tc m" and v: "stable tc m v" and R: "subtree tc m R v"
    and j: "j < num_hosts tc" "j \<notin> R"
    and i: "i \<in> R" "i \<in> set (adj tc j)" "tree_edge tc v j i" and k: "k \<in> R" "k \<in> set (adj tc j)" "tree_edge tc v j k"
  shows "i = k"
proof -
  obtain t where t: "t \<in> R" "R \<subseteq> {..<num_hosts tc}"
      "\<forall>i \<in> R. dist tc m t \<le> dist tc m i \<and> (i \<noteq> t \<longrightarrow> (\<exists>k \<in> R. next_hop (host v i) = host_addr tc k))"
    using R unfolding subtree_def by blast
  note T = subtree_ties [OF ok m v t j i] subtree_ties [OF ok m v t j k]
  have "i < num_hosts tc" "k < num_hosts tc" "dist tc m t \<le> dist tc m i" "dist tc m t \<le> dist tc m k"
    using t i(1) k(1) by auto
  then show ?thesis using T host_addr_inj [OF ok, of i k] by auto
qed

lemma subtree_insert:
  assumes ok: "net_ok tc" and m: "smallest tc m" and v: "stable tc m v" and R: "subtree tc m R v"
    and j: "j < num_hosts tc" "j \<notin> R" and i: "i \<in> R" "i \<in> set (adj tc j)" "tree_edge tc v j i"
  shows "subtree tc m (insert j R) v"
proof -
  obtain t where t: "t \<in> R" "R \<subseteq> {..<num_hosts tc}"
      "\<forall>i \<in> R. dist tc m t \<le> dist tc m i \<and> (i \<noteq> t \<longrightarrow> (\<exists>k \<in> R. next_hop (host v i) = host_addr tc k))"
    using R unfolding subtree_def by blast
  from subtree_ties [OF ok m v t j i] show ?thesis
  proof
    assume "next_hop (host v j) = host_addr tc i \<and> dist tc m j = Suc (dist tc m i)"
    moreover have "dist tc m t \<le> dist tc m i" using t i(1) by blast
    ultimately show ?thesis
      unfolding subtree_def using t j i(1) by (intro conjI bexI [of _ t]) auto
  next
    assume "i = t \<and> next_hop (host v i) = host_addr tc j \<and> dist tc m i = Suc (dist tc m j)"
    then have at: "i = t" "next_hop (host v t) = host_addr tc j" "dist tc m t = Suc (dist tc m j)" by auto
    have "dist tc m j \<le> dist tc m x \<and> (x \<noteq> j \<longrightarrow> (\<exists>k \<in> insert j R. next_hop (host v x) = host_addr tc k))"
      if x: "x \<in> insert j R" for x
    proof (cases "x = j")
      case False
      then have "x \<in> R" using x by simp
      then have "dist tc m t \<le> dist tc m x" "x \<noteq> t \<longrightarrow> (\<exists>k \<in> R. next_hop (host v x) = host_addr tc k)"
        using t(3) by blast+
      then show ?thesis using at(2,3) by (cases "x = t") auto
    qed simp
    then show ?thesis unfolding subtree_def using t(2) j(1) by (intro conjI bexI [of _ j]) auto
  qed
qed

section \<open>Spreading\<close>

text \<open>
  The packet has reached the hosts of \<open>R\<close>, each by one delivery to its user except its origin
  \<open>org\<close>, and is on its way over every tree edge that leaves \<open>R\<close>. What arrives at a blocked port
  does not matter.
\<close>

definition spread :: "testcase \<Rightarrow> nat \<Rightarrow> nat \<Rightarrow> (nat \<Rightarrow> nat) \<Rightarrow> nat set \<Rightarrow> node network \<Rightarrow> bool" where
  "spread tc m org before R v \<longleftrightarrow> org \<in> R \<and> subtree tc m R v
     \<and> (\<forall>j q. is_link tc j q \<longrightarrow> tree_port tc m v j q \<longrightarrow>
          floods (wire v j q) = (if tree_edge tc v j (adj tc j ! q) \<and> adj tc j ! q \<in> R \<and> j \<notin> R then 1 else 0))
     \<and> (\<forall>i < num_hosts tc. floods (user v i) = before i + (if i \<in> R \<and> i \<noteq> org then 1 else 0))"

text \<open>The two ends of a link, as far as the tree is concerned.\<close>

lemma link_tree:
  assumes ok: "net_ok tc" and m: "smallest tc m" and v: "stable tc m v" and p: "ports_ok tc m v"
    and link: "is_link tc j q"
  defines "i \<equiv> adj tc j ! q"
  shows "neighbors_blocked (host v j) ! q = (\<not> tree_port tc m v j q)"
    and "neighbors_blocked (host v i) ! back_port tc j q = (\<not> (next_hop (host v i) = host_addr tc j \<or> dist tc m j = Suc (dist tc m i)))"
    and "tree_edge tc v j i \<Longrightarrow> tree_port tc m v j q \<and> \<not> neighbors_blocked (host v i) ! back_port tc j q"
    and "tree_port tc m v j q \<Longrightarrow> \<not> neighbors_blocked (host v i) ! back_port tc j q \<Longrightarrow> tree_edge tc v j i"
proof -
  note L = link_ends [OF ok link, folded i_def]
  have jN: "j < num_hosts tc" using link by (simp add: is_link_def)
  have "is_link tc i (back_port tc j q)" using L(5) by (simp add: i_def)
  moreover have "adj tc i ! back_port tc j q = j" using L(6) by (simp add: i_def)
  ultimately show farend: "neighbors_blocked (host v i) ! back_port tc j q
      = (\<not> (next_hop (host v i) = host_addr tc j \<or> dist tc m j = Suc (dist tc m i)))"
    using p unfolding ports_ok_def port_ok_def tree_port_def by metis
  show "neighbors_blocked (host v j) ! q = (\<not> tree_port tc m v j q)"
    using p link by (simp add: ports_ok_def port_ok_def)
  have up: "next_hop (host v j) = host_addr tc i \<Longrightarrow> dist tc m j = Suc (dist tc m i)"
    "next_hop (host v i) = host_addr tc j \<Longrightarrow> dist tc m i = Suc (dist tc m j)"
    using stable_up [OF ok m v jN L(1)] stable_up [OF ok m v L(3,2)] by simp_all
  have port: "tree_port tc m v j q \<longleftrightarrow> next_hop (host v j) = host_addr tc i \<or> dist tc m i = Suc (dist tc m j)"
    by (simp add: tree_port_def i_def)
  show "tree_edge tc v j i \<Longrightarrow> tree_port tc m v j q \<and> \<not> neighbors_blocked (host v i) ! back_port tc j q"
    using up unfolding port farend tree_edge_def by blast
  have "\<not> (dist tc m i = Suc (dist tc m j) \<and> dist tc m j = Suc (dist tc m i))" by linarith
  then show "tree_port tc m v j q \<Longrightarrow> \<not> neighbors_blocked (host v i) ! back_port tc j q \<Longrightarrow> tree_edge tc v j i"
    unfolding port farend tree_edge_def by blast
qed

lemma spread_same_hosts:
  assumes sp: "spread tc m org before R v" and same: "same_routes tc v v'" and ok: "net_ok tc"
    and "\<And>j q. is_link tc j q \<Longrightarrow> floods (wire v' j q) = floods (wire v j q)"
    and "\<And>i. floods (user v' i) = floods (user v i)"
  shows "spread tc m org before R v'"
proof -
  have hop: "next_hop (host v' i) = next_hop (host v i)" if "i < num_hosts tc" for i
    using same that by (simp add: same_routes_def route_fields)
  have R: "R \<subseteq> {..<num_hosts tc}" using sp by (simp add: spread_def subtree_def)
  have "subtree tc m R v'" using sp hop R unfolding spread_def subtree_def by (metis lessThan_iff subsetD)
  moreover have "tree_edge tc v' j (adj tc j ! q) = tree_edge tc v j (adj tc j ! q)" if "is_link tc j q" for j q
    using hop link_ends(3) [OF ok that] that by (simp add: tree_edge_def is_link_def)
  ultimately show ?thesis
    using sp assms(4,5) tree_port_same [OF same] unfolding spread_def by simp
qed

lemma spread_step:
  assumes ok: "net_ok tc" and m: "smallest tc m" and v: "stable tc m v" and p: "ports_ok tc m v"
    and sp: "spread tc m org before R v" and host': "host v' = host v"
    and link: "is_link tc i p" and arrived: "0 < floods (wire v i p)"
    and wires: "\<And>j q. is_link tc j q \<Longrightarrow> floods (wire v' j q) =
         (if j = i \<and> q = p then floods (wire v j q) - 1
          else floods (wire v j q) + (if adj tc j ! q = i \<and> \<not> neighbors_blocked (host v i) ! p
            \<and> \<not> neighbors_blocked (host v i) ! back_port tc j q \<and> back_port tc j q \<noteq> p then 1 else 0))"
    and users: "\<And>k. floods (user v' k) = floods (user v k) + (if k = i \<and> \<not> neighbors_blocked (host v i) ! p then 1 else 0)"
  shows "\<exists>R'. spread tc m org before R' v'"
proof (cases "tree_port tc m v i p")
  case False
  then have "neighbors_blocked (host v i) ! p" using link_tree(1) [OF ok m v p link] by simp
  then have "spread tc m org before R v'"
    using sp host' wires users False unfolding spread_def subtree_def tree_edge_def tree_port_def by auto
  then show ?thesis by blast
next
  case True
  let ?y = "adj tc i ! p"
  note L = link_ends [OF ok link]
  have i: "i < num_hosts tc" "p < degree tc i" using link by (simp_all add: is_link_def)
  have unblocked: "\<not> neighbors_blocked (host v i) ! p" using link_tree(1) [OF ok m v p link] True by simp
  have count: "floods (wire v j q) = (if tree_edge tc v j (adj tc j ! q) \<and> adj tc j ! q \<in> R \<and> j \<notin> R then 1 else 0)"
    if "is_link tc j q" "tree_port tc m v j q" for j q using sp that by (simp add: spread_def)
  have edge: "tree_edge tc v i ?y" "?y \<in> R" "i \<notin> R"
    using count [OF link True] arrived by (auto split: if_splits)
  have sub: "subtree tc m R v" using sp by (simp add: spread_def)
  have unique: "k = ?y" if "k \<in> R" "k \<in> set (adj tc i)" "tree_edge tc v i k" for k
    using subtree_unique [OF ok m v sub i(1) edge(3) that edge(2) L(1) edge(1)] .
  let ?R = "insert i R"
  have "floods (wire v' j q) = (if tree_edge tc v j (adj tc j ! q) \<and> adj tc j ! q \<in> ?R \<and> j \<notin> ?R then 1 else 0)"
    if jq: "is_link tc j q" "tree_port tc m v j q" for j q
  proof -
    note J = link_ends [OF ok jq(1)]
    consider "j = i" "q = p" | "j = i" "q \<noteq> p" | "adj tc j ! q = i" "j \<noteq> i" | "j \<noteq> i" "adj tc j ! q \<noteq> i" by blast
    then show ?thesis
    proof cases
      case 1
      then show ?thesis using wires [OF jq(1)] count [OF link True] edge by simp
    next
      case 2
      then have "adj tc j ! q \<noteq> i" using J(4) by simp
      moreover have "\<not> (tree_edge tc v i (adj tc i ! q) \<and> adj tc i ! q \<in> R)"
      proof
        assume "tree_edge tc v i (adj tc i ! q) \<and> adj tc i ! q \<in> R"
        then have "adj tc i ! q = ?y" using unique J(1) 2 by simp
        then show False using neighbor_inj [OF ok link, of q] jq(1) 2 by simp
      qed
      ultimately show ?thesis using wires [OF jq(1)] count [OF jq] 2 by auto
    next
      case 3
      have farend: "back_port tc j q \<noteq> p \<longleftrightarrow> j \<noteq> ?y"
        using J(6) L(7) 3(1) by auto
      have "floods (wire v j q) = 0" using count [OF jq] 3 edge(3) by simp
      moreover have "\<not> neighbors_blocked (host v i) ! back_port tc j q \<longleftrightarrow> tree_edge tc v j i"
        using link_tree(3,4) [OF ok m v p jq(1)] jq(2) 3(1) by auto
      moreover have "tree_edge tc v j i \<Longrightarrow> j \<noteq> ?y \<Longrightarrow> j \<notin> R"
        using unique [of j] J(2) 3(1) by (auto simp: tree_edge_def)
      ultimately show ?thesis using wires [OF jq(1)] 3 unblocked farend edge(2) by auto
    next
      case 4
      then show ?thesis using wires [OF jq(1)] count [OF jq] by simp
    qed
  qed
  moreover have "floods (user v' k) = before k + (if k \<in> ?R \<and> k \<noteq> org then 1 else 0)" if "k < num_hosts tc" for k
    using users [of k] sp that unblocked edge(3) unfolding spread_def by auto
  moreover have "subtree tc m ?R v'"
    using subtree_insert [OF ok m v sub i(1) edge(3,2) L(1) edge(1)] host' by (simp add: subtree_def)
  ultimately have "spread tc m org before ?R v'"
    using sp host' unfolding spread_def tree_edge_def tree_port_def by simp
  then show ?thesis by blast
qed

text \<open>The injection starts the spreading, and every event goes on with it.\<close>

lemma spread_start:
  assumes ok: "net_ok tc" and m: "smallest tc m" and v: "stable tc m v" and p: "ports_ok tc m v"
    and ev: "net_event tc (Inject i pkt) v = Some v'"
    and flood: "ptype pkt = packet_type_code PACKET_TYPE_FLOOD"
    and none: "\<And>j q. is_link tc j q \<Longrightarrow> floods (wire v j q) = 0"
  shows "spread tc m i (\<lambda>k. floods (user v k)) {i} v'"
proof -
  have wf: "net_wf tc v" using v soundD(2) by (simp add: stable_def)
  note F = flood_injected [OF ok wf ev flood]
  have i: "i < num_hosts tc" using ev by (auto split: if_splits)
  have "floods (wire v' j q) = (if tree_edge tc v j (adj tc j ! q) \<and> adj tc j ! q \<in> {i} \<and> j \<notin> {i} then 1 else 0)"
    if jq: "is_link tc j q" "tree_port tc m v j q" for j q
  proof -
    have "adj tc j ! q = i \<Longrightarrow> j \<noteq> i" using link_ends(4) [OF ok jq(1)] by auto
    then show ?thesis
      using F(2) [OF jq(1)] none [OF jq(1)] link_tree(3,4) [OF ok m v p jq(1)] jq(2) by auto
  qed
  then show ?thesis
    using i F(1,3) unfolding spread_def subtree_def tree_edge_def tree_port_def by simp
qed

definition spreading :: "testcase \<Rightarrow> nat \<Rightarrow> nat \<Rightarrow> (nat \<Rightarrow> nat) \<Rightarrow> node network \<Rightarrow> bool" where
  "spreading tc m org before v \<longleftrightarrow> stable tc m v \<and> ports_ok tc m v \<and> (\<exists>R. spread tc m org before R v)"

lemma spreading_event:
  assumes ok: "net_ok tc" and con: "connected tc" and m: "smallest tc m"
    and sp: "spreading tc m org before v" and ev: "net_event tc e v = Some v'"
    and calm: "\<not> standing e" and no_flood: "\<not> floods_in e"
  shows "spreading tc m org before v'"
proof -
  have v: "stable tc m v" and p: "ports_ok tc m v" using sp by (simp_all add: spreading_def)
  obtain R where R: "spread tc m org before R v" using sp by (auto simp: spreading_def)
  have wf: "net_wf tc v" using v soundD(2) by (simp add: stable_def)
  note E = stable_event [OF ok con m v ev calm]
  have "ports_ok tc m v'" using p stable_port_ok [OF ok con m v ev calm] by (simp add: ports_ok_def)
  moreover from ok wf ev no_flood have "\<exists>R'. spread tc m org before R' v'"
  proof (cases rule: flood_cases)
    case other
    have "spread tc m org before R v'" by (rule spread_same_hosts [OF R E(2) ok]) (use other in simp_all)
    then show ?thesis ..
  next
    case (flood i q)
    then show ?thesis using spread_step [OF ok m v p R] by blast
  qed
  ultimately show ?thesis using E(1) by (simp add: spreading_def)
qed

text \<open>When no FLOOD packet is left on a link, all hosts have been reached.\<close>

lemma spread_end:
  assumes ok: "net_ok tc" and con: "connected tc" and m: "smallest tc m"
    and v: "stable tc m v" and sp: "spread tc m org before R v"
    and quiet: "\<And>j q. is_link tc j q \<Longrightarrow> floods (wire v j q) = 0"
  shows "R = {..<num_hosts tc}"
proof -
  have mN: "m < num_hosts tc" using m by (simp add: smallest_def)
  have R: "R \<subseteq> {..<num_hosts tc}" "org \<in> R" using sp by (simp_all add: spread_def subtree_def)
  have closed: "j \<in> R" if j: "j < num_hosts tc" "i \<in> set (adj tc j)" "i \<in> R" and edge: "tree_edge tc v j i" for i j
  proof (rule ccontr)
    assume "j \<notin> R"
    obtain q where q: "is_link tc j q" "adj tc j ! q = i" using link_of_neighbors [OF ok j(1,2)] by blast
    have iN: "i < num_hosts tc" "j \<in> set (adj tc i)" using net_ok_adj(4,5) [OF ok j(1,2)] by simp_all
    have "tree_port tc m v j q"
      using edge q(2) stable_up [OF ok m v iN] unfolding tree_edge_def tree_port_def by auto
    then have "floods (wire v j q) = 1" using sp q edge j(3) \<open>j \<notin> R\<close> by (simp add: spread_def)
    then show False using quiet [OF q(1)] by simp
  qed
  have up: "\<exists>j \<in> set (adj tc i). next_hop (host v i) = host_addr tc j \<and> dist tc m i = Suc (dist tc m j)"
    if "i < num_hosts tc" "i \<noteq> m" for i
  proof -
    have "next_hop (host v i) \<in> host_addr tc ` parents tc m i"
      using v that unfolding stable_def elected_def by blast
    then show ?thesis unfolding parents_def by fastforce
  qed
  have "i \<in> R \<Longrightarrow> i < num_hosts tc \<Longrightarrow> m \<in> R" for i
  proof (induction "dist tc m i" arbitrary: i)
    case 0
    then show ?case using dist_0 [OF con mN, of i] by simp
  next
    case (Suc d)
    then have "i \<noteq> m" by auto
    from up [OF Suc.prems(2) this] obtain j where j: "j \<in> set (adj tc i)"
      "next_hop (host v i) = host_addr tc j" "dist tc m i = Suc (dist tc m j)" by blast
    have jN: "j < num_hosts tc" "i \<in> set (adj tc j)" using net_ok_adj(4,5) [OF ok Suc.prems(2) j(1)] by simp_all
    have "j \<in> R" using closed [OF jN Suc.prems(1)] j(2) by (simp add: tree_edge_def)
    then show ?case using Suc.hyps j(3) jN(1) by simp
  qed
  then have "m \<in> R" using R by blast
  have "i \<in> R" if "i < num_hosts tc" for i
    using that
  proof (induction "dist tc m i" arbitrary: i)
    case 0
    then show ?case using dist_0 [OF con mN, of i] \<open>m \<in> R\<close> by simp
  next
    case (Suc d)
    then have "i \<noteq> m" by auto
    from up [OF Suc.prems this] obtain j where j: "j \<in> set (adj tc i)"
      "next_hop (host v i) = host_addr tc j" "dist tc m i = Suc (dist tc m j)" by blast
    have "j \<in> R" using Suc.hyps j(3) net_ok_adj(4) [OF ok Suc.prems j(1)] by simp
    then show ?case using closed [OF Suc.prems j(1)] j(2) by (simp add: tree_edge_def)
  qed
  then show ?thesis using R by blast
qed

end
