(* ===== verification/NetworkQuiet.thy ===== *)
theory NetworkQuiet
  imports NetworkElection
begin

text \<open>
  Announcements die out. Taking one from a link either improves a route, or leaves all routes as they
  are and replaces the announcement by longer ones: both cannot go on forever.
\<close>

section \<open>Networks without FLOOD packets\<close>

definition only_stp :: "testcase \<Rightarrow> 'h network \<Rightarrow> bool" where
  "only_stp tc v \<longleftrightarrow> (\<forall>j q. is_link tc j q \<longrightarrow> (\<forall>p \<in> set (wire v j q). ptype p = packet_type_code PACKET_TYPE_STP))"

lemma arrivals_STP_ptype:
  "p \<in> set (arrivals tc i (send_STP n) j q) \<Longrightarrow> ptype p = packet_type_code PACKET_TYPE_STP"
  by (auto simp: arrivals_def sent_to_def send_STP_def node_stp_packet_def split: if_splits)

lemma only_stp_take:
  assumes v: "only_stp tc v" and ev: "net_event tc (Take i p) v = Some v'"
  shows "only_stp tc v'"
proof -
  obtain pkt rest n out where link: "is_link tc i p" and w: "wire v i p = pkt # rest"
    and step: "node_packet (of_nat p) pkt (host v i) = Some (n, out)"
    and v': "v' = become tc i (n, out) (v\<lparr>wire := (wire v)(i := (wire v i)(p := rest))\<rparr>)"
    using ev by (auto split: if_splits list.splits)
  have "ptype pkt = packet_type_code PACKET_TYPE_STP" using v link w unfolding only_stp_def by simp
  then have "out = [] \<or> (\<exists>m. out = send_STP m)"
    using step by (auto simp: node_packet_def bind_eq_Some_conv elim!: receive_STP_cases split: if_splits)
  then have "ptype x = packet_type_code PACKET_TYPE_STP" if "x \<in> set (arrivals tc i out j q)" for x j q
    using that arrivals_STP_ptype by auto
  moreover have "set (wire v' j q) \<subseteq> set (wire v j q) \<union> set (arrivals tc i out j q)" for j q
    using v' w by auto
  ultimately show ?thesis using v unfolding only_stp_def by blast
qed

section \<open>The measure\<close>

definition links :: "testcase \<Rightarrow> (nat \<times> nat) set" where
  "links tc = {(j, q). is_link tc j q}"

lemma finite_links [simp]: "finite (links tc)"
proof -
  have "links tc = (SIGMA j: {..<num_hosts tc}. {..<degree tc j})" by (auto simp: links_def is_link_def)
  then show ?thesis by simp
qed

definition route_rank :: "route \<Rightarrow> nat" where
  "route_rank r = (unat (route_root r) * 65537 + nat (route_len r)) * 65536 + unat (route_hop r)"

lemma route_rank_less:
  assumes "a < b" and "0 \<le> route_len a" and "route_len a \<le> 65536" and "0 \<le> route_len b"
  shows "route_rank a < route_rank b"
proof -
  let ?ra = "unat (route_root a)" and ?rb = "unat (route_root b)"
  let ?la = "nat (route_len a)" and ?lb = "nat (route_len b)"
  let ?ha = "unat (route_hop a)" and ?hb = "unat (route_hop b)"
  have h: "?ha < 65536" "?hb < 65536" and l: "?la \<le> 65536" using assms(3) by simp_all
  consider "?ra < ?rb" | "?ra = ?rb" "?la < ?lb" | "?ra = ?rb" "?la = ?lb" "?ha < ?hb"
    using assms by (auto simp: less_route_def word_less_nat_alt)
  then have "?ra * 65537 + ?la < ?rb * 65537 + ?lb \<or> ?ra * 65537 + ?la = ?rb * 65537 + ?lb \<and> ?ha < ?hb"
    using l by cases linarith+
  then show ?thesis
  proof
    assume "?ra * 65537 + ?la < ?rb * 65537 + ?lb"
    then have "Suc (?ra * 65537 + ?la) * 65536 \<le> (?rb * 65537 + ?lb) * 65536"
      by (intro mult_le_mono1) simp
    then show ?thesis using h(1) unfolding route_rank_def mult_Suc by linarith
  qed (simp add: route_rank_def)
qed

definition news_weight :: "mixnet_packet_stp \<Rightarrow> nat" where
  "news_weight u = 256 ^ (65536 - unat (path_length u))"

definition queue_weight :: "mixnet_packet_stp list \<Rightarrow> nat" where
  "queue_weight us = sum_list (map news_weight us)"

definition network_rank :: "testcase \<Rightarrow> node network \<Rightarrow> nat" where
  "network_rank tc v = (\<Sum>i < num_hosts tc. route_rank (node_route (host v i)))"

definition network_weight :: "testcase \<Rightarrow> node network \<Rightarrow> nat" where
  "network_weight tc v = (\<Sum>(j, q) \<in> links tc. queue_weight (said (wire v j q)))"

lemma queue_weight_simps [simp]:
  "queue_weight [] = 0" "queue_weight (u # us) = news_weight u + queue_weight us"
  "queue_weight (us @ vs) = queue_weight us + queue_weight vs"
  by (simp_all add: queue_weight_def)

text \<open>A host has at most 255 links.\<close>

lemma links_from:
  assumes "net_ok tc" and "i < num_hosts tc"
  shows "card {(j, q) \<in> links tc. adj tc j ! q = i} \<le> 255"
proof -
  let ?A = "{(j, q) \<in> links tc. adj tc j ! q = i}"
  have "inj_on fst ?A"
    using link_ends(7) [OF assms(1)] by (auto simp: inj_on_def links_def) metis
  moreover have "fst ` ?A \<subseteq> set (adj tc i)"
    using link_ends(2) [OF assms(1)] by (auto simp: links_def)
  ultimately have "card ?A \<le> card (set (adj tc i))" by (intro card_inj_on_le [of fst]) auto
  also have "\<dots> \<le> degree tc i" by (rule card_length)
  finally show ?thesis using net_ok_adj(3) [OF assms] by simp
qed

lemma weight_hear:
  assumes ok: "net_ok tc" and link: "is_link tc i p" and said: "said (wire v i p) = u # us"
    and wire': "\<And>j q. is_link tc j q \<Longrightarrow> said (wire v' j q) =
         (if j = i \<and> q = p then us else said (wire v j q)) @ added tc i relay n j q"
    and relay: "relay \<Longrightarrow> 256 * news_weight (announcement n) \<le> news_weight u"
  shows "network_weight tc v' < network_weight tc v"
proof -
  let ?A = "{(j, q) \<in> links tc. adj tc j ! q = i}" and ?c = "if relay then news_weight (announcement n) else 0"
  let ?old = "\<lambda>l. queue_weight (said (wire v (fst l) (snd l)))"
  let ?new = "\<lambda>l. queue_weight (said (wire v' (fst l) (snd l)))"
  have ip: "(i, p) \<in> links tc" using link by (simp add: links_def)
  have i: "i < num_hosts tc" using link by (simp add: is_link_def)
  have new: "?new l + (if l = (i, p) then news_weight u else 0) = ?old l + (if l \<in> ?A then ?c else 0)"
    if "l \<in> links tc" for l
    using wire' [of "fst l" "snd l"] that said by (cases l) (auto simp: links_def)
  have "sum ?new (links tc) + news_weight u = (\<Sum>l \<in> links tc. ?new l + (if l = (i, p) then news_weight u else 0))"
    using ip by (simp add: sum.distrib sum.delta)
  also have "\<dots> = (\<Sum>l \<in> links tc. ?old l + (if l \<in> ?A then ?c else 0))"
    by (rule sum.cong [OF refl new])
  also have "\<dots> = sum ?old (links tc) + card ?A * ?c"
  proof -
    have "links tc \<inter> ?A = ?A" by auto
    then show ?thesis by (simp add: sum.distrib sum.If_cases)
  qed
  finally have eq: "sum ?new (links tc) + news_weight u = sum ?old (links tc) + card ?A * ?c" .
  have "card ?A * ?c \<le> 255 * ?c" by (rule mult_le_mono1) (rule links_from [OF ok i])
  moreover have "255 * ?c < news_weight u"
  proof (cases relay)
    case True
    have "0 < news_weight (announcement n)" by (simp add: news_weight_def)
    then show ?thesis using relay True by simp
  qed (simp add: news_weight_def)
  ultimately have "sum ?new (links tc) < sum ?old (links tc)" using eq by linarith
  then show ?thesis by (simp add: network_weight_def case_prod_beta)
qed

lemma take_decreases:
  assumes ok: "net_ok tc" and v: "sound tc v \<and> trails tc v" and stp: "only_stp tc v"
    and ev: "net_event tc (Take i p) v = Some v'"
  shows "network_rank tc v' < network_rank tc v
    \<or> network_rank tc v' = network_rank tc v \<and> network_weight tc v' < network_weight tc v"
proof -
  have i: "i < num_hosts tc" and link: "is_link tc i p" using ev by (auto simp: is_link_def split: if_splits)
  have short: "path_len (host v' i) < 65536" using calm_event(2) [OF ok v ev _ i] by (simp add: standing_def)
  have wf: "net_wf tc v" using v soundD(2) by blast
  from ok wf ev show ?thesis
  proof (cases rule: stp_event)
    case (hear i' p' u us n relay)
    then have [simp]: "i' = i" "p' = p" by simp_all
    note N = node_wfD [OF ok i hear(5) [simplified]] and O = node_wfD [OF ok i net_wfD(1) [OF wf i]]
    have others: "host v' x = host v x" if "x \<noteq> i" for x using hear(4) that by simp
    have n: "host v' i = n" using hear(4) by simp
    show ?thesis
    proof (cases "node_route n = node_route (host v i)")
      case True
      then have "network_rank tc v' = network_rank tc v"
        unfolding network_rank_def using others n by (intro sum.cong) (auto, metis)
      moreover have "256 * news_weight (announcement n) \<le> news_weight u" if relay
      proof -
        have "offer u = node_route n" using hear(6) that True by (auto simp: hears_def)
        then have l: "path_len n = uint (path_length u) + 1" by (simp add: offer_def node_route_def)
        then have "unat (word_of_int (path_len n) :: u16) = Suc (unat (path_length u))"
          using unat_length(1) [of "path_len n"] short n N(6) by (simp add: nat_add_distrib nat_uint_eq)
        moreover have "65536 - unat (path_length u) = Suc (65535 - unat (path_length u))"
          using unat_u16_less [of "path_length u"] by linarith
        ultimately show ?thesis by (simp add: news_weight_def)
      qed
      moreover have "network_weight tc v' < network_weight tc v"
        using weight_hear [OF ok link _ _ calculation(2)] hear(3,7) by simp
      ultimately show ?thesis by simp
    next
      case False
      then have "node_route n < node_route (host v i)" using hears_route [OF hear(6)] by auto
      then have "route_rank (node_route n) < route_rank (node_route (host v i))"
        using N(6,7) O(6) by (intro route_rank_less) (simp_all add: node_route_def)
      then have "network_rank tc v' < network_rank tc v"
        unfolding network_rank_def using others n i by (intro sum_strict_mono_ex1) (auto intro: less_imp_le, metis order_refl less_imp_le)
      then show ?thesis ..
    qed
  next
    case silent
    have "wire v i p \<noteq> []" using ev by (auto split: if_splits)
    then have "ptype (hd (wire v i p)) = packet_type_code PACKET_TYPE_STP"
      using stp link unfolding only_stp_def by simp
    then show ?thesis using silent(4) by blast
  qed simp
qed

section \<open>Receptions\<close>

text \<open>An iteration of a host that takes a packet, while neither timer is due.\<close>

definition reception :: "testcase \<Rightarrow> (nat \<Rightarrow> clock) \<Rightarrow> node_loop network \<Rightarrow> node_loop network \<Rightarrow> bool" where
  "reception tc clk s s' \<longleftrightarrow> (\<exists>i p. i < num_hosts tc
     \<and> \<not> greets (config_of tc i) (clk i) (host s i) \<and> \<not> stands (config_of tc i) (clk i) (host s i)
     \<and> host_step tc clk i (From_port p) s = Some s')"

lemma reception_event:
  assumes "net_ok tc" and "reception tc clk s s'"
  obtains i p where "net_event tc (Take i p) (nodes_of s) = Some (nodes_of s')"
proof -
  from assms(2) obtain i p where i: "i < num_hosts tc" "host_step tc clk i (From_port p) s = Some s'"
    and "timer_events tc clk i s = []" by (auto simp: reception_def timer_events_def)
  with host_step_events [OF assms(1) i] have "net_event tc (Take i p) (nodes_of s) = Some (nodes_of s')"
    by (simp add: bind_eq_Some_conv del: net_event.simps)
  with that show thesis .
qed

lemma reception_decreases:
  assumes ok: "net_ok tc" and s: "sound tc (nodes_of s) \<and> trails tc (nodes_of s) \<and> only_stp tc (nodes_of s)"
    and "reception tc clk s s'"
  shows "sound tc (nodes_of s') \<and> trails tc (nodes_of s') \<and> only_stp tc (nodes_of s')"
    and "((network_rank tc (nodes_of s'), network_weight tc (nodes_of s')),
       (network_rank tc (nodes_of s), network_weight tc (nodes_of s))) \<in> less_than <*lex*> less_than"
proof -
  obtain i p where ev: "net_event tc (Take i p) (nodes_of s) = Some (nodes_of s')"
    by (rule reception_event [OF ok assms(3)])
  show "sound tc (nodes_of s') \<and> trails tc (nodes_of s') \<and> only_stp tc (nodes_of s')"
    using calm_event(1) [OF ok _ ev] only_stp_take [OF _ ev] s by (simp add: standing_def)
  show "((network_rank tc (nodes_of s'), network_weight tc (nodes_of s')),
       (network_rank tc (nodes_of s), network_weight tc (nodes_of s))) \<in> less_than <*lex*> less_than"
    using take_decreases [OF ok _ _ ev] s by auto
qed

lemma no_endless_receptions:
  assumes ok: "net_ok tc" and s: "sound tc (nodes_of s) \<and> trails tc (nodes_of s) \<and> only_stp tc (nodes_of s)"
  shows "\<not> (\<exists>f. f 0 = s \<and> (\<forall>k. reception tc clk (f k) (f (Suc k))))"
proof
  assume "\<exists>f. f 0 = s \<and> (\<forall>k. reception tc clk (f k) (f (Suc k)))"
  then obtain f where f: "f 0 = s" "\<And>k. reception tc clk (f k) (f (Suc k))" by blast
  let ?I = "\<lambda>s. sound tc (nodes_of s) \<and> trails tc (nodes_of s) \<and> only_stp tc (nodes_of s)"
  have I: "?I (f k)" for k
    by (induction k) (use s f reception_decreases(1) [OF ok] in blast)+
  let ?m = "\<lambda>k. (network_rank tc (nodes_of (f k)), network_weight tc (nodes_of (f k)))"
  have "\<forall>k. (?m (Suc k), ?m k) \<in> less_than <*lex*> less_than"
    using reception_decreases(2) [OF ok I f(2)] by blast
  then have "\<exists>g. \<forall>k. (g (Suc k), g k) \<in> (less_than <*lex*> less_than :: ((nat \<times> nat) \<times> nat \<times> nat) set)"
    by (rule exI [of _ ?m])
  moreover have "wf (less_than <*lex*> less_than :: ((nat \<times> nat) \<times> nat \<times> nat) set)"
    by (intro wf_lex_prod wf_less_than)
  ultimately show False unfolding wf_iff_no_infinite_down_chain by (rule notE [rotated])
qed

text \<open>A host never gets stuck on a packet from a link.\<close>

lemma packet_from_link:
  assumes ok: "net_ok tc" and s: "net_wf tc (nodes_of s)" and link: "is_link tc i p" and "wire s i p \<noteq> []"
  shows "\<exists>s'. host_step tc clk i (From_port p) s = Some s'"
proof -
  obtain pkt rest where w: "wire s i p = pkt # rest" using assms(4) by (cases "wire s i p") auto
  have i: "i < num_hosts tc" "p < degree tc i" using link by (simp_all add: is_link_def)
  have "copy_in_bounds pkt" if "ptype pkt = packet_type_code PACKET_TYPE_STP"
    using net_wfD(3) [OF s link] w that by simp
  then have r: "recv_ok (config_of tc i) (Some (of_nat p, pkt))"
    using i num_ports_of(1) [OF ok i(1)] num_ports_of(4) [OF ok i(1), of p] by (simp add: recv_ok_def)
  have "node_wf (config_of tc i) (nd (host s i))" using net_wfD(1) [OF s i(1)] by simp
  from loop_body_defined [OF this r] obtain h out where
    "loop_body (config_of tc i) (clk i) (Some (of_nat p, pkt)) (host s i) = Some (h, out)" by blast
  then show ?thesis using w i by (simp add: host_step_def)
qed

end
