(* ===== verification/NetworkRuns.thy ===== *)
theory NetworkRuns
  imports NetworkFlood NetworkQuiet "HOL-Library.Code_Target_Numeral"
begin

text \<open>
  Rounds of a run, and the execution of runs on snapshots: the states of the hosts and the queues
  in lists, in which evaluation is by computation.
\<close>

section \<open>Rounds\<close>

text \<open>Some steps, a hello of host \<open>m\<close>, and steps until nothing is on its way.\<close>

definition hello_round ::
  "testcase \<Rightarrow> (nat \<Rightarrow> clock) \<Rightarrow> (nat \<Rightarrow> input \<Rightarrow> node_loop network \<Rightarrow> bool) \<Rightarrow> nat
    \<Rightarrow> node_loop network \<Rightarrow> node_loop network \<Rightarrow> bool" where
  "hello_round tc clk allow m s s' \<longleftrightarrow> (\<exists>s1 inp s2.
     net_run tc clk allow s s1 \<and> greets (config_of tc m) (clk m) (host s1 m) \<and> allow m inp s1
     \<and> host_step tc clk m inp s1 = Some s2 \<and> net_run tc clk allow s2 s' \<and> settled tc s')"

text \<open>Steps in which no user injects a FLOOD packet.\<close>

fun injects_flood :: "input \<Rightarrow> bool" where
  "injects_flood (From_user pkt) \<longleftrightarrow> ptype pkt = packet_type_code PACKET_TYPE_FLOOD"
| "injects_flood _ \<longleftrightarrow> False"

definition no_flood ::
  "testcase \<Rightarrow> (nat \<Rightarrow> clock) \<Rightarrow> nat \<Rightarrow> input \<Rightarrow> node_loop network \<Rightarrow> bool" where
  "no_flood tc clk i inp s \<longleftrightarrow> calm tc clk i inp s \<and> \<not> injects_flood inp"

section \<open>Snapshots\<close>

record snapshot =
  hosts :: "node_loop list"
  wires :: "mixnet_packet list list list"
  users :: "mixnet_packet list list"

definition snapshot_of :: "testcase \<Rightarrow> node_loop network \<Rightarrow> snapshot" where
  "snapshot_of tc s =
     \<lparr>hosts = map (host s) [0..<num_hosts tc],
      wires = map (\<lambda>j. map (wire s j) [0..<degree tc j]) [0..<num_hosts tc],
      users = map (user s) [0..<num_hosts tc]\<rparr>"

definition network_of :: "snapshot \<Rightarrow> node_loop network" where
  "network_of t =
     \<lparr>host = (\<lambda>i. hosts t ! i), wire = (\<lambda>j q. wires t ! j ! q), user = (\<lambda>i. users t ! i)\<rparr>"

text \<open>Agreement on the hosts and links there are.\<close>

definition agree :: "testcase \<Rightarrow> node_loop network \<Rightarrow> node_loop network \<Rightarrow> bool" where
  "agree tc s t \<longleftrightarrow> (\<forall>i < num_hosts tc. host s i = host t i \<and> user s i = user t i
     \<and> (\<forall>q < degree tc i. wire s i q = wire t i q))"

lemma agree_refl [simp]: "agree tc s s"
  by (simp add: agree_def)

lemma agree_trans: "agree tc s t \<Longrightarrow> agree tc t u \<Longrightarrow> agree tc s u"
  by (simp add: agree_def)

lemma agree_snapshot: "agree tc (network_of (snapshot_of tc s)) s"
  by (simp add: agree_def network_of_def snapshot_of_def)

lemma agree_step:
  assumes "agree tc s t" and "i < num_hosts tc" and "host_step tc clk i inp s = Some s'"
  shows "\<exists>t'. host_step tc clk i inp t = Some t' \<and> agree tc s' t'"
proof -
  obtain r s1 h out where t: "take_input tc i inp s = Some (r, s1)"
    and b: "loop_body (config_of tc i) (clk i) r (host s1 i) = Some (h, out)"
    and s': "s' = deposit tc i out (s1\<lparr>host := (host s1)(i := h)\<rparr>)"
    using assms(3) by (auto simp: host_step_def bind_eq_Some_conv)
  have "\<exists>t1. take_input tc i inp t = Some (r, t1) \<and> agree tc s1 t1"
    using t assms(1,2) by (cases inp) (auto simp: agree_def split: if_splits list.splits)
  then obtain t1 where t1: "take_input tc i inp t = Some (r, t1)" "agree tc s1 t1" by blast
  then have "host_step tc clk i inp t = Some (deposit tc i out (t1\<lparr>host := (host t1)(i := h)\<rparr>))"
    using b assms(2) by (simp add: host_step_def agree_def)
  moreover have "agree tc s' (deposit tc i out (t1\<lparr>host := (host t1)(i := h)\<rparr>))"
    using t1(2) by (simp add: s' agree_def)
  ultimately show ?thesis by blast
qed

text \<open>What a restriction on steps may depend on.\<close>

definition depends_locally :: "testcase \<Rightarrow> (nat \<Rightarrow> input \<Rightarrow> node_loop network \<Rightarrow> bool) \<Rightarrow> bool" where
  "depends_locally tc allow \<longleftrightarrow> (\<forall>i < num_hosts tc. \<forall>inp s t. agree tc s t \<longrightarrow> allow i inp s \<longrightarrow> allow i inp t)"

lemma local_calm: "depends_locally tc (calm tc clk)"
  by (simp add: depends_locally_def calm_def agree_def)

lemma local_no_flood: "depends_locally tc (no_flood tc clk)"
  by (simp add: depends_locally_def no_flood_def calm_def agree_def)

lemma agree_sym: "agree tc s t \<Longrightarrow> agree tc t s"
  by (simp add: agree_def)

lemma local_unwrapped: "depends_locally tc (unwrapped tc clk)"
proof -
  have "unwrapped tc clk i inp t" if "i < num_hosts tc" "agree tc s t" "unwrapped tc clk i inp s" for i inp s t
  proof (cases "host_step tc clk i inp t")
    case (Some t')
    from agree_step [OF agree_sym [OF that(2)] that(1) this] obtain s' where
      "host_step tc clk i inp s = Some s'" "agree tc t' s'" by blast
    then show ?thesis using that(1,3) Some by (simp add: unwrapped_def agree_def)
  qed (simp add: unwrapped_def)
  then show ?thesis by (simp add: depends_locally_def)
qed

lemma local_conj:
  "depends_locally tc a \<Longrightarrow> depends_locally tc b \<Longrightarrow> depends_locally tc (\<lambda>i inp s. a i inp s \<and> b i inp s)"
  unfolding depends_locally_def by blast

section \<open>Execution\<close>

fun run_snapshot ::
  "testcase \<Rightarrow> (nat \<Rightarrow> clock) \<Rightarrow> (nat \<Rightarrow> input \<Rightarrow> node_loop network \<Rightarrow> bool)
    \<Rightarrow> (nat \<times> input) list \<Rightarrow> snapshot \<Rightarrow> snapshot option" where
  "run_snapshot tc clk allow [] t = Some t"
| "run_snapshot tc clk allow ((i, inp) # xs) t =
     (if i < num_hosts tc \<and> allow i inp (network_of t)
      then (case host_step tc clk i inp (network_of t) of
          None \<Rightarrow> None
        | Some s \<Rightarrow> run_snapshot tc clk allow xs (snapshot_of tc s))
      else None)"

lemma run_snapshot_net_run:
  assumes "depends_locally tc allow"
  shows "run_snapshot tc clk allow xs t = Some t' \<Longrightarrow> agree tc (network_of t) s \<Longrightarrow>
    \<exists>s'. net_run tc clk allow s s' \<and> agree tc (network_of t') s'"
proof (induction xs arbitrary: t s)
  case Nil
  then show ?case using net_run.stay by fastforce
next
  case (Cons x xs)
  obtain i inp where x: "x = (i, inp)" by fastforce
  then obtain t1 where i: "i < num_hosts tc" "allow i inp (network_of t)"
    and t1: "host_step tc clk i inp (network_of t) = Some t1"
    and rest: "run_snapshot tc clk allow xs (snapshot_of tc t1) = Some t'"
    using Cons.prems(1) by (auto split: if_splits option.splits)
  from agree_step [OF Cons.prems(2) i(1) t1] obtain s1 where
    s1: "host_step tc clk i inp s = Some s1" "agree tc t1 s1" by blast
  from Cons.IH [OF rest agree_trans [OF agree_snapshot s1(2)]] obtain s' where
    s': "net_run tc clk allow s1 s'" "agree tc (network_of t') s'" by blast
  have "allow i inp s" using assms i Cons.prems(2) unfolding depends_locally_def by blast
  then have "net_run tc clk allow s s1" using net_run.step [OF net_run.stay i(1) _ s1(1)] by blast
  then show ?case using s' net_run_trans by blast
qed

lemma agree_settled: "agree tc s t \<Longrightarrow> settled tc s \<Longrightarrow> settled tc t"
  by (simp add: agree_def settled_def)

text \<open>A round: the steps before the hello, what the host takes in the step of its hello, the rest.\<close>

definition round_snapshot ::
  "testcase \<Rightarrow> (nat \<Rightarrow> clock) \<Rightarrow> (nat \<Rightarrow> input \<Rightarrow> node_loop network \<Rightarrow> bool) \<Rightarrow> nat
    \<Rightarrow> (nat \<times> input) list \<Rightarrow> input \<Rightarrow> (nat \<times> input) list \<Rightarrow> snapshot \<Rightarrow> snapshot option" where
  "round_snapshot tc clk allow m xs inp ys t =
     (case run_snapshot tc clk allow xs t of
        None \<Rightarrow> None
      | Some t1 \<Rightarrow>
          if greets (config_of tc m) (clk m) (host (network_of t1) m)
          then (case run_snapshot tc clk allow ((m, inp) # ys) t1 of
              None \<Rightarrow> None
            | Some t2 \<Rightarrow> if list_all (list_all (\<lambda>ps. ps = [])) (wires t2) then Some t2 else None)
          else None)"

lemma run_snapshot_shape:
  "run_snapshot tc clk allow (x # xs) t = Some t' \<Longrightarrow> \<exists>s. t' = snapshot_of tc s"
proof (induction xs arbitrary: x t)
  case Nil
  then show ?case by (cases x) (auto split: if_splits option.splits)
next
  case (Cons y ys)
  then show ?case by (cases x) (auto split: if_splits option.splits)
qed

lemma settled_snapshot:
  "list_all (list_all (\<lambda>ps. ps = [])) (wires (snapshot_of tc s)) \<Longrightarrow> settled tc (network_of (snapshot_of tc s))"
  by (auto simp: settled_def snapshot_of_def network_of_def list_all_length)

lemma round_snapshot_hello_round:
  assumes "depends_locally tc allow" and "m < num_hosts tc"
    and "round_snapshot tc clk allow m xs inp ys t = Some t'" and "agree tc (network_of t) s"
  shows "\<exists>s'. hello_round tc clk allow m s s' \<and> agree tc (network_of t') s'"
proof -
  obtain t1 where t1: "run_snapshot tc clk allow xs t = Some t1"
    and greet: "greets (config_of tc m) (clk m) (host (network_of t1) m)"
    and t': "run_snapshot tc clk allow ((m, inp) # ys) t1 = Some t'"
    and quiet: "list_all (list_all (\<lambda>ps. ps = [])) (wires t')"
    using assms(3) by (auto simp: round_snapshot_def simp del: run_snapshot.simps split: option.splits if_splits)
  from run_snapshot_net_run [OF assms(1) t1 assms(4)] obtain s1 where
    s1: "net_run tc clk allow s s1" "agree tc (network_of t1) s1" by blast
  obtain t2 where a: "allow m inp (network_of t1)" and t2: "host_step tc clk m inp (network_of t1) = Some t2"
    and rest: "run_snapshot tc clk allow ys (snapshot_of tc t2) = Some t'"
    using t' by (auto split: if_splits option.splits)
  from agree_step [OF s1(2) assms(2) t2] obtain s2 where
    s2: "host_step tc clk m inp s1 = Some s2" "agree tc t2 s2" by blast
  from run_snapshot_net_run [OF assms(1) rest agree_trans [OF agree_snapshot s2(2)]] obtain s' where
    s': "net_run tc clk allow s2 s'" "agree tc (network_of t') s'" by blast
  obtain x where "t' = snapshot_of tc x" using run_snapshot_shape [OF t'] by blast
  then have "settled tc s'" using agree_settled [OF s'(2)] settled_snapshot quiet by blast
  moreover have "allow m inp s1" using assms(1,2) a s1(2) unfolding depends_locally_def by blast
  moreover have "greets (config_of tc m) (clk m) (host s1 m)" using greet s1(2) assms(2) by (simp add: agree_def)
  ultimately have "hello_round tc clk allow m s s'" using s1(1) s2(1) s'(1) unfolding hello_round_def by blast
  then show ?thesis using s'(2) by blast
qed

end
