(* ===== verification/NetworkResults.thy ===== *)
theory NetworkResults
  imports NetworkRuns
begin

text \<open>
  The properties of a network of nodes: who is elected, which ports stay open, that announcements
  die out, and that a flood reaches every user once.
\<close>

section \<open>Runs\<close>

lemma net_run_weaken:
  assumes "net_run tc clk a s0 s" and "\<And>i inp s. a i inp s \<Longrightarrow> b i inp s"
  shows "net_run tc clk b s0 s"
  using assms(1) by induction (use assms(2) in \<open>blast intro: net_run.intros\<close>)+

lemma only_stp_init:
  assumes "net_ok tc"
  shows "only_stp tc (net_init tc clk)"
  unfolding only_stp_def net_init_def Let_def
  by (auto simp: loop_init_def read_clock_def Let_def dest: arrivals_STP_ptype)

section \<open>A hello round\<close>

lemma hello_round_elects:
  assumes ok: "net_ok tc" and con: "connected tc" and m: "smallest tc m"
    and s: "sound tc (nodes_of s) \<and> trails tc (nodes_of s)"
    and round: "hello_round tc clk (calm tc clk) m s s'"
  shows "sound tc (nodes_of s') \<and> trails tc (nodes_of s') \<and> elected tc m (nodes_of s')"
proof -
  obtain s1 inp s2 where r: "net_run tc clk (calm tc clk) s s1"
    "greets (config_of tc m) (clk m) (host s1 m)" "host_step tc clk m inp s1 = Some s2"
    "net_run tc clk (calm tc clk) s2 s'" "settled tc s'"
    using round unfolding hello_round_def by blast
  have "sound tc (nodes_of s1) \<and> trails tc (nodes_of s1)"
    by (rule net_run_inv [OF r(1) ok, where ok = "\<lambda>e. \<not> standing e"])
      (use s calm_event(1) [OF ok] calm_events in blast)+
  from wave_run [OF ok m r(4) greeting_starts_wave [OF ok m this r(2,3)]]
  obtain W where W: "sound tc (nodes_of s')" "trails tc (nodes_of s')" "wave tc m W (nodes_of s')" by blast
  with wave_end(2) [OF ok con W(1) m W(3)] settled_silent [OF r(5)] show ?thesis by blast
qed

lemma settled_stable:
  assumes "sound tc (nodes_of s) \<and> trails tc (nodes_of s) \<and> elected tc m (nodes_of s)" and "settled tc s"
  shows "stable tc m (nodes_of s)"
  using assms settled_silent [OF assms(2)] by (intro stable_start) simp_all

lemma stable_run:
  assumes "net_ok tc" and "connected tc" and "smallest tc m" and "net_run tc clk (calm tc clk) s s'"
    and "stable tc m (nodes_of s)"
  shows "stable tc m (nodes_of s')"
  by (rule net_run_inv [where I = "stable tc m", OF assms(4,1,5), where ok = "\<lambda>e. \<not> standing e"])
    (use stable_event(1) [OF assms(1-3)] calm_events in blast)+

lemma port_wave_run:
  assumes "net_ok tc" and "connected tc" and "smallest tc m" and "net_run tc clk (calm tc clk) s s'"
    and "stable tc m (nodes_of s) \<and> (\<exists>W. port_wave tc m W (nodes_of s))"
  shows "stable tc m (nodes_of s') \<and> (\<exists>W. port_wave tc m W (nodes_of s'))"
  by (rule net_run_inv [where I = "\<lambda>v. stable tc m v \<and> (\<exists>W. port_wave tc m W v)", OF assms(4,1,5),
        where ok = "\<lambda>e. \<not> standing e"])
    (use stable_event(1) [OF assms(1-3)] port_wave_event [OF assms(1-3)] calm_events in blast)+

lemma hello_round_ports:
  assumes ok: "net_ok tc" and con: "connected tc" and m: "smallest tc m" and s: "stable tc m (nodes_of s)"
    and round: "hello_round tc clk (calm tc clk) m s s'"
  shows "stable tc m (nodes_of s') \<and> ports_ok tc m (nodes_of s')"
proof -
  obtain s1 inp s2 where r: "net_run tc clk (calm tc clk) s s1"
    "greets (config_of tc m) (clk m) (host s1 m)" "host_step tc clk m inp s1 = Some s2"
    "net_run tc clk (calm tc clk) s2 s'" "settled tc s'"
    using round unfolding hello_round_def by blast
  have s1: "stable tc m (nodes_of s1)" by (rule stable_run [OF ok con m r(1) s])
  have mN: "m < num_hosts tc" using m by (simp add: smallest_def)
  from host_step_split [OF ok mN r(3)] obtain v where
    "net_events tc [Greet m] (nodes_of s1) = Some v" and inp: "net_events tc (input_events m inp) v = Some (nodes_of s2)"
    using r(2) by (auto simp: timer_events_def)
  then have ev: "net_event tc (Greet m) (nodes_of s1) = Some v" by (simp add: bind_eq_Some_conv)
  have "stable tc m v" using stable_event(1) [OF ok con m s1 ev] by (simp add: standing_def)
  then have v: "stable tc m v \<and> (\<exists>W. port_wave tc m W v)"
    using port_wave_start [OF ok con m s1 ev] by blast
  have calm: "\<forall>e \<in> set (input_events m inp). \<not> standing e" by (cases inp) (auto simp: standing_def)
  have "stable tc m (nodes_of s2) \<and> (\<exists>W. port_wave tc m W (nodes_of s2))"
    by (rule net_events_inv [where ok = "\<lambda>e. \<not> standing e"
          and I = "\<lambda>v. stable tc m v \<and> (\<exists>W. port_wave tc m W v)", OF _ inp calm v])
      (use stable_event(1) [OF ok con m] port_wave_event [OF ok con m] in blast)
  from port_wave_run [OF ok con m r(4) this] obtain W where
    "stable tc m (nodes_of s')" "port_wave tc m W (nodes_of s')" by blast
  with port_wave_end [OF ok con m] settled_silent [OF r(5)] show ?thesis by blast
qed

section \<open>A flood\<close>

text \<open>All routes and ports are final, and no FLOOD packet is on its way.\<close>

definition dry :: "testcase \<Rightarrow> nat \<Rightarrow> (nat \<Rightarrow> nat) \<Rightarrow> node network \<Rightarrow> bool" where
  "dry tc m before v \<longleftrightarrow> stable tc m v \<and> ports_ok tc m v
     \<and> (\<forall>j q. is_link tc j q \<longrightarrow> floods (wire v j q) = 0) \<and> (\<forall>i. floods (user v i) = before i)"

lemma dry_event:
  assumes ok: "net_ok tc" and con: "connected tc" and m: "smallest tc m"
    and d: "dry tc m before v" and ev: "net_event tc e v = Some v'"
    and calm: "\<not> standing e" and no_flood: "\<not> floods_in e"
  shows "dry tc m before v'"
proof -
  have v: "stable tc m v" and p: "ports_ok tc m v" and dry: "\<And>j q. is_link tc j q \<Longrightarrow> floods (wire v j q) = 0"
    using d by (simp_all add: dry_def)
  have wf: "net_wf tc v" using v soundD(2) by (simp add: stable_def)
  have "stable tc m v'" by (rule stable_event(1) [OF ok con m v ev calm])
  moreover have "ports_ok tc m v'" using p stable_port_ok [OF ok con m v ev calm] by (simp add: ports_ok_def)
  moreover from ok wf ev no_flood have
    "(\<forall>j q. is_link tc j q \<longrightarrow> floods (wire v' j q) = 0) \<and> (\<forall>i. floods (user v' i) = before i)"
  proof (cases rule: flood_cases)
    case other
    then show ?thesis using d by (simp add: dry_def)
  next
    case (flood i q)
    then show ?thesis using dry [of i q] by simp
  qed
  ultimately show ?thesis by (simp add: dry_def)
qed

lemma settled_dry:
  assumes "stable tc m (nodes_of s)" and "ports_ok tc m (nodes_of s)" and "settled tc s"
  shows "dry tc m (\<lambda>i. floods (user s i)) (nodes_of s)"
  using assms by (simp add: dry_def settled_def is_link_def)

lemma injection_spreads:
  assumes ok: "net_ok tc" and con: "connected tc" and m: "smallest tc m" and o_host: "org < num_hosts tc"
    and s: "dry tc m before (nodes_of s)" and flood: "ptype pkt = packet_type_code PACKET_TYPE_FLOOD"
    and calm: "calm tc clk org (From_user pkt) s" and step: "host_step tc clk org (From_user pkt) s = Some s'"
  shows "spreading tc m org before (nodes_of s')"
proof -
  obtain v where timers: "net_events tc (timer_events tc clk org s) (nodes_of s) = Some v"
    and inject: "net_events tc [Inject org pkt] v = Some (nodes_of s')"
    using host_step_split [OF ok o_host step] by auto
  have "\<forall>e \<in> set (timer_events tc clk org s). \<not> standing e \<and> \<not> floods_in e"
    using calm by (auto simp: timer_events_def calm_def standing_def floods_in_def split: if_splits)
  from net_events_inv [where I = "dry tc m before" and ok = "\<lambda>e. \<not> standing e \<and> \<not> floods_in e", OF _ timers this s]
  have v: "dry tc m before v" using dry_event [OF ok con m] by blast
  have ev: "net_event tc (Inject org pkt) v = Some (nodes_of s')" using inject by (simp add: bind_eq_Some_conv del: net_event.simps)
  have st: "stable tc m v" "ports_ok tc m v" using v by (simp_all add: dry_def)
  have calm: "\<not> standing (Inject org pkt)" by (simp add: standing_def)
  have "(\<lambda>k. floods (user v k)) = before" using v by (auto simp: dry_def)
  then have "spread tc m org before {org} (nodes_of s')"
    using spread_start [OF ok m st ev flood] v by (simp add: dry_def)
  moreover have "stable tc m (nodes_of s')" by (rule stable_event(1) [OF ok con m st(1) ev calm])
  moreover have "ports_ok tc m (nodes_of s')"
    using st(2) stable_port_ok [OF ok con m st(1) ev calm] by (simp add: ports_ok_def)
  ultimately show ?thesis unfolding spreading_def by blast
qed

lemma no_flood_events:
  assumes "no_flood tc clk i inp s" and "e \<in> set (timer_events tc clk i s @ input_events i inp)"
  shows "\<not> standing e \<and> \<not> floods_in e"
proof -
  have "\<not> standing e" using assms calm_events unfolding no_flood_def by blast
  moreover have "\<not> floods_in e"
    using assms by (cases inp) (auto simp: no_flood_def timer_events_def floods_in_def split: if_splits)
  ultimately show ?thesis ..
qed

lemma spreading_run:
  assumes "net_ok tc" and "connected tc" and "smallest tc m" and "net_run tc clk (no_flood tc clk) s s'"
    and "spreading tc m org before (nodes_of s)"
  shows "spreading tc m org before (nodes_of s')"
  by (rule net_run_inv [where I = "spreading tc m org before", OF assms(4,1,5),
        where ok = "\<lambda>e. \<not> standing e \<and> \<not> floods_in e"])
    (use spreading_event [OF assms(1-3)] no_flood_events in blast)+

lemma spreading_settled:
  assumes "net_ok tc" and "connected tc" and "smallest tc m"
    and "spreading tc m org before (nodes_of s)" and "settled tc s" and "i < num_hosts tc"
  shows "floods (user s i) = before i + (if i = org then 0 else 1)"
proof -
  obtain R where R: "spread tc m org before R (nodes_of s)" and v: "stable tc m (nodes_of s)"
    using assms(4) by (auto simp: spreading_def)
  have "R = {..<num_hosts tc}"
    using spread_end [OF assms(1-3) v R] assms(5) by (simp add: settled_def is_link_def)
  then show ?thesis using R assms(6) by (simp add: spread_def)
qed

section \<open>An example\<close>

text \<open>A ring of three hosts. Only the clock of host 0 advances, twice.\<close>

definition ring_net :: testcase where
  "ring_net = \<lparr>tc_graph = the (generate_topology (new_graph 3) RING []),
     tc_root_hello_interval_ms = 1000, tc_reelection_interval_ms = 5000\<rparr>"

lemma ring_net_code [code]:
  "ring_net = \<lparr>tc_graph =
      \<lparr>num_nodes = 3,
       nodes = map (\<lambda>a. \<lparr>gn_mixing_factor = 1, gn_do_random_routing = False, gn_link_costs = [1, 1],
                  gn_mixaddr = a\<rparr>) [0, 1, 2],
       topology = [[1, 2], [0, 2], [1, 0]]\<rparr>,
     tc_root_hello_interval_ms = 1000, tc_reelection_interval_ms = 5000\<rparr>"
  unfolding ring_net_def by code_simp

definition ring_clock :: "nat \<Rightarrow> clock" where
  "ring_clock i k = \<lparr>tv_sec = (if i = 0 then (if k < 4 then 0 else if k < 10 then 1 else 2) else 0), tv_nsec = 0\<rparr>"

lemma ring_num: "num_hosts ring_net = 3"
  by code_simp

lemma net_ok_generated:
  assumes "generate_topology (new_graph n) t idxs = Some (tc_graph tc)"
    and "distinct (map gn_mixaddr (nodes (tc_graph tc)))"
    and "- 1 \<notin> gn_mixaddr ` set (nodes (tc_graph tc))"
    and "list_all (\<lambda>ns. length ns \<le> 255) (topology (tc_graph tc))"
  shows "net_ok tc"
  using graph_wf_generate_topology [OF assms(1) graph_wf_new] assms(2-4) by (simp add: net_ok_def)

lemma ring_ok: "net_ok ring_net"
  by (rule net_ok_generated [of 3 RING "[]"]) code_simp+

lemma ring_connected: "connected ring_net"
proof -
  have "\<forall>r \<in> set [0..<3]. \<forall>i \<in> set [0..<3]. walk ring_net r (if r = i then 0 else 1) i" by code_simp
  then show ?thesis unfolding connected_def ring_num by (auto simp: Ball_def)
qed

lemma ring_smallest: "smallest ring_net 0"
proof -
  have "\<forall>i \<in> set [0..<3]. host_addr ring_net 0 \<le> host_addr ring_net i" by code_simp
  then show ?thesis by (auto simp: smallest_def ring_num)
qed

text \<open>The start, two rounds, and a flood of host 2.\<close>

definition ring_start :: snapshot where
  "ring_start = snapshot_of ring_net (net_init ring_net ring_clock)"

definition ring_round :: "snapshot \<Rightarrow> snapshot option" where
  "ring_round = round_snapshot ring_net ring_clock (calm ring_net ring_clock) 0
     [(0, From_port 0), (0, From_port 1), (1, From_port 0), (1, From_port 1), (2, From_port 0), (2, From_port 1)] Idle
     [(1, From_port 0), (0, From_port 0), (2, From_port 0), (0, From_port 1),
      (1, From_port 1), (2, From_port 1), (0, From_port 1), (1, From_port 1)]"

definition ring_round2 :: "snapshot \<Rightarrow> snapshot option" where
  "ring_round2 = round_snapshot ring_net ring_clock (calm ring_net ring_clock) 0 [] Idle
     [(1, From_port 0), (0, From_port 0), (2, From_port 0), (2, From_port 1), (0, From_port 1), (1, From_port 1)]"

definition ring_packet :: mixnet_packet where
  "ring_packet = flood_packet 0 0 0"

definition ring_inject :: "snapshot \<Rightarrow> snapshot option" where
  "ring_inject = run_snapshot ring_net ring_clock (calm ring_net ring_clock) [(2, From_user ring_packet)]"

definition ring_spread :: "snapshot \<Rightarrow> snapshot option" where
  "ring_spread = run_snapshot ring_net ring_clock (no_flood ring_net ring_clock) [(0, From_port 1), (1, From_port 0)]"

lemma ring_computes:
  "case Option.bind (ring_round ring_start) ring_round2 of
     None \<Rightarrow> False
   | Some t \<Rightarrow> (case Option.bind (ring_inject t) ring_spread of
         None \<Rightarrow> False
       | Some t' \<Rightarrow> list_all (list_all (\<lambda>ps. ps = [])) (wires t'))"
  by code_simp

lemma ring_rounds:
  "\<exists>s1 s2 s3 s4. hello_round ring_net ring_clock (calm ring_net ring_clock) 0 (net_init ring_net ring_clock) s1
     \<and> hello_round ring_net ring_clock (calm ring_net ring_clock) 0 s1 s2
     \<and> calm ring_net ring_clock 2 (From_user ring_packet) s2
     \<and> host_step ring_net ring_clock 2 (From_user ring_packet) s2 = Some s3
     \<and> net_run ring_net ring_clock (no_flood ring_net ring_clock) s3 s4 \<and> settled ring_net s4"
proof -
  obtain t1 t2 t3 t4 where t: "ring_round ring_start = Some t1" "ring_round2 t1 = Some t2"
    "ring_inject t2 = Some t3" "ring_spread t3 = Some t4"
    and quiet: "list_all (list_all (\<lambda>ps. ps = [])) (wires t4)"
    using ring_computes by (auto split: option.splits simp: bind_eq_Some_conv)
  have zero: "0 < num_hosts ring_net" and two: "2 < num_hosts ring_net" by (simp_all add: ring_num)
  obtain s1 where s1: "hello_round ring_net ring_clock (calm ring_net ring_clock) 0 (net_init ring_net ring_clock) s1"
    "agree ring_net (network_of t1) s1"
    using round_snapshot_hello_round [OF local_calm zero t(1) [unfolded ring_round_def ring_start_def] agree_snapshot]
    by blast
  obtain s2 where s2: "hello_round ring_net ring_clock (calm ring_net ring_clock) 0 s1 s2"
    "agree ring_net (network_of t2) s2"
    using round_snapshot_hello_round [OF local_calm zero t(2) [unfolded ring_round2_def] s1(2)] by blast
  obtain x where x: "calm ring_net ring_clock 2 (From_user ring_packet) (network_of t2)"
    "host_step ring_net ring_clock 2 (From_user ring_packet) (network_of t2) = Some x" "t3 = snapshot_of ring_net x"
    using t(3) by (auto simp: ring_inject_def split: if_splits option.splits)
  obtain s3 where s3: "host_step ring_net ring_clock 2 (From_user ring_packet) s2 = Some s3" "agree ring_net x s3"
    using agree_step [OF s2(2) two x(2)] by blast
  have "calm ring_net ring_clock 2 (From_user ring_packet) s2"
    using x(1) s2(2) two by (simp add: calm_def agree_def)
  moreover obtain s4 where s4: "net_run ring_net ring_clock (no_flood ring_net ring_clock) s3 s4"
    "agree ring_net (network_of t4) s4"
    using run_snapshot_net_run [OF local_no_flood t(4) [unfolded ring_spread_def] agree_trans [OF _ s3(2)]]
      agree_snapshot x(3) by blast
  moreover have "settled ring_net (network_of t4)"
  proof -
    obtain y where "t4 = snapshot_of ring_net y"
      using run_snapshot_shape [OF t(4) [unfolded ring_spread_def]] by blast
    then show ?thesis using settled_snapshot quiet by simp
  qed
  ultimately show ?thesis using s1(1) s2(1) s3(1) agree_settled [OF s4(2)] by blast
qed

text \<open>Two hosts: host 1 takes host 0 as its root, then stands for root itself, before a round of host 0.\<close>

definition pair_net :: testcase where
  "pair_net = \<lparr>tc_graph = the (generate_topology (new_graph 2) LINE []),
     tc_root_hello_interval_ms = 1000, tc_reelection_interval_ms = 5000\<rparr>"

lemma pair_net_code [code]:
  "pair_net = \<lparr>tc_graph =
      \<lparr>num_nodes = 2,
       nodes = map (\<lambda>a. \<lparr>gn_mixing_factor = 1, gn_do_random_routing = False, gn_link_costs = [1],
                  gn_mixaddr = a\<rparr>) [0, 1],
       topology = [[1], [0]]\<rparr>,
     tc_root_hello_interval_ms = 1000, tc_reelection_interval_ms = 5000\<rparr>"
  unfolding pair_net_def by code_simp

definition pair_clock :: "nat \<Rightarrow> clock" where
  "pair_clock i k = \<lparr>tv_sec = (if i = 0 then (if k < 2 then 0 else if k < 5 then 1 else 2)
     else if k < 4 then 0 else 5), tv_nsec = 0\<rparr>"

lemma pair_num: "num_hosts pair_net = 2"
  by code_simp

lemma pair_ok: "net_ok pair_net"
  by (rule net_ok_generated [of 2 LINE "[]"]) code_simp+

lemma pair_connected: "connected pair_net"
proof -
  have "\<forall>r \<in> set [0..<2]. \<forall>i \<in> set [0..<2]. walk pair_net r (if r = i then 0 else 1) i" by code_simp
  then show ?thesis unfolding connected_def pair_num by (auto simp: Ball_def)
qed

lemma pair_smallest: "smallest pair_net 0"
proof -
  have "\<forall>i \<in> set [0..<2]. host_addr pair_net 0 \<le> host_addr pair_net i" by code_simp
  then show ?thesis by (auto simp: smallest_def pair_num)
qed

definition pair_start :: "snapshot \<Rightarrow> snapshot option" where
  "pair_start = run_snapshot pair_net pair_clock (unwrapped pair_net pair_clock)
     [(1, From_port 0), (0, Idle), (1, From_port 0), (1, Idle)]"

definition pair_round :: "snapshot \<Rightarrow> snapshot option" where
  "pair_round = round_snapshot pair_net pair_clock
     (\<lambda>i inp s. calm pair_net pair_clock i inp s \<and> unwrapped pair_net pair_clock i inp s) 0
     [] Idle [(1, From_port 0), (0, From_port 0), (0, From_port 0), (0, From_port 0), (0, From_port 0), (0, From_port 0)]"

lemma pair_computes:
  "case pair_start (snapshot_of pair_net (net_init pair_net pair_clock)) of
     None \<Rightarrow> False
   | Some t \<Rightarrow> root_addr (nd (hosts t ! 1)) = 1 \<and> pair_round t \<noteq> None"
  by code_simp

lemma pair_rounds:
  "\<exists>s0 s. net_run pair_net pair_clock (unwrapped pair_net pair_clock) (net_init pair_net pair_clock) s0
     \<and> root_addr (nd (host s0 1)) = 1
     \<and> hello_round pair_net pair_clock
         (\<lambda>i inp s. calm pair_net pair_clock i inp s \<and> unwrapped pair_net pair_clock i inp s) 0 s0 s"
proof -
  obtain t1 t2 where t: "pair_start (snapshot_of pair_net (net_init pair_net pair_clock)) = Some t1"
    "root_addr (nd (hosts t1 ! 1)) = 1" "pair_round t1 = Some t2"
    using pair_computes by (auto split: option.splits)
  have zero: "0 < num_hosts pair_net" by (simp add: pair_num)
  obtain s0 where s0: "net_run pair_net pair_clock (unwrapped pair_net pair_clock) (net_init pair_net pair_clock) s0"
    "agree pair_net (network_of t1) s0"
    using run_snapshot_net_run [OF local_unwrapped t(1) [unfolded pair_start_def] agree_snapshot] by blast
  have "root_addr (nd (host s0 1)) = 1" using s0(2) t(2) by (simp add: agree_def pair_num network_of_def)
  moreover obtain s where "hello_round pair_net pair_clock
      (\<lambda>i inp s. calm pair_net pair_clock i inp s \<and> unwrapped pair_net pair_clock i inp s) 0 s0 s"
    using round_snapshot_hello_round [OF local_conj [OF local_calm local_unwrapped] zero t(3) [unfolded pair_round_def] s0(2)]
    by blast
  ultimately show ?thesis using s0(1) by blast
qed

section \<open>Properties\<close>

text \<open>
  C7: Whatever the hosts do, greet, give up their root, take packets in any order, and whatever
  users inject, every host's root is the address of a host of the topology, and at most its own.
\<close>

theorem network_roots_exist:
  assumes "net_ok tc" and "net_run tc clk any_step (net_init tc clk) s" and "i < num_hosts tc"
  shows "\<exists>r < num_hosts tc. root_addr (nd (host s i)) = host_addr tc r \<and> host_addr tc r \<le> host_addr tc i"
proof -
  have inv: "net_wf tc (nodes_of s) \<and> roots_exist tc (nodes_of s)"
    by (rule net_run_inv [where I = "\<lambda>v. net_wf tc v \<and> roots_exist tc v", OF assms(2,1), where ok = "\<lambda>e. True"])
      (use net_wf_init [OF assms(1)] roots_exist_init [OF assms(1)] roots_exist_event [OF assms(1)] in blast)+
  then obtain r where r: "r < num_hosts tc" "root_addr (nd (host s i)) = host_addr tc r"
    using assms(3) by (auto simp: roots_exist_def is_root_def)
  have "node_wf (config_of tc i) (nd (host s i))" using net_wfD(1) [of tc "nodes_of s" i] inv assms(3) by simp
  from node_wfD(1,8) [OF assms(1,3) this] have "host_addr tc r \<le> host_addr tc i" using r(2) by simp
  then show ?thesis using r by blast
qed

theorem network_roots_exist_witness:
  "\<exists>s. net_run pair_net pair_clock any_step (net_init pair_net pair_clock) s \<and> root_addr (nd (host s 1)) = 1
     \<and> (\<exists>r < num_hosts pair_net. root_addr (nd (host s 1)) = host_addr pair_net r
          \<and> host_addr pair_net r \<le> host_addr pair_net 1)"
proof -
  obtain s where s: "net_run pair_net pair_clock (unwrapped pair_net pair_clock) (net_init pair_net pair_clock) s"
    "root_addr (nd (host s 1)) = 1" using pair_rounds by blast
  have "net_run pair_net pair_clock any_step (net_init pair_net pair_clock) s"
    using s(1) by (rule net_run_weaken) (simp add: any_step_def)
  moreover have "1 < num_hosts pair_net" by (simp add: pair_num)
  ultimately show ?thesis using network_roots_exist [OF pair_ok] s(2) by blast
qed

text \<open>
  C1: In a connected topology, after a hello of the host with the smallest address and once all
  packets have been taken, without re-elections in between, every host has that address as its root,
  its distance to that host as its path length, and as its next hop the neighbour with the smallest
  address among those one step nearer. The announcements made at the start do not suffice, since a
  neighbour's first announcement only makes it known.
\<close>

theorem network_elects_smallest:
  assumes "net_ok tc" and "connected tc" and "smallest tc m"
    and "hello_round tc clk (calm tc clk) m (net_init tc clk) s" and "i < num_hosts tc"
  shows "root_addr (nd (host s i)) = host_addr tc m \<and> path_len (nd (host s i)) = int (dist tc m i)
    \<and> (i \<noteq> m \<longrightarrow> next_hop (nd (host s i)) \<in> host_addr tc ` parents tc m i
         \<and> (\<forall>j \<in> parents tc m i. next_hop (nd (host s i)) \<le> host_addr tc j))"
  using hello_round_elects [OF assms(1-3) calm_run [OF assms(1) net_run.stay] assms(4)] assms(5)
  by (simp add: elected_def)

theorem network_elects_smallest_witness:
  "\<exists>s. hello_round ring_net ring_clock (calm ring_net ring_clock) 0 (net_init ring_net ring_clock) s
     \<and> root_addr (nd (host s 2)) = host_addr ring_net 0"
proof -
  obtain s where s: "hello_round ring_net ring_clock (calm ring_net ring_clock) 0 (net_init ring_net ring_clock) s"
    using ring_rounds by blast
  have "2 < num_hosts ring_net" by (simp add: ring_num)
  from network_elects_smallest [OF ring_ok ring_connected ring_smallest s this] s show ?thesis by blast
qed

text \<open>
  C3: The election also recovers from re-elections: from any state of a run in which hosts gave up
  their roots any number of times, as long as no path length outgrew the 16 bits of an announcement,
  one hello of the host with the smallest address, followed by steps without re-elections until all
  packets have been taken, elects it with shortest paths everywhere.
\<close>

theorem network_recovers:
  assumes "net_ok tc" and "connected tc" and "smallest tc m"
    and "net_run tc clk (unwrapped tc clk) (net_init tc clk) s"
    and "hello_round tc clk (\<lambda>i inp s. calm tc clk i inp s \<and> unwrapped tc clk i inp s) m s s'"
  shows "elected tc m (nodes_of s')"
proof -
  let ?a = "\<lambda>i inp s. calm tc clk i inp s \<and> unwrapped tc clk i inp s"
  obtain s1 inp s2 where r: "net_run tc clk ?a s s1" "greets (config_of tc m) (clk m) (host s1 m)"
    "unwrapped tc clk m inp s1" "host_step tc clk m inp s1 = Some s2" "net_run tc clk ?a s2 s'" "settled tc s'"
    using assms(5) unfolding hello_round_def by blast
  have "net_run tc clk (unwrapped tc clk) s s1" using r(1) by (rule net_run_weaken) simp
  from unwrapped_run [OF assms(1) net_run_trans [OF this assms(4)]] have "sound tc (nodes_of s1)" .
  from unwrapped_wave_run [OF assms(1,3) r(5) unwrapped_greeting [OF assms(1,3) this r(2,4,3)]]
  obtain W where W: "sound tc (nodes_of s')" "wave tc m W (nodes_of s')" by blast
  show ?thesis using wave_end(2) [OF assms(1,2) W(1) assms(3) W(2)] settled_silent [OF r(6)] by blast
qed

theorem network_recovers_witness:
  "\<exists>s s'. net_run pair_net pair_clock (unwrapped pair_net pair_clock) (net_init pair_net pair_clock) s
     \<and> root_addr (nd (host s 1)) = 1 \<and> elected pair_net 0 (nodes_of s')"
  using pair_rounds network_recovers [OF pair_ok pair_connected pair_smallest] by blast

text \<open>
  C5: Announcements die out. After a run without re-elections and with no FLOOD packet on its way,
  hosts whose timers are not due cannot go on taking packets forever; and as long as a packet is on
  its way, its receiver can take it.
\<close>

theorem announcements_die_out:
  assumes "net_ok tc" and "net_run tc clk (calm tc clk) (net_init tc clk) s" and "only_stp tc s"
  shows "\<not> (\<exists>f. f 0 = s \<and> (\<forall>k. reception tc clk (f k) (f (Suc k))))
    \<and> (settled tc s \<or> (\<exists>i p s'. is_link tc i p \<and> host_step tc clk i (From_port p) s = Some s'))"
proof
  have s: "sound tc (nodes_of s) \<and> trails tc (nodes_of s) \<and> only_stp tc (nodes_of s)"
    using calm_run [OF assms(1,2)] assms(3) by (simp add: only_stp_def)
  then show "\<not> (\<exists>f. f 0 = s \<and> (\<forall>k. reception tc clk (f k) (f (Suc k))))"
    by (rule no_endless_receptions [OF assms(1)])
  show "settled tc s \<or> (\<exists>i p s'. is_link tc i p \<and> host_step tc clk i (From_port p) s = Some s')"
    using packet_from_link [OF assms(1) soundD(2)] s unfolding settled_def is_link_def by blast
qed

theorem announcements_die_out_witness:
  "\<not> (\<exists>f. f 0 = net_init ring_net ring_clock \<and> (\<forall>k. reception ring_net ring_clock (f k) (f (Suc k))))"
  using announcements_die_out [OF ring_ok net_run.stay only_stp_init [OF ring_ok]] by blast

text \<open>
  C4: The ports form the tree. After a second round, each port is open exactly when its neighbour is
  the host's next hop or is one step farther from the root; all others are blocked.
\<close>

theorem ports_form_tree:
  assumes "net_ok tc" and "connected tc" and "smallest tc m"
    and "hello_round tc clk (calm tc clk) m (net_init tc clk) s" and "hello_round tc clk (calm tc clk) m s s'"
    and "j < num_hosts tc" and "q < degree tc j"
  shows "neighbors_blocked (nd (host s' j)) ! q =
    (\<not> (next_hop (nd (host s' j)) = host_addr tc (adj tc j ! q)
        \<or> dist tc m (adj tc j ! q) = Suc (dist tc m j)))"
proof -
  have "settled tc s" using assms(4) by (auto simp: hello_round_def)
  then have "stable tc m (nodes_of s)"
    using settled_stable hello_round_elects [OF assms(1-3) calm_run [OF assms(1) net_run.stay] assms(4)] by blast
  from hello_round_ports [OF assms(1-3) this assms(5)] assms(6,7) show ?thesis
    by (simp add: ports_ok_def port_ok_def tree_port_def is_link_def)
qed

theorem ports_form_tree_witness:
  "\<exists>s s'. hello_round ring_net ring_clock (calm ring_net ring_clock) 0 (net_init ring_net ring_clock) s
     \<and> hello_round ring_net ring_clock (calm ring_net ring_clock) 0 s s'
     \<and> neighbors_blocked (nd (host s' 2)) ! 0 =
         (\<not> (next_hop (nd (host s' 2)) = host_addr ring_net 1 \<or> dist ring_net 0 1 = Suc (dist ring_net 0 2)))"
proof -
  obtain s s' where s: "hello_round ring_net ring_clock (calm ring_net ring_clock) 0 (net_init ring_net ring_clock) s"
    "hello_round ring_net ring_clock (calm ring_net ring_clock) 0 s s'" using ring_rounds by blast
  have at: "2 < num_hosts ring_net" "0 < degree ring_net 2" "adj ring_net 2 ! 0 = 1" by code_simp+
  from ports_form_tree [OF ring_ok ring_connected ring_smallest s at(1,2)] at(3) s show ?thesis by auto
qed

text \<open>
  C2: After the second round, a FLOOD packet that a user injects reaches every other user exactly
  once, and its own user never: this is the count of FLOOD packets each user got, once all packets
  have been taken and while no other FLOOD packet is injected and no host gives up its root.
\<close>

theorem flood_reaches_everyone_once:
  assumes "net_ok tc" and "connected tc" and "smallest tc m"
    and "hello_round tc clk (calm tc clk) m (net_init tc clk) s1" and "hello_round tc clk (calm tc clk) m s1 s2"
    and "org < num_hosts tc" and "ptype pkt = packet_type_code PACKET_TYPE_FLOOD"
    and "calm tc clk org (From_user pkt) s2" and "host_step tc clk org (From_user pkt) s2 = Some s3"
    and "net_run tc clk (no_flood tc clk) s3 s" and "settled tc s" and "i < num_hosts tc"
  shows "floods (user s i) = floods (user s2 i) + (if i = org then 0 else 1)"
proof -
  have quiet: "settled tc s1" "settled tc s2" using assms(4,5) by (auto simp: hello_round_def)
  have "stable tc m (nodes_of s1)"
    using settled_stable hello_round_elects [OF assms(1-3) calm_run [OF assms(1) net_run.stay] assms(4)] quiet(1) by blast
  then have "dry tc m (\<lambda>i. floods (user s2 i)) (nodes_of s2)"
    using hello_round_ports [OF assms(1-3) _ assms(5)] settled_dry quiet(2) by blast
  from injection_spreads [OF assms(1-3,6) this assms(7-9)]
  have "spreading tc m org (\<lambda>i. floods (user s2 i)) (nodes_of s)"
    by (rule spreading_run [OF assms(1-3,10)])
  from spreading_settled [OF assms(1-3) this assms(11,12)] show ?thesis .
qed

theorem flood_reaches_everyone_once_witness:
  "\<exists>s1 s2 s3 s. hello_round ring_net ring_clock (calm ring_net ring_clock) 0 s1 s2
     \<and> host_step ring_net ring_clock 2 (From_user ring_packet) s2 = Some s3
     \<and> net_run ring_net ring_clock (no_flood ring_net ring_clock) s3 s
     \<and> floods (user s 1) = floods (user s2 1) + 1 \<and> floods (user s 2) = floods (user s2 2)"
proof -
  obtain s1 s2 s3 s where s:
    "hello_round ring_net ring_clock (calm ring_net ring_clock) 0 (net_init ring_net ring_clock) s1"
    "hello_round ring_net ring_clock (calm ring_net ring_clock) 0 s1 s2"
    "calm ring_net ring_clock 2 (From_user ring_packet) s2"
    "host_step ring_net ring_clock 2 (From_user ring_packet) s2 = Some s3"
    "net_run ring_net ring_clock (no_flood ring_net ring_clock) s3 s" "settled ring_net s"
    using ring_rounds by blast
  have at: "2 < num_hosts ring_net" "1 < num_hosts ring_net" by (simp_all add: ring_num)
  have flood: "ptype ring_packet = packet_type_code PACKET_TYPE_FLOOD" by code_simp
  note F = flood_reaches_everyone_once [OF ring_ok ring_connected ring_smallest s(1,2) at(1) flood s(3-6)]
  have "floods (user s 1) = floods (user s2 1) + 1" "floods (user s 2) = floods (user s2 2)"
    using F [OF at(2)] F [OF at(1)] by simp_all
  then show ?thesis using s(2,4,5) by blast
qed

end
