(* ===== verification/ReferenceTree.thy ===== *)
theory ReferenceTree
  imports NetworkResults
begin

text \<open>
  The spanning tree by breadth-first search, as an executable reference: each component's root is its
  host with the smallest address, and each other host's parent is the neighbour with the smallest
  address among those one step nearer to the root. A network that has elected its root has exactly
  this tree as its next hops.
\<close>

section \<open>Breadth-first search\<close>

text \<open>A network is given by its neighbour lists \<open>nb\<close>.\<close>

definition add_new :: "'v \<Rightarrow> 'v list \<Rightarrow> 'v list" where
  "add_new j b = (if j \<in> set b then b else b @ [j])"

definition grow :: "('v \<Rightarrow> 'v list) \<Rightarrow> 'v list \<Rightarrow> 'v list" where
  "grow nb b = fold add_new (concat (map nb b)) b"

text \<open>The hosts within 0, 1, ..., \<open>k\<close> steps of those in \<open>b\<close>.\<close>

fun balls :: "('v \<Rightarrow> 'v list) \<Rightarrow> nat \<Rightarrow> 'v list \<Rightarrow> 'v list list" where
  "balls nb 0 b = [b]"
| "balls nb (Suc k) b = b # balls nb k (grow nb b)"

definition closure :: "('v \<Rightarrow> 'v list) \<Rightarrow> nat \<Rightarrow> 'v \<Rightarrow> 'v list" where
  "closure nb n i = last (balls nb n [i])"

definition distance :: "'v list list \<Rightarrow> 'v \<Rightarrow> nat" where
  "distance bs i = length (takeWhile (\<lambda>b. i \<notin> set b) bs)"

definition tree_parent :: "('v \<Rightarrow> 'v list) \<Rightarrow> ('v \<Rightarrow> 'a::linorder) \<Rightarrow> 'v list list \<Rightarrow> 'v \<Rightarrow> 'v" where
  "tree_parent nb addr bs i = arg_min_list addr (filter (\<lambda>j. Suc (distance bs j) = distance bs i) (nb i))"

text \<open>The edges of a component's tree, from child to parent, and those of all components.\<close>

definition component_tree ::
  "('v \<Rightarrow> 'v list) \<Rightarrow> ('v \<Rightarrow> 'a::linorder) \<Rightarrow> nat \<Rightarrow> 'v list \<Rightarrow> ('v \<times> 'v) list" where
  "component_tree nb addr n c =
     (let m = arg_min_list addr c; bs = balls nb n [m]
      in map (\<lambda>i. (i, tree_parent nb addr bs i)) (filter (\<lambda>i. i \<noteq> m) c))"

definition components :: "('v \<Rightarrow> 'v list) \<Rightarrow> 'v list \<Rightarrow> 'v list list" where
  "components nb vs =
     fold (\<lambda>i cs. if list_ex (\<lambda>c. i \<in> set c) cs then cs else closure nb (length vs) i # cs) vs []"

definition reference_tree ::
  "('v \<Rightarrow> 'v list) \<Rightarrow> ('v \<Rightarrow> 'a::linorder) \<Rightarrow> 'v list \<Rightarrow> ('v \<times> 'v) list" where
  "reference_tree nb addr vs = concat (map (component_tree nb addr (length vs)) (components nb vs))"

section \<open>What the search finds\<close>

lemma add_new_fold:
  "set (fold add_new xs b) = set b \<union> set xs" "distinct b \<Longrightarrow> distinct (fold add_new xs b)"
  by (induction xs arbitrary: b) (auto simp: add_new_def)

lemma set_grow: "set (grow nb b) = set b \<union> (\<Union>j \<in> set b. set (nb j))"
  by (simp add: grow_def add_new_fold)

lemma distinct_grow: "distinct b \<Longrightarrow> distinct (grow nb b)"
  by (simp add: grow_def add_new_fold)

lemma length_balls [simp]: "length (balls nb n b) = Suc n"
  by (induction n arbitrary: b) simp_all

lemma nth_balls: "k \<le> n \<Longrightarrow> balls nb n b ! k = (grow nb ^^ k) b"
proof (induction k arbitrary: n b)
  case 0
  then show ?case by (cases n) simp_all
next
  case (Suc k)
  then obtain l where "n = Suc l" "k \<le> l" by (cases n) auto
  then show ?case using Suc.IH [of l "grow nb b"] by (simp add: funpow_swap1)
qed

text \<open>For evaluation: the search is over when a step finds nothing.\<close>

lemma balls_constant: "grow nb b = b \<Longrightarrow> balls nb k b = replicate (Suc k) b"
  by (induction k) simp_all

lemma balls_code [code]:
  "balls nb k b =
     (if k = 0 then [b]
      else let c = grow nb b in if c = b then replicate (Suc k) b else b # balls nb (k - 1) c)"
  by (cases k) (simp_all add: Let_def balls_constant)

lemma closure_funpow: "closure nb n i = (grow nb ^^ n) [i]"
proof -
  have "balls nb n [i] \<noteq> []" by (cases n) simp_all
  then show ?thesis by (simp add: closure_def last_conv_nth nth_balls)
qed

lemma distinct_funpow_grow: "distinct ((grow nb ^^ k) [i])"
  by (induction k) (simp_all add: distinct_grow)

lemma ball_hosts:
  assumes "net_ok tc" and "r < num_hosts tc"
  shows "j \<in> set ((grow (adj tc) ^^ k) [r]) \<Longrightarrow> j < num_hosts tc"
  using assms net_ok_adj(4) [OF assms(1)] by (induction k arbitrary: j) (auto simp: set_grow)

lemma ball_walk:
  assumes ok: "net_ok tc" and r: "r < num_hosts tc" and i: "i < num_hosts tc"
  shows "i \<in> set ((grow (adj tc) ^^ k) [r]) \<longleftrightarrow> (\<exists>l \<le> k. walk tc r l i)"
  using i
proof (induction k arbitrary: i)
  case (Suc k)
  note inside = ball_hosts [OF ok r]
  have "i \<in> set ((grow (adj tc) ^^ Suc k) [r]) \<longleftrightarrow>
      i \<in> set ((grow (adj tc) ^^ k) [r]) \<or> (\<exists>j \<in> set (adj tc i). j \<in> set ((grow (adj tc) ^^ k) [r]))"
    using net_ok_adj(5) [OF ok] inside Suc.prems unfolding funpow.simps o_apply set_grow by blast
  also have "\<dots> \<longleftrightarrow> (\<exists>l \<le> k. walk tc r l i) \<or> (\<exists>j \<in> set (adj tc i). \<exists>l \<le> k. walk tc r l j)"
    using Suc net_ok_adj(4) [OF ok Suc.prems] by auto
  also have "\<dots> \<longleftrightarrow> (\<exists>l \<le> Suc k. walk tc r l i)"
  proof
    assume "(\<exists>l \<le> k. walk tc r l i) \<or> (\<exists>j \<in> set (adj tc i). \<exists>l \<le> k. walk tc r l j)"
    then show "\<exists>l \<le> Suc k. walk tc r l i"
    proof
      assume "\<exists>j \<in> set (adj tc i). \<exists>l \<le> k. walk tc r l j"
      then obtain j l where "j \<in> set (adj tc i)" "l \<le> k" "walk tc r l j" by blast
      then show ?thesis by (intro exI [of _ "Suc l"]) auto
    qed (use le_SucI in blast)
  next
    assume "\<exists>l \<le> Suc k. walk tc r l i"
    then obtain l where l: "l \<le> Suc k" "walk tc r l i" by blast
    show "(\<exists>l \<le> k. walk tc r l i) \<or> (\<exists>j \<in> set (adj tc i). \<exists>l \<le> k. walk tc r l j)"
    proof (cases l)
      case 0
      then show ?thesis using l by blast
    next
      case (Suc l')
      then show ?thesis using l by auto
    qed
  qed
  finally show ?case .
qed auto

lemma dist_less:
  assumes ok: "net_ok tc" and con: "connected tc" and r: "r < num_hosts tc" and i: "i < num_hosts tc"
  shows "dist tc r i < num_hosts tc"
proof -
  have "\<exists>j < num_hosts tc. dist tc r j = k" if "k \<le> dist tc r i" for k
    using that i
  proof (induction "dist tc r i - k" arbitrary: i)
    case 0
    then show ?case by auto
  next
    case (Suc d)
    then obtain l where l: "dist tc r i = Suc l" "k \<le> l" by (cases "dist tc r i") auto
    obtain j where "j < num_hosts tc" "dist tc r j = l" using dist_pred [OF con r ok Suc.prems(2) l(1)] by metis
    then show ?case using Suc.hyps(1) [of j] Suc.hyps(2) l by auto
  qed
  then have "{..dist tc r i} \<subseteq> dist tc r ` {..<num_hosts tc}" by auto
  then have "card {..dist tc r i} \<le> card {..<num_hosts tc}" by (rule surj_card_le [rotated]) simp
  then show ?thesis by simp
qed

lemma distance_dist:
  assumes ok: "net_ok tc" and con: "connected tc" and r: "r < num_hosts tc" and i: "i < num_hosts tc"
  shows "distance (balls (adj tc) (num_hosts tc) [r]) i = dist tc r i"
proof -
  let ?bs = "balls (adj tc) (num_hosts tc) [r]"
  have at: "i \<in> set (?bs ! k) \<longleftrightarrow> dist tc r i \<le> k" if "k \<le> num_hosts tc" for k
    using that ball_walk [OF ok r i, of k] walk_dist [OF con r i] dist_le [of tc r _ i]
    by (auto simp: nth_balls intro: order_trans)
  have d: "dist tc r i < num_hosts tc" by (rule dist_less [OF assms])
  have "takeWhile (\<lambda>b. i \<notin> set b) ?bs = take (dist tc r i) ?bs"
    using at d by (intro takeWhile_eq_take_P_nth) simp_all
  then show ?thesis using d by (simp add: distance_def)
qed

lemma closure_all:
  assumes ok: "net_ok tc" and con: "connected tc" and r: "r < num_hosts tc"
  shows "set (closure (adj tc) (num_hosts tc) r) = {..<num_hosts tc}"
proof (intro equalityI subsetI)
  fix i assume "i \<in> set (closure (adj tc) (num_hosts tc) r)"
  then show "i \<in> {..<num_hosts tc}" using ball_hosts [OF ok r] by (simp add: closure_funpow)
next
  fix i assume "i \<in> {..<num_hosts tc}"
  then have i: "i < num_hosts tc" by simp
  have "dist tc r i \<le> num_hosts tc" using dist_less [OF ok con r i] by simp
  then show "i \<in> set (closure (adj tc) (num_hosts tc) r)"
    using ball_walk [OF ok r i, of "num_hosts tc"] walk_dist [OF con r i] by (auto simp: closure_funpow)
qed

text \<open>A connected network is one component.\<close>

lemma components_connected:
  assumes ok: "net_ok tc" and con: "connected tc" and n: "0 < num_hosts tc"
  shows "components (adj tc) [0..<num_hosts tc] = [closure (adj tc) (num_hosts tc) 0]"
proof -
  let ?c = "closure (adj tc) (num_hosts tc) 0"
  let ?f = "\<lambda>i cs. if list_ex (\<lambda>c. i \<in> set c) cs then cs else closure (adj tc) (num_hosts tc) i # cs"
  have rest: "fold ?f is [?c] = [?c]" if "set is \<subseteq> {..<num_hosts tc}" for "is"
    using that by (induction "is") (auto simp: closure_all [OF ok con n])
  have "[0..<num_hosts tc] = 0 # [1..<num_hosts tc]" using n by (simp add: upt_conv_Cons)
  moreover have "components (adj tc) [0..<num_hosts tc] = fold ?f [0..<num_hosts tc] []"
    unfolding components_def length_upt diff_zero ..
  ultimately have "components (adj tc) [0..<num_hosts tc] = fold ?f [1..<num_hosts tc] [?c]" by simp
  moreover have "set [1..<num_hosts tc] \<subseteq> {..<num_hosts tc}" by auto
  ultimately show ?thesis using rest by simp
qed

lemma arg_min_list_least:
  "xs \<noteq> [] \<Longrightarrow> x \<in> set xs \<Longrightarrow> f (arg_min_list f xs) \<le> f x"
  by (simp add: f_arg_min_list_f)

section \<open>The elected tree is the reference\<close>

lemma reference_parent:
  assumes ok: "net_ok tc" and con: "connected tc" and m: "smallest tc m"
    and v: "elected tc m v" and i: "i < num_hosts tc" "i \<noteq> m"
  defines "k \<equiv> tree_parent (adj tc) (host_addr tc) (balls (adj tc) (num_hosts tc) [m]) i"
  shows "k \<in> parents tc m i" and "next_hop (host v i) = host_addr tc k"
proof -
  have mN: "m < num_hosts tc" using m by (simp add: smallest_def)
  let ?ps = "filter (\<lambda>j. Suc (dist tc m j) = dist tc m i) (adj tc i)"
  have "filter (\<lambda>j. Suc (distance (balls (adj tc) (num_hosts tc) [m]) j)
      = distance (balls (adj tc) (num_hosts tc) [m]) i) (adj tc i) = ?ps"
    using distance_dist [OF ok con mN] i(1) net_ok_adj(4) [OF ok i(1)] by (intro filter_cong) auto
  then have k: "k = arg_min_list (host_addr tc) ?ps" by (simp add: k_def tree_parent_def)
  have ps: "set ?ps = parents tc m i" by (auto simp: parents_def)
  have hop: "next_hop (host v i) \<in> host_addr tc ` parents tc m i"
    "\<And>j. j \<in> parents tc m i \<Longrightarrow> next_hop (host v i) \<le> host_addr tc j"
    using v i unfolding elected_def by blast+
  then have some: "?ps \<noteq> []" using ps by (metis image_empty empty_iff set_empty)
  show kp: "k \<in> parents tc m i" using arg_min_list_in [OF some, of "host_addr tc"] unfolding k ps .
  obtain j where j: "j \<in> parents tc m i" "next_hop (host v i) = host_addr tc j" using hop(1) by blast
  have "host_addr tc k \<le> host_addr tc j" unfolding k using arg_min_list_least [OF some] j(1) ps by blast
  then show "next_hop (host v i) = host_addr tc k" using hop(2) [OF kp] j(2) by simp
qed

lemma reference_tree_elected:
  assumes ok: "net_ok tc" and con: "connected tc" and m: "smallest tc m" and v: "elected tc m v"
  shows "set (reference_tree (adj tc) (host_addr tc) [0..<num_hosts tc]) =
    {(i, k). i < num_hosts tc \<and> i \<noteq> m \<and> k < num_hosts tc \<and> next_hop (host v i) = host_addr tc k}"
proof -
  have mN: "m < num_hosts tc" using m by (simp add: smallest_def)
  let ?c = "closure (adj tc) (num_hosts tc) 0" and ?n = "num_hosts tc"
  have n: "0 < ?n" using mN by simp
  have c: "set ?c = {..<?n}" by (rule closure_all [OF ok con n])
  have "?c \<noteq> []" using c n by (metis lessThan_iff empty_iff set_empty)
  then have "arg_min_list (host_addr tc) ?c < ?n" "host_addr tc (arg_min_list (host_addr tc) ?c) \<le> host_addr tc m"
    using arg_min_list_in [of ?c "host_addr tc"] arg_min_list_least [of ?c m "host_addr tc"] c mN by auto
  then have root: "arg_min_list (host_addr tc) ?c = m"
    using m host_addr_inj [OF ok _ mN] unfolding smallest_def by (metis order_antisym)
  let ?p = "tree_parent (adj tc) (host_addr tc) (balls (adj tc) ?n [m])"
  have "set (reference_tree (adj tc) (host_addr tc) [0..<?n]) = (\<lambda>i. (i, ?p i)) ` {i. i < ?n \<and> i \<noteq> m}"
    using c by (auto simp: reference_tree_def components_connected [OF ok con n] component_tree_def root Let_def)
  also have "\<dots> = {(i, k). i < ?n \<and> i \<noteq> m \<and> k < ?n \<and> next_hop (host v i) = host_addr tc k}"
  proof (intro set_eqI)
    fix x :: "nat \<times> nat"
    obtain i k where x: "x = (i, k)" by fastforce
    have "k = ?p i \<longleftrightarrow> k < ?n \<and> next_hop (host v i) = host_addr tc k" if i: "i < ?n" "i \<noteq> m"
    proof -
      note P = reference_parent [OF ok con m v i]
      have "?p i < ?n" using P(1) net_ok_adj(4) [OF ok i(1)] by (simp add: parents_def)
      then show ?thesis using P(2) host_addr_inj [OF ok] by metis
    qed
    then show "x \<in> (\<lambda>i. (i, ?p i)) ` {i. i < ?n \<and> i \<noteq> m} \<longleftrightarrow>
        x \<in> {(i, k). i < ?n \<and> i \<noteq> m \<and> k < ?n \<and> next_hop (host v i) = host_addr tc k}"
      by (auto simp: x)
  qed
  finally show ?thesis .
qed

text \<open>
  C6: The next hops that the hosts of a network agree on are those of a breadth-first search: after a
  hello round from the start, the pairs of a host other than the root and its next hop are exactly
  the edges of the reference tree.
\<close>

theorem network_builds_reference_tree:
  assumes "net_ok tc" and "connected tc" and "smallest tc m"
    and "hello_round tc clk (calm tc clk) m (net_init tc clk) s"
  shows "set (reference_tree (adj tc) (host_addr tc) [0..<num_hosts tc]) =
    {(i, k). i < num_hosts tc \<and> i \<noteq> m \<and> k < num_hosts tc
       \<and> next_hop (nd (host s i)) = host_addr tc k}"
proof -
  have "elected tc m (nodes_of s)"
    using hello_round_elects [OF assms(1-3) calm_run [OF assms(1) net_run.stay] assms(4)] by blast
  from reference_tree_elected [OF assms(1-3) this] show ?thesis by simp
qed

theorem network_builds_reference_tree_witness:
  "\<exists>s. hello_round ring_net ring_clock (calm ring_net ring_clock) 0 (net_init ring_net ring_clock) s
     \<and> next_hop (nd (host s 2)) = host_addr ring_net 0"
proof -
  obtain s where s: "hello_round ring_net ring_clock (calm ring_net ring_clock) 0 (net_init ring_net ring_clock) s"
    using ring_rounds by blast
  have "reference_tree (adj ring_net) (host_addr ring_net) [0..<3] = [(1, 0), (2, 0)]" by code_simp
  with network_builds_reference_tree [OF ring_ok ring_connected ring_smallest s] s show ?thesis
    by (auto simp: ring_num set_eq_iff)
qed

end
