(* ===== verification/TestcaseResults.thy ===== *)
theory TestcaseResults
  imports Testcases ReferenceTree OrchestratorResults
begin

text \<open>
  The properties of the test programs: what a passed run shows, that their topologies are ones the
  network properties apply to, and that the counts they expect are those of the reference tree.
\<close>

section \<open>The calls of a run\<close>

text \<open>Calls that all succeed, one after the other, with the capture thread running before each.\<close>

fun after_calls :: "orc_env \<Rightarrow> api_call list \<Rightarrow> orchestrator \<Rightarrow> orchestrator \<Rightarrow> bool" where
  "after_calls env [] s s' \<longleftrightarrow> s' = s"
| "after_calls env (c # cs) s s' \<longleftrightarrow>
     (\<exists>s1. api env c (let_capture_run env s) = Some (Return NONE s1) \<and> after_calls env cs s1 s')"

definition call_fails ::
  "orc_env \<Rightarrow> api_call list \<Rightarrow> orchestrator \<Rightarrow> error_code \<Rightarrow> orchestrator \<Rightarrow> bool" where
  "call_fails env cs s ec s' \<longleftrightarrow> ec \<noteq> NONE \<and> (\<exists>cs1 c cs2 s1. cs = cs1 @ c # cs2 \<and> after_calls env cs1 s s1
     \<and> api env c (let_capture_run env s1) = Some (Return ec s'))"

lemma call_fails_Nil [simp]: "\<not> call_fails env [] s ec s'"
  by (simp add: call_fails_def)

lemma call_fails_Cons:
  "call_fails env (c # cs) s ec s' \<longleftrightarrow>
     ec \<noteq> NONE \<and> api env c (let_capture_run env s) = Some (Return ec s')
     \<or> (\<exists>s1. api env c (let_capture_run env s) = Some (Return NONE s1) \<and> call_fails env cs s1 ec s')"
proof
  assume "call_fails env (c # cs) s ec s'"
  then obtain cs1 d cs2 s1 where d: "ec \<noteq> NONE" "c # cs = cs1 @ d # cs2" "after_calls env cs1 s s1"
    "api env d (let_capture_run env s1) = Some (Return ec s')" unfolding call_fails_def by blast
  then show "ec \<noteq> NONE \<and> api env c (let_capture_run env s) = Some (Return ec s')
     \<or> (\<exists>s1. api env c (let_capture_run env s) = Some (Return NONE s1) \<and> call_fails env cs s1 ec s')"
    by (cases cs1) (auto simp: call_fails_def)
next
  assume "ec \<noteq> NONE \<and> api env c (let_capture_run env s) = Some (Return ec s')
     \<or> (\<exists>s1. api env c (let_capture_run env s) = Some (Return NONE s1) \<and> call_fails env cs s1 ec s')"
  then show "call_fails env (c # cs) s ec s'"
  proof
    assume "ec \<noteq> NONE \<and> api env c (let_capture_run env s) = Some (Return ec s')"
    then show ?thesis unfolding call_fails_def by (metis after_calls.simps(1) append_Nil)
  next
    assume "\<exists>s1. api env c (let_capture_run env s) = Some (Return NONE s1) \<and> call_fails env cs s1 ec s'"
    then show ?thesis unfolding call_fails_def by (metis after_calls.simps(2) append_Cons)
  qed
qed

lemma script_of_calls_result:
  "run_script env (script_of_calls cs) s = Some (Return ec s') \<longleftrightarrow>
     (\<exists>s1. s' = let_capture_run env s1
        \<and> (if ec = NONE then after_calls env cs s s1 else call_fails env cs s ec s1))"
proof (induction cs arbitrary: s)
  case Nil
  show ?case by (auto simp: script_of_calls_def)
next
  case (Cons c cs)
  have "script_of_calls (c # cs) = Call c (\<lambda>ec. if ec \<noteq> NONE then Finish ec else script_of_calls cs)"
    unfolding script_of_calls_def foldr_Cons o_apply die_on_call_error_def ..
  then show ?case
    using Cons.IH by (auto simp: call_fails_Cons split: option.splits progress.splits)
qed

definition flood_captures :: "orchestrator \<Rightarrow> nat" where
  "flood_captures s = length (filter (\<lambda>(fid, p). ptype p = packet_type_code PACKET_TYPE_FLOOD) (captured s))"

lemma final_count:
  "final_test_state t s = \<lparr>pass_pcap = True,
     pass_teardown = (of_nat (flood_captures s) = expected_count t), pcap_count = of_nat (flood_captures s)\<rparr>"
proof -
  have "fold (\<lambda>(fid, p). test_pcap fid p) cs st =
      st\<lparr>pcap_count := pcap_count st
        + of_nat (length (filter (\<lambda>(fid, p). ptype p = packet_type_code PACKET_TYPE_FLOOD) cs))\<rparr>" for cs st
    by (induction cs arbitrary: st) (auto simp: test_pcap_def add.assoc)
  then show ?thesis
    by (simp add: final_test_state_def flood_captures_def test_teardown_def new_test_state_def)
qed

lemma configured_idle: "idle (configure b (new_orchestrator mem tc n))"
  by (simp add: idle_def no_process_left_def configure_def new_orchestrator_def Let_def)

section \<open>What the programs expect\<close>

text \<open>
  The reference run of a program: links that are disabled, subscribed hosts, the tree, the count. A
  FLOOD packet goes over the links of the tree that are not disabled, and is counted at every
  subscribed host except its origin. The programs wait for five seconds after they disable links;
  when the re-election interval is shorter, the tree is that of the remaining links from then on,
  and is computed again with the next packet.
\<close>

record reference_state =
  disabled :: "(nat \<times> nat) list"
  subscribed :: "nat list"
  tree :: "(nat \<times> nat) list option"
  flood_count :: nat

definition live_links :: "testcase \<Rightarrow> (nat \<times> nat) list \<Rightarrow> nat \<Rightarrow> nat list" where
  "live_links tc down i = filter (\<lambda>j. (i, j) \<notin> set down \<and> (j, i) \<notin> set down) (adj tc i)"

definition live_tree :: "testcase \<Rightarrow> (nat \<times> nat) list \<Rightarrow> (nat \<times> nat) list" where
  "live_tree tc down = reference_tree (live_links tc down) (host_addr tc) [0..<num_hosts tc]"

definition current_tree :: "testcase \<Rightarrow> reference_state \<Rightarrow> (nat \<times> nat) list" where
  "current_tree tc w = (case tree w of None \<Rightarrow> live_tree tc (disabled w) | Some es \<Rightarrow> es)"

definition tree_neighbors :: "(nat \<times> nat) list \<Rightarrow> (nat \<times> nat) list \<Rightarrow> nat \<Rightarrow> nat list" where
  "tree_neighbors es down i = concat (map (\<lambda>(c, p).
     if (c, p) \<in> set down \<or> (p, c) \<in> set down then []
     else if c = i then [p] else if p = i then [c] else []) es)"

definition flood_reach :: "testcase \<Rightarrow> (nat \<times> nat) list \<Rightarrow> reference_state \<Rightarrow> nat \<Rightarrow> nat" where
  "flood_reach tc es w src = length (filter (\<lambda>j. j \<noteq> src \<and> j \<in> set (subscribed w))
     (closure (tree_neighbors es (disabled w)) (num_hosts tc) src))"

fun reference_call :: "testcase \<Rightarrow> api_call \<Rightarrow> reference_state \<Rightarrow> reference_state" where
  "reference_call tc (Change_subscription i v) w =
     w\<lparr>subscribed := (if v then [unat i] else []) @ filter (\<lambda>j. j \<noteq> unat i) (subscribed w)\<rparr>"
| "reference_call tc (Change_link_state a b v) w =
     (let rest = filter (\<lambda>e. e \<noteq> (unat a, unat b) \<and> e \<noteq> (unat b, unat a)) (disabled w)
      in w\<lparr>disabled := (if v then rest else (unat a, unat b) # rest),
           tree := (if tc_reelection_interval_ms tc \<le> 5000 then None else tree w)\<rparr>)"
| "reference_call tc (Send_packet a b ty data) w =
     (if ty = packet_type_code PACKET_TYPE_FLOOD
      then let es = current_tree tc w
        in w\<lparr>tree := Some es, flood_count := flood_count w + flood_reach tc es w (unat a)\<rparr>
      else w)"

definition reference_start :: "testcase \<Rightarrow> reference_state" where
  "reference_start tc = \<lparr>disabled = [], subscribed = [], tree = Some (live_tree tc []), flood_count = 0\<rparr>"

definition reference_run :: "test_program \<Rightarrow> graph \<Rightarrow> nat" where
  "reference_run t g = flood_count (fold (reference_call (test_config t g)) (run_calls t (num_nodes g))
     (reference_start (test_config t g)))"

definition reference_count :: "test_program \<Rightarrow> nat option" where
  "reference_count t = map_option (reference_run t) (setup_graph t)"

section \<open>Topologies\<close>

text \<open>One search decides whether a network is connected.\<close>

lemma walk_trans: "walk tc j b i \<Longrightarrow> walk tc r a j \<Longrightarrow> walk tc r (b + a) i"
  by (induction b arbitrary: i) auto

lemma walk_sym:
  assumes "net_ok tc"
  shows "walk tc r k i \<Longrightarrow> i < num_hosts tc \<Longrightarrow> walk tc i k r"
proof (induction k arbitrary: i)
  case (Suc k)
  then obtain j where j: "j \<in> set (adj tc i)" "walk tc r k j" by auto
  note A = net_ok_adj(4,5) [OF assms Suc.prems(2) j(1)]
  have "walk tc j k r" by (rule Suc.IH [OF j(2) A(1)])
  moreover have "walk tc i 1 j" using A(2) by simp
  ultimately have "walk tc i (k + 1) r" by (rule walk_trans)
  then show ?case by simp
qed auto

lemma connected_by_search:
  assumes ok: "net_ok tc" and n: "0 < num_hosts tc"
    and all: "list_all (\<lambda>i. i \<in> set (closure (adj tc) (num_hosts tc) 0)) [0..<num_hosts tc]"
  shows "connected tc"
  unfolding connected_def
proof (intro allI impI)
  have from_0: "\<exists>k. walk tc 0 k i" if "i < num_hosts tc" for i
    using all ball_walk [OF ok n that, of "num_hosts tc"] that by (auto simp: list_all_iff closure_funpow)
  fix r i assume "r < num_hosts tc" "i < num_hosts tc"
  then show "\<exists>k. walk tc r k i"
    using from_0 walk_sym [OF ok] walk_trans by metis
qed

definition addresses_fit :: "testcase \<Rightarrow> bool" where
  "addresses_fit tc \<longleftrightarrow> distinct (map gn_mixaddr (nodes (tc_graph tc)))
     \<and> - 1 \<notin> gn_mixaddr ` set (nodes (tc_graph tc)) \<and> list_all (\<lambda>ns. length ns \<le> 255) (topology (tc_graph tc))"

definition found_all :: "testcase \<Rightarrow> bool" where
  "found_all tc \<longleftrightarrow> 0 < num_hosts tc
     \<and> list_all (\<lambda>i. i \<in> set (closure (adj tc) (num_hosts tc) 0)) [0..<num_hosts tc]"

lemma test_graphs_wf: "t \<in> set cp1_tests \<Longrightarrow> setup_graph t = Some g \<Longrightarrow> graph_wf g"
  by (auto simp del: add_edges.simps simp: cp1_tests_def connected_tests_def
      testcase_line_easy_def testcase_line_hard_def testcase_ring_easy_def
      testcase_ring_hard_def testcase_full_mesh_easy_def testcase_full_mesh_hard_def
      testcase_tree_easy_def testcase_tree_hard_def testcase_tiebreak_multi_def
      testcase_tiebreak_parent_mesh_def testcase_tiebreak_parent_ring_def testcase_tiebreak_pathlen_def
      testcase_link_failure_ring_def testcase_link_failure_mesh_def testcase_link_failure_root_def
      testcase_unreachable_def
      small_tree_def bind_eq_Some_conv dest!: graph_wf_set_mixaddrs graph_wf_add_edges graph_wf_generate_topology
      intro: graph_wf_new)

section \<open>Evaluation\<close>

text \<open>One evaluation per program, which builds its topology once.\<close>

definition program_ok :: "bool \<Rightarrow> test_program \<Rightarrow> bool" where
  "program_ok con t \<longleftrightarrow>
     (case setup_graph t of
        None \<Rightarrow> False
      | Some g \<Rightarrow> addresses_fit (test_config t g) \<and> (con \<longrightarrow> found_all (test_config t g))
          \<and> reference_run t g = unat (expected_count t))"

lemma ok_line_easy: "program_ok True testcase_line_easy"
  by code_simp

lemma ok_line_hard: "program_ok True testcase_line_hard"
  by code_simp

lemma ok_ring_easy: "program_ok True testcase_ring_easy"
  by code_simp

lemma ok_ring_hard: "program_ok True testcase_ring_hard"
  by code_simp

lemma ok_full_mesh_easy: "program_ok True testcase_full_mesh_easy"
  by code_simp

lemma ok_full_mesh_hard: "program_ok True testcase_full_mesh_hard"
  by code_simp

lemma ok_tree_easy: "program_ok True testcase_tree_easy"
  by code_simp

lemma ok_tree_hard: "program_ok True testcase_tree_hard"
  by code_simp

lemma ok_tiebreak_multi: "program_ok True testcase_tiebreak_multi"
  by code_simp

lemma ok_tiebreak_parent_mesh: "program_ok True testcase_tiebreak_parent_mesh"
  by code_simp

lemma ok_tiebreak_parent_ring: "program_ok True testcase_tiebreak_parent_ring"
  by code_simp

lemma ok_tiebreak_pathlen: "program_ok True testcase_tiebreak_pathlen"
  by code_simp

lemma ok_link_failure_ring: "program_ok True testcase_link_failure_ring"
  by code_simp

lemma ok_link_failure_mesh: "program_ok True testcase_link_failure_mesh"
  by code_simp

lemma ok_link_failure_root: "program_ok True testcase_link_failure_root"
  by code_simp

lemma ok_unreachable: "program_ok False testcase_unreachable"
  by code_simp

lemma connected_tests_ok: "list_all (program_ok True) connected_tests"
  by (simp add: connected_tests_def
      ok_line_easy ok_line_hard ok_ring_easy ok_ring_hard
      ok_full_mesh_easy ok_full_mesh_hard ok_tree_easy ok_tree_hard
      ok_tiebreak_multi ok_tiebreak_parent_mesh ok_tiebreak_parent_ring ok_tiebreak_pathlen
      ok_link_failure_ring ok_link_failure_mesh ok_link_failure_root)

lemma program_ok_weaken: "program_ok con t \<Longrightarrow> program_ok False t"
  by (auto simp: program_ok_def split: option.splits)

lemma cp1_tests_ok: "list_all (program_ok False) cp1_tests"
  using connected_tests_ok ok_unreachable program_ok_weaken by (auto simp: cp1_tests_def list_all_iff)

lemma program_net_ok:
  assumes "t \<in> set cp1_tests" and "program_ok con t"
  obtains g where "setup_graph t = Some g" and "net_ok (test_config t g)"
    and "con \<Longrightarrow> connected (test_config t g)" and "reference_run t g = unat (expected_count t)"
proof -
  obtain g where g: "setup_graph t = Some g" "addresses_fit (test_config t g)"
    "con \<longrightarrow> found_all (test_config t g)" "reference_run t g = unat (expected_count t)"
    using assms(2) by (auto simp: program_ok_def split: option.splits)
  have "graph_wf g" by (rule test_graphs_wf [OF assms(1) g(1)])
  then have "net_ok (test_config t g)" using g(2) by (simp add: net_ok_def addresses_fit_def test_config_def)
  then show thesis using that g connected_by_search by (auto simp: found_all_def)
qed

section \<open>Properties\<close>

text \<open>
  The run of a test program is its calls in order: it succeeds exactly when every call returns
  no error, and otherwise ends with the error of the first call that returns one; no later call is
  made. The capture thread runs before each call and at the end.
\<close>

theorem test_run_result:
  "run_script env (script_of_calls cs) s = Some (Return ec s') \<longleftrightarrow>
     (\<exists>s1. s' = let_capture_run env s1
        \<and> (if ec = NONE then after_calls env cs s s1 else call_fails env cs s ec s1))"
  by (rule script_of_calls_result)


text \<open>A program without nodes.\<close>

definition empty_program :: test_program where
  "empty_program = \<lparr>setup_graph = Some (new_graph 0), root_hello_interval = default_root_hello_interval,
     reelection_interval = default_reelection_interval, run_calls = (\<lambda>n. []), expected_count = 0\<rparr>"

lemma empty_program_passes:
  "case run_testcase ex_orc_env (\<lambda>_. 0, \<lambda>_. 0) \<lparr>rxq = (\<lambda>_. []), txd = (\<lambda>_. [])\<rparr> True empty_program of
     Some (Return ec (pass, s)) \<Rightarrow> pass | _ \<Rightarrow> False"
  by code_simp




end
