(* ===== verification/ArgText.thy ===== *)
theory ArgText
  imports Prelude
begin

text \<open>
  The helpers of the argument parser (namespace \<open>details\<close> of
  src/external/argparse/argparse.hpp, and the static functions of class \<open>Argument\<close>): the values a
  \<open>std::any\<close> holds in this program and how they are shown, the exceptions, the conversion of text
  to numbers, and the recogniser of decimal literals that tells \<open>-5\<close> from an option. The
  recogniser is proved equal to the grammar in its comment, and the conversion of a number to
  inverse to its decimal text.
\<close>

section \<open>Exceptions and values\<close>

text \<open>
  \<open>std::range_error\<close> is a \<open>std::runtime_error\<close>; \<open>std::invalid_argument\<close> and \<open>std::out_of_range\<close>
  are \<open>std::logic_error\<close>s, and \<open>std::bad_any_cast\<close> is neither.
\<close>

datatype exception =
    Runtime_error string
  | Range_error string
  | Logic_error string
  | Invalid_argument string
  | Out_of_range
  | Bad_any_cast

fun is_runtime_error :: "exception \<Rightarrow> bool" where
  "is_runtime_error (Runtime_error _) = True"
| "is_runtime_error (Range_error _) = True"
| "is_runtime_error _ = False"

text \<open>An integer type of the program: whether it is signed, and its width in bits.\<close>

datatype int_type = Int_type (is_signed: bool) (int_width: nat)

abbreviation unsigned_int :: int_type where "unsigned_int \<equiv> Int_type False 32"

definition int_min :: "int_type \<Rightarrow> int" where
  "int_min t = (if is_signed t then - (2 ^ (int_width t - 1)) else 0)"

definition int_max :: "int_type \<Rightarrow> int" where
  "int_max t = (if is_signed t then 2 ^ (int_width t - 1) - 1 else 2 ^ int_width t - 1)"

text \<open>
  A \<open>std::any\<close>: empty, or a value with its type. Floating point values are left out.
\<close>

datatype any_type = Type_bool | Type_string | Type_int int_type | Type_list any_type

datatype any_value =
    No_value
  | Any_bool bool
  | Any_string string
  | Any_int int_type int
  | Any_list any_type "any_value list"

definition has_value :: "any_value \<Rightarrow> bool" where
  "has_value v \<longleftrightarrow> v \<noteq> No_value"

fun type_of_any :: "any_value \<Rightarrow> any_type option" where
  "type_of_any No_value = None"
| "type_of_any (Any_bool _) = Some Type_bool"
| "type_of_any (Any_string _) = Some Type_string"
| "type_of_any (Any_int t _) = Some (Type_int t)"
| "type_of_any (Any_list t _) = Some (Type_list t)"

definition any_cast :: "any_type \<Rightarrow> any_value \<Rightarrow> exception + any_value" where
  "any_cast t v = (if type_of_any v = Some t then Inr v else Inl Bad_any_cast)"

section \<open>Text of values\<close>

fun decimal :: "nat \<Rightarrow> string" where
  "decimal n =
     (if n < 10 then [char_of (48 + n)] else decimal (n div 10) @ [char_of (48 + n mod 10)])"

declare decimal.simps [simp del]

definition decimal_int :: "int \<Rightarrow> string" where
  "decimal_int i = (if i < 0 then CHR ''-'' # decimal (nat (- i)) else decimal (nat i))"

definition repr_max_container_size :: nat where
  "repr_max_container_size = 5"

text \<open>
  The first element, the ones after it up to a limit, a gap, and the last one. An integer of
  eight bits is a character type, and a stream shows it as a character.
\<close>

definition repr_container :: "string list \<Rightarrow> string" where
  "repr_container rs =
     (let size = length rs in
      ''{''
      @ (if size > 1
         then hd rs
              @ concat (map (\<lambda>r. '' '' @ r)
                  (take (min size repr_max_container_size - 2) (tl rs)))
              @ (if size \<le> repr_max_container_size then '' '' else ''...'')
         else [])
      @ (if size > 0 then last rs else [])
      @ ''}'')"

fun repr :: "any_value \<Rightarrow> string" where
  "repr No_value = ''<not representable>''"
| "repr (Any_bool b) = (if b then ''true'' else ''false'')"
| "repr (Any_string s) = CHR 0x22 # s @ [CHR 0x22]"
| "repr (Any_int t i) = (if int_width t = 8 then [char_of (nat (i mod 256))] else decimal_int i)"
| "repr (Any_list t vs) = repr_container (map repr vs)"

fun join :: "string list \<Rightarrow> string \<Rightarrow> string" where
  "join [] separator = []"
| "join [s] separator = s"
| "join (s # ss) separator = s @ separator @ join ss separator"

section \<open>Numbers from text\<close>

definition starts_with :: "string \<Rightarrow> string \<Rightarrow> bool" where
  "starts_with prefix s \<longleftrightarrow> take (length prefix) s = prefix"

definition consume_hex_prefix :: "string \<Rightarrow> bool \<times> string" where
  "consume_hex_prefix s =
     (if starts_with ''0x'' s \<or> starts_with ''0X'' s then (True, drop 2 s) else (False, s))"

text \<open>
  The standard library's \<open>std::from_chars\<close> on an integer type: a minus sign if the type is
  signed, then the longest run of digits of the base, and the number of characters read. No digit
  is \<open>invalid_argument\<close>, a value outside the type is \<open>result_out_of_range\<close>.
\<close>

definition digit_value :: "nat \<Rightarrow> char \<Rightarrow> nat option" where
  "digit_value base c =
     (let n = (of_char c :: nat);
          d = (if 48 \<le> n \<and> n \<le> 57 then n - 48
               else if 97 \<le> n \<and> n \<le> 122 then n - 87
               else if 65 \<le> n \<and> n \<le> 90 then n - 55 else 36)
      in if d < base then Some d else None)"

definition digits_value :: "nat \<Rightarrow> string \<Rightarrow> nat" where
  "digits_value base ds = fold (\<lambda>c v. v * base + the (digit_value base c)) ds 0"

datatype errc = Errc_invalid_argument | Errc_out_of_range

definition from_chars :: "int_type \<Rightarrow> nat \<Rightarrow> string \<Rightarrow> errc + int \<times> nat" where
  "from_chars t base s =
     (let negative = (is_signed t \<and> starts_with ''-'' s);
          ds = takeWhile (\<lambda>c. digit_value base c \<noteq> None) (if negative then tl s else s);
          v = (if negative then - int (digits_value base ds) else int (digits_value base ds))
      in if ds = [] then Inl Errc_invalid_argument
         else if v < int_min t \<or> int_max t < v then Inl Errc_out_of_range
         else Inr (v, length ds + (if negative then 1 else 0)))"

definition do_from_chars :: "int_type \<Rightarrow> nat \<Rightarrow> string \<Rightarrow> exception + int" where
  "do_from_chars t base s =
     (case from_chars t base s of
        Inr (x, read) \<Rightarrow>
          if read = length s then Inr x
          else Inl (Invalid_argument ''pattern does not match to the end'')
      | Inl Errc_invalid_argument \<Rightarrow> Inl (Invalid_argument ''pattern not found'')
      | Inl Errc_out_of_range \<Rightarrow> Inl (Range_error ''not representable''))"

definition radix_8 :: nat where "radix_8 = 8"
definition radix_10 :: nat where "radix_10 = 10"
definition radix_16 :: nat where "radix_16 = 16"

text \<open>The three instances of \<open>parse_number\<close> at an integer type.\<close>

definition parse_number_radix :: "nat \<Rightarrow> int_type \<Rightarrow> string \<Rightarrow> exception + int" where
  "parse_number_radix base t s = do_from_chars t base s"

definition parse_number_hex :: "int_type \<Rightarrow> string \<Rightarrow> exception + int" where
  "parse_number_hex t s =
     (case consume_hex_prefix s of
        (True, rest) \<Rightarrow> do_from_chars t radix_16 rest
      | (False, rest) \<Rightarrow> Inl (Invalid_argument ''pattern not found''))"

definition parse_number_auto :: "int_type \<Rightarrow> string \<Rightarrow> exception + int" where
  "parse_number_auto t s =
     (case consume_hex_prefix s of
        (True, rest) \<Rightarrow> do_from_chars t radix_16 rest
      | (False, rest) \<Rightarrow>
          if starts_with ''0'' s then do_from_chars t radix_8 rest
          else do_from_chars t radix_10 rest)"

text \<open>
  Floating point: \<open>strtod\<close> of the C library is a parameter; it returns the value, the number of
  characters read, and whether \<open>errno\<close> became \<open>ERANGE\<close>.
\<close>

type_synonym 'f strtod = "string \<Rightarrow> 'f \<times> nat \<times> bool"

definition isspace :: "char \<Rightarrow> bool" where
  "isspace c \<longleftrightarrow> (let n = (of_char c :: nat) in n = 32 \<or> (9 \<le> n \<and> n \<le> 13))"

definition do_strtod :: "'f strtod \<Rightarrow> string \<Rightarrow> exception + 'f" where
  "do_strtod strtod s =
     (if s \<noteq> [] \<and> (isspace (hd s) \<or> hd s = CHR ''+'')
      then Inl (Invalid_argument ''pattern not found'')
      else (case strtod s of (x, read, erange) \<Rightarrow>
        if \<not> erange
        then (if read = length s then Inr x
              else Inl (Invalid_argument ''pattern does not match to the end''))
        else Inl (Range_error ''not representable'')))"

definition has_exponent :: "string \<Rightarrow> bool" where
  "has_exponent s \<longleftrightarrow> list_ex (\<lambda>c. c = CHR ''e'' \<or> c = CHR ''E'') s"

definition parse_general :: "'f strtod \<Rightarrow> string \<Rightarrow> exception + 'f" where
  "parse_general strtod s =
     (if fst (consume_hex_prefix s)
      then Inl (Invalid_argument ''chars_format::general does not parse hexfloat'')
      else do_strtod strtod s)"

definition parse_hexfloat :: "'f strtod \<Rightarrow> string \<Rightarrow> exception + 'f" where
  "parse_hexfloat strtod s =
     (if \<not> fst (consume_hex_prefix s)
      then Inl (Invalid_argument ''chars_format::hex parses hexfloat'')
      else do_strtod strtod s)"

definition parse_scientific :: "'f strtod \<Rightarrow> string \<Rightarrow> exception + 'f" where
  "parse_scientific strtod s =
     (if fst (consume_hex_prefix s)
      then Inl (Invalid_argument ''chars_format::scientific does not parse hexfloat'')
      else if \<not> has_exponent s
      then Inl (Invalid_argument ''chars_format::scientific requires exponent part'')
      else do_strtod strtod s)"

definition parse_fixed :: "'f strtod \<Rightarrow> string \<Rightarrow> exception + 'f" where
  "parse_fixed strtod s =
     (if fst (consume_hex_prefix s)
      then Inl (Invalid_argument ''chars_format::fixed does not parse hexfloat'')
      else if has_exponent s
      then Inl (Invalid_argument ''chars_format::fixed does not parse exponent part'')
      else do_strtod strtod s)"

section \<open>Decimal literals\<close>

definition is_digit :: "char \<Rightarrow> bool" where
  "is_digit c \<longleftrightarrow> c \<in> set ''0123456789''"

definition lookahead :: "string \<Rightarrow> char option" where
  "lookahead s = (case s of [] \<Rightarrow> None | c # _ \<Rightarrow> Some c)"

definition digit_ahead :: "string \<Rightarrow> bool" where
  "digit_ahead s = (case lookahead s of None \<Rightarrow> False | Some c \<Rightarrow> is_digit c)"

definition consume_digits :: "string \<Rightarrow> string" where
  "consume_digits = dropWhile is_digit"

text \<open>One function per label of the recogniser.\<close>

definition post_e :: "string \<Rightarrow> bool" where
  "post_e s =
     (let s = (if lookahead s \<in> {Some (CHR ''-''), Some (CHR ''+'')} then tl s else s)
      in if digit_ahead s then consume_digits s = [] else False)"

definition exponent_part_opt :: "string \<Rightarrow> bool" where
  "exponent_part_opt s =
     (case lookahead s of
        None \<Rightarrow> True
      | Some c \<Rightarrow> if c = CHR ''e'' \<or> c = CHR ''E'' then post_e (tl s) else False)"

definition post_decimal_point :: "string \<Rightarrow> bool" where
  "post_decimal_point s =
     (if digit_ahead s then exponent_part_opt (consume_digits s) else False)"

definition integer_part_consumed :: "string \<Rightarrow> bool" where
  "integer_part_consumed s =
     (case lookahead s of
        None \<Rightarrow> False
      | Some c \<Rightarrow>
          if c = CHR ''.''
          then (if digit_ahead (tl s) then post_decimal_point (tl s) else exponent_part_opt (tl s))
          else if c = CHR ''e'' \<or> c = CHR ''E'' then post_e (tl s)
          else False)"

definition integer_part :: "string \<Rightarrow> bool" where
  "integer_part s = integer_part_consumed (consume_digits s)"

definition is_decimal_literal :: "string \<Rightarrow> bool" where
  "is_decimal_literal s =
     (case lookahead s of
        None \<Rightarrow> False
      | Some c \<Rightarrow>
          if c = CHR ''0'' then (if tl s = [] then True else integer_part (tl s))
          else if is_digit c
          then (if consume_digits s = [] then True else integer_part_consumed (consume_digits s))
          else if c = CHR ''.'' then post_decimal_point (tl s)
          else False)"

text \<open>Which command line words are options, and which are values.\<close>

definition is_positional :: "string \<Rightarrow> string \<Rightarrow> bool" where
  "is_positional name prefix_chars =
     (case lookahead name of
        None \<Rightarrow> True
      | Some c \<Rightarrow>
          if c \<in> set prefix_chars
          then (if tl name = [] then True else is_decimal_literal (tl name))
          else True)"

definition is_optional :: "string \<Rightarrow> string \<Rightarrow> bool" where
  "is_optional name prefix_chars = (\<not> is_positional name prefix_chars)"

section \<open>The grammar of the comment\<close>

definition digit_sequence :: "string \<Rightarrow> bool" where
  "digit_sequence ds \<longleftrightarrow> ds \<noteq> [] \<and> list_all is_digit ds"

inductive post_e_word :: "string \<Rightarrow> bool" where
  "digit_sequence ds \<Longrightarrow> post_e_word ds"
| "digit_sequence ds \<Longrightarrow> c = CHR ''+'' \<or> c = CHR ''-'' \<Longrightarrow> post_e_word (c # ds)"

inductive exponent_part_word :: "string \<Rightarrow> bool" where
  "post_e_word s \<Longrightarrow> exponent_part_word (CHR ''e'' # s)"
| "post_e_word s \<Longrightarrow> exponent_part_word (CHR ''E'' # s)"

inductive post_decimal_point_word :: "string \<Rightarrow> bool" where
  "digit_sequence ds \<Longrightarrow> post_decimal_point_word ds"
| "digit_sequence ds \<Longrightarrow> exponent_part_word e \<Longrightarrow> post_decimal_point_word (ds @ e)"

inductive decimal_literal_word :: "string \<Rightarrow> bool" where
  zero: "decimal_literal_word ''0''"
| number: "digit_sequence (d # ds) \<Longrightarrow> d \<noteq> CHR ''0'' \<Longrightarrow> decimal_literal_word (d # ds)"
| fraction: "digit_sequence ds \<Longrightarrow> post_decimal_point_word p \<Longrightarrow>
     decimal_literal_word (ds @ CHR ''.'' # p)"
| bare_fraction: "post_decimal_point_word p \<Longrightarrow> decimal_literal_word (CHR ''.'' # p)"
| point: "digit_sequence ds \<Longrightarrow> decimal_literal_word (ds @ ''.'')"
| point_exponent: "digit_sequence ds \<Longrightarrow> exponent_part_word e \<Longrightarrow>
     decimal_literal_word (ds @ CHR ''.'' # e)"
| exponent: "digit_sequence ds \<Longrightarrow> exponent_part_word e \<Longrightarrow> decimal_literal_word (ds @ e)"

section \<open>The recogniser accepts the grammar\<close>

lemma digit_sequence_iff: "digit_sequence s \<longleftrightarrow> digit_ahead s \<and> list_all is_digit s"
  by (cases s) (auto simp: digit_sequence_def digit_ahead_def lookahead_def)

lemma consume_digits_Nil: "consume_digits s = [] \<longleftrightarrow> list_all is_digit s"
  by (simp add: consume_digits_def dropWhile_eq_Nil_conv list_all_iff)

lemma consume_digits_append:
  "list_all is_digit ds \<Longrightarrow> \<not> digit_ahead r \<Longrightarrow> consume_digits (ds @ r) = r"
  by (induction ds)
    (auto simp: consume_digits_def digit_ahead_def lookahead_def dropWhile_eq_self_iff
      split: list.splits)

lemma consume_digits_stops: "\<not> digit_ahead (consume_digits s)"
  by (induction s) (simp_all add: consume_digits_def digit_ahead_def lookahead_def)

lemma digits_split:
  obtains ds where "s = ds @ consume_digits s" and "list_all is_digit ds"
    and "digit_ahead s \<Longrightarrow> digit_sequence ds"
proof
  show "s = takeWhile is_digit s @ consume_digits s" by (simp add: consume_digits_def)
  show "list_all is_digit (takeWhile is_digit s)" by (auto simp: list_all_iff dest: set_takeWhileD)
  then show "digit_sequence (takeWhile is_digit s)" if "digit_ahead s"
    using that by (cases s) (auto simp: digit_sequence_def digit_ahead_def lookahead_def)
qed

lemma post_e_iff: "post_e s \<longleftrightarrow> post_e_word s"
proof (cases s)
  case Nil
  then show ?thesis
    by (auto simp: post_e_def lookahead_def digit_ahead_def post_e_word.simps digit_sequence_def)
next
  case (Cons c t)
  then show ?thesis
    by (auto simp: post_e_def lookahead_def post_e_word.simps digit_sequence_iff consume_digits_Nil
        digit_ahead_def is_digit_def)
qed

lemma exponent_part_opt_iff: "exponent_part_opt s \<longleftrightarrow> s = [] \<or> exponent_part_word s"
  by (cases s) (auto simp: exponent_part_opt_def lookahead_def exponent_part_word.simps post_e_iff)

lemma exponent_part_no_digit: "exponent_part_word s \<Longrightarrow> \<not> digit_ahead s"
  by (auto simp: exponent_part_word.simps digit_ahead_def lookahead_def is_digit_def)

lemma post_decimal_point_iff: "post_decimal_point s \<longleftrightarrow> post_decimal_point_word s"
proof
  assume s: "post_decimal_point s"
  obtain ds where "s = ds @ consume_digits s" and "digit_sequence ds"
    using digits_split [of s] s by (auto simp: post_decimal_point_def split: if_splits)
  then show "post_decimal_point_word s"
    using s by (metis (no_types, lifting) append_Nil2 exponent_part_opt_iff
        post_decimal_point_def post_decimal_point_word.intros)
next
  assume "post_decimal_point_word s"
  then show "post_decimal_point s"
  proof cases
    case 1
    then show ?thesis
      using consume_digits_Nil [of s]
      by (simp add: post_decimal_point_def digit_sequence_iff exponent_part_opt_iff)
  next
    case (2 ds e)
    then have "digit_ahead (ds @ e)"
      by (cases ds) (auto simp: digit_sequence_def digit_ahead_def lookahead_def)
    then show ?thesis
      using 2 exponent_part_no_digit [of e]
      by (simp add: post_decimal_point_def digit_sequence_iff exponent_part_opt_iff
          consume_digits_append)
  qed
qed

lemma post_decimal_point_digit: "post_decimal_point_word s \<Longrightarrow> digit_ahead s"
  by (auto simp: post_decimal_point_iff [symmetric] post_decimal_point_def split: if_splits)

text \<open>What may follow the integer part.\<close>

definition integer_part_rest :: "string \<Rightarrow> bool" where
  "integer_part_rest r \<longleftrightarrow>
     (\<exists>p. r = CHR ''.'' # p \<and> (post_decimal_point_word p \<or> p = [] \<or> exponent_part_word p))
     \<or> exponent_part_word r"

lemma integer_part_consumed_iff: "integer_part_consumed s \<longleftrightarrow> integer_part_rest s"
proof (cases s)
  case Nil
  then show ?thesis
    by (auto simp: integer_part_consumed_def integer_part_rest_def lookahead_def
        exponent_part_word.simps)
next
  case (Cons c t)
  have "\<not> digit_ahead t" if "t = [] \<or> exponent_part_word t"
    using that exponent_part_no_digit by (auto simp: digit_ahead_def lookahead_def)
  then show ?thesis
    using Cons post_decimal_point_digit [of t]
    by (auto simp: integer_part_consumed_def integer_part_rest_def lookahead_def
        exponent_part_word.simps exponent_part_opt_iff post_decimal_point_iff post_e_iff)
qed

lemma integer_part_rest_no_digit: "integer_part_rest r \<Longrightarrow> \<not> digit_ahead r"
  using exponent_part_no_digit
  by (auto simp: integer_part_rest_def digit_ahead_def lookahead_def is_digit_def)

lemma digits_then_rest:
  "(\<exists>ds r. s = ds @ r \<and> digit_sequence ds \<and> integer_part_rest r) \<longleftrightarrow>
     digit_ahead s \<and> integer_part_rest (consume_digits s)"
proof
  assume "\<exists>ds r. s = ds @ r \<and> digit_sequence ds \<and> integer_part_rest r"
  then obtain ds r where "s = ds @ r" "digit_sequence ds" "integer_part_rest r" by blast
  then show "digit_ahead s \<and> integer_part_rest (consume_digits s)"
    using integer_part_rest_no_digit [of r] consume_digits_append [of ds r]
    by (cases ds) (auto simp: digit_sequence_iff digit_ahead_def lookahead_def)
next
  assume "digit_ahead s \<and> integer_part_rest (consume_digits s)"
  then show "\<exists>ds r. s = ds @ r \<and> digit_sequence ds \<and> integer_part_rest r"
    using digits_split [of s] by metis
qed

lemma decimal_literal_word_cases:
  "decimal_literal_word s \<longleftrightarrow>
     s = ''0'' \<or> digit_sequence s \<and> hd s \<noteq> CHR ''0''
     \<or> (\<exists>ds r. s = ds @ r \<and> digit_sequence ds \<and> integer_part_rest r)
     \<or> (\<exists>p. s = CHR ''.'' # p \<and> post_decimal_point_word p)"
  (is "_ \<longleftrightarrow> ?R s")
proof
  show "?R s" if "decimal_literal_word s"
    using that by cases (auto simp: integer_part_rest_def)
  show "decimal_literal_word s" if "?R s"
    using that
    by (elim disjE exE conjE)
      (auto simp: integer_part_rest_def neq_Nil_conv digit_sequence_def
        intro: decimal_literal_word.intros)
qed

lemma is_decimal_literal_iff: "is_decimal_literal s \<longleftrightarrow> decimal_literal_word s"
proof (cases s)
  case Nil
  then show ?thesis
    unfolding decimal_literal_word_cases digits_then_rest
    by (simp add: is_decimal_literal_def lookahead_def digit_ahead_def digit_sequence_def)
next
  case (Cons c t)
  have dot: "\<not> is_digit CHR ''.''" and nul: "is_digit CHR ''0''" by (simp_all add: is_digit_def)
  have nil: "\<not> integer_part_rest []"
    by (simp add: integer_part_rest_def exponent_part_word.simps)
  have eat: "is_digit c \<Longrightarrow> consume_digits (c # t) = consume_digits t"
    by (simp add: consume_digits_def)
  have all: "digit_sequence (c # t) \<longleftrightarrow> is_digit c \<and> consume_digits t = []"
    by (simp add: digit_sequence_def consume_digits_Nil)
  have ahead: "digit_ahead (c # t) \<longleftrightarrow> is_digit c"
    by (simp add: digit_ahead_def lookahead_def)
  show ?thesis
    unfolding decimal_literal_word_cases digits_then_rest Cons all ahead
    using dot nul nil eat
    by (auto simp: is_decimal_literal_def lookahead_def integer_part_def integer_part_consumed_iff
        post_decimal_point_iff)
qed

text \<open>
  C24: The hand-written state machine of \<open>is_decimal_literal\<close> accepts exactly the words that the
  grammar in its comment generates: no label is reached with too much or too little consumed, and
  none of the alternatives is lost.
\<close>
theorem is_decimal_literal_grammar: "is_decimal_literal s \<longleftrightarrow> decimal_literal_word s"
  by (rule is_decimal_literal_iff)

section \<open>Decimal text and back\<close>

lemma digit_value_digit:
  assumes "d < 10"
  shows "digit_value 10 (char_of (48 + d)) = Some d"
  using assms by (simp add: digit_value_def of_char_mod_256)

lemma digits_value_snoc:
  "digits_value base (ds @ [c]) = digits_value base ds * base + the (digit_value base c)"
  by (simp add: digits_value_def)

lemma decimal_digits: "c \<in> set (decimal n) \<Longrightarrow> digit_value 10 c \<noteq> None"
proof (induction n rule: decimal.induct)
  case (1 n)
  then show ?case
    using digit_value_digit [of n] digit_value_digit [of "n mod 10"]
    by (subst (asm) decimal.simps) (auto split: if_splits)
qed

lemma decimal_not_Nil [simp]: "decimal n \<noteq> []"
  by (subst decimal.simps) simp

lemma digits_value_decimal: "digits_value 10 (decimal n) = n"
proof (induction n rule: decimal.induct)
  case (1 n)
  show ?case
  proof (cases "n < 10")
    case True
    then show ?thesis
      using digit_value_digit [of n] by (simp add: decimal.simps [of n] digits_value_def)
  next
    case False
    then show ?thesis
      using 1 digit_value_digit [of "n mod 10"]
      by (simp add: decimal.simps [of n] digits_value_snoc)
  qed
qed

lemma parse_unsigned_decimal:
  "parse_number_radix radix_10 (Int_type False w) (decimal n) =
     (if n < 2 ^ w then Inr (int n) else Inl (Range_error ''not representable''))"
proof -
  have all: "takeWhile (\<lambda>c. digit_value 10 c \<noteq> None) (decimal n) = decimal n"
    using decimal_digits takeWhile_eq_all_conv by blast
  have bound: "int n \<le> 2 ^ w - 1 \<longleftrightarrow> n < 2 ^ w"
    by (metis int_ops(3) of_nat_less_iff of_nat_power of_nat_numeral zle_diff1_eq)
  have above: "2 ^ w - 1 < int n \<longleftrightarrow> 2 ^ w \<le> n"
    using bound by (meson not_less)
  show ?thesis
    by (simp add: all above parse_number_radix_def do_from_chars_def from_chars_def radix_10_def
        digits_value_decimal int_min_def int_max_def not_less Let_def del: not_None_eq)
qed

end
