(* ===== verification/Arguments.thy ===== *)
theory Arguments
  imports ArgText "HOL-Library.Code_Target_Numeral"
begin

text \<open>
  Class \<open>Argument\<close> of src/external/argparse/argparse.hpp: one option or positional argument, its
  fluent setters, the operation that consumes words of the command line, the check after parsing,
  the accessors of the parsed values, and the lines it contributes to the help text.

  An operation that throws returns the exception with the state it leaves. \<open>Stop\<close>ping is an
  exception, the \<open>std::exit(0)\<close> of the help and version actions, or undefined behaviour. The
  sources' \<open>m_prefix_chars\<close> of an argument is \<open>m_arg_prefix_chars\<close> here, because the parser has a
  field of that name.
\<close>

section \<open>Data\<close>

datatype stop = Throw exception | Exit_success | Undefined

definition size_max :: nat where
  "size_max = 2 ^ 64 - 1"

record nargs_range =
  m_min :: nat
  m_max :: nat

text \<open>
  The two actions that the parser installs print the help or the version of the parser that
  installed them, which they hold by reference: its number. A \<open>Call\<close> is a function of the program,
  which may throw.
\<close>

datatype void_action = Print_help nat | Print_version nat | Call "string \<Rightarrow> exception option"

datatype argument_action =
    Valued "string \<Rightarrow> exception + any_value"
  | Void void_action

record argument =
  m_names :: "string list"
  m_used_name :: string
  m_help :: string
  m_metavar :: string
  m_default_value :: any_value
  m_default_value_repr :: string
  m_implicit_value :: any_value
  m_action :: argument_action
  m_values :: "any_value list"
  m_num_args_range :: nargs_range
  m_accepts_optional_like_value :: bool
  m_is_optional :: bool
  m_is_required :: bool
  m_is_repeatable :: bool
  m_is_used :: bool
  m_arg_prefix_chars :: string

section \<open>Ranges of numbers of values\<close>

definition NArgsRange :: "nat \<Rightarrow> nat \<Rightarrow> exception + nargs_range" where
  "NArgsRange minimum maximum =
     (if minimum > maximum
      then Inl (Logic_error ''Range of number of arguments is invalid'')
      else Inr \<lparr>m_min = minimum, m_max = maximum\<rparr>)"

definition contains :: "nargs_range \<Rightarrow> nat \<Rightarrow> bool" where
  "contains r v \<longleftrightarrow> v \<ge> m_min r \<and> v \<le> m_max r"

definition is_exact :: "nargs_range \<Rightarrow> bool" where
  "is_exact r \<longleftrightarrow> m_min r = m_max r"

definition is_right_bounded :: "nargs_range \<Rightarrow> bool" where
  "is_right_bounded r \<longleftrightarrow> m_max r < size_max"

definition show_range :: "nargs_range \<Rightarrow> string" where
  "show_range r =
     (if m_min r = m_max r
      then (if m_min r \<noteq> 0 \<and> m_min r \<noteq> 1 then ''[nargs: '' @ decimal (m_min r) @ ''] '' else [])
      else if m_max r = size_max then ''[nargs: '' @ decimal (m_min r) @ '' or more] ''
      else ''[nargs='' @ decimal (m_min r) @ ''..'' @ decimal (m_max r) @ ''] '')"

section \<open>Construction\<close>

text \<open>
  Names are ordered by length, and names of one length as \<open>std::string\<close> orders them, by unsigned
  characters.
\<close>

fun string_less :: "string \<Rightarrow> string \<Rightarrow> bool" where
  "string_less s [] = False"
| "string_less [] (d # t) = True"
| "string_less (c # s) (d # t) =
     ((of_char c :: nat) < of_char d \<or> c = d \<and> string_less s t)"

definition name_before :: "string \<Rightarrow> string \<Rightarrow> bool" where
  "name_before lhs rhs =
     (if length lhs = length rhs then string_less lhs rhs else length lhs < length rhs)"

fun insert_name :: "string \<Rightarrow> string list \<Rightarrow> string list" where
  "insert_name s [] = [s]"
| "insert_name s (t # ts) = (if name_before t s then t # insert_name s ts else s # t # ts)"

definition sort_names :: "string list \<Rightarrow> string list" where
  "sort_names ns = foldr insert_name ns []"

definition new_argument :: "string \<Rightarrow> string list \<Rightarrow> argument" where
  "new_argument prefix_chars a =
     \<lparr>m_names = sort_names a, m_used_name = [], m_help = [], m_metavar = [],
      m_default_value = No_value, m_default_value_repr = [], m_implicit_value = No_value,
      m_action = Valued (\<lambda>v. Inr (Any_string v)), m_values = [],
      m_num_args_range = \<lparr>m_min = 1, m_max = 1\<rparr>, m_accepts_optional_like_value = False,
      m_is_optional = list_ex (\<lambda>n. is_optional n prefix_chars) a, m_is_required = False,
      m_is_repeatable = False, m_is_used = False, m_arg_prefix_chars = prefix_chars\<rparr>"

section \<open>Fluent setters\<close>

definition set_help :: "string \<Rightarrow> argument \<Rightarrow> argument" where
  "set_help t a = a\<lparr>m_help := t\<rparr>"

definition set_metavar :: "string \<Rightarrow> argument \<Rightarrow> argument" where
  "set_metavar t a = a\<lparr>m_metavar := t\<rparr>"

definition set_default_value :: "any_value \<Rightarrow> argument \<Rightarrow> argument" where
  "set_default_value v a = a\<lparr>m_default_value_repr := repr v, m_default_value := v\<rparr>"

definition set_required :: "argument \<Rightarrow> argument" where
  "set_required a = a\<lparr>m_is_required := True\<rparr>"

definition set_implicit_value :: "any_value \<Rightarrow> argument \<Rightarrow> argument" where
  "set_implicit_value v a =
     a\<lparr>m_implicit_value := v, m_num_args_range := \<lparr>m_min = 0, m_max = 0\<rparr>\<rparr>"

definition set_action :: "argument_action \<Rightarrow> argument \<Rightarrow> argument" where
  "set_action f a = a\<lparr>m_action := f\<rparr>"

definition set_append :: "argument \<Rightarrow> argument" where
  "set_append a = a\<lparr>m_is_repeatable := True\<rparr>"

definition set_nargs_range :: "nat \<Rightarrow> nat \<Rightarrow> argument \<Rightarrow> exception + argument" where
  "set_nargs_range lo hi a =
     (case NArgsRange lo hi of Inl e \<Rightarrow> Inl e | Inr r \<Rightarrow> Inr (a\<lparr>m_num_args_range := r\<rparr>))"

definition set_nargs :: "nat \<Rightarrow> argument \<Rightarrow> argument" where
  "set_nargs n a = a\<lparr>m_num_args_range := \<lparr>m_min = n, m_max = n\<rparr>\<rparr>"

datatype nargs_pattern = Nargs_optional | Nargs_any | Nargs_at_least_one

definition set_nargs_pattern :: "nargs_pattern \<Rightarrow> argument \<Rightarrow> argument" where
  "set_nargs_pattern pattern a =
     (case pattern of
        Nargs_optional \<Rightarrow> a\<lparr>m_num_args_range := \<lparr>m_min = 0, m_max = 1\<rparr>\<rparr>
      | Nargs_any \<Rightarrow> a\<lparr>m_num_args_range := \<lparr>m_min = 0, m_max = size_max\<rparr>\<rparr>
      | Nargs_at_least_one \<Rightarrow> a\<lparr>m_num_args_range := \<lparr>m_min = 1, m_max = size_max\<rparr>\<rparr>)"

definition set_remaining :: "argument \<Rightarrow> argument" where
  "set_remaining a = set_nargs_pattern Nargs_any (a\<lparr>m_accepts_optional_like_value := True\<rparr>)"

text \<open>
  \<open>scan\<close> installs the conversion that its shape and type select; a shape with no conversion for
  the type does not compile. Values of floating point types are not among the values here, so
  \<open>scan\<close> installs the conversions of the integer types.
\<close>

definition scan_conversion :: "char \<Rightarrow> int_type \<Rightarrow> (string \<Rightarrow> exception + int) option" where
  "scan_conversion shape t =
     (if shape = CHR ''d'' then Some (parse_number_radix radix_10 t)
      else if shape = CHR ''i'' then Some (parse_number_auto t)
      else if shape = CHR ''u'' \<and> \<not> is_signed t then Some (parse_number_radix radix_10 t)
      else if shape = CHR ''o'' \<and> \<not> is_signed t then Some (parse_number_radix radix_8 t)
      else if (shape = CHR ''x'' \<or> shape = CHR ''X'') \<and> \<not> is_signed t then Some (parse_number_hex t)
      else None)"

text \<open>The conversions of the floating point shapes; the type of the value does not matter here.\<close>

definition float_conversion :: "char \<Rightarrow> ('f strtod \<Rightarrow> string \<Rightarrow> exception + 'f) option" where
  "float_conversion shape =
     (if shape = CHR ''a'' \<or> shape = CHR ''A'' then Some parse_hexfloat
      else if shape = CHR ''e'' \<or> shape = CHR ''E'' then Some parse_scientific
      else if shape = CHR ''f'' \<or> shape = CHR ''F'' then Some parse_fixed
      else if shape = CHR ''g'' \<or> shape = CHR ''G'' then Some parse_general
      else None)"

definition scan :: "char \<Rightarrow> int_type \<Rightarrow> argument \<Rightarrow> argument option" where
  "scan shape t a =
     (case scan_conversion shape t of
        None \<Rightarrow> None
      | Some f \<Rightarrow> Some (set_action (Valued (\<lambda>s. map_sum id (Any_int t) (f s))) a))"

section \<open>Consuming words\<close>

text \<open>\<open>std::transform\<close> into the values, and \<open>std::for_each\<close> of a void action, up to an exception.\<close>

fun push_values ::
  "(string \<Rightarrow> exception + any_value) \<Rightarrow> string list \<Rightarrow> any_value list
    \<Rightarrow> any_value list \<times> stop option" where
  "push_values f [] vs = (vs, None)"
| "push_values f (s # ss) vs =
     (case f s of Inl e \<Rightarrow> (vs, Some (Throw e)) | Inr v \<Rightarrow> push_values f ss (vs @ [v]))"

type_synonym run_action = "void_action \<Rightarrow> string \<Rightarrow> string \<times> stop option"

fun run_each :: "(string \<Rightarrow> string \<times> stop option) \<Rightarrow> string list \<Rightarrow> string \<times> stop option" where
  "run_each f [] = ([], None)"
| "run_each f (s # ss) =
     (case f s of
        (out, Some e) \<Rightarrow> (out, Some e)
      | (out, None) \<Rightarrow> (case run_each f ss of (out2, e) \<Rightarrow> (out @ out2, e)))"

definition resize :: "nat \<Rightarrow> any_value list \<Rightarrow> any_value list" where
  "resize n vs = take n vs @ replicate (n - length vs) No_value"

text \<open>The result: the argument, what was printed, and why it stopped, if it did.\<close>

definition apply_action ::
  "run_action \<Rightarrow> string list \<Rightarrow> argument \<Rightarrow> argument \<times> string \<times> stop option" where
  "apply_action run window a =
     (case m_action a of
        Valued f \<Rightarrow>
          (case push_values f window (m_values a) of (vs, e) \<Rightarrow> (a\<lparr>m_values := vs\<rparr>, [], e))
      | Void f \<Rightarrow>
          (case run_each (run f) window of
             (out, Some e) \<Rightarrow> (a, out, Some e)
           | (out, None) \<Rightarrow>
               (if \<not> has_value (m_default_value a) \<and> \<not> m_accepts_optional_like_value a
                then a\<lparr>m_values := resize (length window) (m_values a)\<rparr> else a, out, None)))"

text \<open>
  \<open>consume\<close> takes the remaining words and returns how many of them it took. \<open>run\<close> is what the void
  actions do.
\<close>

definition consume ::
  "run_action \<Rightarrow> string list \<Rightarrow> string \<Rightarrow> argument \<Rightarrow> argument \<times> string \<times> (stop + nat)" where
  "consume run words used_name a0 =
     (if \<not> m_is_repeatable a0 \<and> m_is_used a0
      then (a0, [], Inl (Throw (Runtime_error ''Duplicate argument'')))
      else
        (let a = a0\<lparr>m_is_used := True, m_used_name := used_name\<rparr>;
             num_args_max = m_max (m_num_args_range a);
             num_args_min = m_min (m_num_args_range a)
         in if num_args_max = 0
         then (let b = a\<lparr>m_values := m_values a @ [m_implicit_value a]\<rparr> in
               case m_action b of
                 Valued f \<Rightarrow>
                   (case f [] of Inl e \<Rightarrow> (b, [], Inl (Throw e)) | Inr _ \<Rightarrow> (b, [], Inr 0))
               | Void f \<Rightarrow>
                   (case run f [] of
                      (out, Some e) \<Rightarrow> (b, out, Inl e)
                    | (out, None) \<Rightarrow> (b, out, Inr 0)))
         else if length words \<ge> num_args_min
         then (let upto = take num_args_max words;
                   window = (if m_accepts_optional_like_value a then upto
                             else takeWhile (\<lambda>w. \<not> is_optional w (m_arg_prefix_chars a)) upto)
               in if \<not> m_accepts_optional_like_value a \<and> length window < num_args_min
                  then (a, [], Inl (Throw (Runtime_error ''Too few arguments'')))
                  else (case apply_action run window a of
                          (b, out, Some e) \<Rightarrow> (b, out, Inl e)
                        | (b, out, None) \<Rightarrow> (b, out, Inr (length window))))
         else if has_value (m_default_value a) then (a, [], Inr 0)
         else (a, [], Inl (Throw (Runtime_error
                 (''Too few arguments for '' @ [CHR 0x27] @ used_name @ [CHR 0x27] @ ''.''))))))"

section \<open>Checking the parsed values\<close>

definition nargs_range_validation_error :: "argument \<Rightarrow> exception" where
  "nargs_range_validation_error a =
     Runtime_error
       ((if m_used_name a \<noteq> [] then m_used_name a else hd (m_names a)) @ '': ''
        @ (if is_exact (m_num_args_range a) then decimal (m_min (m_num_args_range a))
           else if is_right_bounded (m_num_args_range a)
           then decimal (m_min (m_num_args_range a)) @ '' to '' @ decimal (m_max (m_num_args_range a))
           else decimal (m_min (m_num_args_range a)) @ '' or more'')
        @ '' argument(s) expected. '' @ decimal (length (m_values a)) @ '' provided.'')"

definition required_arg_not_used_error :: "argument \<Rightarrow> exception" where
  "required_arg_not_used_error a = Runtime_error (hd (m_names a) @ '': required.'')"

definition required_arg_no_value_provided_error :: "argument \<Rightarrow> exception" where
  "required_arg_no_value_provided_error a = Runtime_error (m_used_name a @ '': no value provided.'')"

definition validate_argument :: "argument \<Rightarrow> exception option" where
  "validate_argument a =
     (if m_is_optional a
      then (if \<not> m_is_used a \<and> \<not> has_value (m_default_value a) \<and> m_is_required a
            then Some (required_arg_not_used_error a)
            else if m_is_used a \<and> m_is_required a \<and> m_values a = []
            then Some (required_arg_no_value_provided_error a)
            else None)
      else (if \<not> contains (m_num_args_range a) (length (m_values a))
               \<and> \<not> has_value (m_default_value a)
            then Some (nargs_range_validation_error a)
            else None))"

section \<open>Reading the values\<close>

fun cast_each :: "any_type \<Rightarrow> any_value list \<Rightarrow> exception + any_value list" where
  "cast_each t [] = Inr []"
| "cast_each t (v # vs) =
     (case any_cast t v of
        Inl e \<Rightarrow> Inl e
      | Inr u \<Rightarrow> (case cast_each t vs of Inl e \<Rightarrow> Inl e | Inr us \<Rightarrow> Inr (u # us)))"

definition any_cast_container :: "any_type \<Rightarrow> any_value list \<Rightarrow> exception + any_value" where
  "any_cast_container elem vs =
     (case cast_each elem vs of Inl e \<Rightarrow> Inl e | Inr us \<Rightarrow> Inr (Any_list elem us))"

text \<open>The type that the caller asks for decides between one value and a container of them.\<close>

definition argument_get :: "any_type \<Rightarrow> argument \<Rightarrow> exception + any_value" where
  "argument_get t a =
     (if m_values a \<noteq> []
      then (case t of
              Type_list elem \<Rightarrow> any_cast_container elem (m_values a)
            | _ \<Rightarrow> any_cast t (hd (m_values a)))
      else if has_value (m_default_value a) then any_cast t (m_default_value a)
      else (case t of
              Type_list elem \<Rightarrow>
                if \<not> m_accepts_optional_like_value a then any_cast_container elem (m_values a)
                else Inl (Logic_error (''No value provided for '' @ [CHR 0x27] @ last (m_names a)
                            @ [CHR 0x27] @ ''.''))
            | _ \<Rightarrow> Inl (Logic_error (''No value provided for '' @ [CHR 0x27] @ last (m_names a)
                          @ [CHR 0x27] @ ''.''))))"

definition argument_present :: "any_type \<Rightarrow> argument \<Rightarrow> exception + any_value option" where
  "argument_present t a =
     (if has_value (m_default_value a)
      then Inl (Logic_error ''Argument with default value always presents'')
      else if m_values a = [] then Inr None
      else map_sum id Some
             (case t of
                Type_list elem \<Rightarrow> any_cast_container elem (m_values a)
              | _ \<Rightarrow> any_cast t (hd (m_values a))))"

text \<open>\<open>operator==\<close>: the wanted type is that of the right-hand side.\<close>

definition argument_equals :: "argument \<Rightarrow> any_type \<Rightarrow> any_value \<Rightarrow> exception + bool" where
  "argument_equals a t rhs = map_sum id (\<lambda>v. v = rhs) (argument_get t a)"

definition argument_differs :: "argument \<Rightarrow> any_type \<Rightarrow> any_value \<Rightarrow> exception + bool" where
  "argument_differs a t rhs = map_sum id Not (argument_equals a t rhs)"

section \<open>Help text\<close>

definition longest_name :: "string list \<Rightarrow> string" where
  "longest_name ns =
     fold (\<lambda>s longest. if length s > length longest then s else longest) ns (hd ns)"

definition get_inline_usage :: "argument \<Rightarrow> string" where
  "get_inline_usage a =
     (if \<not> m_is_required a then ''['' else [])
     @ longest_name (m_names a)
     @ (if m_max (m_num_args_range a) > 0
        then '' '' @ (if m_metavar a \<noteq> [] then m_metavar a else ''VAR'')
             @ (if m_max (m_num_args_range a) > 1 then ''...'' else [])
        else [])
     @ (if \<not> m_is_required a then '']'' else [])"

definition get_arguments_length :: "argument \<Rightarrow> nat" where
  "get_arguments_length a =
     (let names_size = sum_list (map length (m_names a)) in
      if is_positional (hd (m_names a)) (m_arg_prefix_chars a)
      then (if m_metavar a \<noteq> [] then 2 + length (m_metavar a)
            else 2 + names_size + (length (m_names a) - 1))
      else (let size = names_size + 2 * (length (m_names a) - 1) in
            (if m_metavar a \<noteq> [] \<and> m_num_args_range a = \<lparr>m_min = 1, m_max = 1\<rparr>
             then size + (length (m_metavar a) + 1) else size) + 2))"

text \<open>Text in a field of at least a width, filled on the right (the stream is left-adjusted).\<close>

definition padded :: "nat \<Rightarrow> string \<Rightarrow> string" where
  "padded width s = s @ replicate (width - length s) CHR '' ''"

text \<open>
  The lines of a help text: each but the last with its newline, the last without.
\<close>

fun help_lines :: "string \<Rightarrow> string list \<times> string" where
  "help_lines [] = ([], [])"
| "help_lines (c # s) =
     (case help_lines s of
        (lines, leftover) \<Rightarrow>
          if c = CHR 0x0A then ([c] # lines, leftover)
          else (case lines of
                  [] \<Rightarrow> ([], c # leftover)
                | line # ls \<Rightarrow> ((c # line) # ls, leftover)))"

definition show_names :: "argument \<Rightarrow> string" where
  "show_names a =
     ''  ''
     @ (if is_positional (hd (m_names a)) (m_arg_prefix_chars a)
        then (if m_metavar a \<noteq> [] then m_metavar a else join (m_names a) '' '')
        else join (m_names a) '', ''
             @ (if m_metavar a \<noteq> [] \<and> m_num_args_range a = \<lparr>m_min = 1, m_max = 1\<rparr>
                then '' '' @ m_metavar a else []))"

definition show_argument :: "nat \<Rightarrow> argument \<Rightarrow> string" where
  "show_argument width a =
     (let name = show_names a;
          name_padding = replicate (length name) CHR '' '';
          hspace = ''  '';
          line_start = padded width name_padding @ hspace
      in padded width name
         @ (case help_lines (m_help a) of
              ([], leftover) \<Rightarrow> hspace @ m_help a
            | (first # ls, leftover) \<Rightarrow>
                hspace @ first @ concat (map (\<lambda>line. line_start @ line) ls)
                @ (if leftover \<noteq> [] then line_start @ leftover else []))
         @ (if m_help a \<noteq> [] then '' '' else [])
         @ show_range (m_num_args_range a)
         @ (if has_value (m_default_value a) \<and> m_num_args_range a \<noteq> \<lparr>m_min = 0, m_max = 0\<rparr>
            then ''[default: '' @ m_default_value_repr a @ '']''
            else if m_is_required a then ''[required]'' else [])
         @ [CHR 0x0A])"

end
