(* ===== verification/ArgumentParser.thy ===== *)
theory ArgumentParser
  imports Arguments
begin

text \<open>
  Class \<open>ArgumentParser\<close> of src/external/argparse/argparse.hpp. A parser owns its arguments
  (\<open>m_arguments\<close>; the two lists and the map of the source hold iterators into them, here their
  numbers) and refers to other parsers as its subcommands; so the parsers live in a \<open>world\<close> and are
  named by their numbers there, and the world collects what is printed on \<open>std::cout\<close>.

  The words of the command line that are still unread stand for the iterators \<open>it\<close> and \<open>end\<close>.
  Dereferencing past the end (no argv[0], an empty name) is \<open>Undefined\<close>.
\<close>

section \<open>Data\<close>

text \<open>A \<open>std::map\<close> from names: an association list in the order of the keys.\<close>

type_synonym 'v name_map = "(string \<times> 'v) list"

fun insert_or_assign :: "string \<Rightarrow> 'v \<Rightarrow> 'v name_map \<Rightarrow> 'v name_map" where
  "insert_or_assign k v [] = [(k, v)]"
| "insert_or_assign k v ((l, u) # m) =
     (if k = l then (k, v) # m
      else if string_less k l then (k, v) # (l, u) # m
      else (l, u) # insert_or_assign k v m)"

record parser =
  m_program_name :: string
  m_version :: string
  m_description :: string
  m_epilog :: string
  m_exit_on_default_arguments :: bool
  m_prefix_chars :: string
  m_assign_chars :: string
  m_is_parsed :: bool
  m_arguments :: "argument list"
  m_positional_arguments :: "nat list"
  m_optional_arguments :: "nat list"
  m_argument_map :: "nat name_map"
  m_parser_path :: string
  m_subparsers :: "nat list"
  m_subparser_map :: "nat name_map"
  m_subparser_used :: "bool name_map"

record world =
  parsers :: "parser list"
  console :: string

definition the_parser :: "nat \<Rightarrow> world \<Rightarrow> parser" where
  "the_parser pid w = parsers w ! pid"

definition update_parser :: "nat \<Rightarrow> (parser \<Rightarrow> parser) \<Rightarrow> world \<Rightarrow> world" where
  "update_parser pid f w = w\<lparr>parsers := (parsers w)[pid := f (parsers w ! pid)]\<rparr>"

section \<open>Adding arguments\<close>

definition index_argument :: "nat \<Rightarrow> parser \<Rightarrow> parser" where
  "index_argument aid p =
     p\<lparr>m_argument_map :=
         fold (\<lambda>name m. insert_or_assign name aid m) (m_names (m_arguments p ! aid))
           (m_argument_map p)\<rparr>"

text \<open>The new argument is the last one of the parser.\<close>

definition place_argument :: "argument \<Rightarrow> parser \<Rightarrow> parser" where
  "place_argument a p =
     (let aid = length (m_arguments p) in
      index_argument aid
        (if m_is_optional a
         then p\<lparr>m_arguments := m_arguments p @ [a],
                m_optional_arguments := m_optional_arguments p @ [aid]\<rparr>
         else p\<lparr>m_arguments := m_arguments p @ [a],
                m_positional_arguments := m_positional_arguments p @ [aid]\<rparr>))"

definition add_argument :: "string list \<Rightarrow> parser \<Rightarrow> parser" where
  "add_argument names p = place_argument (new_argument (m_prefix_chars p) names) p"

text \<open>The fluent calls after \<open>add_argument\<close> work on the argument that it returns.\<close>

definition configure_last :: "(argument \<Rightarrow> argument) \<Rightarrow> parser \<Rightarrow> parser" where
  "configure_last f p =
     p\<lparr>m_arguments := (m_arguments p)[length (m_arguments p) - 1 := f (last (m_arguments p))]\<rparr>"

definition add_with :: "string list \<Rightarrow> (argument \<Rightarrow> argument) \<Rightarrow> parser \<Rightarrow> parser" where
  "add_with names f p = configure_last f (add_argument names p)"

definition insert_positional :: "argument \<Rightarrow> parser \<Rightarrow> parser" where
  "insert_positional a p =
     index_argument (length (m_arguments p))
       (p\<lparr>m_arguments := m_arguments p @ [a],
          m_positional_arguments := m_positional_arguments p @ [length (m_arguments p)]\<rparr>)"

definition insert_optional :: "argument \<Rightarrow> parser \<Rightarrow> parser" where
  "insert_optional a p =
     index_argument (length (m_arguments p))
       (p\<lparr>m_arguments := m_arguments p @ [a],
          m_optional_arguments := m_optional_arguments p @ [length (m_arguments p)]\<rparr>)"

definition add_parents :: "parser list \<Rightarrow> parser \<Rightarrow> parser" where
  "add_parents parents p =
     fold (\<lambda>parent q.
         fold (\<lambda>i. insert_optional (m_arguments parent ! i)) (m_optional_arguments parent)
           (fold (\<lambda>i. insert_positional (m_arguments parent ! i)) (m_positional_arguments parent) q))
       parents p"

section \<open>Construction\<close>

datatype default_arguments = Default_none | Default_help | Default_version | Default_all

fun default_arguments_code :: "default_arguments \<Rightarrow> u32" where
  "default_arguments_code Default_none = 0"
| "default_arguments_code Default_help = 1"
| "default_arguments_code Default_version = 2"
| "default_arguments_code Default_all = 1 OR 2"

definition has_default :: "default_arguments \<Rightarrow> default_arguments \<Rightarrow> bool" where
  "has_default a b \<longleftrightarrow>
     default_arguments_code a AND default_arguments_code b = default_arguments_code b"

text \<open>The flag actions refer to the parser by the number it gets.\<close>

definition help_flag :: "nat \<Rightarrow> argument \<Rightarrow> argument" where
  "help_flag pid a =
     set_nargs 0 (set_implicit_value (Any_bool True)
       (set_help ''shows help message and exits''
         (set_default_value (Any_bool False) (set_action (Void (Print_help pid)) a))))"

definition version_flag :: "nat \<Rightarrow> argument \<Rightarrow> argument" where
  "version_flag pid a =
     set_nargs 0 (set_implicit_value (Any_bool True)
       (set_help ''prints version information and exits''
         (set_default_value (Any_bool False) (set_action (Void (Print_version pid)) a))))"

definition bare_parser :: "string \<Rightarrow> string \<Rightarrow> bool \<Rightarrow> parser" where
  "bare_parser name version exit_on_default =
     \<lparr>m_program_name = name, m_version = version, m_description = [], m_epilog = [],
      m_exit_on_default_arguments = exit_on_default, m_prefix_chars = ''-'',
      m_assign_chars = ''='', m_is_parsed = False, m_arguments = [], m_positional_arguments = [],
      m_optional_arguments = [], m_argument_map = [], m_parser_path = name, m_subparsers = [],
      m_subparser_map = [], m_subparser_used = []\<rparr>"

definition new_parser ::
  "nat \<Rightarrow> string \<Rightarrow> string \<Rightarrow> default_arguments \<Rightarrow> bool \<Rightarrow> parser" where
  "new_parser pid name version add_args exit_on_default =
     (let p = bare_parser name version exit_on_default;
          p = (if has_default add_args Default_help
               then add_with [''-h'', ''--help''] (help_flag pid) p else p)
      in if has_default add_args Default_version
         then add_with [''-v'', ''--version''] (version_flag pid) p else p)"

definition make_parser ::
  "string \<Rightarrow> string \<Rightarrow> default_arguments \<Rightarrow> bool \<Rightarrow> world \<Rightarrow> world" where
  "make_parser name version add_args exit_on_default w =
     w\<lparr>parsers := parsers w
         @ [new_parser (length (parsers w)) name version add_args exit_on_default]\<rparr>"

definition add_description :: "string \<Rightarrow> parser \<Rightarrow> parser" where
  "add_description t p = p\<lparr>m_description := t\<rparr>"

definition add_epilog :: "string \<Rightarrow> parser \<Rightarrow> parser" where
  "add_epilog t p = p\<lparr>m_epilog := t\<rparr>"

definition set_assign_chars :: "string \<Rightarrow> parser \<Rightarrow> parser" where
  "set_assign_chars t p = p\<lparr>m_assign_chars := t\<rparr>"

text \<open>\<open>sub\<close> becomes a subcommand of \<open>pid\<close>; the path of \<open>sub\<close> is written first.\<close>

definition add_subparser :: "nat \<Rightarrow> nat \<Rightarrow> world \<Rightarrow> world" where
  "add_subparser pid sub w =
     (let w = update_parser sub
                (\<lambda>q. q\<lparr>m_parser_path :=
                         m_program_name (the_parser pid w) @ '' '' @ m_program_name q\<rparr>) w;
          name = m_program_name (the_parser sub w)
      in update_parser pid
           (\<lambda>p. p\<lparr>m_subparsers := m_subparsers p @ [sub],
                  m_subparser_map := insert_or_assign name sub (m_subparser_map p),
                  m_subparser_used := insert_or_assign name False (m_subparser_used p)\<rparr>) w)"

text \<open>
  The copy constructor: the maps are built anew, and the flag that the initialiser list leaves
  out has its default.
\<close>

definition copied :: "nat \<Rightarrow> world \<Rightarrow> parser" where
  "copied pid w =
     (let p = the_parser pid w;
          q = p\<lparr>m_exit_on_default_arguments := True, m_argument_map := [],
                m_subparser_map := [], m_subparser_used := []\<rparr>;
          q = fold index_argument (m_positional_arguments p) q;
          q = fold index_argument (m_optional_arguments p) q
      in fold (\<lambda>sub q.
             q\<lparr>m_subparser_map :=
                 insert_or_assign (m_program_name (the_parser sub w)) sub (m_subparser_map q),
               m_subparser_used :=
                 insert_or_assign (m_program_name (the_parser sub w)) False (m_subparser_used q)\<rparr>)
           (m_subparsers p) q)"

definition copy_parser :: "nat \<Rightarrow> world \<Rightarrow> world" where
  "copy_parser pid w = w\<lparr>parsers := parsers w @ [copied pid w]\<rparr>"

text \<open>Assignment makes a copy and swaps with it.\<close>

definition assign_parser :: "nat \<Rightarrow> nat \<Rightarrow> world \<Rightarrow> world" where
  "assign_parser pid other w = update_parser pid (\<lambda>_. copied other w) w"

text \<open>
  The arguments hold views of the string of prefix characters; what they see after the string is
  replaced depends on the string's implementation. That case is \<open>None\<close>.
\<close>

definition set_prefix_chars :: "string \<Rightarrow> parser \<Rightarrow> parser option" where
  "set_prefix_chars t p = (if m_arguments p = [] then Some (p\<lparr>m_prefix_chars := t\<rparr>) else None)"

section \<open>Help text\<close>

definition usage :: "parser \<Rightarrow> string" where
  "usage p =
     ''Usage: '' @ m_program_name p
     @ concat (map (\<lambda>i. '' '' @ get_inline_usage (m_arguments p ! i)) (m_optional_arguments p))
     @ concat (map (\<lambda>i. let a = m_arguments p ! i in
                        if m_metavar a \<noteq> [] then '' '' @ m_metavar a else '' '' @ hd (m_names a))
         (m_positional_arguments p))
     @ (if m_subparser_map p \<noteq> []
        then '' {'' @ join (map fst (m_subparser_map p)) '','' @ ''}'' else [])"

definition get_length_of_longest_argument :: "parser \<Rightarrow> nat" where
  "get_length_of_longest_argument p =
     (if m_argument_map p = [] then 0
      else fold (\<lambda>(command, _) m. max m (length command)) (m_subparser_map p)
             (fold (\<lambda>(_, i) m. max m (get_arguments_length (m_arguments p ! i)))
               (m_argument_map p) 0))"

definition show_parser :: "world \<Rightarrow> parser \<Rightarrow> string" where
  "show_parser w p =
     (let longest_arg_length = get_length_of_longest_argument p;
          newline = [CHR 0x0A];
          blank_line = newline @ newline
      in usage p @ blank_line
         @ (if m_description p \<noteq> [] then m_description p @ blank_line else [])
         @ (if m_positional_arguments p \<noteq> [] then ''Positional arguments:'' @ newline else [])
         @ concat (map (\<lambda>i. show_argument longest_arg_length (m_arguments p ! i))
             (m_positional_arguments p))
         @ (if m_optional_arguments p \<noteq> []
            then (if m_positional_arguments p = [] then [] else newline)
                 @ ''Optional arguments:'' @ newline else [])
         @ concat (map (\<lambda>i. show_argument longest_arg_length (m_arguments p ! i))
             (m_optional_arguments p))
         @ (if m_subparser_map p \<noteq> []
            then (if m_positional_arguments p = []
                  then (if m_optional_arguments p = [] then [] else newline) else newline)
                 @ ''Subcommands:'' @ newline
                 @ concat (map (\<lambda>(command, sub).
                     padded 2 '' '' @ padded (longest_arg_length - 2) command
                     @ '' '' @ m_description (the_parser sub w) @ newline) (m_subparser_map p))
            else [])
         @ (if m_epilog p \<noteq> [] then newline @ m_epilog p @ blank_line else []))"

definition print_help :: "nat \<Rightarrow> world \<Rightarrow> string \<times> world" where
  "print_help pid w =
     (let out = show_parser w (the_parser pid w) in (out, w\<lparr>console := console w @ out\<rparr>))"

section \<open>Looking arguments up\<close>

definition is_valid_prefix_char :: "parser \<Rightarrow> char \<Rightarrow> bool" where
  "is_valid_prefix_char p c \<longleftrightarrow> c \<in> set (m_prefix_chars p)"

definition get_any_valid_prefix_char :: "parser \<Rightarrow> char" where
  "get_any_valid_prefix_char p = (case m_prefix_chars p of [] \<Rightarrow> CHR 0x00 | c # _ \<Rightarrow> c)"

text \<open>\<open>operator[]\<close>: the name itself, then with one prefix character, then with two.\<close>

definition find_argument :: "string \<Rightarrow> parser \<Rightarrow> stop + nat" where
  "find_argument name p =
     (case map_of (m_argument_map p) name of
        Some i \<Rightarrow> Inr i
      | None \<Rightarrow>
          if name = [] then Inl Undefined
          else
            (let prefix = get_any_valid_prefix_char p;
                 unknown = Inl (Throw (Logic_error (''No such argument: '' @ name)))
             in if is_valid_prefix_char p (hd name) then unknown
                else (case map_of (m_argument_map p) (prefix # name) of
                        Some i \<Rightarrow> Inr i
                      | None \<Rightarrow>
                          (case map_of (m_argument_map p) (prefix # prefix # name) of
                             Some i \<Rightarrow> Inr i
                           | None \<Rightarrow> unknown))))"

definition find_subparser :: "string \<Rightarrow> parser \<Rightarrow> exception + nat" where
  "find_subparser name p =
     (case map_of (m_subparser_map p) name of
        Some sub \<Rightarrow> Inr sub
      | None \<Rightarrow> Inl (Logic_error (''No such subparser: '' @ name)))"

definition with_argument ::
  "string \<Rightarrow> parser \<Rightarrow> (argument \<Rightarrow> exception + 'a) \<Rightarrow> stop + 'a" where
  "with_argument name p f =
     (case find_argument name p of
        Inl s \<Rightarrow> Inl s
      | Inr i \<Rightarrow> map_sum Throw id (f (m_arguments p ! i)))"

definition parser_get :: "any_type \<Rightarrow> string \<Rightarrow> parser \<Rightarrow> stop + any_value" where
  "parser_get t name p =
     (if \<not> m_is_parsed p
      then Inl (Throw (Logic_error ''Nothing parsed, no arguments are available.''))
      else with_argument name p (argument_get t))"

definition parser_present :: "any_type \<Rightarrow> string \<Rightarrow> parser \<Rightarrow> stop + any_value option" where
  "parser_present t name p = with_argument name p (argument_present t)"

definition is_used :: "string \<Rightarrow> parser \<Rightarrow> stop + bool" where
  "is_used name p = with_argument name p (\<lambda>a. Inr (m_is_used a))"

definition is_subcommand_used :: "string \<Rightarrow> parser \<Rightarrow> exception + bool" where
  "is_subcommand_used name p =
     (case map_of (m_subparser_used p) name of None \<Rightarrow> Inl Out_of_range | Some b \<Rightarrow> Inr b)"

definition parser_as_bool :: "parser \<Rightarrow> bool" where
  "parser_as_bool p \<longleftrightarrow>
     m_is_parsed p
     \<and> (list_ex (\<lambda>(_, i). m_is_used (m_arguments p ! i)) (m_argument_map p)
        \<or> list_ex snd (m_subparser_used p))"

section \<open>Splitting assignments\<close>

definition starts_with_prefix_chars :: "parser \<Rightarrow> string \<Rightarrow> bool" where
  "starts_with_prefix_chars p a =
     (if a \<noteq> []
      then (if is_valid_prefix_char p CHR ''/''
            then is_valid_prefix_char p (hd a)
            else if length a > 1
            then is_valid_prefix_char p (a ! 0) \<and> is_valid_prefix_char p (a ! 1)
            else False)
      else False)"

definition split_word :: "parser \<Rightarrow> string \<Rightarrow> string list" where
  "split_word p arg =
     (let opt_name = takeWhile (\<lambda>c. c \<notin> set (m_assign_chars p)) arg;
          assign_char_pos = length opt_name
      in if map_of (m_argument_map p) arg = None \<and> starts_with_prefix_chars p arg
            \<and> assign_char_pos < length arg
            \<and> map_of (m_argument_map p) opt_name \<noteq> None
         then [opt_name, drop (assign_char_pos + 1) arg]
         else [arg])"

definition preprocess_arguments :: "parser \<Rightarrow> string list \<Rightarrow> string list" where
  "preprocess_arguments p raw = concat (map (split_word p) raw)"

section \<open>Parsing\<close>

definition run_void :: "world \<Rightarrow> run_action" where
  "run_void w f s =
     (case f of
        Print_help q \<Rightarrow>
          (show_parser w (the_parser q w),
           if m_exit_on_default_arguments (the_parser q w) then Some Exit_success else None)
      | Print_version q \<Rightarrow>
          (m_version (the_parser q w) @ [CHR 0x0A],
           if m_exit_on_default_arguments (the_parser q w) then Some Exit_success else None)
      | Call g \<Rightarrow> ([], map_option Throw (g s)))"

definition consume_argument ::
  "nat \<Rightarrow> nat \<Rightarrow> string list \<Rightarrow> string \<Rightarrow> world \<Rightarrow> (stop + nat) \<times> world" where
  "consume_argument pid i ws used_name w =
     (case consume (run_void w) ws used_name (m_arguments (the_parser pid w) ! i) of
        (a, out, r) \<Rightarrow>
          (r, (update_parser pid (\<lambda>p. p\<lparr>m_arguments := (m_arguments p)[i := a]\<rparr>) w)
                \<lparr>console := console w @ out\<rparr>))"

text \<open>A word of several one-letter options, such as -ab: the letters, and the words they took.\<close>

definition is_compound :: "parser \<Rightarrow> string \<Rightarrow> bool" where
  "is_compound p word \<longleftrightarrow>
     length word > 1 \<and> is_valid_prefix_char p (word ! 0) \<and> \<not> is_valid_prefix_char p (word ! 1)"

definition unknown_argument :: "string \<Rightarrow> stop" where
  "unknown_argument word = Throw (Runtime_error (''Unknown argument: '' @ word))"

fun consume_compound ::
  "nat \<Rightarrow> string \<Rightarrow> string \<Rightarrow> nat \<Rightarrow> string list \<Rightarrow> world \<Rightarrow> (stop + nat) \<times> world" where
  "consume_compound pid word [] k ws w = (Inr k, w)"
| "consume_compound pid word (c # cs) k ws w =
     (let hypothetical_arg = [CHR ''-'', c] in
      case map_of (m_argument_map (the_parser pid w)) hypothetical_arg of
        Some i \<Rightarrow>
          (case consume_argument pid i (drop k ws) hypothetical_arg w of
             (Inl s, w) \<Rightarrow> (Inl s, w)
           | (Inr n, w) \<Rightarrow> consume_compound pid word cs (k + n) ws w)
      | None \<Rightarrow> (Inl (unknown_argument word), w))"

datatype parse_end = Parsed | Subcommand nat "string list"

definition set_parsed :: "nat \<Rightarrow> world \<Rightarrow> world" where
  "set_parsed pid w = update_parser pid (\<lambda>p. p\<lparr>m_is_parsed := True\<rparr>) w"

definition enter_subcommand :: "nat \<Rightarrow> string \<Rightarrow> world \<Rightarrow> world" where
  "enter_subcommand pid command w =
     update_parser pid
       (\<lambda>p. p\<lparr>m_is_parsed := True,
              m_subparser_used := insert_or_assign command True (m_subparser_used p)\<rparr>) w"

text \<open>
  One round of the loop over the words: it ends the loop, or leaves the words and the positional
  arguments that are still to be filled.
\<close>

definition parse_step ::
  "nat \<Rightarrow> string \<Rightarrow> string list \<Rightarrow> nat list \<Rightarrow> world
    \<Rightarrow> (stop + parse_end + string list \<times> nat list) \<times> world" where
  "parse_step pid word ws positional w =
     (let p = the_parser pid w in
      if is_positional word (m_prefix_chars p)
      then (case positional of
              [] \<Rightarrow>
                (case map_of (m_subparser_map p) word of
                   Some sub \<Rightarrow> (Inr (Inl (Subcommand sub (word # ws))), enter_subcommand pid word w)
                 | None \<Rightarrow> (Inl (Throw (Runtime_error
                             ''Maximum number of positional arguments exceeded'')), w))
            | i # is \<Rightarrow>
                (case consume_argument pid i (word # ws) [] w of
                   (Inl s, w) \<Rightarrow> (Inl s, w)
                 | (Inr n, w) \<Rightarrow> (Inr (Inr (drop n (word # ws), is)), w)))
      else
        (case map_of (m_argument_map p) word of
           Some i \<Rightarrow>
             (case consume_argument pid i ws word w of
                (Inl s, w) \<Rightarrow> (Inl s, w)
              | (Inr n, w) \<Rightarrow> (Inr (Inr (drop n ws, positional)), w))
         | None \<Rightarrow>
             if is_compound p word
             then (case consume_compound pid word (tl word) 0 ws w of
                     (Inl s, w) \<Rightarrow> (Inl s, w)
                   | (Inr n, w) \<Rightarrow> (Inr (Inr (drop n ws, positional)), w))
             else (Inl (unknown_argument word), w)))"

lemma parse_step_shrinks:
  assumes "parse_step pid word ws positional w = (Inr (Inr (ws2, positional2)), w2)"
  shows "length ws2 + length positional2 < Suc (length ws) + length positional"
    and "\<exists>n. ws2 = drop n (word # ws)"
proof -
  show "length ws2 + length positional2 < Suc (length ws) + length positional"
    using assms
    by (auto simp: parse_step_def Let_def
        split: if_splits list.splits option.splits prod.splits sum.splits)
  show "\<exists>n. ws2 = drop n (word # ws)"
    using assms
    by (auto simp: parse_step_def Let_def
        split: if_splits list.splits option.splits prod.splits sum.splits)
      (metis drop_Suc_Cons)+
qed

function parse_loop ::
  "nat \<Rightarrow> string list \<Rightarrow> nat list \<Rightarrow> world \<Rightarrow> (stop + parse_end) \<times> world" where
  "parse_loop pid [] positional w = (Inr Parsed, set_parsed pid w)"
| "parse_loop pid (word # ws) positional w =
     (case parse_step pid word ws positional w of
        (Inl s, w2) \<Rightarrow> (Inl s, w2)
      | (Inr (Inl e), w2) \<Rightarrow> (Inr e, w2)
      | (Inr (Inr (ws2, positional2)), w2) \<Rightarrow> parse_loop pid ws2 positional2 w2)"
  by pat_completeness auto
termination
  by (relation "measure (\<lambda>(_, ws, positional, _). length ws + length positional)")
    (auto dest: parse_step_shrinks(1) [OF sym])

definition start_parse :: "nat \<Rightarrow> string list \<Rightarrow> world \<Rightarrow> string list \<times> world" where
  "start_parse pid raw w =
     (let arguments = preprocess_arguments (the_parser pid w) raw in
      (arguments,
       if m_program_name (the_parser pid w) = [] \<and> arguments \<noteq> []
       then update_parser pid (\<lambda>p. p\<lparr>m_program_name := hd arguments\<rparr>) w else w))"

definition parse_args_internal ::
  "nat \<Rightarrow> string list \<Rightarrow> world \<Rightarrow> (stop + parse_end) \<times> world" where
  "parse_args_internal pid raw w =
     (case start_parse pid raw w of
        ([], w) \<Rightarrow> (Inl Undefined, w)
      | (_ # ws, w) \<Rightarrow> parse_loop pid ws (m_positional_arguments (the_parser pid w)) w)"

fun validate_each :: "argument list \<Rightarrow> nat name_map \<Rightarrow> exception option" where
  "validate_each as [] = None"
| "validate_each as ((_, i) # m) =
     (case validate_argument (as ! i) of Some e \<Rightarrow> Some e | None \<Rightarrow> validate_each as m)"

definition validate_all :: "nat \<Rightarrow> world \<Rightarrow> (stop + unit) \<times> world" where
  "validate_all pid w =
     (let p = the_parser pid w in
      (case validate_each (m_arguments p) (m_argument_map p) of
         Some e \<Rightarrow> (Inl (Throw e), w)
       | None \<Rightarrow> (Inr (), w)))"

section \<open>Termination across subcommands\<close>

text \<open>
  A subcommand parses the rest of the words again, and may split them again; the words with
  their separators do not become longer by that.
\<close>

definition weight :: "string list \<Rightarrow> nat" where
  "weight ws = sum_list (map (\<lambda>w. Suc (length w)) ws)"

lemma weight_simps [simp]:
  "weight [] = 0" "weight (w # ws) = Suc (length w) + weight ws"
  "weight (vs @ ws) = weight vs + weight ws"
  by (simp_all add: weight_def)

lemma weight_split_word: "weight (split_word p arg) \<le> weight [arg]"
  by (auto simp: split_word_def Let_def)

lemma weight_preprocess: "weight (preprocess_arguments p raw) \<le> weight raw"
proof (induction raw)
  case (Cons a raw)
  then show ?case
    using weight_split_word [of p a] by (simp add: preprocess_arguments_def)
qed (simp add: preprocess_arguments_def)

lemma weight_drop: "weight (drop n ws) \<le> weight ws"
  by (metis append_take_drop_id le_add2 weight_simps(3))

lemma parse_step_subcommand:
  "parse_step pid word ws positional w = (Inr (Inl (Subcommand sub rest)), w2) \<Longrightarrow>
     rest = word # ws"
  by (auto simp: parse_step_def Let_def
      split: if_splits list.splits option.splits prod.splits sum.splits)

lemma parse_loop_subcommand:
  "parse_loop pid ws positional w = (Inr (Subcommand sub rest), w2) \<Longrightarrow> weight rest \<le> weight ws"
proof (induction pid ws positional w rule: parse_loop.induct)
  case (2 pid word ws positional w)
  then consider
      "parse_step pid word ws positional w = (Inr (Inl (Subcommand sub rest)), w2)"
    | ws2 positional2 w1 where
        "parse_step pid word ws positional w = (Inr (Inr (ws2, positional2)), w1)"
        "parse_loop pid ws2 positional2 w1 = (Inr (Subcommand sub rest), w2)"
    by (auto split: prod.splits sum.splits)
  then show ?case
  proof cases
    case 1
    then show ?thesis using parse_step_subcommand by fastforce
  next
    case step: 2
    then have "weight rest \<le> weight ws2" using 2(1) by fastforce
    also obtain n where "ws2 = drop n (word # ws)" using parse_step_shrinks [OF step(1)] by blast
    then have "weight ws2 \<le> weight (word # ws)" using weight_drop by blast
    finally show ?thesis .
  qed
qed simp

lemma start_parse_weight: "start_parse pid raw w = (arguments, w2) \<Longrightarrow> weight arguments \<le> weight raw"
  using weight_preprocess by (auto simp: start_parse_def Let_def)

lemma parse_args_internal_subcommand:
  assumes "parse_args_internal pid raw w = (Inr (Subcommand sub rest), w2)"
  shows "weight rest < weight raw"
  using assms start_parse_weight [of pid raw w]
  by (fastforce simp: parse_args_internal_def split: prod.splits list.splits
      dest!: parse_loop_subcommand)

text \<open>
  \<open>parse_args\<close>: after the words, and those of a subcommand, every argument of the map is checked.
  The parser of a subcommand is the whole \<open>parse_args\<close> of that parser.
\<close>

function parse_args :: "nat \<Rightarrow> string list \<Rightarrow> world \<Rightarrow> (stop + unit) \<times> world" where
  "parse_args pid raw w =
     (case parse_args_internal pid raw w of
        (Inl s, w1) \<Rightarrow> (Inl s, w1)
      | (Inr Parsed, w1) \<Rightarrow> validate_all pid w1
      | (Inr (Subcommand sub rest), w1) \<Rightarrow>
          (case parse_args sub rest w1 of
             (Inl s, w2) \<Rightarrow> (Inl s, w2)
           | (Inr _, w2) \<Rightarrow> validate_all pid w2))"
  by pat_completeness auto
termination
  by (relation "measure (\<lambda>(_, raw, _). weight raw)")
    (auto dest: parse_args_internal_subcommand [OF sym])

declare parse_args.simps [simp del]

section \<open>Parsing that keeps unknown words\<close>

text \<open>A letter of a compound word that is no option makes the word unknown and ends it.\<close>

fun consume_compound_known ::
  "nat \<Rightarrow> string \<Rightarrow> string \<Rightarrow> nat \<Rightarrow> string list \<Rightarrow> world
    \<Rightarrow> (stop + nat \<times> string list) \<times> world" where
  "consume_compound_known pid word [] k ws w = (Inr (k, []), w)"
| "consume_compound_known pid word (c # cs) k ws w =
     (let hypothetical_arg = [CHR ''-'', c] in
      case map_of (m_argument_map (the_parser pid w)) hypothetical_arg of
        Some i \<Rightarrow>
          (case consume_argument pid i (drop k ws) hypothetical_arg w of
             (Inl s, w) \<Rightarrow> (Inl s, w)
           | (Inr n, w) \<Rightarrow> consume_compound_known pid word cs (k + n) ws w)
      | None \<Rightarrow> (Inr (k, [word]), w))"

text \<open>The third result of a round are the words that it found to be unknown.\<close>

definition parse_known_step ::
  "nat \<Rightarrow> string \<Rightarrow> string list \<Rightarrow> nat list \<Rightarrow> world
    \<Rightarrow> (stop + parse_end + string list \<times> nat list \<times> string list) \<times> world" where
  "parse_known_step pid word ws positional w =
     (let p = the_parser pid w in
      if is_positional word (m_prefix_chars p)
      then (case positional of
              [] \<Rightarrow>
                (case map_of (m_subparser_map p) word of
                   Some sub \<Rightarrow> (Inr (Inl (Subcommand sub (word # ws))), enter_subcommand pid word w)
                 | None \<Rightarrow> (Inr (Inr (ws, [], [word])), w))
            | i # is \<Rightarrow>
                (case consume_argument pid i (word # ws) [] w of
                   (Inl s, w) \<Rightarrow> (Inl s, w)
                 | (Inr n, w) \<Rightarrow> (Inr (Inr (drop n (word # ws), is, [])), w)))
      else
        (case map_of (m_argument_map p) word of
           Some i \<Rightarrow>
             (case consume_argument pid i ws word w of
                (Inl s, w) \<Rightarrow> (Inl s, w)
              | (Inr n, w) \<Rightarrow> (Inr (Inr (drop n ws, positional, [])), w))
         | None \<Rightarrow>
             if is_compound p word
             then (case consume_compound_known pid word (tl word) 0 ws w of
                     (Inl s, w) \<Rightarrow> (Inl s, w)
                   | (Inr (n, unknown), w) \<Rightarrow> (Inr (Inr (drop n ws, positional, unknown)), w))
             else (Inr (Inr (ws, positional, [word])), w)))"

lemma parse_known_step_shrinks:
  assumes "parse_known_step pid word ws positional w = (Inr (Inr (ws2, positional2, u)), w2)"
  shows "length ws2 + length positional2 < Suc (length ws) + length positional"
    and "\<exists>n. ws2 = drop n (word # ws)"
proof -
  show "length ws2 + length positional2 < Suc (length ws) + length positional"
    using assms
    by (auto simp: parse_known_step_def Let_def
        split: if_splits list.splits option.splits prod.splits sum.splits)
  show "\<exists>n. ws2 = drop n (word # ws)"
    using assms
    by (auto simp: parse_known_step_def Let_def
        split: if_splits list.splits option.splits prod.splits sum.splits)
      (metis drop0 drop_Suc_Cons)+
qed

function parse_known_loop ::
  "nat \<Rightarrow> string list \<Rightarrow> nat list \<Rightarrow> string list \<Rightarrow> world
    \<Rightarrow> (stop + parse_end \<times> string list) \<times> world" where
  "parse_known_loop pid [] positional unknown w = (Inr (Parsed, unknown), set_parsed pid w)"
| "parse_known_loop pid (word # ws) positional unknown w =
     (case parse_known_step pid word ws positional w of
        (Inl s, w2) \<Rightarrow> (Inl s, w2)
      | (Inr (Inl e), w2) \<Rightarrow> (Inr (e, unknown), w2)
      | (Inr (Inr (ws2, positional2, u)), w2) \<Rightarrow>
          parse_known_loop pid ws2 positional2 (unknown @ u) w2)"
  by pat_completeness auto
termination
  by (relation "measure (\<lambda>(_, ws, positional, _). length ws + length positional)")
    (auto dest: parse_known_step_shrinks(1) [OF sym])

definition parse_known_start ::
  "nat \<Rightarrow> string list \<Rightarrow> world \<Rightarrow> (stop + parse_end \<times> string list) \<times> world" where
  "parse_known_start pid raw w =
     (case start_parse pid raw w of
        ([], w) \<Rightarrow> (Inl Undefined, w)
      | (_ # ws, w) \<Rightarrow> parse_known_loop pid ws (m_positional_arguments (the_parser pid w)) [] w)"

lemma parse_known_step_subcommand:
  "parse_known_step pid word ws positional w = (Inr (Inl (Subcommand sub rest)), w2) \<Longrightarrow>
     rest = word # ws"
  by (auto simp: parse_known_step_def Let_def
      split: if_splits list.splits option.splits prod.splits sum.splits)

lemma parse_known_loop_subcommand:
  "parse_known_loop pid ws positional u w = (Inr (Subcommand sub rest, u2), w2) \<Longrightarrow>
     weight rest \<le> weight ws"
proof (induction pid ws positional u w rule: parse_known_loop.induct)
  case (2 pid word ws positional u w)
  then consider
      "parse_known_step pid word ws positional w = (Inr (Inl (Subcommand sub rest)), w2)"
    | ws2 positional2 v w1 where
        "parse_known_step pid word ws positional w = (Inr (Inr (ws2, positional2, v)), w1)"
        "parse_known_loop pid ws2 positional2 (u @ v) w1 = (Inr (Subcommand sub rest, u2), w2)"
    by (auto split: prod.splits sum.splits)
  then show ?case
  proof cases
    case 1
    then show ?thesis using parse_known_step_subcommand by fastforce
  next
    case step: 2
    then have "weight rest \<le> weight ws2" using 2(1) by fastforce
    also obtain n where "ws2 = drop n (word # ws)"
      using parse_known_step_shrinks [OF step(1)] by blast
    then have "weight ws2 \<le> weight (word # ws)" using weight_drop by blast
    finally show ?thesis .
  qed
qed simp

lemma parse_known_start_subcommand:
  assumes "parse_known_start pid raw w = (Inr (Subcommand sub rest, u), w2)"
  shows "weight rest < weight raw"
  using assms start_parse_weight [of pid raw w]
  by (fastforce simp: parse_known_start_def split: prod.splits list.splits
      dest!: parse_known_loop_subcommand)

text \<open>A subcommand returns its own unknown words in the place of the ones collected so far.\<close>

function parse_known_args_internal ::
  "nat \<Rightarrow> string list \<Rightarrow> world \<Rightarrow> (stop + string list) \<times> world" where
  "parse_known_args_internal pid raw w =
     (case parse_known_start pid raw w of
        (Inl s, w1) \<Rightarrow> (Inl s, w1)
      | (Inr (Parsed, unknown), w1) \<Rightarrow> (Inr unknown, w1)
      | (Inr (Subcommand sub rest, unknown), w1) \<Rightarrow> parse_known_args_internal sub rest w1)"
  by pat_completeness auto
termination
  by (relation "measure (\<lambda>(_, raw, _). weight raw)")
    (auto dest: parse_known_start_subcommand [OF sym])

declare parse_known_args_internal.simps [simp del]

definition parse_known_args ::
  "nat \<Rightarrow> string list \<Rightarrow> world \<Rightarrow> (stop + string list) \<times> world" where
  "parse_known_args pid raw w =
     (case parse_known_args_internal pid raw w of
        (Inl s, w1) \<Rightarrow> (Inl s, w1)
      | (Inr unknown, w1) \<Rightarrow>
          (case validate_all pid w1 of
             (Inl s, w2) \<Rightarrow> (Inl s, w2)
           | (Inr _, w2) \<Rightarrow> (Inr unknown, w2)))"

end
