(* ===== verification/ArgumentParserProps.thy ===== *)
theory ArgumentParserProps
  imports ArgumentParser
begin

text \<open>
  What parsing keeps. A locale states the interface between an argument and the loops of the parser:
  a relation between the worlds before and after that holds over each call of \<open>consume\<close> and over
  the few fields that the parser itself writes, holds over a whole parse, whatever its outcome. Two
  instances follow: the shape of the parsers does not change, and a property of the arguments that
  \<open>consume\<close> keeps is kept. From them: a parser stays well formed, every argument has a number of
  values within its declared range, and \<open>parse_known_args\<close> agrees with \<open>parse_args\<close>.
\<close>

section \<open>The writes of the parser to its own fields\<close>


definition own_write :: "(parser \<Rightarrow> parser) \<Rightarrow> bool" where
  "own_write f \<longleftrightarrow>
     (\<forall>p. \<exists>name b used. f p = p\<lparr>m_program_name := name, m_is_parsed := b, m_subparser_used := used\<rparr>)"

lemma own_writeI [intro]:
  "own_write (\<lambda>p. p\<lparr>m_is_parsed := b\<rparr>)"
  "own_write (\<lambda>p. p\<lparr>m_is_parsed := b, m_subparser_used := g p\<rparr>)"
  "own_write (\<lambda>p. p\<lparr>m_program_name := name\<rparr>)"
  unfolding own_write_def
  by (intro allI, rule exI, rule exI, rule exI, rule parser.equality, simp_all)+

section \<open>The two ways to parse\<close>

text \<open>
  \<open>parse_args\<close> does what \<open>parse_known_args\<close> does, except that an unknown word is an error.
\<close>

lemma consume_compound_by_known:
  "consume_compound pid word cs k ws w =
     (case consume_compound_known pid word cs k ws w of
        (Inl s, w2) \<Rightarrow> (Inl s, w2)
      | (Inr (n, u), w2) \<Rightarrow> (if u = [] then Inr n else Inl (unknown_argument word), w2))"
  by (induction pid word cs k ws w rule: consume_compound.induct)
    (auto simp: Let_def split: option.splits prod.splits sum.splits)

lemma parse_step_by_known:
  obtains "parse_step pid word ws positional w =
      (case parse_known_step pid word ws positional w of
         (Inl s, w2) \<Rightarrow> (Inl s, w2)
       | (Inr (Inl e), w2) \<Rightarrow> (Inr (Inl e), w2)
       | (Inr (Inr (ws2, positional2, u)), w2) \<Rightarrow> (Inr (Inr (ws2, positional2)), w2))"
    and "\<And>e. fst (parse_step pid word ws positional w) = Inr e \<Longrightarrow>
      fst (parse_known_step pid word ws positional w) =
        Inr (case e of Inl e \<Rightarrow> Inl e | Inr (ws2, positional2) \<Rightarrow> Inr (ws2, positional2, []))"
  | s where "parse_step pid word ws positional w =
      (Inl s, snd (parse_known_step pid word ws positional w))"
proof (cases "fst (parse_step pid word ws positional w)")
  case (Inl s)
  then have "parse_step pid word ws positional w =
      (Inl s, snd (parse_known_step pid word ws positional w))"
    by (auto simp: parse_step_def parse_known_step_def Let_def consume_compound_by_known
        split: if_splits list.splits option.splits prod.splits sum.splits)
  then show ?thesis using that(2) by blast
next
  case (Inr e)
  then show ?thesis
    by (intro that(1))
      (auto simp: parse_step_def parse_known_step_def Let_def consume_compound_by_known
        split: if_splits list.splits option.splits prod.splits sum.splits)
qed

section \<open>Relations that a parse respects\<close>

lemma parse_step_world:
  "snd (parse_step pid word ws positional w) = snd (parse_known_step pid word ws positional w)"
  by (rule parse_step_by_known [of pid word ws positional w]) (auto split: prod.splits sum.splits)

locale parse_relation =
  fixes R :: "world \<Rightarrow> world \<Rightarrow> bool"
  assumes R_refl: "R w w"
    and R_trans: "R w1 w2 \<Longrightarrow> R w2 w3 \<Longrightarrow> R w1 w3"
    and R_consume: "consume_argument pid i ws name w = (r, w2) \<Longrightarrow> R w w2"
    and R_own: "own_write f \<Longrightarrow> R w (update_parser pid f w)"
begin

lemma compound_known: "consume_compound_known pid word cs k ws w = (r, w2) \<Longrightarrow> R w w2"
proof (induction pid word cs k ws w rule: consume_compound_known.induct)
  case (1 pid word k ws w)
  then show ?case using R_refl by simp
next
  case (2 pid word c cs k ws w)
  show ?case
  proof (cases "map_of (m_argument_map (the_parser pid w)) [CHR ''-'', c]")
    case None
    then show ?thesis using 2(2) R_refl by (simp add: Let_def)
  next
    case (Some i)
    obtain q w1 where q: "consume_argument pid i (drop k ws) [CHR ''-'', c] w = (q, w1)"
      by (cases "consume_argument pid i (drop k ws) [CHR ''-'', c] w") auto
    then have "R w w1" using R_consume by blast
    moreover have "R w1 w2"
      using 2 Some q R_refl by (cases q) (auto simp: Let_def)
    ultimately show ?thesis using R_trans by blast
  qed
qed

lemma enter: "R w (enter_subcommand pid c w)"
  unfolding enter_subcommand_def by (rule R_own [OF own_writeI(2)])

lemma parsed: "R w (set_parsed pid w)"
  unfolding set_parsed_def by (rule R_own [OF own_writeI(1)])

lemma parse_known_step: "parse_known_step pid word ws positional w = (r, w2) \<Longrightarrow> R w w2"
  by (auto simp: parse_known_step_def Let_def intro: R_refl enter
      split: if_splits list.splits option.splits prod.splits sum.splits
      dest: R_consume compound_known)

lemma parse_step: "parse_step pid word ws positional w = (r, w2) \<Longrightarrow> R w w2"
  using parse_known_step [of pid word ws positional w, OF prod.collapse [symmetric]]
    parse_step_world [of pid word ws positional w] by simp

lemma parse_loop: "parse_loop pid ws positional w = (r, w2) \<Longrightarrow> R w w2"
proof (induction pid ws positional w rule: parse_loop.induct)
  case (1 pid positional w)
  then show ?case using parsed by auto
next
  case (2 pid word ws positional w)
  obtain q w1 where q: "parse_step pid word ws positional w = (q, w1)"
    by (cases "parse_step pid word ws positional w") auto
  then have "R w w1" by (rule parse_step)
  moreover have "R w1 w2"
    using 2 q R_refl by (auto split: sum.splits prod.splits)
  ultimately show ?case using R_trans by blast
qed

lemma parse_known_loop: "parse_known_loop pid ws positional u w = (r, w2) \<Longrightarrow> R w w2"
proof (induction pid ws positional u w rule: parse_known_loop.induct)
  case (1 pid positional u w)
  then show ?case using parsed by auto
next
  case (2 pid word ws positional u w)
  obtain q w1 where q: "parse_known_step pid word ws positional w = (q, w1)"
    by (cases "parse_known_step pid word ws positional w") auto
  then have "R w w1" by (rule parse_known_step)
  moreover have "R w1 w2"
    using 2 q R_refl by (auto split: sum.splits prod.splits)
  ultimately show ?case using R_trans by blast
qed

lemma start: "start_parse pid raw w = (arguments, w2) \<Longrightarrow> R w w2"
  using R_refl R_own [OF own_writeI(3)] by (auto simp: start_parse_def Let_def split: if_splits)

lemma parse_args_internal: "parse_args_internal pid raw w = (r, w2) \<Longrightarrow> R w w2"
  by (auto simp: parse_args_internal_def split: prod.splits list.splits
      dest!: start parse_loop intro: R_trans)

lemma parse_known_start: "parse_known_start pid raw w = (r, w2) \<Longrightarrow> R w w2"
  by (auto simp: parse_known_start_def split: prod.splits list.splits
      dest!: start parse_known_loop intro: R_trans)

lemma validate_all: "validate_all pid w = (r, w2) \<Longrightarrow> w2 = w"
  by (auto simp: validate_all_def Let_def split: option.splits)

lemma parse_args: "parse_args pid raw w = (r, w2) \<Longrightarrow> R w w2"
proof (induction pid raw w arbitrary: r w2 rule: parse_args.induct)
  case (1 pid raw w)
  obtain q w1 where q: "parse_args_internal pid raw w = (q, w1)"
    by (cases "parse_args_internal pid raw w") auto
  then have first: "R w w1" by (rule parse_args_internal)
  show ?case
  proof (cases "\<exists>sub rest. q = Inr (Subcommand sub rest)")
    case True
    then obtain sub rest where sub: "q = Inr (Subcommand sub rest)" by blast
    obtain q2 w3 where q2: "parse_args sub rest w1 = (q2, w3)"
      by (cases "parse_args sub rest w1") auto
    then have "R w1 w3" using 1(1) [OF q [symmetric] sub] by blast
    moreover have "w2 = w3"
      using 1(2) q sub q2 validate_all
      by (subst (asm) parse_args.simps) (auto split: sum.splits)
    ultimately show ?thesis using first R_trans by blast
  next
    case False
    then have "w2 = w1"
      using 1(2) q validate_all
      by (subst (asm) parse_args.simps) (auto split: sum.splits parse_end.splits)
    then show ?thesis using first by simp
  qed
qed

lemma parse_known_args_internal: "parse_known_args_internal pid raw w = (r, w2) \<Longrightarrow> R w w2"
proof (induction pid raw w arbitrary: r w2 rule: parse_known_args_internal.induct)
  case (1 pid raw w)
  obtain q w1 where q: "parse_known_start pid raw w = (q, w1)"
    by (cases "parse_known_start pid raw w") auto
  then have first: "R w w1" by (rule parse_known_start)
  show ?case
  proof (cases "\<exists>sub rest u. q = Inr (Subcommand sub rest, u)")
    case True
    then obtain sub rest u where sub: "q = Inr (Subcommand sub rest, u)" by blast
    then have "parse_known_args_internal sub rest w1 = (r, w2)"
      using 1(2) q by (subst (asm) parse_known_args_internal.simps) simp
    then have "R w1 w2" using 1(1) [OF q [symmetric] sub] by blast
    then show ?thesis using first R_trans by blast
  next
    case False
    then have "w2 = w1"
      using 1(2) q
      by (subst (asm) parse_known_args_internal.simps) (auto split: sum.splits prod.splits parse_end.splits)
    then show ?thesis using first by simp
  qed
qed

lemma parse_known_args: "parse_known_args pid raw w = (r, w2) \<Longrightarrow> R w w2"
  by (auto simp: parse_known_args_def split: prod.splits sum.splits
      dest!: parse_known_args_internal validate_all)

end

section \<open>The shape of the parsers\<close>

text \<open>What the program configured, without what a parse fills in.\<close>

definition configured :: "argument \<Rightarrow> argument" where
  "configured a = a\<lparr>m_values := [], m_is_used := False, m_used_name := []\<rparr>"

definition shape :: "parser \<Rightarrow> parser" where
  "shape p =
     p\<lparr>m_program_name := [], m_is_parsed := False, m_subparser_used := [],
       m_arguments := map configured (m_arguments p)\<rparr>"

definition same_shape :: "world \<Rightarrow> world \<Rightarrow> bool" where
  "same_shape w w2 \<longleftrightarrow> map shape (parsers w2) = map shape (parsers w)"

lemma configured_update [simp]:
  "configured (a\<lparr>m_values := vs\<rparr>) = configured a"
  "configured (a\<lparr>m_is_used := b, m_used_name := name\<rparr>) = configured a"
  by (simp_all add: configured_def)

lemma apply_action_configured:
  "apply_action run window a = (b, out, e) \<Longrightarrow> configured b = configured a"
  by (auto simp: apply_action_def split: argument_action.splits prod.splits option.splits if_splits)

lemma consume_configured: "consume run ws name a = (b, out, r) \<Longrightarrow> configured b = configured a"
  by (auto simp: consume_def Let_def split: if_splits argument_action.splits sum.splits
      prod.splits option.splits dest!: apply_action_configured)

lemma shape_own: "own_write f \<Longrightarrow> shape (f p) = shape p"
  by (auto simp: own_write_def shape_def dest: spec [of _ p])

lemma map_list_update_same:
  assumes "i < length xs \<Longrightarrow> g y = g (xs ! i)"
  shows "map g (xs[i := y]) = map g xs"
proof (cases "i < length xs")
  case True
  then show ?thesis
    using assms by (intro nth_equalityI) (simp_all add: nth_list_update)
qed (simp add: list_update_beyond)

lemma map_update_parser:
  "(pid < length (parsers w) \<Longrightarrow> g (f (parsers w ! pid)) = g (parsers w ! pid)) \<Longrightarrow>
     map g (parsers (update_parser pid f w)) = map g (parsers w)"
  unfolding update_parser_def by (simp add: map_list_update_same del: map_update)

interpretation shapes: parse_relation same_shape
proof
  show "same_shape w w" for w by (simp add: same_shape_def)
  show "same_shape w1 w3" if "same_shape w1 w2" "same_shape w2 w3" for w1 w2 w3
    using that by (simp add: same_shape_def)
  show "same_shape w (update_parser pid f w)" if "own_write f" for f pid w
    using that by (simp add: same_shape_def map_update_parser shape_own)
  show "same_shape w w2" if step: "consume_argument pid i ws name w = (r, w2)"
    for pid i ws name w r w2
  proof -
    obtain a out where a: "consume (run_void w) ws name (m_arguments (the_parser pid w) ! i) = (a, out, r)"
      and w2: "w2 = (update_parser pid (\<lambda>p. p\<lparr>m_arguments := (m_arguments p)[i := a]\<rparr>) w)
                \<lparr>console := console w @ out\<rparr>"
      using step by (auto simp: consume_argument_def split: prod.splits)
    let ?p = "parsers w ! pid"
    have "map configured ((m_arguments ?p)[i := a]) = map configured (m_arguments ?p)"
      using consume_configured [OF a] by (intro map_list_update_same) (simp add: the_parser_def)
    then show ?thesis by (simp add: same_shape_def w2 map_update_parser shape_def)
  qed
qed

text \<open>
  A parser is well formed when its lists and its map refer to arguments it has, when the map has the
  names of every argument, under an argument of that name, and when the positional arguments are
  the ones that are no options.
\<close>

definition parser_wf :: "parser \<Rightarrow> bool" where
  "parser_wf p \<longleftrightarrow>
     (\<forall>i \<in> set (m_positional_arguments p).
        i < length (m_arguments p) \<and> \<not> m_is_optional (m_arguments p ! i))
     \<and> (\<forall>i \<in> set (m_optional_arguments p).
        i < length (m_arguments p) \<and> m_is_optional (m_arguments p ! i))
     \<and> (\<forall>name i. map_of (m_argument_map p) name = Some i \<longrightarrow>
        i < length (m_arguments p) \<and> name \<in> set (m_names (m_arguments p ! i)))
     \<and> (\<forall>a \<in> set (m_arguments p). \<forall>name \<in> set (m_names a). map_of (m_argument_map p) name \<noteq> None)"

lemma configured_fields [simp]:
  "m_names (configured a) = m_names a" "m_is_optional (configured a) = m_is_optional a"
  "m_is_required (configured a) = m_is_required a"
  "m_is_repeatable (configured a) = m_is_repeatable a"
  "m_num_args_range (configured a) = m_num_args_range a"
  "m_default_value (configured a) = m_default_value a"
  by (simp_all add: configured_def)

lemma parser_wf_cong:
  assumes "parser_wf p" and "length (m_arguments q) = length (m_arguments p)"
    and "\<And>i. i < length (m_arguments p) \<Longrightarrow> m_names (m_arguments q ! i) = m_names (m_arguments p ! i)
      \<and> m_is_optional (m_arguments q ! i) = m_is_optional (m_arguments p ! i)"
    and "m_argument_map q = m_argument_map p"
    and "m_positional_arguments q = m_positional_arguments p"
    and "m_optional_arguments q = m_optional_arguments p"
  shows "parser_wf q"
  using assms(1,3) unfolding parser_wf_def all_set_conv_all_nth assms(2,4-6) by simp

lemma parser_wf_shape: "parser_wf (shape p) \<longleftrightarrow> parser_wf p"
proof
  show "parser_wf (shape p)" if "parser_wf p"
    using that by (rule parser_wf_cong) (simp_all add: shape_def)
  show "parser_wf p" if "parser_wf (shape p)"
    using that by (rule parser_wf_cong) (simp_all add: shape_def)
qed

lemma map_of_insert_or_assign:
  "map_of (insert_or_assign k v m) = (map_of m)(k \<mapsto> v)"
  by (induction k v m rule: insert_or_assign.induct) auto

lemma map_of_index:
  "map_of (fold (\<lambda>name m. insert_or_assign name i m) names m) name =
     (if name \<in> set names then Some i else map_of m name)"
  by (induction names arbitrary: m) (simp_all add: map_of_insert_or_assign)

lemma index_argument_map:
  "map_of (m_argument_map (index_argument i p)) name =
     (if name \<in> set (m_names (m_arguments p ! i)) then Some i else map_of (m_argument_map p) name)"
  by (simp add: index_argument_def map_of_index)

lemma index_argument_fields [simp]:
  "m_arguments (index_argument i p) = m_arguments p"
  "m_positional_arguments (index_argument i p) = m_positional_arguments p"
  "m_optional_arguments (index_argument i p) = m_optional_arguments p"
  by (simp_all add: index_argument_def)

lemma place_argument_wf:
  assumes "parser_wf p"
  shows "parser_wf (place_argument a p)"
  using assms
  by (auto simp: parser_wf_def place_argument_def Let_def index_argument_map nth_append
      less_Suc_eq split: if_splits)

lemma add_argument_wf: "parser_wf p \<Longrightarrow> parser_wf (add_argument names p)"
  by (simp add: add_argument_def place_argument_wf)

lemma configure_last_wf:
  assumes "parser_wf p" and "m_arguments p \<noteq> []"
    and "\<And>a. m_names (f a) = m_names a \<and> m_is_optional (f a) = m_is_optional a"
  shows "parser_wf (configure_last f p)"
proof -
  have "m_names (m_arguments (configure_last f p) ! i) = m_names (m_arguments p ! i)
      \<and> m_is_optional (m_arguments (configure_last f p) ! i) = m_is_optional (m_arguments p ! i)"
    if "i < length (m_arguments p)" for i
    using that assms(2,3) by (simp add: configure_last_def nth_list_update last_conv_nth)
  then show ?thesis
    by (intro parser_wf_cong [OF assms(1)]) (simp_all add: configure_last_def)
qed

lemma bare_parser_wf: "parser_wf (bare_parser name version exit_on_default)"
  by (simp add: parser_wf_def bare_parser_def)

lemma add_with_wf:
  assumes "parser_wf p" and "\<And>a. m_names (f a) = m_names a \<and> m_is_optional (f a) = m_is_optional a"
  shows "parser_wf (add_with names f p)"
proof -
  have "m_arguments (add_argument names p) \<noteq> []"
    by (simp add: add_argument_def place_argument_def Let_def)
  then show ?thesis
    using assms by (simp add: add_with_def configure_last_wf add_argument_wf)
qed

lemma new_parser_wf: "parser_wf (new_parser pid name version add_args exit_on_default)"
  by (simp add: new_parser_def Let_def bare_parser_wf add_with_wf help_flag_def version_flag_def
      set_nargs_def set_implicit_value_def set_help_def set_default_value_def set_action_def)

text \<open>A copy exits on its help flag even when the original does not.\<close>

lemma copy_loses_exit_flag: "m_exit_on_default_arguments (copied pid w)"
proof -
  have keep: "m_exit_on_default_arguments (fold h ns p) = m_exit_on_default_arguments p"
    if "\<And>n q. m_exit_on_default_arguments (h n q) = m_exit_on_default_arguments q"
    for h :: "nat \<Rightarrow> parser \<Rightarrow> parser" and ns p
    using that by (induction ns arbitrary: p) simp_all
  show ?thesis by (simp add: copied_def Let_def keep index_argument_def)
qed

text \<open>An argument is found under each of the names it was added with.\<close>

lemma add_argument_found:
  assumes "name \<in> set names"
  shows "find_argument name (add_argument names p) = Inr (length (m_arguments p))"
proof -
  have "set (insert_name n ns) = insert n (set ns)" for n ns
    by (induction ns) auto
  then have "set (sort_names names) = set names" for names
    unfolding sort_names_def by (induction names) simp_all
  then show ?thesis
    using assms
    by (auto simp: find_argument_def add_argument_def place_argument_def Let_def
        index_argument_map new_argument_def)
qed

text \<open>
  C25: Whatever its outcome (success, an exception, the exit of a help flag), \<open>parse_args\<close> changes
  nothing that the program configured, in any parser, subcommands included: only the values, the
  used flags, the program name and the parsed flag. So a well-formed parser, whose map finds every
  argument by each of its names and whose positional arguments are the ones that are no options,
  stays one.
\<close>
theorem parse_args_keeps_configuration:
  assumes "parse_args pid raw w = (r, w2)"
  shows "map shape (parsers w2) = map shape (parsers w)
    \<and> (list_all parser_wf (parsers w) \<longrightarrow> list_all parser_wf (parsers w2))"
proof -
  have shapes: "map shape (parsers w2) = map shape (parsers w)"
    using shapes.parse_args [OF assms] by (simp add: same_shape_def)
  have "list_all parser_wf ps \<longleftrightarrow> list_all parser_wf (map shape ps)" for ps
    by (simp add: list_all_iff parser_wf_shape)
  then show ?thesis using shapes by metis
qed

section \<open>Numbers of values\<close>

text \<open>The contract of a property of arguments that \<open>consume\<close> keeps.\<close>

definition all_arguments :: "(argument \<Rightarrow> bool) \<Rightarrow> world \<Rightarrow> bool" where
  "all_arguments P w \<longleftrightarrow> list_all (\<lambda>p. list_all P (m_arguments p)) (parsers w)"

locale argument_invariant =
  fixes P :: "argument \<Rightarrow> bool"
  assumes P_consume: "consume run ws name a = (b, out, r) \<Longrightarrow> P a \<Longrightarrow> P b"
begin

lemma consume_argument_keeps:
  assumes step: "consume_argument pid i ws name w = (r, w2)" and P: "all_arguments P w"
  shows "all_arguments P w2"
proof (cases "pid < length (parsers w) \<and> i < length (m_arguments (parsers w ! pid))")
  case True
  obtain a out where a: "consume (run_void w) ws name (m_arguments (the_parser pid w) ! i) = (a, out, r)"
    and w2: "w2 = (update_parser pid (\<lambda>p. p\<lparr>m_arguments := (m_arguments p)[i := a]\<rparr>) w)
              \<lparr>console := console w @ out\<rparr>"
    using step by (auto simp: consume_argument_def split: prod.splits)
  have "P (m_arguments (the_parser pid w) ! i)"
    using P True by (simp add: all_arguments_def list_all_length the_parser_def)
  then have "P a" using a P_consume by blast
  then show ?thesis
    using P True unfolding w2
    by (auto simp: all_arguments_def update_parser_def list_all_length nth_list_update)
next
  case False
  then show ?thesis
    using step P
    by (auto simp: consume_argument_def update_parser_def all_arguments_def list_update_beyond
        not_less list_all_length nth_list_update split: prod.splits)
qed

lemma own_keeps:
  assumes "own_write f" and "all_arguments P w"
  shows "all_arguments P (update_parser pid f w)"
proof -
  have "m_arguments (f p) = m_arguments p" for p
    using assms(1) by (auto simp: own_write_def dest: spec [of _ p])
  then show ?thesis
    using assms(2)
    by (cases "pid < length (parsers w)")
      (auto simp: all_arguments_def update_parser_def list_all_length nth_list_update
        list_update_beyond not_less)
qed

end

sublocale argument_invariant \<subseteq> keeps: parse_relation "\<lambda>w w2. all_arguments P w \<longrightarrow> all_arguments P w2"
  using consume_argument_keeps own_keeps by unfold_locales auto

text \<open>
  An argument that was not used has no values, and one that may appear once only has at most as
  many as its range allows (a flag has its implicit value).
\<close>

definition counts_ok :: "argument \<Rightarrow> bool" where
  "counts_ok a \<longleftrightarrow>
     (\<not> m_is_used a \<longrightarrow> m_values a = [])
     \<and> (\<not> m_is_repeatable a \<longrightarrow> length (m_values a) \<le> max 1 (m_max (m_num_args_range a)))"

lemma push_values_length:
  "push_values f ss vs = (us, e) \<Longrightarrow> length us \<le> length vs + length ss"
proof (induction f ss vs rule: push_values.induct)
  case (2 f s ss vs)
  then show ?case by (fastforce split: sum.splits)
qed simp

lemma apply_action_counts:
  assumes "apply_action run window a = (b, out, e)"
    and "m_is_used a" and "\<not> m_is_repeatable a \<longrightarrow> m_values a = []"
    and "length window \<le> m_max (m_num_args_range a)"
  shows "counts_ok b"
  using assms
  by (auto simp: apply_action_def counts_ok_def resize_def
      split: argument_action.splits prod.splits option.splits if_splits dest!: push_values_length)

text \<open>The ways through \<open>consume\<close>.\<close>

lemma consume_cases [consumes 1, case_names duplicate flag window nothing]:
  assumes "consume run ws name a = (b, out, r)"
  obtains "\<not> m_is_repeatable a" "m_is_used a" "b = a"
      "r = Inl (Throw (Runtime_error ''Duplicate argument''))"
  | "m_is_repeatable a \<or> \<not> m_is_used a" "m_max (m_num_args_range a) = 0"
      "b = a\<lparr>m_is_used := True, m_used_name := name, m_values := m_values a @ [m_implicit_value a]\<rparr>"
  | win e where "m_is_repeatable a \<or> \<not> m_is_used a"
      "length win \<le> m_max (m_num_args_range a)"
      "apply_action run win (a\<lparr>m_is_used := True, m_used_name := name\<rparr>) = (b, out, e)"
  | "m_is_repeatable a \<or> \<not> m_is_used a" "b = a\<lparr>m_is_used := True, m_used_name := name\<rparr>"
proof -
  let ?a = "a\<lparr>m_is_used := True, m_used_name := name\<rparr>"
  let ?win = "if m_accepts_optional_like_value a then take (m_max (m_num_args_range a)) ws
    else takeWhile (\<lambda>w. \<not> is_optional w (m_arg_prefix_chars a))
      (take (m_max (m_num_args_range a)) ws)"
  have "length (takeWhile P (take n xs)) \<le> n" for P n and xs :: "string list"
    using length_takeWhile_le [of P "take n xs"] by simp
  then have len: "length ?win \<le> m_max (m_num_args_range a)" by auto
  show ?thesis
  proof (cases "m_is_repeatable a \<or> \<not> m_is_used a")
    case False
    then have "b = a \<and> r = Inl (Throw (Runtime_error ''Duplicate argument''))"
      using assms by (simp add: consume_def)
    then show ?thesis using that(1) False by blast
  next
    case used: True
    show ?thesis
    proof (cases "m_max (m_num_args_range a) = 0")
      case True
      then have "b = a\<lparr>m_is_used := True, m_used_name := name,
          m_values := m_values a @ [m_implicit_value a]\<rparr>"
        using assms used
        by (auto simp: consume_def Let_def
            split: argument_action.splits sum.splits prod.splits option.splits)
      then show ?thesis using that(2) used True by blast
    next
      case False
      obtain c o2 e where act: "apply_action run ?win ?a = (c, o2, e)"
        by (cases "apply_action run ?win ?a") auto
      from False used assms act have "b = ?a \<or> b = c \<and> out = o2"
        by (simp add: consume_def Let_def split: if_splits option.splits)
      then show ?thesis using that(3) [OF used len] that(4) [OF used] act by blast
    qed
  qed
qed

lemma consume_counts:
  assumes "consume run ws name a = (b, out, r)" and "counts_ok a"
  shows "counts_ok b"
  using assms(1)
proof (cases rule: consume_cases)
  case duplicate
  then show ?thesis using assms(2) by simp
next
  case flag
  then show ?thesis using assms(2) by (auto simp: counts_ok_def)
next
  case (window win e)
  then show ?thesis
    using assms(2) by (intro apply_action_counts [OF window(3)]) (auto simp: counts_ok_def)
next
  case nothing
  then show ?thesis using assms(2) by (auto simp: counts_ok_def)
qed

interpretation counts: argument_invariant counts_ok
  by unfold_locales (rule consume_counts)

lemma validate_each_None:
  "validate_each as m = None \<longleftrightarrow> (\<forall>(name, i) \<in> set m. validate_argument (as ! i) = None)"
  by (induction m) (auto split: option.splits)

lemma validate_all_ok:
  "validate_all pid w = (Inr (), w2) \<Longrightarrow>
     w2 = w \<and> validate_each (m_arguments (the_parser pid w)) (m_argument_map (the_parser pid w)) = None"
  by (auto simp: validate_all_def Let_def split: option.splits)

lemma parse_args_validates:
  assumes "parse_args pid raw w = (Inr (), w2)"
  shows "validate_each (m_arguments (the_parser pid w2)) (m_argument_map (the_parser pid w2)) = None"
  using assms
  by (subst (asm) parse_args.simps)
    (auto split: prod.splits sum.splits parse_end.splits dest!: validate_all_ok)

lemma parse_args_argument:
  assumes parse: "parse_args pid raw w = (Inr (), w2)"
    and all: "all_arguments counts_ok w" and wf: "list_all parser_wf (parsers w)"
    and pid: "pid < length (parsers w)"
    and found: "map_of (m_argument_map (the_parser pid w)) name = Some i"
  shows "counts_ok (m_arguments (the_parser pid w2) ! i)"
    and "validate_argument (m_arguments (the_parser pid w2) ! i) = None"
    and "configured (m_arguments (the_parser pid w2) ! i)
      = configured (m_arguments (the_parser pid w) ! i)"
proof -
  have i: "i < length (m_arguments (the_parser pid w))"
    using wf pid found by (auto simp: list_all_length the_parser_def parser_wf_def)
  have shapes: "map shape (parsers w2) = map shape (parsers w)"
    using shapes.parse_args [OF parse] by (simp add: same_shape_def)
  then have len: "length (parsers w2) = length (parsers w)" by (rule map_eq_imp_length_eq)
  have "shape (the_parser pid w2) = shape (the_parser pid w)"
    using shapes pid len by (metis nth_map the_parser_def)
  then have args: "map configured (m_arguments (the_parser pid w2))
      = map configured (m_arguments (the_parser pid w))"
    and same_map: "m_argument_map (the_parser pid w2) = m_argument_map (the_parser pid w)"
    by (auto simp: shape_def dest: arg_cong [of _ _ m_arguments] arg_cong [of _ _ m_argument_map])
  then show "configured (m_arguments (the_parser pid w2) ! i)
      = configured (m_arguments (the_parser pid w) ! i)"
    using i by (metis length_map nth_map)
  have i2: "i < length (m_arguments (the_parser pid w2))"
    using args i by (metis length_map)
  have "all_arguments counts_ok w2" using counts.keeps.parse_args [OF parse] all by simp
  then show "counts_ok (m_arguments (the_parser pid w2) ! i)"
    using i2 pid len by (simp add: all_arguments_def list_all_length the_parser_def)
  show "validate_argument (m_arguments (the_parser pid w2) ! i) = None"
    using parse_args_validates [OF parse] map_of_SomeD [OF found] same_map
    by (auto simp: validate_each_None)
qed


text \<open>
  A parser with one positional argument, and a second parser of a subcommand, for the examples.
\<close>

definition example_world :: world where
  "example_world =
     add_subparser 0 1
       (update_parser 0 (add_with [''ip''] id)
         (make_parser ''sub'' ''1.0'' Default_none True
           (make_parser ''node'' ''1.0'' Default_none True \<lparr>parsers = [], console = []\<rparr>)))"


theorem parse_args_keeps_configuration_witness:
  "map shape (parsers (snd (parse_args 0 [''node'', ''host''] example_world)))
     = map shape (parsers example_world)"
  using parse_args_keeps_configuration [OF prod.collapse [symmetric]] by blast

section \<open>Words that are not known\<close>

lemma parse_step_known:
  assumes "parse_step pid word ws positional w = (Inr e, w2)"
  shows "parse_known_step pid word ws positional w =
    (Inr (case e of Inl e \<Rightarrow> Inl e | Inr (ws2, positional2) \<Rightarrow> Inr (ws2, positional2, [])), w2)"
  using assms parse_step_world [of pid word ws positional w]
  by (rule_tac parse_step_by_known [of pid word ws positional w]) (auto intro: prod_eqI)

lemma parse_loop_known:
  "parse_loop pid ws positional w = (Inr e, w2) \<Longrightarrow>
     parse_known_loop pid ws positional u w = (Inr (e, u), w2)"
proof (induction pid ws positional w rule: parse_loop.induct)
  case (2 pid word ws positional w)
  obtain q w1 where q: "parse_step pid word ws positional w = (Inr q, w1)"
    using 2(2) by (cases "parse_step pid word ws positional w") (auto split: sum.splits)
  show ?case
    using 2 q parse_step_known [OF q] by (auto split: sum.splits prod.splits)
qed simp

lemma parse_args_internal_known:
  "parse_args_internal pid raw w = (Inr e, w2) \<Longrightarrow> parse_known_start pid raw w = (Inr (e, []), w2)"
  by (auto simp: parse_args_internal_def parse_known_start_def parse_loop_known
      split: prod.splits list.splits)

lemma parse_args_known_internal:
  "parse_args pid raw w = (Inr (), w2) \<Longrightarrow> parse_known_args_internal pid raw w = (Inr [], w2)"
proof (induction pid raw w arbitrary: w2 rule: parse_args.induct)
  case (1 pid raw w)
  obtain q w1 where q: "parse_args_internal pid raw w = (Inr q, w1)"
    using 1(2) by (subst (asm) parse_args.simps) (auto split: prod.splits sum.splits)
  note known = parse_args_internal_known [OF q]
  show ?case
  proof (cases q)
    case Parsed
    then show ?thesis
      using 1(2) q known
      by (subst (asm) parse_args.simps, subst parse_known_args_internal.simps)
        (auto dest: validate_all_ok)
  next
    case (Subcommand sub rest)
    then obtain w3 where sub: "parse_args sub rest w1 = (Inr (), w3)" and w2: "w2 = w3"
      using 1(2) q
      by (subst (asm) parse_args.simps) (auto split: prod.splits sum.splits dest!: validate_all_ok)
    have "parse_known_args_internal sub rest w1 = (Inr [], w3)"
      using 1(1) [OF q [symmetric] _ Subcommand] sub by simp
    then show ?thesis
      using known Subcommand w2 by (subst parse_known_args_internal.simps) simp
  qed
qed

text \<open>
  C23: On every command line that \<open>parse_args\<close> accepts, subcommands included, \<open>parse_known_args\<close>
  succeeds too, reports no unknown word, and leaves the same state.
\<close>
theorem parse_known_args_agrees:
  assumes "parse_args pid raw w = (Inr (), w2)"
  shows "parse_known_args pid raw w = (Inr [], w2)"
proof -
  have "validate_all pid w2 = (Inr (), w2)"
    using parse_args_validates [OF assms] by (simp add: validate_all_def Let_def)
  then show ?thesis
    using parse_args_known_internal [OF assms] by (simp add: parse_known_args_def)
qed

theorem parse_known_args_agrees_witness:
  "fst (parse_known_args 0 [''node'', ''host'', ''sub''] example_world) = Inr []"
proof -
  have "parse_args 0 [''node'', ''host'', ''sub''] example_world
      = (Inr (), snd (parse_args 0 [''node'', ''host'', ''sub''] example_world))"
    by (rule prod_eqI) (simp, code_simp, simp)
  then show ?thesis using parse_known_args_agrees by fastforce
qed

text \<open>
  The unknown words before a subcommand are lost: the call reports none, although it reports the
  same word without the subcommand.
\<close>

lemma unknown_words_lost:
  "fst (parse_known_args 0 [''node'', ''host'', ''--x''] example_world) = Inr [''--x'']"
  "fst (parse_known_args 0 [''node'', ''host'', ''--x'', ''sub''] example_world) = Inr []"
  by code_simp+

section \<open>Assignments\<close>

lemma split_assignment:
  assumes "map_of (m_argument_map p) opt \<noteq> None" and "starts_with_prefix_chars p opt"
    and "set opt \<inter> set (m_assign_chars p) = {}" and "c \<in> set (m_assign_chars p)"
    and "map_of (m_argument_map p) (opt @ c # v) = None"
  shows "split_word p (opt @ c # v) = [opt, v]"
proof -
  have "takeWhile (\<lambda>d. d \<notin> set (m_assign_chars p)) (opt @ c # v) = opt"
    using assms(3,4) by (subst takeWhile_append2) auto
  moreover have "starts_with_prefix_chars p (opt @ c # v)"
    using assms(2) by (cases opt) (auto simp: starts_with_prefix_chars_def nth_append split: if_splits)
  ultimately show ?thesis
    using assms(1,5) by (simp add: split_word_def Let_def)
qed

lemma parse_args_preprocessed:
  assumes "preprocess_arguments (the_parser pid w) raw = preprocess_arguments (the_parser pid w) raw2"
  shows "parse_args pid raw w = parse_args pid raw2 w"
proof -
  have "parse_args_internal pid raw w = parse_args_internal pid raw2 w"
    using assms by (simp add: parse_args_internal_def start_parse_def)
  then show ?thesis by (simp add: parse_args.simps [of pid raw] parse_args.simps [of pid raw2])
qed

text \<open>
  \<open>--option=value\<close> is \<open>--option value\<close>: at any place of the command line, with any characters
  of \<open>m_assign_chars\<close>, for an option that the parser knows under that name and a value that is not
  such an assignment itself.
\<close>
theorem assignment_is_two_words:
  assumes "p = the_parser pid w" and "map_of (m_argument_map p) opt \<noteq> None"
    and "starts_with_prefix_chars p opt"
    and "set opt \<inter> set (m_assign_chars p) = {}" and "c \<in> set (m_assign_chars p)"
    and "map_of (m_argument_map p) (opt @ c # v) = None" and "split_word p v = [v]"
  shows "parse_args pid (before @ [opt @ c # v] @ after) w = parse_args pid (before @ [opt, v] @ after) w"
proof -
  have "split_word p opt = [opt]" using assms(2) by (simp add: split_word_def Let_def)
  then show ?thesis
    using split_assignment [OF assms(2-6)] assms(1,7)
    by (intro parse_args_preprocessed) (simp add: preprocess_arguments_def)
qed

definition option_world :: world where
  "option_world =
     update_parser 0 (add_with [''--port''] id)
       (make_parser ''node'' ''1.0'' Default_all True \<lparr>parsers = [], console = []\<rparr>)"

theorem assignment_is_two_words_witness:
  "parse_args 0 [''node'', ''--port=80''] option_world = parse_args 0 [''node'', ''--port'', ''80''] option_world"
proof -
  let ?p = "the_parser 0 option_world"
  have "map_of (m_argument_map ?p) ''--port'' \<noteq> None" and "starts_with_prefix_chars ?p ''--port''"
    and "set ''--port'' \<inter> set (m_assign_chars ?p) = {}" and "CHR ''='' \<in> set (m_assign_chars ?p)"
    and "map_of (m_argument_map ?p) (''--port'' @ CHR ''='' # ''80'') = None"
    and "split_word ?p ''80'' = [''80'']"
    by code_simp+
  from assignment_is_two_words [OF refl this, of "[''node'']" "[]"] show ?thesis by simp
qed

end
