(* ===== verification/CommandLine.thy ===== *)
theory CommandLine
  imports ArgumentParserProps FragmentRun Testcases
begin

text \<open>
  The two \<open>main\<close> functions, from the command line on: \<open>testcase::run_testcase\<close> of
  testing/common/testcase.cpp, which every test program calls with its arguments, and \<open>main\<close> of
  framework/fragment.cpp, the node program, with the arguments that the orchestrator's child
  process gives it. The parser is that of the argument parser's theories; \<open>inet_addr\<close> of the C
  library is a parameter.
\<close>

section \<open>Outcomes of a program\<close>

text \<open>
  A program ends with an exit code, by an exception that nobody catches, or in undefined
  behaviour; or it starts its work.
\<close>

datatype 'a main_result = Exit_code int | Uncaught exception | Undefined_behaviour | Started 'a

fun stopped :: "stop \<Rightarrow> 'a main_result" where
  "stopped (Throw e) = Uncaught e"
| "stopped Exit_success = Exit_code 0"
| "stopped Undefined = Undefined_behaviour"

text \<open>The try block around \<open>parse_args\<close>: a \<open>std::runtime_error\<close> is reported, and the exit code is 1.\<close>

definition try_parse_args ::
  "string list \<Rightarrow> world \<Rightarrow> (parser \<Rightarrow> 'a main_result) \<Rightarrow> 'a main_result" where
  "try_parse_args argv w continue =
     (case parse_args 0 argv w of
        (Inl (Throw e), w1) \<Rightarrow> if is_runtime_error e then Exit_code 1 else Uncaught e
      | (Inl s, w1) \<Rightarrow> stopped s
      | (Inr _, w1) \<Rightarrow> continue (the_parser 0 w1))"

definition no_parsers :: world where
  "no_parsers = \<lparr>parsers = [], console = []\<rparr>"

section \<open>The test programs\<close>

definition test_world :: "string \<Rightarrow> world" where
  "test_world name =
     update_parser 0
       (add_with [''-a'']
         (\<lambda>a. set_help ''Use autotest mode''
            (set_implicit_value (Any_bool True) (set_default_value (Any_bool False) a))))
       (make_parser name ''1.0'' Default_all True no_parsers)"

definition test_arguments :: "string \<Rightarrow> string list \<Rightarrow> bool main_result" where
  "test_arguments name argv =
     try_parse_args argv (test_world name)
       (\<lambda>p. case with_argument ''-a'' p (\<lambda>a. argument_equals a Type_bool (Any_bool True)) of
              Inl s \<Rightarrow> stopped s
            | Inr autotest \<Rightarrow> Started autotest)"

text \<open>The rest is \<open>run_testcase\<close>.\<close>

definition test_main ::
  "orc_env \<Rightarrow> buffer \<times> buffer \<Rightarrow> sockets \<Rightarrow> test_program \<Rightarrow> string \<Rightarrow> string list
    \<Rightarrow> (bool \<times> orchestrator) progress option main_result" where
  "test_main env mem n t name argv =
     map_main_result (\<lambda>autotest. run_testcase env mem n autotest t) (test_arguments name argv)"

section \<open>The node program\<close>

definition node_world :: world where
  "node_world =
     update_parser 0
       (add_with [''orchestrator_port'']
         (\<lambda>a. set_help (''Orchestrator'' @ [CHR 0x27] @ ''s port number'')
            (the (scan CHR ''u'' unsigned_int a))))
       (update_parser 0
         (add_with [''orchestrator_ip'']
           (set_help (''Orchestrator'' @ [CHR 0x27] @ ''s public IP address'')))
         (make_parser ''Node'' ''1.0'' Default_all True no_parsers))"

text \<open>The values that the two calls of \<open>get\<close> return have the type they ask for.\<close>

fun text_of :: "any_value \<Rightarrow> string" where
  "text_of (Any_string s) = s"
| "text_of _ = []"

fun number_of :: "any_value \<Rightarrow> int" where
  "number_of (Any_int t i) = i"
| "number_of _ = 0"

definition node_arguments :: "(string \<Rightarrow> u32) \<Rightarrow> parser \<Rightarrow> sockaddr_in main_result" where
  "node_arguments inet_addr p =
     (case parser_get Type_string ''orchestrator_ip'' p of
        Inl s \<Rightarrow> stopped s
      | Inr ip \<Rightarrow>
          (case parser_get (Type_int unsigned_int) ''orchestrator_port'' p of
             Inl s \<Rightarrow> stopped s
           | Inr port \<Rightarrow>
               (let addr = inet_addr (text_of ip);
                    port_number = (word_of_int (number_of port) :: u16)
                in if addr = - 1 then Exit_code 1
                   else Started \<lparr>sin_family = AF_INET, sin_port = htons port_number,
                          s_addr = addr\<rparr>)))"

definition node_main :: "(string \<Rightarrow> u32) \<Rightarrow> string list \<Rightarrow> sockaddr_in main_result" where
  "node_main inet_addr argv = try_parse_args argv node_world (node_arguments inet_addr)"

text \<open>With an address, the fragment is constructed and runs.\<close>

definition node_program ::
  "fragment_env \<Rightarrow> nat
    \<Rightarrow> (bool \<times> bool \<times> bool) \<times> (bool \<times> bool) \<times> (bool \<times> bool)
    \<Rightarrow> (bool \<times> bool \<times> bool) \<times> (bool \<times> bool) \<times> (bool \<times> bool)
    \<Rightarrow> buffer \<times> buffer \<Rightarrow> sockets \<Rightarrow> (string \<Rightarrow> u32) \<Rightarrow> string list
    \<Rightarrow> fragment progress option main_result" where
  "node_program env k a b mem n inet_addr argv =
     map_main_result
       (\<lambda>orc. case new_fragment a b mem n orc of None \<Rightarrow> None | Some f \<Rightarrow> fragment_run env k f)
       (node_main inet_addr argv)"

text \<open>The arguments of the fragment processes that the orchestrator starts.\<close>

definition fragment_argv :: "string \<Rightarrow> string list" where
  "fragment_argv fragment_dir =
     [fragment_dir @ ''/node'', ''127.0.0.1'', decimal (unat PORT_LISTEN_CTRL)]"

end
