(* ===== verification/CommandLineProps.thy ===== *)
theory CommandLineProps
  imports CommandLine
begin

text \<open>
  The results of the two programs on every command line: what the test programs accept, what the
  node program does with its words, and that a fragment process that the orchestrator starts comes
  up with the orchestrator's address.
\<close>

section \<open>The parser of the node program\<close>

definition help_argument :: argument where
  "help_argument = help_flag 0 (new_argument ''-'' [''-h'', ''--help''])"

definition version_argument :: argument where
  "version_argument = version_flag 0 (new_argument ''-'' [''-v'', ''--version''])"

definition ip_argument :: argument where
  "ip_argument =
     set_help (''Orchestrator'' @ [CHR 0x27] @ ''s public IP address'')
       (new_argument ''-'' [''orchestrator_ip''])"

definition port_argument :: argument where
  "port_argument =
     set_help (''Orchestrator'' @ [CHR 0x27] @ ''s port number'')
       (set_action
         (Valued (\<lambda>s. map_sum id (Any_int unsigned_int) (parse_number_radix radix_10 unsigned_int s)))
         (new_argument ''-'' [''orchestrator_port'']))"

text \<open>The world of the node program, with its two arguments filled or not.\<close>

definition node_state :: "argument \<Rightarrow> argument \<Rightarrow> bool \<Rightarrow> world" where
  "node_state ip port parsed =
     \<lparr>parsers =
        [(bare_parser ''Node'' ''1.0'' True)
           \<lparr>m_is_parsed := parsed, m_arguments := [help_argument, version_argument, ip, port],
            m_positional_arguments := [2, 3], m_optional_arguments := [0, 1],
            m_argument_map :=
              [(''--help'', 0), (''--version'', 1), (''-h'', 0), (''-v'', 1),
               (''orchestrator_ip'', 2), (''orchestrator_port'', 3)]\<rparr>],
      console = []\<rparr>"

lemmas argument_defs =
  help_flag_def version_flag_def set_nargs_def set_implicit_value_def set_help_def
  set_default_value_def set_action_def new_argument_def

lemma argument_names [simp]:
  "m_names help_argument = [''-h'', ''--help'']" "m_names version_argument = [''-v'', ''--version'']"
  "m_names ip_argument = [''orchestrator_ip'']" "m_names port_argument = [''orchestrator_port'']"
  by (simp_all add: help_argument_def version_argument_def ip_argument_def port_argument_def
      argument_defs sort_names_def name_before_def)

lemma is_optional_words [simp]:
  "is_optional ''-h'' ''-''" "is_optional ''--help'' ''-''"
  "is_optional ''-v'' ''-''" "is_optional ''--version'' ''-''" "is_optional ''-a'' ''-''"
  "\<not> is_optional ''orchestrator_ip'' ''-''" "\<not> is_optional ''orchestrator_port'' ''-''"
  by code_simp+

text \<open>Adding an argument and configuring it places the configured argument.\<close>

lemma add_with_place:
  assumes "m_names (f a) = m_names a" and "m_is_optional (f a) = m_is_optional a"
    and "a = new_argument (m_prefix_chars p) names"
  shows "add_with names f p = place_argument (f a) p"
  using assms
  by (simp add: add_with_def configure_last_def add_argument_def place_argument_def Let_def
      index_argument_def)

lemma default_parser:
  "new_parser 0 name ''1.0'' Default_all True =
     (bare_parser name ''1.0'' True)
       \<lparr>m_arguments := [help_argument, version_argument], m_optional_arguments := [0, 1],
        m_argument_map := [(''--help'', 0), (''--version'', 1), (''-h'', 0), (''-v'', 1)]\<rparr>"
proof -
  have flags: "add_with [''-h'', ''--help''] (help_flag 0) p = place_argument help_argument p"
    "add_with [''-v'', ''--version''] (version_flag 0) p = place_argument version_argument p"
    if "m_prefix_chars p = ''-''" for p
    using that
    by (subst add_with_place [OF _ _ refl]; simp add: help_flag_def version_flag_def
        set_nargs_def set_implicit_value_def set_help_def set_default_value_def set_action_def
        help_argument_def version_argument_def)+
  have "m_is_optional help_argument" "m_is_optional version_argument"
    by (simp_all add: help_argument_def version_argument_def argument_defs)
  then show ?thesis
    by (simp add: new_parser_def has_default_def Let_def flags bare_parser_def place_argument_def
        index_argument_def)
qed

lemma node_world_state: "node_world = node_state ip_argument port_argument False"
proof -
  have places: "add_with [''orchestrator_ip'']
        (set_help (''Orchestrator'' @ [CHR 0x27] @ ''s public IP address'')) p
      = place_argument ip_argument p"
    "add_with [''orchestrator_port'']
        (\<lambda>a. set_help (''Orchestrator'' @ [CHR 0x27] @ ''s port number'')
          (the (scan CHR ''u'' unsigned_int a))) p
      = place_argument port_argument p"
    if "m_prefix_chars p = ''-''" for p
    using that
    by (subst add_with_place [OF _ _ refl]; simp add: set_help_def scan_def scan_conversion_def
        set_action_def ip_argument_def port_argument_def)+
  have "\<not> m_is_optional ip_argument" "\<not> m_is_optional port_argument"
    by (simp_all add: ip_argument_def port_argument_def argument_defs)
  then show ?thesis
    by (simp add: node_world_def make_parser_def no_parsers_def update_parser_def default_parser
        bare_parser_def places [simplified] place_argument_def Let_def index_argument_def node_state_def)
qed

lemma node_state_parser [simp]:
  "m_arguments (the_parser 0 (node_state ip port d)) = [help_argument, version_argument, ip, port]"
  "m_positional_arguments (the_parser 0 (node_state ip port d)) = [2, 3]"
  "m_argument_map (the_parser 0 (node_state ip port d)) =
     [(''--help'', 0), (''--version'', 1), (''-h'', 0), (''-v'', 1),
      (''orchestrator_ip'', 2), (''orchestrator_port'', 3)]"
  "m_prefix_chars (the_parser 0 (node_state ip port d)) = ''-''"
  "m_program_name (the_parser 0 (node_state ip port d)) = ''Node''"
  "m_subparser_map (the_parser 0 (node_state ip port d)) = []"
  "m_is_parsed (the_parser 0 (node_state ip port d)) = d"
  by (simp_all add: the_parser_def node_state_def bare_parser_def)

lemma node_state_update [simp]:
  "set_parsed 0 (node_state ip port d) = node_state ip port True"
  by (simp add: set_parsed_def update_parser_def node_state_def)

section \<open>Words that are no options\<close>

lemma positional_not_double:
  assumes "is_positional word ''-''"
  shows "\<not> starts_with ''--'' word"
  using assms
  by (cases word; cases "tl word")
    (auto simp: starts_with_def is_positional_def lookahead_def is_decimal_literal_def is_digit_def
      split: if_splits)

lemma split_not_double:
  assumes "m_prefix_chars p = ''-''" and "\<not> starts_with ''--'' word"
  shows "split_word p word = [word]"
proof -
  have "\<not> starts_with_prefix_chars p word"
    using assms
    by (cases word; cases "tl word")
      (auto simp: starts_with_prefix_chars_def is_valid_prefix_char_def starts_with_def)
  then show ?thesis by (simp add: split_word_def Let_def)
qed

lemma preprocess_positional:
  assumes "m_prefix_chars p = ''-''" and "\<not> starts_with ''--'' prog"
    and "list_all (\<lambda>w. is_positional w ''-'') ws"
  shows "preprocess_arguments p (prog # ws) = prog # ws"
proof -
  have "concat (map (split_word p) ws) = ws"
    using assms(3)
    by (induction ws) (simp_all add: split_not_double [OF assms(1)] positional_not_double)
  then show ?thesis
    using split_not_double [OF assms(1,2)] by (simp add: preprocess_arguments_def)
qed

lemma consume_positional:
  assumes "m_num_args_range a = \<lparr>m_min = 1, m_max = 1\<rparr>" and "m_action a = Valued f"
    and "\<not> m_accepts_optional_like_value a" and "\<not> m_is_used a"
    and "is_positional word (m_arg_prefix_chars a)"
  shows "consume run (word # ws) name a =
    (case f word of
       Inl e \<Rightarrow> (a\<lparr>m_is_used := True, m_used_name := name\<rparr>, [], Inl (Throw e))
     | Inr v \<Rightarrow> (a\<lparr>m_is_used := True, m_used_name := name, m_values := m_values a @ [v]\<rparr>, [], Inr 1))"
  using assms by (simp add: consume_def apply_action_def is_optional_def split: sum.splits)

lemma argument_fields [simp]:
  "m_num_args_range ip_argument = \<lparr>m_min = 1, m_max = 1\<rparr>"
  "m_num_args_range port_argument = \<lparr>m_min = 1, m_max = 1\<rparr>"
  "m_action ip_argument = Valued (\<lambda>s. Inr (Any_string s))"
  "m_action port_argument =
     Valued (\<lambda>s. map_sum id (Any_int unsigned_int) (parse_number_radix radix_10 unsigned_int s))"
  "\<not> m_accepts_optional_like_value ip_argument" "\<not> m_accepts_optional_like_value port_argument"
  "\<not> m_is_used ip_argument" "\<not> m_is_used port_argument"
  "m_arg_prefix_chars ip_argument = ''-''" "m_arg_prefix_chars port_argument = ''-''"
  "m_values ip_argument = []" "m_values port_argument = []"
  "\<not> m_is_optional ip_argument" "\<not> m_is_optional port_argument"
  "m_default_value ip_argument = No_value" "m_default_value port_argument = No_value"
  by (simp_all add: ip_argument_def port_argument_def argument_defs is_optional_def
      is_positional_def lookahead_def)

lemma flags_valid [simp]: "validate_argument help_argument = None" "validate_argument version_argument = None"
  by (simp_all add: help_argument_def version_argument_def argument_defs validate_argument_def is_optional_def
      is_positional_def lookahead_def is_decimal_literal_def is_digit_def)

text \<open>An argument that took one value.\<close>

definition filled :: "any_value \<Rightarrow> argument \<Rightarrow> argument" where
  "filled v a = a\<lparr>m_is_used := True, m_used_name := [], m_values := m_values a @ [v]\<rparr>"

lemma consume_ip:
  assumes "is_positional word ''-''"
  shows "consume_argument 0 2 (word # ws) [] (node_state ip_argument port d) =
    (Inr 1, node_state (filled (Any_string word) ip_argument) port d)"
  using assms
  by (simp add: consume_argument_def consume_positional filled_def)
    (simp add: node_state_def update_parser_def)

lemma consume_port:
  assumes "is_positional word ''-''"
  shows "consume_argument 0 3 (word # ws) [] (node_state ip port_argument d) =
    (case parse_number_radix radix_10 unsigned_int word of
       Inl e \<Rightarrow> (Inl (Throw e),
                node_state ip (port_argument\<lparr>m_is_used := True, m_used_name := []\<rparr>) d)
     | Inr i \<Rightarrow> (Inr 1, node_state ip (filled (Any_int unsigned_int i) port_argument) d))"
  using assms
  by (simp add: consume_argument_def consume_positional filled_def split: sum.splits)
    (simp add: node_state_def update_parser_def)

lemma node_validate:
  "validate_all 0 (node_state ip port True) =
     (case validate_argument ip of
        Some e \<Rightarrow> (Inl (Throw e), node_state ip port True)
      | None \<Rightarrow> (case validate_argument port of
                   Some e \<Rightarrow> (Inl (Throw e), node_state ip port True)
                 | None \<Rightarrow> (Inr (), node_state ip port True)))"
  by (simp add: validate_all_def Let_def split: option.splits)

section \<open>The node program on every command line of values\<close>

lemma node_step_ip:
  assumes "is_positional word ''-''"
  shows "parse_step 0 word ws [2, 3] (node_state ip_argument port d) =
    (Inr (Inr (ws, [3])), node_state (filled (Any_string word) ip_argument) port d)"
  using assms by (simp add: parse_step_def Let_def consume_ip)

lemma node_step_port:
  assumes "is_positional word ''-''"
  shows "parse_step 0 word ws [3] (node_state ip port_argument d) =
    (case parse_number_radix radix_10 unsigned_int word of
       Inl e \<Rightarrow> (Inl (Throw e),
                node_state ip (port_argument\<lparr>m_is_used := True, m_used_name := []\<rparr>) d)
     | Inr i \<Rightarrow> (Inr (Inr (ws, [])), node_state ip (filled (Any_int unsigned_int i) port_argument) d))"
  using assms by (simp add: parse_step_def Let_def consume_port split: sum.splits)

lemma node_step_more:
  assumes "is_positional word ''-''"
  shows "parse_step 0 word ws [] (node_state ip port d) =
    (Inl (Throw (Runtime_error ''Maximum number of positional arguments exceeded'')),
     node_state ip port d)"
  using assms by (simp add: parse_step_def Let_def)

lemma node_internal:
  assumes "\<not> starts_with ''--'' prog" and "list_all (\<lambda>w. is_positional w ''-'') ws"
  shows "parse_args_internal 0 (prog # ws) node_world =
    parse_loop 0 ws [2, 3] (node_state ip_argument port_argument False)"
  using assms
  by (simp add: parse_args_internal_def start_parse_def node_world_state preprocess_positional)

lemma validate_node_arguments [simp]:
  "\<exists>t. validate_argument ip_argument = Some (Runtime_error t)"
  "\<exists>t. validate_argument port_argument = Some (Runtime_error t)"
  "validate_argument (filled v ip_argument) = None"
  "validate_argument (filled v port_argument) = None"
  by (simp_all add: validate_argument_def contains_def has_value_def filled_def
      nargs_range_validation_error_def)

lemma node_arguments_filled:
  "node_arguments inet_addr (the_parser 0
     (node_state (filled (Any_string ip) ip_argument)
       (filled (Any_int unsigned_int i) port_argument) True)) =
   (if inet_addr ip = - 1 then Exit_code 1
    else Started \<lparr>sin_family = AF_INET, sin_port = htons (word_of_int i), s_addr = inet_addr ip\<rparr>)"
  by (simp add: node_arguments_def parser_get_def with_argument_def find_argument_def
      argument_get_def filled_def any_cast_def Let_def)

lemma node_main_words:
  assumes "\<not> starts_with ''--'' prog" and "list_all (\<lambda>w. is_positional w ''-'') ws"
  shows "node_main inet_addr (prog # ws) =
    (case ws of
       [] \<Rightarrow> Exit_code 1
     | [_] \<Rightarrow> Exit_code 1
     | ip # port # extra \<Rightarrow>
         (case parse_number_radix radix_10 unsigned_int port of
            Inl e \<Rightarrow> if is_runtime_error e then Exit_code 1 else Uncaught e
          | Inr i \<Rightarrow>
              if extra \<noteq> [] \<or> inet_addr ip = - 1 then Exit_code 1
              else Started \<lparr>sin_family = AF_INET, sin_port = htons (word_of_int i),
                     s_addr = inet_addr ip\<rparr>))"
proof -
  note internal = node_internal [OF assms]
  obtain t u where t: "validate_argument ip_argument = Some (Runtime_error t)"
      "validate_argument port_argument = Some (Runtime_error u)"
    using validate_node_arguments by blast
  consider "ws = []" | word where "ws = [word]"
    | ip port extra where "ws = ip # port # extra"
    by (cases ws rule: remdups_adj.cases) blast+
  then show ?thesis
  proof cases
    case 1
    then show ?thesis
      using internal
      by (simp add: node_main_def try_parse_args_def parse_args.simps node_validate t)
  next
    case (2 word)
    then show ?thesis
      using assms(2) internal
      by (simp add: node_main_def try_parse_args_def parse_args.simps node_validate
          node_step_ip t)
  next
    case (3 ip port extra)
    then show ?thesis
      using assms(2) internal
      by (cases extra)
        (auto simp: node_main_def try_parse_args_def parse_args.simps node_validate
          node_step_ip node_step_port node_step_more node_arguments_filled split: sum.splits)
  qed
qed

text \<open>
  C20: The node program on every command line of values (no options): it starts with the
  orchestrator's address exactly when there are two, the second a decimal number that fits an
  \<open>unsigned int\<close> and the first an address that \<open>inet_addr\<close> accepts. Too few or too many values, an
  address that is refused and a number that is out of range are reported and end with exit code 1.
  A port that is no number is not reported: its \<open>std::invalid_argument\<close> is no
  \<open>std::runtime_error\<close>, so the handler lets it through and the program is terminated.
\<close>
theorem node_main_result:
  assumes "\<not> starts_with ''--'' prog" and "list_all (\<lambda>w. is_positional w ''-'') ws"
  shows "node_main inet_addr (prog # ws) =
    (case ws of
       [] \<Rightarrow> Exit_code 1
     | [_] \<Rightarrow> Exit_code 1
     | ip # port # extra \<Rightarrow>
         (case parse_number_radix radix_10 unsigned_int port of
            Inl e \<Rightarrow> if is_runtime_error e then Exit_code 1 else Uncaught e
          | Inr i \<Rightarrow>
              if extra \<noteq> [] \<or> inet_addr ip = - 1 then Exit_code 1
              else Started \<lparr>sin_family = AF_INET, sin_port = htons (word_of_int i),
                     s_addr = inet_addr ip\<rparr>))"
  using assms by (rule node_main_words)

theorem node_main_result_witness:
  "node_main (\<lambda>_. 0x0100007F) [''node'', ''127.0.0.1'', ''http'']
     = Uncaught (Invalid_argument ''pattern not found'')"
proof -
  have "parse_number_radix radix_10 unsigned_int ''http''
      = Inl (Invalid_argument ''pattern not found'')"
    by code_simp
  moreover have "list_all (\<lambda>w. is_positional w ''-'') [''127.0.0.1'', ''http'']"
    and "\<not> starts_with ''--'' ''node''"
    by code_simp+
  ultimately show ?thesis
    using node_main_result [of "''node''" "[''127.0.0.1'', ''http'']"] by simp
qed

text \<open>
  The port is stored in sixteen bits without a check: 65536 more is the same port.
\<close>

lemma decimal_positional: "is_positional (decimal n) ''-''"
proof -
  obtain c cs where c: "decimal n = c # cs" by (meson decimal_not_Nil list.exhaust)
  then have "digit_value 10 c \<noteq> None" using decimal_digits [of c n] by simp
  moreover have "digit_value 10 CHR ''-'' = None" by code_simp
  ultimately show ?thesis using c by (auto simp: is_positional_def lookahead_def)
qed

lemma port_is_truncated:
  assumes "inet_addr ip \<noteq> - 1" and "is_positional ip ''-''" and "n < 2 ^ 32"
    and "\<not> starts_with ''--'' prog"
  shows "node_main inet_addr [prog, ip, decimal n] =
    Started \<lparr>sin_family = AF_INET, sin_port = htons (of_nat (n mod 2 ^ 16)), s_addr = inet_addr ip\<rparr>"
proof -
  have "(of_nat n :: u16) = of_nat (n mod 2 ^ 16)"
    by (simp add: word_of_nat_eq_iff take_bit_eq_mod)
  then show ?thesis
    using assms decimal_positional node_main_words [OF assms(4), of "[ip, decimal n]" inet_addr]
    by (simp add: parse_unsigned_decimal)
qed

section \<open>The nodes of the orchestrator\<close>

text \<open>
  C21: A node process comes up with the address on which the orchestrator listens: the arguments
  that the child process gives to the node program parse back to the loopback address and the port
  of the orchestrator's ctrl socket, in network byte order, and the fragment that starts has this
  address. \<open>inet_addr\<close> reads the loopback address as the C library documents it; the directory of
  the programs does not look like an option.
\<close>
theorem spawned_node_starts:
  assumes "inet_addr ''127.0.0.1'' = 0x0100007F" and "\<not> starts_with ''--'' fragment_dir"
  shows "node_program env k a b mem n inet_addr (fragment_argv fragment_dir) =
    Started
      (case new_fragment a b mem n
           \<lparr>sin_family = AF_INET, sin_port = sin_port (listen_netaddr PORT_LISTEN_CTRL),
            s_addr = 0x0100007F\<rparr> of
         None \<Rightarrow> None
       | Some f \<Rightarrow> fragment_run env k f)"
proof -
  have prog: "\<not> starts_with ''--'' (fragment_dir @ ''/node'')"
    using assms(2)
    by (cases fragment_dir; cases "tl fragment_dir") (auto simp: starts_with_def split: if_splits)
  have "is_positional ''127.0.0.1'' ''-''" by code_simp
  then have words: "list_all (\<lambda>w. is_positional w ''-'') [''127.0.0.1'', decimal 9107]"
    using decimal_positional by simp
  have "unat PORT_LISTEN_CTRL = 9107" by (simp add: PORT_LISTEN_CTRL_def)
  then have "node_main inet_addr (fragment_argv fragment_dir) =
      Started \<lparr>sin_family = AF_INET, sin_port = sin_port (listen_netaddr PORT_LISTEN_CTRL),
        s_addr = 0x0100007F\<rparr>"
    using node_main_words [OF prog words, of inet_addr] assms(1)
    by (simp add: fragment_argv_def parse_unsigned_decimal listen_netaddr_def PORT_LISTEN_CTRL_def)
  then show ?thesis by (simp add: node_program_def)
qed

theorem spawned_node_starts_witness:
  "\<forall>env k a b mem n.
    node_program env k a b mem n (\<lambda>_. 0x0100007F) (fragment_argv ''bin'') =
      Started
        (case new_fragment a b mem n
             \<lparr>sin_family = AF_INET, sin_port = sin_port (listen_netaddr PORT_LISTEN_CTRL),
              s_addr = 0x0100007F\<rparr> of
           None \<Rightarrow> None
         | Some f \<Rightarrow> fragment_run env k f)"
  by (intro allI spawned_node_starts) (simp, code_simp)

section \<open>The test programs on every command line\<close>

definition autotest_argument :: argument where
  "autotest_argument =
     set_help ''Use autotest mode''
       (set_implicit_value (Any_bool True) (set_default_value (Any_bool False)
         (new_argument ''-'' [''-a''])))"

definition autotest_used :: argument where
  "autotest_used =
     autotest_argument\<lparr>m_is_used := True, m_used_name := ''-a'', m_values := [Any_bool True]\<rparr>"

text \<open>The world of a test program, with the option used or not.\<close>

definition test_parser :: "string \<Rightarrow> string \<Rightarrow> argument \<Rightarrow> bool \<Rightarrow> world" where
  "test_parser name path a parsed =
     \<lparr>parsers =
        [(bare_parser name ''1.0'' True)
           \<lparr>m_is_parsed := parsed, m_arguments := [help_argument, version_argument, a],
            m_optional_arguments := [0, 1, 2], m_parser_path := path,
            m_argument_map :=
              [(''--help'', 0), (''--version'', 1), (''-a'', 2), (''-h'', 0), (''-v'', 1)]\<rparr>],
      console = []\<rparr>"

lemma test_world_state: "test_world name = test_parser name name autotest_argument False"
proof -
  have place: "add_with [''-a'']
      (\<lambda>a. set_help ''Use autotest mode''
        (set_implicit_value (Any_bool True) (set_default_value (Any_bool False) a))) p
    = place_argument autotest_argument p"
    if "m_prefix_chars p = ''-''" for p
    using that
    by (subst add_with_place [OF _ _ refl]; simp add: set_help_def set_implicit_value_def
        set_default_value_def autotest_argument_def)
  have "m_is_optional autotest_argument" and "m_names autotest_argument = [''-a'']"
    by (simp_all add: autotest_argument_def argument_defs sort_names_def)
  then show ?thesis
    by (simp add: test_world_def make_parser_def no_parsers_def update_parser_def default_parser
        bare_parser_def place place_argument_def Let_def index_argument_def test_parser_def)
qed

lemma test_parser_fields [simp]:
  "m_arguments (the_parser 0 (test_parser name path a d)) = [help_argument, version_argument, a]"
  "m_positional_arguments (the_parser 0 (test_parser name path a d)) = []"
  "m_argument_map (the_parser 0 (test_parser name path a d)) =
     [(''--help'', 0), (''--version'', 1), (''-a'', 2), (''-h'', 0), (''-v'', 1)]"
  "m_prefix_chars (the_parser 0 (test_parser name path a d)) = ''-''"
  "m_assign_chars (the_parser 0 (test_parser name path a d)) = ''=''"
  "m_program_name (the_parser 0 (test_parser name path a d)) = name"
  "m_subparser_map (the_parser 0 (test_parser name path a d)) = []"
  "m_exit_on_default_arguments (the_parser 0 (test_parser name path a d))"
  "set_parsed 0 (test_parser name path a d) = test_parser name path a True"
  by (simp_all add: the_parser_def test_parser_def bare_parser_def set_parsed_def update_parser_def)

lemma autotest_fields [simp]:
  "m_num_args_range autotest_argument = \<lparr>m_min = 0, m_max = 0\<rparr>"
  "m_action autotest_argument = Valued (\<lambda>s. Inr (Any_string s))"
  "\<not> m_is_used autotest_argument" "\<not> m_is_repeatable autotest_argument"
  "m_values autotest_argument = []" "m_implicit_value autotest_argument = Any_bool True"
  "m_default_value autotest_argument = Any_bool False"
  "m_is_used autotest_used" "\<not> m_is_repeatable autotest_used"
  "m_values autotest_used = [Any_bool True]"
  "validate_argument autotest_argument = None" "validate_argument autotest_used = None"
  by (simp_all add: autotest_argument_def autotest_used_def argument_defs validate_argument_def
      is_optional_def is_positional_def lookahead_def is_decimal_literal_def is_digit_def)

lemma flag_fields [simp]:
  "m_num_args_range help_argument = \<lparr>m_min = 0, m_max = 0\<rparr>"
  "m_num_args_range version_argument = \<lparr>m_min = 0, m_max = 0\<rparr>"
  "m_action help_argument = Void (Print_help 0)"
  "m_action version_argument = Void (Print_version 0)"
  "\<not> m_is_used help_argument" "\<not> m_is_used version_argument"
  by (simp_all add: help_argument_def version_argument_def argument_defs)

text \<open>The stops that \<open>run_testcase\<close> reports, and the exit of a help flag.\<close>

fun reported :: "stop \<Rightarrow> bool" where
  "reported Exit_success = True"
| "reported (Throw e) = is_runtime_error e"
| "reported Undefined = False"

definition stops :: "(stop + 'a) \<times> world \<Rightarrow> bool" where
  "stops r \<longleftrightarrow> (case r of (Inl s, _) \<Rightarrow> reported s | (Inr _, _) \<Rightarrow> False)"

lemma stops_Inl [simp]: "stops (Inl s, w) \<longleftrightarrow> reported s"
  by (simp add: stops_def)

lemma stops_case:
  "stops r \<Longrightarrow> stops (case r of (Inl s, w2) \<Rightarrow> (Inl s, w2) | (Inr n, w2) \<Rightarrow> f n w2)"
  by (auto simp: stops_def split: prod.splits sum.splits)

lemma reported_unknown [simp]: "reported (unknown_argument word)"
  by (simp add: unknown_argument_def)

lemma test_consume_flag:
  "stops (consume_argument 0 0 ws u (test_parser name path a d))"
  "stops (consume_argument 0 (Suc 0) ws u (test_parser name path a d))"
  by (simp_all add: consume_argument_def consume_def run_void_def)

lemma test_consume_again:
  "stops (consume_argument 0 2 ws u (test_parser name path autotest_used d))"
  by (simp add: consume_argument_def consume_def)

lemma test_consume_autotest:
  "consume_argument 0 2 ws ''-a'' (test_parser name path autotest_argument d) =
     (Inr 0, test_parser name path autotest_used d)"
  by (simp add: consume_argument_def consume_def autotest_used_def)
    (simp add: test_parser_def update_parser_def)

lemma test_compound_used:
  "cs \<noteq> [] \<Longrightarrow> stops (consume_compound 0 word cs k ws (test_parser name path autotest_used d))"
  by (cases cs) (simp_all add: Let_def stops_case test_consume_flag test_consume_again)

lemma test_compound_fresh:
  assumes "cs \<noteq> []" and "cs \<noteq> ''a''"
  shows "stops (consume_compound 0 word cs k ws (test_parser name path autotest_argument d))"
proof (cases "\<exists>ds. cs = CHR ''a'' # ds")
  case True
  then obtain ds where "cs = CHR ''a'' # ds" and "ds \<noteq> []" using assms by blast
  then show ?thesis
    using test_compound_used by (simp add: Let_def test_consume_autotest)
next
  case False
  then show ?thesis
    using assms(1) by (cases cs) (auto simp: Let_def stops_case test_consume_flag)
qed

lemma is_compound_tl: "is_compound p word \<Longrightarrow> m_prefix_chars p = ''-'' \<Longrightarrow> word = CHR ''-'' # tl word \<and> tl word \<noteq> []"
  by (cases word; cases "tl word") (auto simp: is_compound_def is_valid_prefix_char_def)

lemma test_step_used:
  "stops (parse_step 0 word ws [] (test_parser name path autotest_used d))"
proof (cases "map_of (m_argument_map (the_parser 0 (test_parser name path autotest_used d))) word")
  case None
  then show ?thesis
    using is_compound_tl [of "the_parser 0 (test_parser name path autotest_used d)" word]
    by (auto simp: parse_step_def Let_def stops_case test_compound_used)
next
  case (Some i)
  then have "i \<in> {0, Suc 0, 2}" by (auto split: if_splits)
  then show ?thesis
    using Some
    by (auto simp: parse_step_def Let_def stops_case test_consume_flag test_consume_again)
qed

lemma test_step_fresh:
  assumes "word \<noteq> ''-a''"
  shows "stops (parse_step 0 word ws [] (test_parser name path autotest_argument d))"
proof (cases "map_of (m_argument_map (the_parser 0 (test_parser name path autotest_argument d))) word")
  case None
  then show ?thesis
    using is_compound_tl [of "the_parser 0 (test_parser name path autotest_argument d)" word] assms
    by (auto simp: parse_step_def Let_def intro!: stops_case test_compound_fresh)
next
  case (Some i)
  then have "i \<in> {0, Suc 0}" using assms by (auto split: if_splits)
  then show ?thesis
    using Some by (auto simp: parse_step_def Let_def stops_case test_consume_flag)
qed

lemma test_step_autotest:
  "parse_step 0 ''-a'' ws [] (test_parser name path autotest_argument d) =
     (Inr (Inr (ws, [])), test_parser name path autotest_used d)"
  by (simp add: parse_step_def Let_def test_consume_autotest is_positional_def lookahead_def
      is_decimal_literal_def is_digit_def)

lemma test_loop:
  assumes "ws \<noteq> []" and "ws \<noteq> [''-a'']"
  shows "stops (parse_loop 0 ws [] (test_parser name path autotest_argument d))"
proof -
  obtain word us where word: "ws = word # us" using assms(1) by (cases ws) auto
  show ?thesis
  proof (cases "word = ''-a''")
    case True
    then obtain v vs where us: "us = v # vs" using assms word by (cases us) auto
    show ?thesis
      unfolding word True us
      by (subst parse_loop.simps) (simp add: test_step_autotest stops_case test_step_used)
  next
    case False
    then show ?thesis unfolding word by (simp add: stops_case test_step_fresh)
  qed
qed

lemma split_word_not_Nil: "split_word p word \<noteq> []"
  by (simp add: split_word_def Let_def)

lemma split_word_single: "split_word p word = [u] \<Longrightarrow> word = u"
  by (auto simp: split_word_def Let_def split: if_splits)

lemma preprocess_Nil: "preprocess_arguments p ws = [] \<longleftrightarrow> ws = []"
  by (cases ws) (simp_all add: preprocess_arguments_def split_word_not_Nil)

lemma preprocess_single: "preprocess_arguments p ws = [u] \<Longrightarrow> ws = [u]"
proof (cases ws)
  case (Cons v vs)
  assume "preprocess_arguments p ws = [u]"
  then have "split_word p v @ preprocess_arguments p vs = [u]"
    using Cons by (simp add: preprocess_arguments_def)
  then have "split_word p v = [u]" and "preprocess_arguments p vs = []"
    using split_word_not_Nil [of p v] by (auto simp: append_eq_Cons_conv)
  then show ?thesis using Cons by (simp add: split_word_single preprocess_Nil)
qed (simp add: preprocess_arguments_def)

lemma test_internal:
  assumes "\<not> starts_with ''--'' prog"
  shows "parse_args_internal 0 (prog # ws) (test_world name) =
    parse_loop 0 (preprocess_arguments (the_parser 0 (test_world name)) ws) []
      (test_parser (if name = [] then prog else name) name autotest_argument False)"
proof -
  have "preprocess_arguments (the_parser 0 (test_world name)) (prog # ws)
      = prog # preprocess_arguments (the_parser 0 (test_world name)) ws"
    using split_not_double [OF _ assms] by (simp add: preprocess_arguments_def test_world_state)
  moreover have "update_parser 0 (\<lambda>p. p\<lparr>m_program_name := prog\<rparr>) (test_parser [] path a d)
      = test_parser prog path a d" for path a d
    by (simp add: update_parser_def test_parser_def bare_parser_def)
  ultimately show ?thesis
    by (simp add: parse_args_internal_def start_parse_def test_world_state)
qed

lemma test_validate:
  "a = autotest_argument \<or> a = autotest_used \<Longrightarrow>
     validate_all 0 (test_parser name path a d) = (Inr (), test_parser name path a d)"
  by (auto simp: validate_all_def)

lemma test_reads_option:
  "with_argument ''-a'' (the_parser 0 (test_parser name path autotest_argument d))
     (\<lambda>a. argument_equals a Type_bool (Any_bool True)) = Inr False"
  "with_argument ''-a'' (the_parser 0 (test_parser name path autotest_used d))
     (\<lambda>a. argument_equals a Type_bool (Any_bool True)) = Inr True"
  by (simp_all add: with_argument_def find_argument_def argument_equals_def argument_get_def
      any_cast_def has_value_def)

lemma test_arguments_words:
  assumes "\<not> starts_with ''--'' prog"
  shows "ws = [] \<or> ws = [''-a''] \<Longrightarrow>
      test_arguments name (prog # ws) = (if ws = [] then Started False else Started True)"
    and "ws \<noteq> [] \<Longrightarrow> ws \<noteq> [''-a''] \<Longrightarrow>
      test_arguments name (prog # ws) \<in> {Exit_code 0, Exit_code 1}"
proof -
  note internal = test_internal [OF assms, of ws name]
  have kept: "preprocess_arguments (the_parser 0 (test_world name)) [''-a''] = [''-a'']"
    by (simp add: preprocess_arguments_def split_word_def Let_def test_world_state)
  have none: "preprocess_arguments p [] = []" for p by (simp add: preprocess_Nil)
  show "test_arguments name (prog # ws) = (if ws = [] then Started False else Started True)"
    if "ws = [] \<or> ws = [''-a'']"
    using that internal kept
    by (auto simp: test_arguments_def try_parse_args_def parse_args.simps none
        test_validate test_reads_option test_step_autotest)
  show "test_arguments name (prog # ws) \<in> {Exit_code 0, Exit_code 1}"
    if "ws \<noteq> []" and "ws \<noteq> [''-a'']"
  proof -
    have "stops (parse_args_internal 0 (prog # ws) (test_world name))"
      unfolding internal using that preprocess_Nil preprocess_single by (intro test_loop) blast+
    then obtain s w where "parse_args_internal 0 (prog # ws) (test_world name) = (Inl s, w)"
        and "reported s"
      by (auto simp: stops_def split: prod.splits sum.splits)
    then show ?thesis
      by (cases s) (simp_all add: test_arguments_def try_parse_args_def parse_args.simps)
  qed
qed

text \<open>
  C19: A test program on every command line: without arguments it runs its test in manual mode, with
  \<open>-a\<close> alone in autotest mode, and with anything else (an unknown or repeated option, letters joined
  to \<open>-a\<close>, a value, a help flag) it runs nothing and ends with exit code 0 or 1; no exception
  escapes.
\<close>
theorem test_main_result:
  assumes "\<not> starts_with ''--'' prog"
  shows "test_main env mem n t name [prog] = Started (run_testcase env mem n False t)
    \<and> test_main env mem n t name [prog, ''-a''] = Started (run_testcase env mem n True t)
    \<and> (ws \<noteq> [] \<and> ws \<noteq> [''-a''] \<longrightarrow>
         test_main env mem n t name (prog # ws) \<in> {Exit_code 0, Exit_code 1})"
  using test_arguments_words(1) [OF assms, of "[]" name]
    test_arguments_words(1) [OF assms, of "[''-a'']" name]
    test_arguments_words(2) [OF assms, of ws name]
  by (auto simp: test_main_def)

theorem test_main_result_witness:
  "\<forall>env mem n t.
     test_main env mem n t ''ring'' [''bin/cp1/ring'', ''-a''] = Started (run_testcase env mem n True t)
     \<and> test_main env mem n t ''ring'' [''bin/cp1/ring'', ''-ab''] \<in> {Exit_code 0, Exit_code 1}"
proof (intro allI)
  fix env mem n t
  have "\<not> starts_with ''--'' ''bin/cp1/ring''" by code_simp
  from test_main_result [OF this, of env mem n t "''ring''" "[''-ab'']"]
  show "test_main env mem n t ''ring'' [''bin/cp1/ring'', ''-a''] = Started (run_testcase env mem n True t)
     \<and> test_main env mem n t ''ring'' [''bin/cp1/ring'', ''-ab''] \<in> {Exit_code 0, Exit_code 1}"
    by simp
qed

end
