(* ===== verification/NodePrint.thy ===== *)
theory NodePrint
  imports Node ArgText
begin

text \<open>
  The debug output of mixnet/node.c, as the text that reaches \<open>stdout\<close>. The calls are commented out
  in the source. Values narrower than an \<open>int\<close> are promoted to it; the intervals of the
  configuration are unsigned, and \<open>%d\<close> reads them as signed. Reading outside an allocation is
  \<open>None\<close>.
\<close>

definition newline :: string where
  "newline = [CHR 0x0A]"

definition shown :: "string \<Rightarrow> int \<Rightarrow> string" where
  "shown label i = label @ decimal_int i @ '' '' @ newline"

text \<open>The line that closes the output stands in the switch behind a \<open>break\<close>, so no case reaches it.\<close>

definition print_packet :: "mixnet_packet \<Rightarrow> string option" where
  "print_packet p =
     (let start = newline @ ''--------------------[START OF PACKET]------------------'' @ newline
                  @ shown ''PACKET TYPE: '' (uint (ptype p)) @ ''Payload: '' @ newline
      in if ptype p = packet_type_code PACKET_TYPE_STP \<or> ptype p = packet_type_code PACKET_TYPE_FLOOD
         then map_option (\<lambda>u. start @ ''Printing Packet! '' @ newline
                @ shown ''Root(Node) Address: '' (uint (root_address u))
                @ shown ''Path Length: '' (uint (path_length u))
                @ shown ''Sender(Node) address: '' (uint (node_address u)))
              (dec_stp (payload p))
         else Some start)"

definition print_neighbor :: "node \<Rightarrow> nat \<Rightarrow> string" where
  "print_neighbor n i =
     ''Neighbor Index #'' @ decimal i @ '' | Address: '' @ decimal_int (sint (neighbors_addy n ! i))
     @ '' | Blocked: '' @ (if neighbors_blocked n ! i then ''Yes'' else ''No'') @ '' | '' @ newline"

definition print_node :: "node \<Rightarrow> string option" where
  "print_node n =
     (if unat (num_neighbors n) \<le> length (neighbors_addy n)
         \<and> unat (num_neighbors n) \<le> length (neighbors_blocked n)
      then Some
        (''-----------------Printing Node [#'' @ decimal (unat (my_addr n))
         @ '']!------------------- '' @ newline
         @ shown ''Root Addr: '' (uint (root_addr n)) @ shown ''Path Len: '' (path_len n)
         @ shown ''Node Addr: '' (uint (my_addr n)) @ shown ''Next Hop: '' (uint (next_hop n))
         @ ''Neighbors List : '' @ newline
         @ concat (map (print_neighbor n) [0..<unat (num_neighbors n)])
         @ ''--------------Printing Node [#'' @ decimal (unat (my_addr n))
         @ ''] Complete!--------------'' @ newline)
      else None)"

definition get_packet_type :: "mixnet_packet \<Rightarrow> string" where
  "get_packet_type p =
     (if ptype p = packet_type_code PACKET_TYPE_STP then ''STP''
      else if ptype p = packet_type_code PACKET_TYPE_FLOOD then ''FLOOD''
      else if ptype p = packet_type_code PACKET_TYPE_DATA then ''DATA''
      else ''ERROR WITH PACKET TYPE!'')"

definition print_node_config :: "mixnet_node_config \<Rightarrow> string" where
  "print_node_config c =
     ''--------- Printing Node Config! ---------'' @ newline
     @ shown ''Node Address: '' (uint (node_addr c))
     @ shown ''Root Hello Interval: '' (sint (root_hello_interval_ms c))
     @ shown ''Reelection Interval: '' (sint (reelection_interval_ms c))
     @ shown ''Number of Neighbors: '' (uint (cfg_num_neighbors c))
     @ ''---------Printing Node Config Complete! ---------'' @ newline"

text \<open>
  A well-formed node and the packets it builds can be printed; a FLOOD packet that was received
  cannot, it has no payload to read an announcement from.
\<close>

lemma print_node_wf: "node_wf c n \<Longrightarrow> print_node n \<noteq> None"
  by (simp add: print_node_def node_wf_def unsigned_ucast_eq take_bit_nat_less_eq_self)

lemma print_own_packets:
  "print_packet (node_stp_packet n) \<noteq> None" "print_packet (node_flood_packet n) \<noteq> None"
  by (simp_all add: print_packet_def node_stp_packet_def node_flood_packet_def stp_layout.dec_enc_only)

lemma print_received_flood:
  "ptype p = packet_type_code PACKET_TYPE_FLOOD \<Longrightarrow> length (payload p) < 6 \<Longrightarrow> print_packet p = None"
  by (simp add: print_packet_def dec_stp_def rd_le_def slice_def)

end
