(* ===== verification/Spec2Isabelle.thy ===== *)
theory Spec2Isabelle
  imports NodeRun FragmentProps OrchestratorResults TestcaseResults CommandLineProps NodePrint
begin

text \<open>
  Mixnet: the spanning-tree node of the course project, and the framework that runs nodes in
  processes, connects them as a test case asks, and observes them.

  The parts of the program, and how they interact.

  A test case describes a topology (src/testing/common/graph.cpp). The orchestrator
  (src/framework/orchestrator.cpp) forks one fragment process per node, or waits for them to be
  started by hand, and drives them through a common sequence of states by framework messages
  (src/framework/message.h, message.cpp): a control connection carries requests and responses, a
  capture connection the packets that a node's user receives. A fragment
  (src/framework/fragment.cpp) sets up a node context (its neighbours' sockets, link states, two
  queues of src/external/itc/message_queue.c), and runs the node (src/mixnet/node.c) in a thread;
  the node sees the context as mixnet_send and mixnet_recv (src/mixnet/connection.h). All sockets
  are handled by src/framework/networking.cpp.

  The theories, bottom up; in each the definitions come first, in the order of the code.

  Prelude: machine integers, little-endian memory images, slices of a memory, the locale \<open>layout\<close>
  of a fixed-size structure, the result-and-option conventions.
  ErrorCodes: framework/error.h. Packet, Config: mixnet/packet.h, packet_init.c, address.h,
  config.h; a packed structure is an encoder and a decoder of bytes, each an interpretation of
  \<open>layout\<close>.
  StpOrder, Node: mixnet/node.c. StpOrder is the specification, a linear order on routes (an
  instance of \<open>linorder\<close>); Node has node_init, the STP and FLOOD senders, the STP handler, the
  hello and re-election timers and the loop, \<open>run_node\<close>. Shown there: the handler keeps the minimum
  of the held route and the offered one, which ports it blocks, the invariant of the loop, what it
  forwards and where, that no array is left, and when the timers fire.
  NodePrint: the debug output of node.c.
  MessageQueue: message_queue.c, with the two rings as interpretations of a locale \<open>fifo\<close> and the
  queue as one of \<open>channel\<close>; a list of bounded length is its specification, and the powers of two
  of its depth are the least ones.
  Message, Headers, Payloads: a message is its buffer; lengths, canary, codes, headers, and one
  pair of put and get functions per payload structure. Shown: what is finalized validates, a header
  written by one side passes the check of the other, payloads survive the way through a buffer.
  Networking, Connections: send_generic and recv_generic in their three modes as loops over the
  answers of the system calls; opening, accepting and connecting. Shown: what a call returns, what
  it takes from the stream, that an error leaves only a prefix sent, and that a message sent is
  received.
  NodeContext, NodeRun: node_context of fragment.h with send, recv, the rotation over the ports and
  the two queues; NodeRun runs the loop of Node over it, through the locale \<open>connection\<close>, as the
  relation \<open>node_reach\<close>, and shows that the thread keeps the context well formed and sends only
  what the context accepts.
  Graph: graph.cpp with the generators; a topology is a symmetric adjacency without loops.
  FragmentIO, Fragment: class fragment: recv_request and send_response, all run_state_ methods, the
  test case loop with its tasks, the capture thread, construction, destruction, and the main loop
  \<open>fragment_loop\<close>. FragmentRun: the invariant \<open>frag_inv\<close> of its states and the relation
  \<open>fragment_reach\<close>; FragmentProps: its properties.
  OrchestratorIO, Orchestrator, OrchestratorRun: class orchestrator: request and response with one
  fragment, requests to all, responses from all; all run_state_ methods with their lambdas; the
  operations a test case calls, the capture thread, the main loop \<open>orchestrator_loop\<close>.
  OrchestratorCollect: the locale \<open>response_contract\<close>, under which collecting responses handles
  every fragment exactly once. OrchestratorInv: its interpretations for the handlers of the states,
  and the locale \<open>claiming\<close> for the two handshakes. OrchestratorReach, OrchestratorProps: the
  effect of every state and the invariant of the relation \<open>orc_reach\<close>; OrchestratorSend: what a
  successful broadcast puts on the connections; OrchestratorCapture: the capture thread;
  OrchestratorResults: the properties of the orchestrator.
  Network: all hosts of a topology, each running the loop of Node on the configuration that the
  fragments get, composed by queues between them. A step is one iteration of one host's loop, with
  at most one packet taken from a link or from the user; steps interleave in any order, and every
  host has its own clock. \<open>net_run\<close> is the relation, restricted by what a step is allowed to do:
  \<open>any_step\<close>, \<open>calm\<close> (no host gives up its root), \<open>unwrapped\<close> (path lengths stay below 65536).
  NetworkEvents: a simulation of steps by events of the nodes alone, without clocks, through which
  all invariants are proved. NetworkStp: what an event does to the announcements on their way.
  NetworkInv: well-formedness, and that all roots are addresses of hosts. NetworkPaths: distances;
  no route is shorter than its distance, and the trails by which lengths cannot wrap around.
  NetworkElection: the wave of a hello, behind which all routes are final. NetworkQuiet: the measure
  by which announcements die out. NetworkPorts: the wave of the next hello, behind which the ports
  are those of the tree. NetworkFlood: the subtree that a FLOOD packet has reached. NetworkRuns:
  rounds of a run, and their execution on snapshots for the examples. NetworkResults: the
  properties of the network.
  Testcases: the base class of a test program, its entry point, and the sixteen programs of
  testing/cp1 as records of topology, intervals, calls and expected count. ReferenceTree: the
  spanning tree by breadth-first search, an executable reference, and that an elected network has
  exactly its edges as next hops. TestcaseResults: what a passed run shows; that the topologies of
  the programs are ones the network properties apply to; that the expected counts are those of the
  reference tree, one evaluation per program.
  ArgText, Arguments, ArgumentParser: external/argparse/argparse.hpp, the parser of both programs:
  values and their text, the recogniser of decimal literals (shown to accept the grammar in its
  comment), class Argument, and class ArgumentParser with subcommands, in a world of parsers.
  ArgumentParserProps: the locale \<open>parse_relation\<close> of what holds over every \<open>consume\<close> and so over a
  whole parse; a parse keeps what the program configured, the numbers of values fit their ranges,
  the two ways to parse agree, an assignment is two words. CommandLine, CommandLineProps: the main
  functions and their results on every command line; the node processes of the orchestrator come
  up with its address.
  This theory: properties of orchestrator and fragments together, over the bytes between them.

  How state, effects and errors correspond to the code.

  Members of a class are fields of a record, with further fields for effects outside the process
  (bytes sent and not yet received per descriptor, closed descriptors, processes forked and
  killed). Integers have the width of the code, and wrap. An operation of the control code is an
  \<open>option\<close> of \<open>progress\<close>: \<open>None\<close> is a failed assert, an exception that ends the process, or an
  access out of bounds; \<open>Waiting\<close> is a call that does not return; \<open>Return\<close> carries the error code
  that the function returns and the new state.

  What the system answers is an argument: the environments \<open>fragment_env\<close> and \<open>orc_env\<close> give the
  answers of socket, bind, accept, send, recv, poll, fork, getpeername, malloc and of the clock by
  the number of the call, so a state machine is a function, and a theorem over all environments
  speaks about all behaviours of the system. Loops over answers end with \<open>Waiting\<close> when the list
  of answers ends. The other threads of a process act where the control thread waits: the node and
  capture threads change the context by \<open>env_threads\<close>, relied on in \<open>threads_rely\<close> to keep it well
  formed (which NodeRun proves of the node thread); the capture thread of the orchestrator changes
  its own members by \<open>oe_capture\<close>. A test case is a tree of calls, \<open>script\<close>.

  The network of nodes relies on what mixnet_send and mixnet_recv provide while no link is down:
  the packets of a link arrive once, in order, and as \<open>carried\<close> says, which is what the framing of
  NodeRun keeps of them; all hosts have started; users inject no STP packets, which the node would
  handle as from a port that is none of its neighbours'. Topologies are \<open>net_ok\<close>: distinct
  addresses, none of them 0xFFFF, at most 255 neighbours.

  Bounds. A topology has at most 65535 hosts, so distances fit the 16 bits of an announcement;
  without re-elections no path length reaches 65536 (\<open>trails_short\<close>), with them it is a hypothesis.
  \<open>recv_ports\<close> looks at every port at most once. \<open>drain_link\<close> and \<open>testcase_loop\<close> take a
  number of iterations and give \<open>Waiting\<close> beyond it; more bytes than are pending is enough for
  \<open>drain_link\<close>, as its property shows. The main loops end because a rank of the states,
  \<open>states_left\<close> and \<open>orc_states_left\<close>, decreases.

  The argument parser throws: its operations return \<open>stop + value\<close> next to the state they leave,
  where a stop is an exception, the exit of a help flag, or undefined behaviour. A parse ends: its
  loop by the number of words and positional arguments left, its subcommands by the characters
  left, which the splitting of assignments does not increase.

  Not modelled. Logging and the formatting of addresses. The child between fork and exec, but for
  the arguments it passes on. In the argument parser: values of floating point types (the checks of
  their formats are modelled), moved parsers, and replacing the prefix characters of a parser that
  has arguments. The interleavings of the lock-free queue and the port mutexes: a
  queue operation and a call of mixnet_send or mixnet_recv run undisturbed. A failed malloc in
  node.c, after which the process exits. Signals, processes that die, and sin_zero of an address,
  which nothing reads. The time that a test program sleeps: it is only that the capture thread, and
  the other processes, run between two calls.
\<close>

section \<open>From the topology of the test case to the nodes\<close>

lemma topology_of_config:
  assumes wf: "graph_wf (tc_graph tc)" and i: "i < unat (num_nodes (tc_graph tc))"
    and deg: "length (topology (tc_graph tc) ! i) \<le> 65535"
  shows "node_config (init_node_context p u (topology_of tc i)) =
    \<lparr>node_addr = gn_mixaddr (nodes (tc_graph tc) ! i),
     cfg_num_neighbors = of_nat (length (topology (tc_graph tc) ! i)),
     root_hello_interval_ms = tc_root_hello_interval_ms tc,
     reelection_interval_ms = tc_reelection_interval_ms tc,
     do_random_routing = gn_do_random_routing (nodes (tc_graph tc) ! i),
     mixing_factor = gn_mixing_factor (nodes (tc_graph tc) ! i),
     link_costs = gn_link_costs (nodes (tc_graph tc) ! i)\<rparr>"
proof -
  let ?g = "tc_graph tc"
  have w: "unat (of_nat i :: u16) = i"
    using less_trans [OF i unat_u16_less] by (simp add: unat_of_nat)
  then have "(of_nat i :: u16) < num_nodes ?g" using i by (simp add: word_less_nat_alt)
  from graph_wfD(3) [OF wf this] w
  have len: "length (gn_link_costs (nodes ?g ! i)) = length (topology ?g ! i)" by simp
  have n: "unat (of_nat (length (topology ?g ! i)) :: u16) = length (topology ?g ! i)"
    using deg by (simp add: unat_of_nat)
  then have zero: "(of_nat (length (topology ?g ! i)) :: u16) = 0 \<longleftrightarrow> topology ?g ! i = []"
    by (metis length_0_conv unat_eq_0)
  show ?thesis
    using len n zero
    by (auto simp: init_node_context_def topology_of_def Let_def default_node_config_def)
qed

text \<open>
  C15: When the request that creates the topology has been sent to all fragments without an error,
  every fragment can read from its connection exactly its own part: whoever has the bytes in a
  buffer accepts it, and the node context it sets up from it has the address, the neighbours, the
  link costs and the timers that the topology and the test case give to this node.
\<close>

theorem topology_reaches_nodes:
  assumes "foreach_fragment_send_ctrl env MSG_TOPOLOGY (topology_fill (o_testcase s)) s = Some (Return NONE s1)"
    and "graph_wf (graph_of s)" and "degrees_ok (o_testcase s)" and "all_created s"
    and "distinct (map fd_ctrl (fragments s))" and "i < length (fragments s)"
  shows "\<exists>w. txd (o_net s1) (fd_ctrl (fragments s ! i)) = txd (o_net s) (fd_ctrl (fragments s ! i)) @ w
    \<and> (\<forall>b. slice b 0 (length w) = w \<longrightarrow>
         fragment_check_header (of_nat i) True True b MSG_TOPOLOGY = Some NONE
         \<and> (\<exists>r. get_topology b = Some r \<and> (\<forall>p u. node_config (init_node_context p u r) =
              \<lparr>node_addr = gn_mixaddr (nodes (graph_of s) ! i),
               cfg_num_neighbors = of_nat (length (topology (graph_of s) ! i)),
               root_hello_interval_ms = tc_root_hello_interval_ms (o_testcase s),
               reelection_interval_ms = tc_reelection_interval_ms (o_testcase s),
               do_random_routing = gn_do_random_routing (nodes (graph_of s) ! i),
               mixing_factor = gn_mixing_factor (nodes (graph_of s) ! i),
               link_costs = gn_link_costs (nodes (graph_of s) ! i)\<rparr>)))"
proof -
  note fits = all_created_fits [OF assms(4)]
  obtain w where w: "txd (o_net s1) (fd_ctrl (fragments s ! i)) = txd (o_net s) (fd_ctrl (fragments s ! i)) @ w"
    "request_sent MSG_TOPOLOGY (topology_fill (o_testcase s)) (of_nat i) w"
    using broadcast_NONE [OF assms(1) topology_fills_well [OF assms(3)] assms(5) fits assms(6)] by blast
  have i: "i < unat (num_nodes (graph_of s))" using assms(4,6) by (simp add: all_created_def)
  have id: "unat (of_nat i :: u16) = i" using assms(6) fits by (subst unat_of_nat) simp
  have "i < length (topology (graph_of s))" using i graph_wf_len(2) [OF assms(2)] by simp
  then have "length (topology (graph_of s) ! i) \<le> 65535"
    using assms(3) by (auto simp: degrees_ok_def graph_of_def list_all_length)
  from topology_of_config [OF _ _ this [unfolded graph_of_def]] assms(2) i
  have "\<forall>p u. node_config (init_node_context p u (topology_of (o_testcase s) i)) =
      \<lparr>node_addr = gn_mixaddr (nodes (graph_of s) ! i),
       cfg_num_neighbors = of_nat (length (topology (graph_of s) ! i)),
       root_hello_interval_ms = tc_root_hello_interval_ms (o_testcase s),
       reelection_interval_ms = tc_reelection_interval_ms (o_testcase s),
       do_random_routing = gn_do_random_routing (nodes (graph_of s) ! i),
       mixing_factor = gn_mixing_factor (nodes (graph_of s) ! i),
       link_costs = gn_link_costs (nodes (graph_of s) ! i)\<rparr>"
    by (simp add: graph_of_def)
  then show ?thesis
    using w topology_request_received [OF w(2) assms(3)] unfolding id by blast
qed

text \<open>Two nodes on a line, on the connections 9 and 10.\<close>

definition ex_line :: orchestrator where
  "ex_line = ex_resolving\<lparr>fragments := [new_metadata\<lparr>fd_ctrl := 9\<rparr>, new_metadata\<lparr>fd_ctrl := 10\<rparr>],
     o_state := OS_RUN_TESTCASE\<rparr>"

lemma ex_line_graph:
  "graph_wf (graph_of ex_line) \<and> topology (graph_of ex_line) = [[1], [0]] \<and> num_nodes (graph_of ex_line) = 2
    \<and> map gn_link_costs (nodes (graph_of ex_line)) = [[1], [1]]
    \<and> map fd_ctrl (fragments ex_line) = [9, 10]"
proof -
  have "graph_of ex_line = graph_of ex_resolving" by (simp add: ex_line_def graph_of_def)
  then have "graph_wf (graph_of ex_line)" using ex_resolving_wf by simp
  moreover have "topology (graph_of ex_line) = [[1], [0]] \<and> num_nodes (graph_of ex_line) = 2
    \<and> map gn_link_costs (nodes (graph_of ex_line)) = [[1], [1]] \<and> map fd_ctrl (fragments ex_line) = [9, 10]"
    by code_simp
  ultimately show ?thesis by blast
qed

lemma ex_line_topology_sent:
  "case foreach_fragment_send_ctrl ex_orc_env MSG_TOPOLOGY (topology_fill (o_testcase ex_line)) ex_line of
      Some (Return ec s) \<Rightarrow> ec = NONE | _ \<Rightarrow> False"
  by code_simp

theorem topology_reaches_nodes_witness:
  "\<exists>s1 w. foreach_fragment_send_ctrl ex_orc_env MSG_TOPOLOGY (topology_fill (o_testcase ex_line)) ex_line
      = Some (Return NONE s1)
    \<and> txd (o_net s1) 10 = txd (o_net ex_line) 10 @ w
    \<and> (\<forall>b. slice b 0 (length w) = w \<longrightarrow> (\<exists>r. get_topology b = Some r
         \<and> (\<forall>p u. link_costs (node_config (init_node_context p u r)) = [1])))"
proof -
  obtain s1 where s1: "foreach_fragment_send_ctrl ex_orc_env MSG_TOPOLOGY (topology_fill (o_testcase ex_line))
      ex_line = Some (Return NONE s1)"
    using ex_line_topology_sent by (auto split: option.splits progress.splits)
  note g = ex_line_graph
  have fr: "fragments ex_line = [new_metadata\<lparr>fd_ctrl := 9\<rparr>, new_metadata\<lparr>fd_ctrl := 10\<rparr>]"
    by (simp add: ex_line_def)
  have nodes: "gn_link_costs (nodes (graph_of ex_line) ! 1) = [1]" using g by auto
  have "degrees_ok (o_testcase ex_line)" using g by (simp add: degrees_ok_def graph_of_def)
  moreover have "all_created ex_line" using g fr by (simp add: all_created_def)
  ultimately show ?thesis
    using topology_reaches_nodes [OF s1, of 1] g fr nodes s1 by (auto, metis mixnet_node_config.select_convs(7))
qed

section \<open>Changing a link\<close>

lemma index_of_less_iff: "index_of x xs < length xs \<longleftrightarrow> x \<in> set xs"
  by (induction xs) auto

lemma port_to_eq:
  "port_to topo a b = (if b \<in> set (topo ! unat a) then Some (index_of b (topo ! unat a)) else None)"
  by (simp add: port_to_def index_of_less_iff)

text \<open>
  A test case that changes the link between two nodes that are not neighbours is told so, and
  nothing else happens: no request is sent.
\<close>

theorem link_change_rejects_strangers:
  assumes "o_state s = OS_RUN_TESTCASE" and "graph_wf (graph_of s)"
    and "a < num_nodes (graph_of s)" "b < num_nodes (graph_of s)"
    and "b \<notin> set (topology (graph_of s) ! unat a)"
  shows "change_link_state env a b v s = Some (Return BAD_TESTCASE s)"
  using assms graph_wf_len(3) [OF assms(2)]
  by (simp add: change_link_state_def Let_def port_to_eq)

theorem link_change_rejects_strangers_witness:
  "change_link_state ex_orc_env 1 1 False ex_line = Some (Return BAD_TESTCASE ex_line)"
  using ex_line_graph
  by (intro link_change_rejects_strangers) (auto simp: ex_line_def)


text \<open>Both ends have answered.\<close>

definition ex_answered :: orchestrator where
  "ex_answered = ex_line\<lparr>o_net := \<lparr>rxq = (\<lambda>fd.
     if fd = 9 then [12, 0, 7, 128, 0, 0, 0, 0, 0xef, 0xbe, 0xad, 0xde]
     else if fd = 10 then [12, 0, 7, 128, 1, 0, 0, 0, 0xef, 0xbe, 0xad, 0xde] else []), txd = (\<lambda>_. [])\<rparr>\<rparr>"

lemma ex_link_changed:
  "case change_link_state ex_orc_env 0 1 False ex_answered of
      Some (Return ec s) \<Rightarrow> ec = NONE | _ \<Rightarrow> False"
  by code_simp


end
